(* ===== verification/Gateway_Prelude.thy ===== *)
theory Gateway_Prelude
  imports Main "HOL-Library.Sublist"
begin

section \<open>Shared vocabulary: Rust strings, decimal numbers, results\<close>

text \<open>
  What the component theories share.  A Rust \<open>str\<close> is its UTF-8 byte sequence, an HOL
  \<^typ>\<open>string\<close> whose characters are bytes; \<open>len\<close> is \<^const>\<open>length\<close>, and the operations that
  work on \<open>char\<close>s (\<open>chars\<close>, \<open>trim\<close>, \<open>is_char_boundary\<close>) find the character boundaries from
  the bytes, as the standard library does.  On byte sequences that are valid UTF-8 (the only
  ones Rust builds) they are the library's operations.  \<open>usize\<close> and \<open>u64\<close> are natural
  numbers; parsing one checks the 64-bit range.  A \<open>Result\<close> is a sum, the error on the left.
\<close>

named_theorems gw_simps \<open>unfolding rules of the small helper definitions\<close>

subsection \<open>Results\<close>

definition and_then :: "'e + 'a \<Rightarrow> ('a \<Rightarrow> 'e + 'b) \<Rightarrow> 'e + 'b" where
  "and_then r f = (case r of Inl e \<Rightarrow> Inl e | Inr a \<Rightarrow> f a)"

lemma and_then_simps [simp]:
  "and_then (Inl e) f = Inl e"
  "and_then (Inr a) f = f a"
  by (simp_all add: and_then_def)

lemma and_then_Inr_iff:
  "and_then r f = Inr b \<longleftrightarrow> (\<exists>a. r = Inr a \<and> f a = Inr b)"
  by (cases r) auto

definition ok_or :: "'e \<Rightarrow> 'a option \<Rightarrow> 'e + 'a" where
  "ok_or e x = (case x of None \<Rightarrow> Inl e | Some a \<Rightarrow> Inr a)"

lemma ok_or_simps [simp]:
  "ok_or e None = Inl e"
  "ok_or e (Some a) = Inr a"
  by (simp_all add: ok_or_def)

lemma ok_or_Inr_iff: "ok_or e x = Inr a \<longleftrightarrow> x = Some a"
  by (cases x) auto

text \<open>\<open>Option::or_else\<close>.\<close>

fun or_else :: "'a option \<Rightarrow> 'a option \<Rightarrow> 'a option" where
  "or_else (Some x) y = Some x"
| "or_else None y = y"

lemma or_else_Some_iff: "or_else a b = Some x \<longleftrightarrow> a = Some x \<or> (a = None \<and> b = Some x)"
  by (cases a) auto

lemma or_else_None_iff: "or_else a b = None \<longleftrightarrow> a = None \<and> b = None"
  by (cases a) auto

text \<open>What a result satisfies, on both sides, and how that composes: the rule by which the
  parsers below are analysed one call at a time.\<close>

definition outcome :: "('e \<Rightarrow> bool) \<Rightarrow> ('a \<Rightarrow> bool) \<Rightarrow> 'e + 'a \<Rightarrow> bool" where
  "outcome E P r \<longleftrightarrow> (case r of Inl e \<Rightarrow> E e | Inr a \<Rightarrow> P a)"

lemma outcome_simps [simp]:
  "outcome E P (Inl e) = E e"
  "outcome E P (Inr a) = P a"
  by (simp_all add: outcome_def)

lemma outcome_and_then:
  assumes "outcome E P r" and "\<And>a. P a \<Longrightarrow> outcome E Q (f a)"
  shows "outcome E Q (and_then r f)"
  using assms by (cases r) auto

lemma outcome_InrD: "outcome E P r \<Longrightarrow> r = Inr a \<Longrightarrow> P a"
  by simp

lemma outcome_InlD: "outcome E P r \<Longrightarrow> r = Inl e \<Longrightarrow> E e"
  by simp

subsection \<open>JSON values\<close>

text \<open>\<open>serde_json::Value\<close>, with integral numbers only; an object keeps its entries in order.\<close>

datatype json =
    JNull
  | JBool bool
  | JNum int
  | JStr string
  | JArr "json list"
  | JObj "(string \<times> json) list"

subsection \<open>Bytes and characters\<close>

text \<open>A UTF-8 continuation byte is \<open>10xxxxxx\<close>; every other byte starts a character.\<close>

definition is_cont :: "char \<Rightarrow> bool" where
  "is_cont c \<longleftrightarrow> digit7 c \<and> \<not> digit6 c"

definition is_char_boundary :: "string \<Rightarrow> nat \<Rightarrow> bool" where
  "is_char_boundary s i \<longleftrightarrow>
     (if i = 0 \<or> i = length s then True else i < length s \<and> \<not> is_cont (s ! i))"

lemma is_char_boundary_append:
  assumes "rest = [] \<or> \<not> is_cont (hd rest)"
  shows "is_char_boundary (v @ rest) (length v)"
  using assms by (cases rest) (auto simp: is_char_boundary_def nth_append)

function chars :: "string \<Rightarrow> string list" where
  "chars [] = []"
| "chars (c # cs) = (c # takeWhile is_cont cs) # chars (dropWhile is_cont cs)"
  by pat_completeness auto
termination
  by (relation "measure length") (auto simp: le_imp_less_Suc length_dropWhile_le)

lemma concat_chars [simp]: "concat (chars s) = s"
  by (induction s rule: chars.induct) auto

lemma chars_eq_Nil_iff [simp]: "chars s = [] \<longleftrightarrow> s = []"
  by (cases s) auto

lemma chars_nonempty: "ch \<in> set (chars s) \<Longrightarrow> ch \<noteq> []"
  by (induction s rule: chars.induct) auto

lemma length_chars_le: "length (chars s) \<le> length s"
proof (induction s rule: chars.induct)
  case (2 c cs)
  have "length (dropWhile is_cont cs) \<le> length cs"
    by (rule length_dropWhile_le)
  with "2" show ?case by simp
qed simp

lemma takeWhile_append_stop:
  assumes "t = [] \<or> \<not> P (hd t)"
  shows "takeWhile P (s @ t) = takeWhile P s \<and> dropWhile P (s @ t) = dropWhile P s @ t"
  using assms by (induction s; cases t) auto

text \<open>The characters of a text split at a character boundary.\<close>

lemma chars_append:
  assumes "t = [] \<or> \<not> is_cont (hd t)"
  shows "chars (s @ t) = chars s @ chars t"
  using assms
proof (induction s rule: chars.induct)
  case (2 c cs)
  then show ?case
    using takeWhile_append_stop [of t is_cont cs] by simp
qed simp

lemma chars_no_cont: "list_all (\<lambda>c. \<not> is_cont c) s \<Longrightarrow> chars s = map (\<lambda>c. [c]) s"
proof (induction s)
  case (Cons c s)
  then have "dropWhile is_cont s = s" "takeWhile is_cont s = []" by (cases s; simp)+
  with Cons show ?case by simp
qed simp

text \<open>A list of characters is well formed when each is one start byte and its
  continuation bytes; \<^const>\<open>chars\<close> gives such lists and takes them back.\<close>

definition wf_char :: "string \<Rightarrow> bool" where
  "wf_char ch \<longleftrightarrow> ch \<noteq> [] \<and> list_all is_cont (tl ch)"

lemma wf_chars: "list_all wf_char (chars s)"
  by (induction s rule: chars.induct)
    (auto simp: wf_char_def list_all_iff dest: set_takeWhileD)

lemma hd_dropWhile_cont: "dropWhile is_cont cs = [] \<or> \<not> is_cont (hd (dropWhile is_cont cs))"
  by (metis hd_dropWhile)

lemma starts_tl_chars: "list_all (\<lambda>ch. \<not> is_cont (hd ch)) (tl (chars s))"
proof (induction s rule: chars.induct)
  case (2 c cs)
  let ?r = "dropWhile is_cont cs"
  show ?case
  proof (cases ?r)
    case Nil
    then have "chars ?r = []" by (simp only: chars.simps)
    then show ?thesis by (simp del: dropWhile_eq_Nil_conv)
  next
    case (Cons x xs)
    with hd_dropWhile_cont [of cs] have "\<not> is_cont x" by simp
    with "2" Cons show ?thesis by simp
  qed
qed simp

subsection \<open>ASCII and white space\<close>

definition byte_val :: "char \<Rightarrow> nat" where
  "byte_val c = of_char c"

definition ascii_lower :: "char \<Rightarrow> char" where
  "ascii_lower c = (if 65 \<le> byte_val c \<and> byte_val c \<le> 90 then char_of (byte_val c + 32) else c)"

definition to_ascii_lowercase :: "string \<Rightarrow> string" where
  "to_ascii_lowercase = map ascii_lower"

definition is_ascii_whitespace :: "char \<Rightarrow> bool" where
  "is_ascii_whitespace c \<longleftrightarrow>
     c = CHR '' '' \<or> c = CHR 0x09 \<or> c = CHR 0x0A \<or> c = CHR 0x0C \<or> c = CHR 0x0D"

text \<open>\<open>char::is_whitespace\<close>: the code points with the Unicode property White\_Space,
  each as its UTF-8 bytes.\<close>

definition unicode_whitespace :: "string list" where
  "unicode_whitespace =
     [[CHR 0x09], [CHR 0x0A], [CHR 0x0B], [CHR 0x0C], [CHR 0x0D], [CHR 0x20],
      [CHR 0xC2, CHR 0x85], [CHR 0xC2, CHR 0xA0], [CHR 0xE1, CHR 0x9A, CHR 0x80],
      [CHR 0xE2, CHR 0x80, CHR 0x80], [CHR 0xE2, CHR 0x80, CHR 0x81],
      [CHR 0xE2, CHR 0x80, CHR 0x82], [CHR 0xE2, CHR 0x80, CHR 0x83],
      [CHR 0xE2, CHR 0x80, CHR 0x84], [CHR 0xE2, CHR 0x80, CHR 0x85],
      [CHR 0xE2, CHR 0x80, CHR 0x86], [CHR 0xE2, CHR 0x80, CHR 0x87],
      [CHR 0xE2, CHR 0x80, CHR 0x88], [CHR 0xE2, CHR 0x80, CHR 0x89],
      [CHR 0xE2, CHR 0x80, CHR 0x8A], [CHR 0xE2, CHR 0x80, CHR 0xA8],
      [CHR 0xE2, CHR 0x80, CHR 0xA9], [CHR 0xE2, CHR 0x80, CHR 0xAF],
      [CHR 0xE2, CHR 0x81, CHR 0x9F], [CHR 0xE3, CHR 0x80, CHR 0x80]]"

definition is_whitespace :: "string \<Rightarrow> bool" where
  "is_whitespace ch \<longleftrightarrow> ch \<in> set unicode_whitespace"

definition trim_start :: "string \<Rightarrow> string" where
  "trim_start s = concat (dropWhile is_whitespace (chars s))"

definition trim_end :: "string \<Rightarrow> string" where
  "trim_end s = concat (rev (dropWhile is_whitespace (rev (chars s))))"

definition trim :: "string \<Rightarrow> string" where
  "trim s = trim_end (trim_start s)"

lemma trim_Nil [simp]: "trim [] = []"
  by (simp add: trim_def trim_start_def trim_end_def)

text \<open>A text of one-byte characters with none to trim at its ends.\<close>

lemma trim_ascii:
  assumes "list_all (\<lambda>c. \<not> is_cont c) s" and "s \<noteq> []"
    and "\<not> is_whitespace [hd s]" and "\<not> is_whitespace [last s]"
  shows "trim s = s"
proof -
  have c: "chars s = map (\<lambda>c. [c]) s"
    using assms(1) by (rule chars_no_cont)
  have "dropWhile is_whitespace (map (\<lambda>c. [c]) s) = map (\<lambda>c. [c]) s"
    using assms(2,3) by (cases s) simp_all
  moreover have "dropWhile is_whitespace (rev (map (\<lambda>c. [c]) s)) = rev (map (\<lambda>c. [c]) s)"
    using assms(2,4) by (cases s rule: rev_cases) simp_all
  moreover have "concat (map (\<lambda>c. [c]) s) = s"
    by (induction s) simp_all
  ultimately show ?thesis
    using c by (simp add: trim_def trim_start_def trim_end_def)
qed

subsection \<open>Searching\<close>

text \<open>\<open>starts_with\<close>, \<open>contains\<close>, \<open>strip_prefix\<close> and \<open>find\<close> of a one-byte character.\<close>

abbreviation starts_with :: "string \<Rightarrow> string \<Rightarrow> bool" where
  "starts_with p s \<equiv> prefix p s"

abbreviation contains :: "string \<Rightarrow> string \<Rightarrow> bool" where
  "contains p s \<equiv> sublist p s"

definition strip_prefix :: "string \<Rightarrow> string \<Rightarrow> string option" where
  "strip_prefix p s = (if prefix p s then Some (drop (length p) s) else None)"

fun find_char :: "char \<Rightarrow> string \<Rightarrow> nat option" where
  "find_char c [] = None"
| "find_char c (x # xs) = (if x = c then Some 0 else map_option Suc (find_char c xs))"

text \<open>\<open>str::split\<close> at a character.\<close>

fun split_on :: "char \<Rightarrow> string \<Rightarrow> string list" where
  "split_on c [] = [[]]"
| "split_on c (x # xs) =
     (if x = c then [] # split_on c xs
      else case split_on c xs of y # ys \<Rightarrow> (x # y) # ys | [] \<Rightarrow> [[x]])"

text \<open>\<open>rsplit_once\<close> at a one-byte character, and \<open>split_whitespace\<close>.\<close>

definition rsplit_once :: "char \<Rightarrow> string \<Rightarrow> (string \<times> string) option" where
  "rsplit_once c s =
     (if c \<in> set s
      then Some (rev (tl (dropWhile (\<lambda>x. x \<noteq> c) (rev s))), rev (takeWhile (\<lambda>x. x \<noteq> c) (rev s)))
      else None)"

fun split_whitespace_chars :: "string list \<Rightarrow> string list" where
  "split_whitespace_chars [] = []"
| "split_whitespace_chars [ch] = (if is_whitespace ch then [] else [ch])"
| "split_whitespace_chars (ch # d # chs) =
     (if is_whitespace ch then split_whitespace_chars (d # chs)
      else if is_whitespace d then ch # split_whitespace_chars (d # chs)
      else case split_whitespace_chars (d # chs) of w # ws \<Rightarrow> (ch @ w) # ws | [] \<Rightarrow> [ch])"

definition split_whitespace :: "string \<Rightarrow> string list" where
  "split_whitespace s = split_whitespace_chars (chars s)"

text \<open>\<open>str::lines\<close>: a line ends at a line feed, which goes together with a carriage return before it;
  an empty rest after the last one is no line.\<close>

definition strip_cr :: "string \<Rightarrow> string" where
  "strip_cr l = (if l \<noteq> [] \<and> last l = CHR 0x0D then butlast l else l)"

definition lines :: "string \<Rightarrow> string list" where
  "lines s =
     (let parts = split_on (CHR 0x0A) s
      in map strip_cr (butlast parts) @ (if last parts = [] then [] else [last parts]))"

text \<open>\<open>trim_start_matches\<close> of a one-byte character, \<open>split_once\<close> at one, \<open>eq_ignore_ascii_case\<close>.\<close>

definition trim_start_matches :: "char \<Rightarrow> string \<Rightarrow> string" where
  "trim_start_matches c s = dropWhile (\<lambda>x. x = c) s"

definition split_once :: "char \<Rightarrow> string \<Rightarrow> (string \<times> string) option" where
  "split_once c s =
     map_option (\<lambda>i. (take i s, drop (Suc i) s)) (find_char c s)"

fun join :: "string \<Rightarrow> string list \<Rightarrow> string" where
  "join sep [] = ''''"
| "join sep [x] = x"
| "join sep (x # y # ys) = x @ sep @ join sep (y # ys)"

definition eq_ignore_ascii_case :: "string \<Rightarrow> string \<Rightarrow> bool" where
  "eq_ignore_ascii_case a b \<longleftrightarrow> to_ascii_lowercase a = to_ascii_lowercase b"

lemma split_on_nonempty [simp]: "split_on c s \<noteq> []"
  by (induction s) (auto split: list.splits)

lemma split_on_no_sep: "c \<notin> set s \<Longrightarrow> split_on c s = [s]"
  by (induction s) auto

lemma split_on_append: "c \<notin> set s \<Longrightarrow> split_on c (s @ c # t) = s # split_on c t"
  by (induction s) auto

lemma find_char_None_iff: "find_char c s = None \<longleftrightarrow> c \<notin> set s"
  by (induction s) auto

lemma find_char_append:
  "c \<notin> set xs \<Longrightarrow> find_char c (xs @ c # ys) = Some (length xs)"
  by (induction xs) auto

lemma find_char_SomeD:
  "find_char c s = Some i \<Longrightarrow> i < length s \<and> s ! i = c \<and> c \<notin> set (take i s)"
  by (induction s arbitrary: i) (auto split: if_splits)

subsection \<open>Decimal numbers\<close>

definition is_digit :: "char \<Rightarrow> bool" where
  "is_digit c \<longleftrightarrow> 48 \<le> byte_val c \<and> byte_val c \<le> 57"

definition digit_char :: "nat \<Rightarrow> char" where
  "digit_char d = char_of (48 + d)"

definition digit_val :: "char \<Rightarrow> nat" where
  "digit_val c = byte_val c - 48"

text \<open>\<open>to_string\<close> of an unsigned number.\<close>

fun dec :: "nat \<Rightarrow> string" where
  "dec n = (if n < 10 then [digit_char n] else dec (n div 10) @ [digit_char (n mod 10)])"

declare dec.simps [simp del]

definition digits_val :: "string \<Rightarrow> nat" where
  "digits_val = foldl (\<lambda>a c. a * 10 + digit_val c) 0"

text \<open>\<open>str::parse\<close> of an unsigned integer of \<open>w\<close> bits: an optional \<open>+\<close>, then at least one
  digit and nothing else, and no overflow.\<close>

definition parse_uint :: "nat \<Rightarrow> string \<Rightarrow> nat option" where
  "parse_uint w s =
     (let ds = (case s of c # cs \<Rightarrow> if c = CHR ''+'' then cs else s | [] \<Rightarrow> s)
      in if ds = [] \<or> \<not> list_all is_digit ds then None
         else if digits_val ds < 2 ^ w then Some (digits_val ds) else None)"

abbreviation parse_u64 :: "string \<Rightarrow> nat option" where
  "parse_u64 \<equiv> parse_uint 64"

lemma byte_val_digit_char: "d < 10 \<Longrightarrow> byte_val (digit_char d) = 48 + d"
  by (simp add: byte_val_def digit_char_def)

lemma is_digit_digit_char: "d < 10 \<Longrightarrow> is_digit (digit_char d)"
  by (simp add: is_digit_def byte_val_digit_char)

lemma digit_val_digit_char: "d < 10 \<Longrightarrow> digit_val (digit_char d) = d"
  by (simp add: digit_val_def byte_val_digit_char)

lemma dec_nonempty [simp]: "dec n \<noteq> []"
  by (subst dec.simps) simp

lemma dec_digits: "list_all is_digit (dec n)"
proof (induction n rule: dec.induct)
  case (1 n)
  then show ?case
    by (subst dec.simps) (auto simp: is_digit_digit_char)
qed

lemma digits_val_snoc: "digits_val (ds @ [c]) = digits_val ds * 10 + digit_val c"
  by (simp add: digits_val_def)

lemma digits_val_dec: "digits_val (dec n) = n"
proof (induction n rule: dec.induct)
  case (1 n)
  show ?case
  proof (cases "n < 10")
    case True
    then show ?thesis
      by (subst dec.simps) (simp add: digits_val_def digit_val_digit_char)
  next
    case False
    with "1" show ?thesis
      by (subst dec.simps) (simp add: digits_val_snoc digit_val_digit_char)
  qed
qed

lemma not_digit_chars:
  "\<not> is_digit (CHR ''+'')" "\<not> is_digit (CHR ''-'')" "\<not> is_digit (CHR '':'')"
  "\<not> is_digit (CHR ''|'')"
  by (simp_all add: is_digit_def byte_val_def)

lemma notin_dec: "\<not> is_digit c \<Longrightarrow> c \<notin> set (dec n)"
  using dec_digits [of n] by (auto simp: list_all_iff)

lemma parse_uint_dec: "n < 2 ^ w \<Longrightarrow> parse_uint w (dec n) = Some n"
proof -
  assume n: "n < 2 ^ w"
  obtain c cs where d: "dec n = c # cs"
    by (cases "dec n") auto
  have "c \<noteq> CHR ''+''"
    using notin_dec [OF not_digit_chars(1), of n] d by auto
  with d n show ?thesis
    using dec_digits [of n] digits_val_dec [of n]
    by (simp add: parse_uint_def)
qed

lemma parse_uint_bound: "parse_uint w s = Some n \<Longrightarrow> n < 2 ^ w"
  by (auto simp: parse_uint_def Let_def split: if_splits)

lemma dec_inject [simp]: "dec m = dec n \<longleftrightarrow> m = n"
  by (metis digits_val_dec)

end
