(* ===== verification/Session_Key.thy ===== *)
theory Session_Key
  imports Gateway_Prelude
begin

section \<open>Session identity and its storage key\<close>

text \<open>
  The routing identity of a conversation (\<open>src/models/session.rs\<close>): the record, its two
  constructors, the length-prefixed storage key, and the parser that reads it back.  The
  parser's closures work on a remaining text and a byte offset; here both are passed along.
  The theory ends with the interface \<open>session_codec\<close> through which the storage components
  use the pair.
\<close>

subsection \<open>Data\<close>

datatype SessionKeyParseError =
    EmptyInput
  | MalformedComponent nat string
  | ExpectedSeparator nat
  | TrailingData nat
  | MissingRequiredField string

record SessionKey =
  platform :: string
  guild_id :: "string option"
  channel_id :: string
  thread_id :: "string option"
  user_id :: string
  bot_id :: "string option"

text \<open>\<open>SessionKey::new\<close> drops the sender of a guild conversation.\<close>

definition session_key_new ::
  "string \<Rightarrow> string option \<Rightarrow> string \<Rightarrow> string option \<Rightarrow> string \<Rightarrow> SessionKey" where
  "session_key_new p g c t u =
     \<lparr>platform = p, guild_id = g, channel_id = c, thread_id = t,
      user_id = (if g \<noteq> None then '''' else u), bot_id = None\<rparr>"

definition with_bot_id :: "SessionKey \<Rightarrow> string \<Rightarrow> SessionKey" where
  "with_bot_id k b = k\<lparr>bot_id := Some b\<rparr>"

text \<open>The stored state of a session and the context an actor works on; instants are
  integers (nanoseconds), read by the caller.\<close>

record SessionState =
  active_model :: "string option"
  system_prompt :: "string option"
  enabled_toolsets :: "string list option"
  yolo :: bool
  suspended :: bool
  metadata :: "string \<rightharpoonup> json"

definition session_state_default :: SessionState where
  "session_state_default =
     \<lparr>active_model = None, system_prompt = None, enabled_toolsets = None, yolo = False,
      suspended = False, metadata = Map.empty\<rparr>"

record SessionContext =
  ctx_key :: SessionKey
  ctx_state :: SessionState
  ctx_created_at :: int
  ctx_updated_at :: int

definition session_context_new :: "int \<Rightarrow> SessionKey \<Rightarrow> SessionContext" where
  "session_context_new now k =
     \<lparr>ctx_key = k, ctx_state = session_state_default, ctx_created_at = now, ctx_updated_at = now\<rparr>"

subsection \<open>Encoding\<close>

definition component :: "string option \<Rightarrow> string" where
  "component v = (case v of Some x \<Rightarrow> dec (length x) @ '':'' @ x | None \<Rightarrow> ''-'')"

definition storage_key :: "SessionKey \<Rightarrow> string" where
  "storage_key k =
     (let user_comp = (if guild_id k \<noteq> None then Some '''' else Some (user_id k));
          components =
            [component (Some (platform k)), component (guild_id k),
             component (Some (channel_id k)), component (thread_id k), component user_comp]
      in join ''|''
           (components @ (case bot_id k of Some b \<Rightarrow> [component (Some b)] | None \<Rightarrow> [])))"

subsection \<open>Decoding\<close>

text \<open>One component: \<open>-\<close>, or a decimal byte length, a colon and that many bytes.  The
  result carries the rest of the text and the new offset.\<close>

definition parse_component ::
  "string \<Rightarrow> nat \<Rightarrow> SessionKeyParseError + (string option \<times> string \<times> nat)" where
  "parse_component rem off =
     (if starts_with ''-'' rem then Inr (None, drop 1 rem, off + 1)
      else case find_char (CHR '':'') rem of
        None \<Rightarrow> Inl (MalformedComponent off ''missing ':' length separator'')
      | Some colon_idx \<Rightarrow>
          (let len_str = take colon_idx rem in
           case parse_uint 64 len_str of
             None \<Rightarrow> Inl (MalformedComponent off
                       (''invalid length prefix '' @ [CHR 0x27] @ len_str @ [CHR 0x27]))
           | Some len \<Rightarrow>
               (let after_colon = drop (colon_idx + 1) rem; prefix_len = colon_idx + 1 in
                if length after_colon < len then
                  Inl (MalformedComponent off
                    (''expected '' @ dec len @ '' bytes, found '' @ dec (length after_colon)))
                else if \<not> is_char_boundary after_colon len then
                  Inl (MalformedComponent off
                    ''byte length does not align with UTF-8 character boundary'')
                else Inr (Some (take len after_colon), drop len after_colon,
                          off + prefix_len + len))))"

definition expect_separator :: "string \<Rightarrow> nat \<Rightarrow> SessionKeyParseError + (string \<times> nat)" where
  "expect_separator rem off =
     (if starts_with ''|'' rem then Inr (drop 1 rem, off + 1) else Inl (ExpectedSeparator off))"

text \<open>The tail after the user component: end of text, or one more component and the end.\<close>

definition parse_bot_id :: "string \<Rightarrow> nat \<Rightarrow> SessionKeyParseError + string option" where
  "parse_bot_id rem off =
     (if rem = '''' then Inr None
      else if starts_with ''|'' rem then
        and_then (parse_component (drop 1 rem) (off + 1)) (\<lambda>(bot, rem, off).
          if rem \<noteq> '''' then Inl (TrailingData off) else Inr bot)
      else Inl (ExpectedSeparator off))"

definition from_storage_key :: "string \<Rightarrow> SessionKeyParseError + SessionKey" where
  "from_storage_key raw =
     (if raw = '''' then Inl EmptyInput else
      and_then (parse_component raw 0) (\<lambda>(v0, rem, off).
      and_then (ok_or (MissingRequiredField ''platform'') v0) (\<lambda>plat.
      and_then (expect_separator rem off) (\<lambda>(rem, off).
      and_then (parse_component rem off) (\<lambda>(guild, rem, off).
      and_then (expect_separator rem off) (\<lambda>(rem, off).
      and_then (parse_component rem off) (\<lambda>(v2, rem, off).
      and_then (ok_or (MissingRequiredField ''channel_id'') v2) (\<lambda>chan.
      and_then (expect_separator rem off) (\<lambda>(rem, off).
      and_then (parse_component rem off) (\<lambda>(thread, rem, off).
      and_then (expect_separator rem off) (\<lambda>(rem, off).
      and_then (parse_component rem off) (\<lambda>(v4, rem, off).
      and_then (case v4 of
                  Some uid \<Rightarrow> Inr (if guild \<noteq> None then '''' else uid)
                | None \<Rightarrow> if guild \<noteq> None then Inr ''''
                          else Inl (MissingRequiredField ''user_id'')) (\<lambda>user.
      and_then (parse_bot_id rem off) (\<lambda>bot.
        Inr \<lparr>platform = plat, guild_id = guild, channel_id = chan, thread_id = thread,
             user_id = user, bot_id = bot\<rparr>))))))))))))))"

subsection \<open>Well-formed keys\<close>

text \<open>
  \<open>guild_lane\<close> is the invariant of \<^const>\<open>session_key_new\<close>: a guild conversation has no
  sender in its identity.  \<open>sized\<close> says that every text has a length a \<open>usize\<close> can hold,
  which is true of every Rust string.
\<close>

definition guild_lane :: "SessionKey \<Rightarrow> bool" where
  "guild_lane k \<longleftrightarrow> (guild_id k \<noteq> None \<longrightarrow> user_id k = '''')"

definition opt_sized :: "string option \<Rightarrow> bool" where
  "opt_sized v \<longleftrightarrow> (case v of None \<Rightarrow> True | Some x \<Rightarrow> length x < 2 ^ 64)"

definition sized :: "SessionKey \<Rightarrow> bool" where
  "sized k \<longleftrightarrow> length (platform k) < 2 ^ 64 \<and> opt_sized (guild_id k) \<and>
     length (channel_id k) < 2 ^ 64 \<and> opt_sized (thread_id k) \<and>
     length (user_id k) < 2 ^ 64 \<and> opt_sized (bot_id k)"

text \<open>The identity a storage key stands for: the sender of a guild conversation is dropped.\<close>

definition canonical :: "SessionKey \<Rightarrow> SessionKey" where
  "canonical k = (if guild_id k \<noteq> None then k\<lparr>user_id := ''''\<rparr> else k)"

lemma guild_lane_canonical: "guild_lane (canonical k)"
  by (simp add: guild_lane_def canonical_def)

lemma canonical_id: "guild_lane k \<Longrightarrow> canonical k = k"
  by (cases k) (auto simp: guild_lane_def canonical_def)

lemma sized_canonical: "sized k \<Longrightarrow> sized (canonical k)"
  by (auto simp: sized_def canonical_def)

lemma storage_key_canonical: "storage_key (canonical k) = storage_key k"
  by (simp add: storage_key_def canonical_def)

subsection \<open>Reading a component back\<close>

lemma parse_component_None:
  "parse_component (component None @ rest) off = Inr (None, rest, off + 1)"
  by (simp add: parse_component_def component_def)

lemma parse_component_Some:
  assumes len: "length v < 2 ^ 64" and rest: "rest = [] \<or> \<not> is_cont (hd rest)"
  shows "parse_component (component (Some v) @ rest) off =
           Inr (Some v, rest, off + length (component (Some v)))"
proof -
  let ?d = "dec (length v)"
  have colon: "find_char (CHR '':'') (?d @ CHR '':'' # v @ rest) = Some (length ?d)"
    by (rule find_char_append) (rule notin_dec, rule not_digit_chars)
  have "\<not> prefix ''-'' (?d @ CHR '':'' # v @ rest)"
    using notin_dec [OF not_digit_chars(2), of "length v"]
    by (cases ?d) auto
  with colon len is_char_boundary_append [OF rest, of v] show ?thesis
    by (simp add: parse_component_def component_def parse_uint_dec Let_def)
qed

lemma parse_component_component:
  assumes "opt_sized v" and "rest = [] \<or> \<not> is_cont (hd rest)"
  shows "parse_component (component v @ rest) off = Inr (v, rest, off + length (component v))"
proof (cases v)
  case None
  then show ?thesis using parse_component_None [of rest off] by (simp add: component_def)
next
  case (Some x)
  with assms parse_component_Some [of x rest off] show ?thesis by (simp add: opt_sized_def)
qed

lemma not_cont_bar [simp]: "\<not> is_cont (CHR ''|'')"
  by (simp add: is_cont_def)

lemma component_not_Nil [simp]: "component v \<noteq> []"
  by (cases v) (auto simp: component_def)

lemma parse_bot_id_component:
  assumes "opt_sized b"
  shows "parse_bot_id (case b of Some x \<Rightarrow> ''|'' @ component (Some x) | None \<Rightarrow> []) off = Inr b"
  using assms parse_component_component [of b "[]"]
  by (cases b) (auto simp: parse_bot_id_def)

lemma storage_key_unfold:
  "storage_key k =
     component (Some (platform k)) @ ''|'' @ component (guild_id k) @ ''|'' @
     component (Some (channel_id k)) @ ''|'' @ component (thread_id k) @ ''|'' @
     component (Some (user_id (canonical k))) @
     (case bot_id k of Some x \<Rightarrow> ''|'' @ component (Some x) | None \<Rightarrow> [])"
  by (auto simp: storage_key_def canonical_def Let_def split: option.splits)

lemma from_storage_key_storage_key:
  assumes "sized k"
  shows "from_storage_key (storage_key k) = Inr (canonical k)"
proof -
  let ?bot = "case bot_id k of Some x \<Rightarrow> ''|'' @ component (Some x) | None \<Rightarrow> []"
  have bot: "?bot = [] \<or> \<not> is_cont (hd ?bot)"
    by (auto split: option.splits)
  have ss: "opt_sized (Some (platform k))" "opt_sized (guild_id k)"
    "opt_sized (Some (channel_id k))" "opt_sized (thread_id k)"
    "opt_sized (Some (user_id (canonical k)))" "opt_sized (bot_id k)"
    using assms by (auto simp: sized_def opt_sized_def canonical_def split: option.splits)
  note step = parse_component_component
  show ?thesis
    unfolding storage_key_unfold from_storage_key_def
    using bot
    by (simp add: step ss parse_bot_id_component expect_separator_def)
      (auto simp: canonical_def)
qed

subsection \<open>The interface of the storage key\<close>

text \<open>
  What the storage components rely on: a key is written, and what is written is read back,
  for the identities that satisfy \<open>valid\<close>.
\<close>

locale session_codec =
  fixes encode :: "'k \<Rightarrow> string"
    and decode :: "string \<Rightarrow> 'e + 'k"
    and valid :: "'k \<Rightarrow> bool"
  assumes decode_encode: "valid k \<Longrightarrow> decode (encode k) = Inr k"
begin

lemma encode_inject: "valid k \<Longrightarrow> valid k' \<Longrightarrow> encode k = encode k' \<longleftrightarrow> k = k'"
  by (metis decode_encode sum.inject(2))

lemma encode_decodes: "valid k \<Longrightarrow> \<exists>k'. decode (encode k) = Inr k' \<and> encode k' = encode k"
  by (auto simp: decode_encode)

end

interpretation sk: session_codec storage_key from_storage_key "\<lambda>k. sized k \<and> guild_lane k"
  by unfold_locales (simp add: from_storage_key_storage_key canonical_id)

subsection \<open>What the parser accepts and where it fails\<close>

text \<open>The byte offset an error carries, when it carries one.\<close>

fun error_offset :: "SessionKeyParseError \<Rightarrow> nat" where
  "error_offset EmptyInput = 0"
| "error_offset (MalformedComponent i m) = i"
| "error_offset (ExpectedSeparator i) = i"
| "error_offset (TrailingData i) = i"
| "error_offset (MissingRequiredField f) = 0"

text \<open>Each parsing step keeps offset plus remaining length at the length \<open>n\<close> of the input,
  and fails, if it fails, at an offset inside it.\<close>

lemma parse_component_outcome:
  assumes "off + length rem = n"
  shows "outcome (\<lambda>e. error_offset e \<le> n)
           (\<lambda>(v, rem', off'). off' + length rem' = n \<and> opt_sized v) (parse_component rem off)"
  using assms
  by (auto simp: parse_component_def opt_sized_def Let_def prefix_def
      dest!: find_char_SomeD parse_uint_bound split: option.splits)

lemma step_component:
  assumes "off + length rem = n"
    and "\<And>v rem' off'. off' + length rem' = n \<Longrightarrow> opt_sized v \<Longrightarrow>
           outcome (\<lambda>e. error_offset e \<le> n) Q (f (v, rem', off'))"
  shows "outcome (\<lambda>e. error_offset e \<le> n) Q (and_then (parse_component rem off) f)"
proof (rule outcome_and_then [OF parse_component_outcome [OF assms(1)]])
  fix a :: "string option \<times> string \<times> nat"
  assume "case a of (v, rem', off') \<Rightarrow> off' + length rem' = n \<and> opt_sized v"
  then show "outcome (\<lambda>e. error_offset e \<le> n) Q (f a)"
    by (cases a) (simp add: assms(2))
qed

lemma step_separator:
  assumes "off + length rem = n"
    and "\<And>rem' off'. off' + length rem' = n \<Longrightarrow>
           outcome (\<lambda>e. error_offset e \<le> n) Q (f (rem', off'))"
  shows "outcome (\<lambda>e. error_offset e \<le> n) Q (and_then (expect_separator rem off) f)"
  using assms by (auto simp: expect_separator_def prefix_def)

lemma step_required:
  assumes "\<And>a. v = Some a \<Longrightarrow> outcome (\<lambda>e. error_offset e \<le> n) Q (f a)"
  shows "outcome (\<lambda>e. error_offset e \<le> n) Q (and_then (ok_or (MissingRequiredField d) v) f)"
  using assms by (cases v) auto

lemma step_bot_id:
  assumes "off + length rem = n"
    and "\<And>b. opt_sized b \<Longrightarrow> outcome (\<lambda>e. error_offset e \<le> n) Q (f b)"
  shows "outcome (\<lambda>e. error_offset e \<le> n) Q (and_then (parse_bot_id rem off) f)"
proof -
  have "outcome (\<lambda>e. error_offset e \<le> n) opt_sized (parse_bot_id rem off)"
  proof (cases "starts_with ''|'' rem")
    case True
    then have "off + 1 + length (drop 1 rem) = n"
      using assms(1) by (auto simp: prefix_def)
    then have "outcome (\<lambda>e. error_offset e \<le> n) opt_sized
      (and_then (parse_component (drop 1 rem) (off + 1))
         (\<lambda>(bot, rem, off). if rem \<noteq> '''' then Inl (TrailingData off) else Inr bot))"
      by (rule step_component) auto
    with True show ?thesis by (auto simp: parse_bot_id_def)
  qed (use assms(1) in \<open>auto simp: parse_bot_id_def opt_sized_def\<close>)
  with assms(2) show ?thesis by (blast intro: outcome_and_then)
qed

lemma step_user:
  assumes "opt_sized v4"
    and "\<And>u. length u < 2 ^ 64 \<Longrightarrow> (g \<noteq> None \<longrightarrow> u = '''') \<Longrightarrow>
           outcome (\<lambda>e. error_offset e \<le> n) Q (f u)"
  shows "outcome (\<lambda>e. error_offset e \<le> n) Q (and_then
     (case v4 of Some uid \<Rightarrow> Inr (if g \<noteq> None then '''' else uid)
      | None \<Rightarrow> if g \<noteq> None then Inr '''' else Inl (MissingRequiredField ''user_id'')) f)"
  using assms by (auto simp: opt_sized_def split: option.splits)

lemma from_storage_key_outcome:
  "outcome (\<lambda>e. error_offset e \<le> length raw) (\<lambda>k. sized k \<and> guild_lane k) (from_storage_key raw)"
proof (cases "raw = ''''")
  case True
  then show ?thesis by (simp add: from_storage_key_def)
next
  case False
  show ?thesis
    unfolding from_storage_key_def if_not_P [OF False]
    by (rule step_component, simp, simp only: prod.case)
      ((rule step_required
        | rule step_separator step_component, assumption, simp only: prod.case
        | rule step_user step_bot_id, assumption)+,
       simp add: sized_def guild_lane_def, simp add: opt_sized_def)
qed

subsection \<open>Properties\<close>

lemmas from_storage_key_eval = from_storage_key_def parse_component_def expect_separator_def
  parse_bot_id_def is_char_boundary_def parse_uint_def digits_val_def digit_val_def byte_val_def
  is_digit_def is_cont_def session_key_new_def



text \<open>Two identities get the same storage key exactly when they are the same lane: equal
  in every dimension, except that the sender does not count inside a guild.\<close>

theorem storage_key_collision_free:
  assumes "sized k" and "sized k'"
  shows "storage_key k = storage_key k' \<longleftrightarrow> canonical k = canonical k'"
  using sk.encode_inject [of "canonical k" "canonical k'"] assms
  by (simp add: sized_canonical guild_lane_canonical storage_key_canonical)

theorem storage_key_collision_free_witness:
  "storage_key (session_key_new ''discord'' None ''1'' None ''alice'') \<noteq>
   storage_key (session_key_new ''discord'' None ''1'' None ''bob'')"
  using storage_key_collision_free
    [of "session_key_new ''discord'' None ''1'' None ''alice''"
        "session_key_new ''discord'' None ''1'' None ''bob''"]
  by (simp add: sized_def opt_sized_def session_key_new_def canonical_def)

text \<open>Whatever text the parser accepts, the identity it returns satisfies the invariant of
  the constructor (no sender inside a guild) and is stable: writing it and parsing again gives
  the same identity.\<close>

theorem from_storage_key_canonical:
  assumes "from_storage_key raw = Inr k"
  shows "guild_lane k \<and> from_storage_key (storage_key k) = Inr k"
  using outcome_InrD [OF from_storage_key_outcome assms] by (simp add: sk.decode_encode)

theorem from_storage_key_canonical_witness:
  "guild_lane \<lparr>platform = ''x'', guild_id = Some ''g'', channel_id = ''c'', thread_id = None,
               user_id = '''', bot_id = None\<rparr>"
proof -
  have "from_storage_key ''1:x|1:g|1:c|-|3:bob'' =
    Inr \<lparr>platform = ''x'', guild_id = Some ''g'', channel_id = ''c'', thread_id = None,
         user_id = '''', bot_id = None\<rparr>"
    by (simp add: from_storage_key_eval)
  from from_storage_key_canonical [OF this] show ?thesis by simp
qed

text \<open>An error of the parser that names a byte offset names one inside the text it was
  given (or its end).\<close>

theorem from_storage_key_error_offset:
  assumes "from_storage_key raw = Inl e"
  shows "error_offset e \<le> length raw"
  using outcome_InlD [OF from_storage_key_outcome assms] .

theorem from_storage_key_error_offset_witness:
  "error_offset (TrailingData 20) \<le> length ''1:x|-|1:c|-|1:d|2:42|t''"
proof -
  have "from_storage_key ''1:x|-|1:c|-|1:d|2:42|t'' = Inl (TrailingData 20)"
    by (simp add: from_storage_key_eval)
  from from_storage_key_error_offset [OF this] show ?thesis .
qed

text \<open>The parser is not the strict inverse of the encoder: it also accepts keys the encoder
  never writes (a sign or leading zeros in a length, an absent bot written as a component).\<close>

theorem from_storage_key_accepts_noncanonical:
  "from_storage_key ''+07:discord|-|1:c|-|1:d|-'' = from_storage_key ''7:discord|-|1:c|-|1:d'' \<and>
   from_storage_key ''7:discord|-|1:c|-|1:d'' =
     Inr (session_key_new ''discord'' None ''c'' None ''d'')"
  by (simp add: from_storage_key_eval)

end
