(* ===== verification/Profile_Routing.thy ===== *)
theory Profile_Routing
  imports Session_Key "HOL-Library.Multiset"
begin

section \<open>Profile routing\<close>

text \<open>
  \<open>src/multiplexer/profile_routing.rs\<close>: routing rules that map a guild, channel or thread to
  a profile, the router that keeps them by specificity, the matching with its fallbacks, the
  defaults a matched route gives a session, and the reading of the two configuration texts.
  Discord identifiers (\<open>u64\<close>) are natural numbers.  The JSON decoder is the external
  \<open>serde_json\<close>: the functions that call it take the decoder as an argument.
\<close>

subsection \<open>Routes\<close>

record ProfileRoute =
  rt_name :: "string option"
  rt_guild :: "nat option"
  rt_channel :: "nat option"
  rt_thread :: "nat option"
  rt_enabled :: bool
  rt_model :: "string option"
  rt_system_prompt :: "string option"
  rt_enabled_toolsets :: "string list option"
  rt_profile :: "string option"
  rt_allowed_users :: "nat list option"

definition profile_route_new :: ProfileRoute where
  "profile_route_new =
     \<lparr>rt_name = None, rt_guild = None, rt_channel = None, rt_thread = None, rt_enabled = True,
      rt_model = None, rt_system_prompt = None, rt_enabled_toolsets = None, rt_profile = None,
      rt_allowed_users = None\<rparr>"

text \<open>The flexible identifier of the configuration: a number, a text or null.\<close>

datatype NumericOrString = NosU64 nat | NosI64 int | NosString string

definition deserialize_optional_u64 :: "NumericOrString option \<Rightarrow> unit + nat option" where
  "deserialize_optional_u64 opt =
     (case opt of
        Some (NosU64 v) \<Rightarrow> Inr (Some v)
      | Some (NosI64 v) \<Rightarrow> if v \<ge> 0 then Inr (Some (nat v)) else Inr None
      | Some (NosString s) \<Rightarrow>
          (let trimmed = trim s in
           if trimmed = '''' then Inr None
           else case parse_u64 trimmed of Some v \<Rightarrow> Inr (Some v) | None \<Rightarrow> Inl ())
      | None \<Rightarrow> Inr None)"

definition specificity :: "ProfileRoute \<Rightarrow> nat" where
  "specificity r =
     (if rt_guild r \<noteq> None then 2 else 0) + (if rt_channel r \<noteq> None then 4 else 0) +
     (if rt_thread r \<noteq> None then 8 else 0)"

definition matches :: "ProfileRoute \<Rightarrow> nat option \<Rightarrow> nat \<Rightarrow> nat option \<Rightarrow> bool" where
  "matches r guild channel thread \<longleftrightarrow>
     (if \<not> rt_enabled r then False
      else if rt_thread r \<noteq> None \<and> thread \<noteq> rt_thread r then False
      else if rt_channel r \<noteq> None \<and> Some channel \<noteq> rt_channel r then False
      else if rt_guild r \<noteq> None \<and> guild \<noteq> rt_guild r then False
      else True)"

text \<open>\<open>ProfileRoute::apply_to_session\<close>: defaults for the fields that are unset, and the
  profile name.\<close>

definition route_apply_to_session :: "ProfileRoute \<Rightarrow> SessionContext \<Rightarrow> SessionContext" where
  "route_apply_to_session r s =
     (let st = ctx_state s;
          st = (if active_model st = None \<and> rt_model r \<noteq> None
                then st\<lparr>active_model := rt_model r\<rparr> else st);
          st = (if system_prompt st = None \<and> rt_system_prompt r \<noteq> None
                then st\<lparr>system_prompt := rt_system_prompt r\<rparr> else st);
          st = (case rt_enabled_toolsets r of
                  None \<Rightarrow> st
                | Some ts \<Rightarrow>
                    (let st = (if enabled_toolsets st = None
                               then st\<lparr>enabled_toolsets := Some ts\<rparr> else st)
                     in if metadata st ''enabled_toolsets'' = None
                        then st\<lparr>metadata := (metadata st)(''enabled_toolsets'' \<mapsto> JArr (map JStr ts))\<rparr>
                        else st));
          st = (case rt_profile r of
                  None \<Rightarrow> st
                | Some p \<Rightarrow> st\<lparr>metadata := (metadata st)(''profile'' \<mapsto> JStr p)\<rparr>)
      in s\<lparr>ctx_state := st\<rparr>)"

subsection \<open>The router\<close>

type_synonym ProfileRouter = "ProfileRoute list"

text \<open>\<open>sort_by_key\<close> with a reversed key is a stable sort, as \<^const>\<open>sort_key\<close> is.\<close>

definition profile_router_new :: "ProfileRoute list \<Rightarrow> ProfileRouter" where
  "profile_router_new routes = sort_key (\<lambda>r. - int (specificity r)) routes"

definition guild_fits :: "ProfileRoute \<Rightarrow> nat option \<Rightarrow> bool" where
  "guild_fits r guild \<longleftrightarrow> rt_guild r = None \<or> rt_guild r = guild"

definition thread_route :: "nat option \<Rightarrow> nat \<Rightarrow> nat \<Rightarrow> nat option \<Rightarrow> ProfileRoute \<Rightarrow> bool" where
  "thread_route guild channel tid parent r \<longleftrightarrow>
     rt_thread r = Some tid \<and>
     (rt_channel r = None \<or> rt_channel r = Some channel \<or>
      (case parent of Some pid \<Rightarrow> rt_channel r = Some pid | None \<Rightarrow> False)) \<and>
     guild_fits r guild \<and> rt_enabled r"

definition channel_route :: "nat option \<Rightarrow> nat \<Rightarrow> ProfileRoute \<Rightarrow> bool" where
  "channel_route guild channel r \<longleftrightarrow>
     rt_channel r = Some channel \<and> rt_thread r = None \<and> guild_fits r guild \<and> rt_enabled r"

definition guild_route :: "nat \<Rightarrow> ProfileRoute \<Rightarrow> bool" where
  "guild_route gid r \<longleftrightarrow>
     rt_guild r = Some gid \<and> rt_channel r = None \<and> rt_thread r = None \<and> rt_enabled r"

text \<open>The next kind of route is tried only when the one before it misses.\<close>

definition match_route_with_parent ::
  "ProfileRouter \<Rightarrow> nat option \<Rightarrow> nat \<Rightarrow> nat option \<Rightarrow> nat option \<Rightarrow> ProfileRoute option" where
  "match_route_with_parent rs guild channel thread parent =
     or_else (case thread of
                Some tid \<Rightarrow>
                  or_else (List.find (thread_route guild channel tid parent) rs)
                          (List.find (channel_route guild tid) rs)
              | None \<Rightarrow> None)
     (or_else (List.find (\<lambda>r. matches r guild channel thread) rs)
     (or_else (if thread \<noteq> None then List.find (channel_route guild channel) rs else None)
     (or_else (case parent of
                 Some pid \<Rightarrow> if pid \<noteq> channel then List.find (channel_route guild pid) rs else None
               | None \<Rightarrow> None)
              (case guild of
                 Some gid \<Rightarrow> List.find (guild_route gid) rs
               | None \<Rightarrow> None))))"

definition match_route ::
  "ProfileRouter \<Rightarrow> nat option \<Rightarrow> nat \<Rightarrow> nat option \<Rightarrow> ProfileRoute option" where
  "match_route rs guild channel thread = match_route_with_parent rs guild channel thread None"

definition is_user_allowed_for_bot_or_route ::
  "ProfileRouter \<Rightarrow> string option \<Rightarrow> nat \<Rightarrow> nat \<Rightarrow> nat list \<Rightarrow> bool" where
  "is_user_allowed_for_bot_or_route rs bot_opt channel user global_allowed =
     (case Option.bind (match_route rs None channel None) rt_allowed_users of
        Some allowed \<Rightarrow> user \<in> set allowed
      | None \<Rightarrow>
          (case Option.bind
                  (case bot_opt of
                     Some b \<Rightarrow> List.find (\<lambda>r. (rt_name r = Some b \<or> rt_profile r = Some b) \<and>
                                             rt_allowed_users r \<noteq> None) rs
                   | None \<Rightarrow> None) rt_allowed_users of
             Some allowed \<Rightarrow> user \<in> set allowed
           | None \<Rightarrow> if global_allowed = [] then True else user \<in> set global_allowed))"

text \<open>Matching a session key; the identifiers that do not parse are dropped, except the
  channel, without which nothing matches.\<close>

definition match_session :: "ProfileRouter \<Rightarrow> SessionKey \<Rightarrow> ProfileRoute option" where
  "match_session rs k =
     (case parse_u64 (channel_id k) of
        None \<Rightarrow> None
      | Some channel \<Rightarrow>
          match_route rs (Option.bind (guild_id k) parse_u64) channel
            (Option.bind (thread_id k) parse_u64))"

text \<open>\<open>InboundEvent::parent_chat_id\<close>: inside a thread the channel is the parent.\<close>

definition parent_chat_id :: "SessionKey \<Rightarrow> string option" where
  "parent_chat_id k = (if thread_id k \<noteq> None then Some (channel_id k) else None)"

definition match_event :: "ProfileRouter \<Rightarrow> SessionKey \<Rightarrow> ProfileRoute option" where
  "match_event rs k =
     (case parse_u64 (channel_id k) of
        None \<Rightarrow> None
      | Some channel \<Rightarrow>
          match_route_with_parent rs (Option.bind (guild_id k) parse_u64) channel
            (Option.bind (thread_id k) parse_u64) (Option.bind (parent_chat_id k) parse_u64))"

definition router_apply_to_session :: "ProfileRouter \<Rightarrow> SessionContext \<Rightarrow> SessionContext" where
  "router_apply_to_session rs s =
     (case match_session rs (ctx_key s) of
        Some r \<Rightarrow> route_apply_to_session r s
      | None \<Rightarrow> s)"

subsection \<open>Configuration texts\<close>

definition parse_profile_routes ::
  "(string \<Rightarrow> ProfileRoute list option) \<Rightarrow> string \<Rightarrow> ProfileRoute list" where
  "parse_profile_routes from_str json_str =
     (let trimmed = trim json_str in
      if trimmed = '''' then []
      else case from_str trimmed of Some routes \<Rightarrow> routes | None \<Rightarrow> [])"

definition profile_router_from_json ::
  "(string \<Rightarrow> ProfileRoute list option) \<Rightarrow> string \<Rightarrow> ProfileRouter" where
  "profile_router_from_json from_str json_str =
     profile_router_new (parse_profile_routes from_str json_str)"

record ChannelPromptConfig =
  cp_system_prompt :: "string option"
  cp_skills :: "string list option"

datatype PromptOrConfig = Prompt string | Config ChannelPromptConfig

definition prompt_route :: "nat \<Rightarrow> PromptOrConfig \<Rightarrow> ProfileRoute" where
  "prompt_route ch val =
     (let (sp, skills) =
        (case val of Prompt p \<Rightarrow> (Some p, None)
         | Config c \<Rightarrow> (cp_system_prompt c, cp_skills c))
      in \<lparr>rt_name = Some (''channel-prompt-'' @ dec ch), rt_guild = None, rt_channel = Some ch,
          rt_thread = None, rt_enabled = True, rt_model = None, rt_system_prompt = sp,
          rt_enabled_toolsets = skills, rt_profile = None, rt_allowed_users = None\<rparr>)"

text \<open>The loop over the entries of the hash map, in the map's iteration order.\<close>

definition prompt_entry :: "string \<times> PromptOrConfig \<Rightarrow> ProfileRoute option" where
  "prompt_entry e = map_option (\<lambda>ch. prompt_route ch (snd e)) (parse_u64 (trim (fst e)))"

definition parse_channel_prompts ::
  "(string \<Rightarrow> (string \<times> PromptOrConfig) list option) \<Rightarrow> string \<Rightarrow> ProfileRoute list" where
  "parse_channel_prompts from_str json_str =
     (let trimmed = trim json_str in
      if trimmed = '''' then []
      else case from_str trimmed of
             Some entries \<Rightarrow>
               sort_key (\<lambda>r. case rt_channel r of Some c \<Rightarrow> c | None \<Rightarrow> 0)
                 (List.map_filter prompt_entry entries)
           | None \<Rightarrow> [])"

subsection \<open>Specificity and the sorted router\<close>

lemma specificity_bound: "specificity r \<le> 14"
  by (simp add: specificity_def)

lemma set_profile_router_new [simp]: "set (profile_router_new rs) = set rs"
  by (simp add: profile_router_new_def)

definition by_specificity :: "ProfileRouter \<Rightarrow> bool" where
  "by_specificity rs \<longleftrightarrow> sorted_wrt (\<lambda>a b. specificity b \<le> specificity a) rs"

lemma by_specificity_new: "by_specificity (profile_router_new rs)"
  using sorted_sort_key [of "\<lambda>r. - int (specificity r)" rs]
  by (simp add: by_specificity_def profile_router_new_def sorted_map)

lemma find_SomeD: "List.find P xs = Some x \<Longrightarrow> P x \<and> x \<in> set xs"
  by (induction xs) (auto split: if_splits)

lemma find_best:
  assumes "by_specificity rs" and "List.find P rs = Some r"
  shows "\<forall>r' \<in> set rs. P r' \<longrightarrow> specificity r' \<le> specificity r"
  using assms
  by (induction rs) (auto simp: by_specificity_def split: if_splits)

subsection \<open>What a match means\<close>

text \<open>A route can apply to a context when it is enabled, its guild and thread, if any, are
  those of the context, and its channel, if any, is the channel, the thread itself or the
  parent.\<close>

definition applicable ::
  "ProfileRoute \<Rightarrow> nat option \<Rightarrow> nat \<Rightarrow> nat option \<Rightarrow> nat option \<Rightarrow> bool" where
  "applicable r guild channel thread parent \<longleftrightarrow>
     rt_enabled r \<and> guild_fits r guild \<and>
     (rt_thread r = None \<or> rt_thread r = thread) \<and>
     (rt_channel r = None \<or> rt_channel r \<in> {Some channel, thread, parent})"

lemmas route_kinds = thread_route_def channel_route_def guild_route_def matches_def guild_fits_def

lemma applicable_kinds:
  "thread_route guild channel tid parent r \<Longrightarrow> applicable r guild channel (Some tid) parent"
  "channel_route guild tid r \<Longrightarrow> applicable r guild channel (Some tid) parent"
  "matches r guild channel thread \<Longrightarrow> applicable r guild channel thread parent"
  "channel_route guild channel r \<Longrightarrow> applicable r guild channel thread parent"
  "channel_route guild pid r \<Longrightarrow> applicable r guild channel thread (Some pid)"
  "guild_route gid r \<Longrightarrow> applicable r (Some gid) channel thread parent"
  by (auto simp: applicable_def route_kinds split: option.splits if_splits)

lemma match_route_with_parent_applicable:
  assumes "match_route_with_parent rs guild channel thread parent = Some r"
  shows "r \<in> set rs \<and> applicable r guild channel thread parent"
  using assms unfolding match_route_with_parent_def or_else_Some_iff
  by (elim disjE conjE; simp split: option.splits if_splits)
    (auto simp: or_else_Some_iff dest!: find_SomeD intro: applicable_kinds)

lemma match_route_with_parent_complete:
  assumes "match_route_with_parent rs guild channel thread parent = None" and "r \<in> set rs"
  shows "\<not> matches r guild channel thread"
  using assms
  by (auto simp: match_route_with_parent_def or_else_None_iff find_None_iff)

text \<open>A thread route in the guild of the context is the same as a matching route that names
  the thread.\<close>

lemma thread_route_iff:
  "thread_route guild channel tid None r \<longleftrightarrow> matches r guild channel (Some tid) \<and> rt_thread r = Some tid"
  by (auto simp: route_kinds)

lemma specificity_thread: "rt_thread r \<noteq> None \<Longrightarrow> rt_thread r' = None \<Longrightarrow> specificity r' < specificity r"
  by (simp add: specificity_def)

subsection \<open>Properties\<close>

lemma match_route_cases:
  assumes "match_route rs guild channel thread = Some r"
    and "\<And>tid r'. thread = Some tid \<Longrightarrow> r' \<in> set rs \<Longrightarrow> \<not> channel_route guild tid r'"
  shows "(\<exists>tid. thread = Some tid \<and> List.find (thread_route guild channel tid None) rs = Some r) \<or>
    ((\<forall>tid. thread = Some tid \<longrightarrow> List.find (thread_route guild channel tid None) rs = None) \<and>
     List.find (\<lambda>r. matches r guild channel thread) rs = Some r)"
proof -
  have "channel_route guild channel r' \<Longrightarrow> matches r' guild channel thread"
    "guild = Some gid \<Longrightarrow> guild_route gid r' \<Longrightarrow> matches r' guild channel thread" for r' gid
    by (auto simp: route_kinds)
  then show ?thesis
    using assms unfolding match_route_def match_route_with_parent_def or_else_Some_iff
    by (elim disjE conjE; simp split: option.splits if_splits)
      (auto simp: or_else_Some_iff or_else_None_iff find_None_iff dest!: find_SomeD)
qed



text \<open>A lookup succeeds exactly when some configured route is enabled, of the right guild
  and thread, and for the channel, its parent or (for a route that names no thread) the thread
  itself; and the route it returns is such a route.\<close>

theorem match_route_sound_complete:
  "(match_route_with_parent rs guild channel thread parent \<noteq> None \<longleftrightarrow>
      (\<exists>r \<in> set rs. applicable r guild channel thread parent \<and>
         (rt_channel r \<in> {None, Some channel, parent} \<or> rt_thread r = None))) \<and>
   (case match_route_with_parent rs guild channel thread parent of
      Some r \<Rightarrow> r \<in> set rs \<and> applicable r guild channel thread parent
    | None \<Rightarrow> True)"
proof -
  let ?m = "match_route_with_parent rs guild channel thread parent"
  let ?ok = "\<lambda>r. applicable r guild channel thread parent \<and>
         (rt_channel r \<in> {None, Some channel, parent} \<or> rt_thread r = None)"
  have "\<exists>r \<in> set rs. ?ok r" if "?m = Some r" for r
    using that unfolding match_route_with_parent_def or_else_Some_iff
    by (elim disjE conjE; simp split: option.splits if_splits)
      (auto simp: or_else_Some_iff applicable_def route_kinds split: option.splits if_splits
        dest!: find_SomeD)
  moreover have "\<not> ?ok r" if none: "?m = None" and r: "r \<in> set rs" for r
    using none r unfolding match_route_with_parent_def or_else_None_iff
    by (auto simp: or_else_None_iff find_None_iff applicable_def route_kinds
        split: option.splits if_splits)
  ultimately show ?thesis
    using match_route_with_parent_applicable [of rs guild channel thread parent]
    by (cases ?m) auto
qed

text \<open>The documented order \<^emph>\<open>thread, channel, parent channel, guild\<close> is not kept: a guild
  route already matches in the direct-channel step, so it wins over the route of the parent
  channel, although it is the less specific one.\<close>

theorem parent_route_loses_to_guild_route:
  "let parent_route = profile_route_new\<lparr>rt_channel := Some 200\<rparr>;
       guild_wide = profile_route_new\<lparr>rt_guild := Some 100\<rparr>
   in specificity guild_wide < specificity parent_route \<and>
      match_route_with_parent (profile_router_new [parent_route]) (Some 100) 300 (Some 300) (Some 200) =
        Some parent_route \<and>
      match_route_with_parent (profile_router_new [parent_route, guild_wide])
        (Some 100) 300 (Some 300) (Some 200) = Some guild_wide"
  by (simp add: match_route_with_parent_def profile_router_new_def specificity_def
      profile_route_new_def route_kinds)

text \<open>What applying a route does, field by field: the state after it is the old one with
  the unset fields filled in, and with the two metadata entries.\<close>

definition route_metadata :: "ProfileRoute \<Rightarrow> (string \<rightharpoonup> json) \<Rightarrow> (string \<rightharpoonup> json)" where
  "route_metadata r m = (\<lambda>k.
     if k = ''profile'' then or_else (map_option JStr (rt_profile r)) (m k)
     else if k = ''enabled_toolsets''
     then or_else (m k) (map_option (\<lambda>ts. JArr (map JStr ts)) (rt_enabled_toolsets r))
     else m k)"

lemma or_else_None [simp]: "or_else x None = x"
  by (cases x) simp_all

lemma or_else_idem [simp]: "or_else (or_else x y) y = or_else x y" "or_else y (or_else y x) = or_else y x"
  by (cases x; cases y; simp)+

lemma default_field:
  "(if x = None \<and> y \<noteq> None then f y else f x) = f (or_else x y)"
  by (cases x; cases y) simp_all

lemma route_metadata_steps:
  "rt_enabled_toolsets r = Some ts \<Longrightarrow> rt_profile r = None \<Longrightarrow> m ''enabled_toolsets'' = None \<Longrightarrow>
    route_metadata r m = m(''enabled_toolsets'' \<mapsto> JArr (map JStr ts))"
  "rt_enabled_toolsets r = Some ts \<Longrightarrow> rt_profile r = Some p \<Longrightarrow> m ''enabled_toolsets'' = None \<Longrightarrow>
    route_metadata r m = m(''enabled_toolsets'' \<mapsto> JArr (map JStr ts), ''profile'' \<mapsto> JStr p)"
  "rt_profile r = Some p \<Longrightarrow> m ''enabled_toolsets'' = Some v \<Longrightarrow> route_metadata r m = m(''profile'' \<mapsto> JStr p)"
  "rt_profile r = Some p \<Longrightarrow> rt_enabled_toolsets r = None \<Longrightarrow> route_metadata r m = m(''profile'' \<mapsto> JStr p)"
  "rt_profile r = None \<Longrightarrow> m ''enabled_toolsets'' = Some v \<Longrightarrow> route_metadata r m = m"
  "rt_profile r = None \<Longrightarrow> rt_enabled_toolsets r = None \<Longrightarrow> route_metadata r m = m"
  by (rule ext, simp add: route_metadata_def)+

lemma route_metadata_idem [simp]: "route_metadata r (route_metadata r m) = route_metadata r m"
  by (rule ext, simp add: route_metadata_def)

lemma route_apply_to_session_eq:
  "route_apply_to_session r s = s\<lparr>ctx_state := (ctx_state s)\<lparr>
     active_model := or_else (active_model (ctx_state s)) (rt_model r),
     system_prompt := or_else (system_prompt (ctx_state s)) (rt_system_prompt r),
     enabled_toolsets := or_else (enabled_toolsets (ctx_state s)) (rt_enabled_toolsets r),
     metadata := route_metadata r (metadata (ctx_state s))\<rparr>\<rparr>"
proof -
  obtain st where st: "st = ctx_state s" by simp
  define st1 where "st1 = st\<lparr>active_model := or_else (active_model st) (rt_model r),
     system_prompt := or_else (system_prompt st) (rt_system_prompt r)\<rparr>"
  have st1: "(let st = st; st = (if active_model st = None \<and> rt_model r \<noteq> None
                then st\<lparr>active_model := rt_model r\<rparr> else st)
     in (if system_prompt st = None \<and> rt_system_prompt r \<noteq> None
                then st\<lparr>system_prompt := rt_system_prompt r\<rparr> else st)) = st1"
    unfolding st1_def
    by (cases st; cases "active_model st"; cases "system_prompt st";
        cases "rt_model r"; cases "rt_system_prompt r"; simp)
  have "metadata st1 = metadata st" "enabled_toolsets st1 = enabled_toolsets st"
    by (simp_all add: st1_def)
  then show ?thesis
    unfolding route_apply_to_session_def st [symmetric]
    using st1 unfolding Let_def
    by (cases st1; cases "rt_enabled_toolsets r"; cases "rt_profile r";
        cases "metadata st ''enabled_toolsets''"; cases "enabled_toolsets st";
        simp add: route_metadata_steps st1_def [symmetric])
qed

text \<open>Applying a route gives exactly the unset fields their defaults: a model, prompt or
  toolset list that is set stays, the identity and the flags of the session stay, the metadata
  get the profile and (unless one is there) the toolset list, and applying the route again
  changes nothing.\<close>

theorem route_apply_to_session_defaults:
  "let s' = route_apply_to_session r s; st = ctx_state s; st' = ctx_state s' in
     active_model st' = or_else (active_model st) (rt_model r) \<and>
     system_prompt st' = or_else (system_prompt st) (rt_system_prompt r) \<and>
     enabled_toolsets st' = or_else (enabled_toolsets st) (rt_enabled_toolsets r) \<and>
     metadata st' = route_metadata r (metadata st) \<and>
     ctx_key s' = ctx_key s \<and> yolo st' = yolo st \<and> suspended st' = suspended st \<and>
     route_apply_to_session r s' = s'"
  by (simp add: route_apply_to_session_eq)

end
