(* ===== verification/Sql_Table.thy ===== *)
theory Sql_Table
  imports Gateway_Prelude
begin

section \<open>SQL tables with a key\<close>

text \<open>
  The statements the gateway sends to SQLite, on a table that is the list of its rows in rowid
  order.  \<open>sql_update\<close> is \<open>UPDATE ... SET f WHERE p\<close>, \<open>sql_upsert\<close> is \<open>INSERT ... ON
  CONFLICT(key) DO UPDATE SET f WHERE w\<close>, \<open>sql_insert_ignore\<close> its \<open>DO NOTHING\<close> form and
  \<open>sql_delete\<close> is \<open>DELETE ... WHERE p\<close>; each returns the new table with the number of rows
  affected.  The locale \<open>keyed_update\<close> is the contract between such a statement and the
  components: a row update that leaves the key alone.  Each component interprets it on its own
  update functions.
\<close>

definition sql_update :: "('r \<Rightarrow> bool) \<Rightarrow> ('r \<Rightarrow> 'r) \<Rightarrow> 'r list \<Rightarrow> 'r list \<times> nat" where
  "sql_update p f t = (map (\<lambda>r. if p r then f r else r) t, length (filter p t))"

definition sql_upsert ::
  "('r \<Rightarrow> 'k) \<Rightarrow> ('r \<Rightarrow> bool) \<Rightarrow> ('r \<Rightarrow> 'r) \<Rightarrow> 'r \<Rightarrow> 'r list \<Rightarrow> 'r list \<times> nat" where
  "sql_upsert key w f new t =
     (if list_ex (\<lambda>r. key r = key new) t
      then sql_update (\<lambda>r. key r = key new \<and> w r) f t
      else (t @ [new], 1))"

definition sql_insert_ignore :: "('r \<Rightarrow> 'k) \<Rightarrow> 'r \<Rightarrow> 'r list \<Rightarrow> 'r list" where
  "sql_insert_ignore key new t = (if list_ex (\<lambda>r. key r = key new) t then t else t @ [new])"

definition sql_delete :: "('r \<Rightarrow> bool) \<Rightarrow> 'r list \<Rightarrow> 'r list \<times> nat" where
  "sql_delete p t = (filter (\<lambda>r. \<not> p r) t, length (filter p t))"

definition sql_get :: "('r \<Rightarrow> 'k) \<Rightarrow> 'k \<Rightarrow> 'r list \<Rightarrow> 'r option" where
  "sql_get key k t = List.find (\<lambda>r. key r = k) t"

lemma sql_get_simps [simp]:
  "sql_get key k [] = None"
  "sql_get key k (r # t) = (if key r = k then Some r else sql_get key k t)"
  by (simp_all add: sql_get_def)

lemma sql_get_None_iff: "sql_get key k t = None \<longleftrightarrow> k \<notin> key ` set t"
  by (induction t) auto

lemma sql_get_SomeD: "sql_get key k t = Some r \<Longrightarrow> r \<in> set t \<and> key r = k"
  by (induction t) (auto split: if_splits)

lemma sql_get_mem: "distinct (map key t) \<Longrightarrow> r \<in> set t \<Longrightarrow> sql_get key (key r) t = Some r"
  by (induction t) (auto simp: image_iff)

lemma row_by_key:
  "distinct (map key t) \<Longrightarrow> r \<in> set t \<Longrightarrow> s \<in> set t \<Longrightarrow> key r = key s \<Longrightarrow> r = s"
  by (auto simp: distinct_map inj_on_def)

lemma sql_get_append: "sql_get key k (t @ u) = (case sql_get key k t of None \<Rightarrow> sql_get key k u | x \<Rightarrow> x)"
  by (induction t) auto

lemma list_ex_key_iff: "list_ex (\<lambda>r. key r = k) t \<longleftrightarrow> sql_get key k t \<noteq> None"
  by (induction t) auto

lemma sql_get_insert_ignore:
  "sql_get key k (sql_insert_ignore key new t) =
     (if k = key new \<and> sql_get key k t = None then Some new else sql_get key k t)"
  by (auto simp: sql_insert_ignore_def list_ex_key_iff sql_get_append split: option.splits)

lemma distinct_insert_ignore:
  "distinct (map key t) \<Longrightarrow> distinct (map key (sql_insert_ignore key new t))"
  by (auto simp: sql_insert_ignore_def list_ex_iff)

lemma set_insert_ignore: "set t \<subseteq> set (sql_insert_ignore key new t)"
  by (auto simp: sql_insert_ignore_def)

lemma set_sql_update: "set (fst (sql_update p f t)) = (\<lambda>r. if p r then f r else r) ` set t"
  by (simp add: sql_update_def)

lemma distinct_sql_delete: "distinct (map key t) \<Longrightarrow> distinct (map key (fst (sql_delete p t)))"
  by (simp add: sql_delete_def distinct_map_filter)

lemma sql_delete_count: "snd (sql_delete p t) + length (fst (sql_delete p t)) = length t"
  by (simp add: sql_delete_def sum_length_filter_compl)

lemma filter_key_length:
  assumes "distinct (map key t)"
  shows "length (filter (\<lambda>r. key r = k \<and> w r) t) =
    (case sql_get key k t of Some r \<Rightarrow> if w r then 1 else 0 | None \<Rightarrow> 0)"
  using assms
proof (induction t)
  case (Cons a t)
  moreover have "filter (\<lambda>r. key r = k \<and> w r) t = []" if "key a = k"
    using Cons.prems that by (auto simp: filter_empty_conv image_iff)
  ultimately show ?case by (auto split: option.splits)
qed simp

text \<open>Row invariants through the statements.\<close>

lemma list_all_update:
  "list_all P t \<Longrightarrow> (\<And>r. P r \<Longrightarrow> p r \<Longrightarrow> P (f r)) \<Longrightarrow> list_all P (fst (sql_update p f t))"
  by (auto simp: list_all_iff set_sql_update)

lemma list_all_upsert:
  "list_all P t \<Longrightarrow> P new \<Longrightarrow> (\<And>r. P r \<Longrightarrow> w r \<Longrightarrow> P (f r)) \<Longrightarrow> list_all P (fst (sql_upsert key w f new t))"
  by (auto simp: sql_upsert_def intro: list_all_update)

lemma list_all_insert_ignore:
  "list_all P t \<Longrightarrow> P new \<Longrightarrow> list_all P (sql_insert_ignore key new t)"
  by (simp add: sql_insert_ignore_def)

lemma list_all_delete: "list_all P t \<Longrightarrow> list_all P (fst (sql_delete p t))"
  by (auto simp: list_all_iff sql_delete_def)

lemma list_all_map_rows:
  "list_all P t \<Longrightarrow> (\<And>r. P r \<Longrightarrow> p r \<Longrightarrow> P (f r)) \<Longrightarrow> list_all P (map (\<lambda>r. if p r then f r else r) t)"
  by (auto simp: list_all_iff)

lemmas list_all_sql = list_all_update list_all_upsert list_all_insert_ignore list_all_delete

locale keyed_update =
  fixes key :: "'r \<Rightarrow> 'k" and f :: "'r \<Rightarrow> 'r"
  assumes key_update: "key (f r) = key r"
begin

lemma keys_update: "map key (fst (sql_update p f t)) = map key t"
  by (simp add: sql_update_def key_update)

lemma distinct_update: "distinct (map key t) \<Longrightarrow> distinct (map key (fst (sql_update p f t)))"
  by (simp add: keys_update)

lemma get_update:
  "sql_get key k (fst (sql_update p f t)) = map_option (\<lambda>r. if p r then f r else r) (sql_get key k t)"
  by (induction t) (auto simp: sql_update_def key_update)

lemma get_upsert:
  "sql_get key k (fst (sql_upsert key w f new t)) =
     (if k = key new
      then Some (case sql_get key k t of None \<Rightarrow> new | Some r \<Rightarrow> if w r then f r else r)
      else sql_get key k t)"
  using sql_get_SomeD [of key k t]
  by (cases "sql_get key k t")
    (auto simp: sql_upsert_def list_ex_key_iff get_update sql_get_append)

lemma distinct_upsert: "distinct (map key t) \<Longrightarrow> distinct (map key (fst (sql_upsert key w f new t)))"
  by (auto simp: sql_upsert_def keys_update list_ex_iff)

lemma keys_upsert: "key ` set (fst (sql_upsert key w f new t)) = insert (key new) (key ` set t)"
proof -
  have "key ` set (fst (sql_update p f t)) = key ` set t" for p
    using arg_cong [OF keys_update [of p t], of set] by simp
  moreover have "key new \<in> key ` set t" if "list_ex (\<lambda>r. key r = key new) t"
    using that list_ex_key_iff [of key "key new" t] by (simp add: sql_get_None_iff)
  ultimately show ?thesis
    by (simp add: sql_upsert_def insert_absorb)
qed

lemma affected_upsert:
  assumes "distinct (map key t)"
  shows "snd (sql_upsert key w f new t) =
    (case sql_get key (key new) t of None \<Rightarrow> 1 | Some r \<Rightarrow> if w r then 1 else 0)"
  using assms filter_key_length [of key t "key new" w]
  by (auto simp: sql_upsert_def sql_update_def list_ex_key_iff split: option.splits)

lemma affected_update:
  assumes "distinct (map key t)"
  shows "snd (sql_update (\<lambda>r. key r = k \<and> w r) f t) =
    (case sql_get key k t of None \<Rightarrow> 0 | Some r \<Rightarrow> if w r then 1 else 0)"
  using assms filter_key_length [of key t k w]
  by (auto simp: sql_update_def split: option.splits)

end

text \<open>A sweep walks a snapshot of the table and issues one update per row.  When every step
  rewrites exactly the row it was given, the sweep is one pass over the table.\<close>

locale row_sweep = keyed_update key g for key :: "'r \<Rightarrow> 'k" and g :: "'r \<Rightarrow> 'r" +
  fixes F :: "'r \<Rightarrow> 'r list \<times> 'o list \<Rightarrow> 'r list \<times> 'o list" and h :: "'r \<Rightarrow> 'o list"
  assumes step: "distinct (map key t) \<Longrightarrow> row \<in> set t \<Longrightarrow>
    F row (t, out) = (map (\<lambda>r. if key r = key row then g r else r) t, out @ h row)"
begin

lemma fold_sweep:
  assumes "distinct (map key t)" and "distinct (map key rows)" and "set rows \<subseteq> set t"
  shows "fold F rows (t, out) =
    (map (\<lambda>r. if key r \<in> key ` set rows then g r else r) t, out @ concat (map h rows))"
  using assms
proof (induction rows arbitrary: t out)
  case (Cons row rows)
  let ?t = "map (\<lambda>r. if key r = key row then g r else r) t"
  have "map key ?t = map key t"
    using keys_update [of "\<lambda>r. key r = key row" t] by (simp add: sql_update_def)
  with Cons.prems(1) have d: "distinct (map key ?t)" by (simp only:)
  have "set rows \<subseteq> set ?t"
  proof
    fix r assume r: "r \<in> set rows"
    with Cons.prems have "key r \<noteq> key row" "r \<in> set t" by (auto simp: image_iff)
    then show "r \<in> set ?t" by (auto intro: rev_image_eqI)
  qed
  then have "fold F rows (?t, out @ h row) =
    (map (\<lambda>r. if key r \<in> key ` set rows then g r else r) ?t, (out @ h row) @ concat (map h rows))"
    using Cons.IH d Cons.prems by simp
  moreover have "key row \<notin> key ` set rows" using Cons.prems by simp
  ultimately show ?case
    using step [of t row out] Cons.prems by (auto simp: key_update)
qed simp

text \<open>The snapshot is usually a sorted selection of the table itself.\<close>

lemma fold_sweep_select:
  assumes "distinct (map key t)"
  shows "fold F (sort_key k (filter p t)) (t, out) =
    (map (\<lambda>r. if p r then g r else r) t, out @ concat (map h (sort_key k (filter p t))))"
proof -
  have "inj_on key (set t)" "distinct t"
    using assms by (simp_all add: distinct_map)
  then have "distinct (map key (sort_key k (filter p t)))"
    by (auto simp: distinct_map inj_on_def)
  moreover have "key r \<in> key ` {x \<in> set t. p x} \<longleftrightarrow> p r" if "r \<in> set t" for r
    using \<open>inj_on key (set t)\<close> that by (auto dest: inj_onD)
  ultimately show ?thesis
    using fold_sweep [OF assms, of "sort_key k (filter p t)" out] by auto
qed

end

end
