(* ===== verification/Gateway_Events.thy ===== *)
theory Gateway_Events
  imports Session_Key
begin

section \<open>Events, actions and errors\<close>

text \<open>
  \<open>src/models/events.rs\<close> and \<open>src/error.rs\<close>: the inbound event, the outbound actions and the
  gateway's error type.  A UUID and a path are texts.  The prompt renderer takes the pieces that
  are not the program's own as arguments: the end of the regular expression's match at the start
  of a text (\<open>ts_prefix\<close>), \<open>chrono\<close>'s time format (\<open>fmt\<close>) and the environment variable.
\<close>

datatype OmonError =
    Database string
  | Multiplexer string
  | Discord string
  | Llm string
  | ToolExecution string
  | Approval string
  | Config string

fun error_to_string :: "OmonError \<Rightarrow> string" where
  "error_to_string (Database e) = ''database error: '' @ e"
| "error_to_string (Multiplexer e) = ''multiplexer error: '' @ e"
| "error_to_string (Discord e) = ''Discord error: '' @ e"
| "error_to_string (Llm e) = ''LLM error: '' @ e"
| "error_to_string (ToolExecution e) = ''tool execution error: '' @ e"
| "error_to_string (Approval e) = ''approval refused: '' @ e"
| "error_to_string (Config e) = ''configuration error: '' @ e"

record MessageAttachment =
  at_id :: string
  at_filename :: string
  at_url :: string
  at_content_type :: "string option"
  at_size_bytes :: "nat option"
  at_local_path :: "string option"
  at_text_content :: "string option"

record InboundEvent =
  ev_id :: string
  ev_session :: SessionKey
  ev_platform_message_id :: string
  ev_delivery_id :: "string option"
  ev_content :: string
  ev_attachments :: "MessageAttachment list"
  ev_received_at :: int

definition event_message :: "string \<Rightarrow> int \<Rightarrow> SessionKey \<Rightarrow> string \<Rightarrow> string \<Rightarrow> InboundEvent" where
  "event_message uuid now k pid content =
     \<lparr>ev_id = uuid, ev_session = k, ev_platform_message_id = pid, ev_delivery_id = None,
      ev_content = content, ev_attachments = [], ev_received_at = now\<rparr>"

record StreamChunk =
  sc_stream_id :: string
  sc_sequence :: nat
  sc_content :: string
  sc_is_final :: bool
  sc_reply_to :: "string option"

datatype OutboundAction =
    SendMessage SessionKey string "string option"
  | EditMessage SessionKey string string
  | DeleteMessage SessionKey string
  | UploadFile SessionKey string
  | Stream SessionKey StreamChunk
  | Typing SessionKey bool
  | React SessionKey string string bool
  | ApprovalRequest SessionKey string string string
  | ExpireApproval string

definition processing_success_emoji :: string where
  "processing_success_emoji = map char_of [0xE2, 0x9C, 0x85 :: nat]"

definition processing_failure_emoji :: string where
  "processing_failure_emoji = map char_of [0xE2, 0x9D, 0x8C :: nat]"

definition reaction_emoji_for_outcome :: "bool \<Rightarrow> string" where
  "reaction_emoji_for_outcome success =
     (if success then processing_success_emoji else processing_failure_emoji)"

subsection \<open>The prompt of an event\<close>

abbreviation nl :: char where
  "nl \<equiv> CHR 0x0A"

definition strip_leading_message_timestamps :: "(string \<Rightarrow> nat option) \<Rightarrow> string \<Rightarrow> string" where
  "strip_leading_message_timestamps ts_prefix s =
     (case ts_prefix s of Some e \<Rightarrow> drop e s | None \<Rightarrow> s)"

definition message_timestamps_enabled :: "string option \<Rightarrow> bool" where
  "message_timestamps_enabled var =
     (case var of
        None \<Rightarrow> True
      | Some v \<Rightarrow> to_ascii_lowercase (trim v) \<notin> {''0'', ''false'', ''no'', ''off''})"

definition format_inlined_text :: "string \<Rightarrow> string \<Rightarrow> string" where
  "format_inlined_text filename content =
     [nl, nl] @ ''[Content of '' @ filename @ '']:'' @ [nl, nl] @ content"

definition is_voice :: "MessageAttachment \<Rightarrow> bool" where
  "is_voice a \<longleftrightarrow>
     contains ''voice-message'' (at_filename a) \<or> contains ''voice_message'' (at_filename a)
     \<or> contains ''voice-note'' (at_filename a) \<or> contains ''voice_note'' (at_filename a)
     \<or> suffix ''.voice.ogg'' (at_filename a) \<or> suffix ''.voice.opus'' (at_filename a)
     \<or> (case at_content_type a of
          None \<Rightarrow> False
        | Some ct \<Rightarrow>
            let l = to_ascii_lowercase ct in
            contains ''voice'' l \<or> starts_with ''audio/ogg; codecs=opus'' l
            \<or> starts_with ''audio/opus; voice=true'' l)"

definition render_attachment :: "MessageAttachment \<Rightarrow> string" where
  "render_attachment a =
     ''['' @ (if is_voice a then ''Voice message'' else ''Attachment'') @ '': '' @ at_filename a @ '' ('' @
     (case at_content_type a of Some ct \<Rightarrow> ct | None \<Rightarrow> ''unknown'') @ '', '' @
     (case at_size_bytes a of Some n \<Rightarrow> dec n | None \<Rightarrow> ''unknown'') @ '' bytes) - '' @ at_url a @
     (case at_local_path a of Some p \<Rightarrow> '' | local path: '' @ p | None \<Rightarrow> '''') @ '']'' @
     (case at_text_content a of Some t \<Rightarrow> format_inlined_text (at_filename a) t | None \<Rightarrow> '''')"

definition render_user_prompt ::
  "(string \<Rightarrow> nat option) \<Rightarrow> (int \<Rightarrow> string) \<Rightarrow> string option \<Rightarrow> InboundEvent \<Rightarrow> string" where
  "render_user_prompt ts_prefix fmt var ev =
     (let clean = strip_leading_message_timestamps ts_prefix (ev_content ev);
          body = (if message_timestamps_enabled var
                  then (if clean = '''' then '''' else fmt (ev_received_at ev) @ '' '' @ clean)
                  else clean)
      in if ev_attachments ev = [] then body
         else let atts = join [nl] (map render_attachment (ev_attachments ev)) in
              if trim body = '''' then atts else body @ [nl, nl] @ atts)"

end
