(* ===== verification/Transition_System.thy ===== *)
theory Transition_System
  imports Main
begin

section \<open>Reachable states and invariants\<close>

text \<open>The states a step relation reaches from its initial states, and the contract of an
  invariant.  A component whose operations interleave interprets \<open>invariant\<close> on its own step
  relation and takes \<open>holds\<close> from there.\<close>

inductive reachable :: "('s \<Rightarrow> bool) \<Rightarrow> ('s \<Rightarrow> 's \<Rightarrow> bool) \<Rightarrow> 's \<Rightarrow> bool" for init step where
  start: "init s \<Longrightarrow> reachable init step s"
| next_state: "reachable init step s \<Longrightarrow> step s s' \<Longrightarrow> reachable init step s'"

locale invariant =
  fixes init :: "'s \<Rightarrow> bool" and step :: "'s \<Rightarrow> 's \<Rightarrow> bool" and inv :: "'s \<Rightarrow> bool"
  assumes initial: "init s \<Longrightarrow> inv s"
    and preserved: "inv s \<Longrightarrow> step s s' \<Longrightarrow> inv s'"
begin

lemma holds: "reachable init step s \<Longrightarrow> inv s"
  by (induction rule: reachable.induct) (auto intro: initial preserved)

lemma reachable_step: "reachable init step s \<Longrightarrow> step s s' \<Longrightarrow> inv s \<and> inv s'"
  using holds preserved by blast

end

text \<open>A component whose operations run one after the other has a step function; an invariant
  that every admissible operation keeps holds after every run of admissible ones.\<close>

locale run_invariant =
  fixes step :: "'e \<Rightarrow> 's \<Rightarrow> 's" and ok :: "'e \<Rightarrow> bool" and inv :: "'s \<Rightarrow> bool"
  assumes keeps: "inv s \<Longrightarrow> ok e \<Longrightarrow> inv (step e s)"
begin

lemma run: "inv s \<Longrightarrow> list_all ok es \<Longrightarrow> inv (fold step es s)"
  by (induction es arbitrary: s) (simp_all add: keeps)

end

sublocale run_invariant \<subseteq> steps: invariant inv "\<lambda>s s'. \<exists>e. ok e \<and> s' = step e s" inv
  by unfold_locales (auto simp: keeps)

end
