(* ===== verification/Delivery_Ledger.thy ===== *)
theory Delivery_Ledger
  imports Sql_Table Gateway_Events Transition_System
begin

section \<open>The delivery ledger\<close>

text \<open>
  \<open>src/ledger/service.rs\<close> on the tables \<open>sessions\<close>, \<open>delivery_ledger\<close>,
  \<open>delivery_ledger_constituents\<close> and \<open>delivery_obligations\<close>.  The inbound half claims a platform
  message once, lets a failed one be claimed again and completes a message together with the
  messages merged into it.  The outbound half records a reply before it is sent, and sweeps the
  replies a dead process left behind.

  A time is a number of nanoseconds; \<open>now\<close>, the process identity (\<open>pid\<close>, start text), the
  operating system's liveness probe and the dispatcher are arguments.  Timestamps are stored as
  RFC 3339 texts whose order is the order of the times.  Failures of SQLite itself are not
  modelled; the errors the service raises are.  The random primary key \<open>delivery_id\<close> of a
  ledger row is read by nothing and left out.
\<close>

subsection \<open>Tables\<close>

datatype DeliveryStatus = Pending | InProgress | Delivered | Failed

fun status_name :: "DeliveryStatus \<Rightarrow> string" where
  "status_name Pending = ''pending''"
| "status_name InProgress = ''in_progress''"
| "status_name Delivered = ''delivered''"
| "status_name Failed = ''failed''"

datatype DeliveryObligationState =
  OPending | OAttempting | ODelivered | OFailed | OAbandoned

fun obligation_state_str :: "DeliveryObligationState \<Rightarrow> string" where
  "obligation_state_str OPending = ''pending''"
| "obligation_state_str OAttempting = ''attempting''"
| "obligation_state_str ODelivered = ''delivered''"
| "obligation_state_str OFailed = ''failed''"
| "obligation_state_str OAbandoned = ''abandoned''"

record SessionRow =
  ss_key :: string
  ss_platform :: string
  ss_guild_id :: "string option"
  ss_channel_id :: string
  ss_thread_id :: "string option"
  ss_user_id :: string
  ss_state :: SessionState

record DeliveryLedgerEntry =
  le_message_id :: string
  le_session_key :: string
  le_event_id :: string
  le_status :: string
  le_platform_message_id :: "string option"
  le_created_at :: int
  le_updated_at :: int
  le_received_at :: int
  le_completed_at :: "int option"
  le_latency_ms :: "int option"
  le_error :: "string option"

record DeliveryObligation =
  ob_id :: string
  ob_session_key :: string
  ob_channel_id :: string
  ob_thread_id :: "string option"
  ob_content :: string
  ob_state :: string
  ob_attempts :: int
  ob_created_at :: int
  ob_updated_at :: int
  ob_owner_pid :: "int option"
  ob_last_error :: "string option"
  ob_owner_started_at :: "string option"

record Db =
  db_sessions :: "SessionRow list"
  db_ledger :: "DeliveryLedgerEntry list"
  db_constituents :: "(string \<times> string) list"
  db_obligations :: "DeliveryObligation list"

subsection \<open>Inbound deliveries\<close>

definition ensure_session :: "SessionKey \<Rightarrow> Db \<Rightarrow> Db" where
  "ensure_session k db = db\<lparr>db_sessions := sql_insert_ignore ss_key
     \<lparr>ss_key = storage_key k, ss_platform = platform k, ss_guild_id = guild_id k,
      ss_channel_id = channel_id k, ss_thread_id = thread_id k, ss_user_id = user_id k,
      ss_state = session_state_default\<rparr> (db_sessions db)\<rparr>"

definition ledger_row :: "InboundEvent \<Rightarrow> string \<Rightarrow> string \<Rightarrow> DeliveryLedgerEntry" where
  "ledger_row ev msg platform_msg =
     \<lparr>le_message_id = msg, le_session_key = storage_key (ev_session ev), le_event_id = msg,
      le_status = ''in_progress'', le_platform_message_id = Some platform_msg,
      le_created_at = ev_received_at ev, le_updated_at = ev_received_at ev,
      le_received_at = ev_received_at ev, le_completed_at = None, le_latency_ms = None,
      le_error = None\<rparr>"

definition reclaim :: "int \<Rightarrow> DeliveryLedgerEntry \<Rightarrow> DeliveryLedgerEntry" where
  "reclaim at r = r\<lparr>le_status := ''in_progress'', le_updated_at := at, le_error := None\<rparr>"

definition record_incoming_as :: "InboundEvent \<Rightarrow> string \<Rightarrow> Db \<Rightarrow> Db \<times> bool" where
  "record_incoming_as ev delivery_id db0 =
     (let db = ensure_session (ev_session ev) db0;
          (rows, n) = sql_upsert le_message_id (\<lambda>r. le_status r = ''failed'')
            (reclaim (ev_received_at ev))
            (ledger_row ev delivery_id (ev_platform_message_id ev)) (db_ledger db)
      in (db\<lparr>db_ledger := rows\<rparr>, n = 1))"

definition record_incoming :: "InboundEvent \<Rightarrow> Db \<Rightarrow> Db \<times> bool" where
  "record_incoming ev db = record_incoming_as ev (ev_platform_message_id ev) db"

text \<open>The rows a message identifier stands for: itself, without or with the platform prefix,
  or by the platform's identifier.\<close>

definition names_row :: "string \<Rightarrow> DeliveryLedgerEntry \<Rightarrow> bool" where
  "names_row m r \<longleftrightarrow>
     le_message_id r = m
     \<or> le_message_id r = (case strip_prefix ''discord:'' m of Some a \<Rightarrow> a | None \<Rightarrow> '''')
     \<or> le_message_id r = ''discord:'' @ m
     \<or> le_platform_message_id r = Some m"

definition is_duplicate :: "string \<Rightarrow> Db \<Rightarrow> bool" where
  "is_duplicate m db \<longleftrightarrow> list_ex (names_row m) (db_ledger db)"

definition is_completed :: "string \<Rightarrow> Db \<Rightarrow> bool" where
  "is_completed m db \<longleftrightarrow> list_ex (\<lambda>r. names_row m r \<and> le_status r = ''delivered'') (db_ledger db)"

definition link_constituent :: "string \<Rightarrow> string \<Rightarrow> Db \<Rightarrow> Db" where
  "link_constituent parent c db = db\<lparr>db_constituents :=
     fst (sql_upsert snd (\<lambda>_. True) (\<lambda>(p, x). (parent, x)) (parent, c) (db_constituents db))\<rparr>"

definition record_constituent :: "InboundEvent \<Rightarrow> string \<Rightarrow> string \<Rightarrow> Db \<Rightarrow> Db" where
  "record_constituent ev delivery_id c db =
     (if c = delivery_id then db
      else link_constituent delivery_id c
        (db\<lparr>db_ledger := sql_insert_ignore le_message_id
           (ledger_row ev c (case strip_prefix ''discord:'' c of Some a \<Rightarrow> a | None \<Rightarrow> c))
           (db_ledger db)\<rparr>))"

definition record_incoming_with_constituents ::
  "InboundEvent \<Rightarrow> string \<Rightarrow> string list \<Rightarrow> Db \<Rightarrow> Db \<times> bool" where
  "record_incoming_with_constituents ev delivery_id cs db0 =
     (let db = ensure_session (ev_session ev) db0 in
      if is_duplicate delivery_id db then (db, False)
      else if list_ex (\<lambda>c. is_duplicate c db) cs then (db, False)
      else
        let (db, recorded) = record_incoming_as ev delivery_id db in
        if \<not> recorded then (db, False)
        else (fold (record_constituent ev delivery_id) cs
                (link_constituent delivery_id delivery_id db), True))"

text \<open>\<open>jd\<close> is SQLite's \<open>CAST((julianday(a) - julianday(b)) * 86400000 AS INTEGER)\<close>.\<close>

definition completed ::
  "(int \<Rightarrow> int \<Rightarrow> int) \<Rightarrow> int \<Rightarrow> DeliveryStatus \<Rightarrow> string option \<Rightarrow> DeliveryLedgerEntry \<Rightarrow> DeliveryLedgerEntry" where
  "completed jd now status err r =
     r\<lparr>le_status := status_name status, le_error := err, le_completed_at := Some now,
       le_updated_at := now, le_latency_ms := Some (max 0 (jd now (le_received_at r)))\<rparr>"

definition complete ::
  "(int \<Rightarrow> int \<Rightarrow> int) \<Rightarrow> int \<Rightarrow> string \<Rightarrow> DeliveryStatus \<Rightarrow> string option \<Rightarrow> Db \<Rightarrow> string + Db" where
  "complete jd now m status err db =
     (let f = completed jd now status err;
          (rows, n) = sql_update (\<lambda>r. le_message_id r = m) f (db_ledger db)
      in if n = 0 then Inl (''delivery message '' @ m @ '' does not exist'')
         else
           let cs = map snd (filter (\<lambda>(p, c). p = m) (db_constituents db))
           in Inr (db\<lparr>db_ledger := fst (sql_update (\<lambda>r. le_message_id r \<in> set cs) f rows)\<rparr>))"

definition mark_delivered :: "(int \<Rightarrow> int \<Rightarrow> int) \<Rightarrow> int \<Rightarrow> string \<Rightarrow> Db \<Rightarrow> string + Db" where
  "mark_delivered jd now m db = complete jd now m Delivered None db"

definition mark_failed :: "(int \<Rightarrow> int \<Rightarrow> int) \<Rightarrow> int \<Rightarrow> string \<Rightarrow> string \<Rightarrow> Db \<Rightarrow> string + Db" where
  "mark_failed jd now m err db = complete jd now m Failed (Some err) db"

text \<open>\<open>ORDER BY completed_at DESC, created_at DESC LIMIT 1\<close>: \<open>NULL\<close> is the smallest value, and
  rows that tie come in table order.\<close>

definition newest_first :: "DeliveryLedgerEntry list \<Rightarrow> DeliveryLedgerEntry list" where
  "newest_first rows =
     sort_key (\<lambda>r. case le_completed_at r of None \<Rightarrow> (1::int) | Some _ \<Rightarrow> 0)
       (sort_key (\<lambda>r. case le_completed_at r of None \<Rightarrow> 0 | Some t \<Rightarrow> - t)
         (sort_key (\<lambda>r. - le_created_at r) rows))"

definition ledger_get :: "string \<Rightarrow> Db \<Rightarrow> DeliveryLedgerEntry option" where
  "ledger_get m db =
     (case newest_first (filter (names_row m) (db_ledger db)) of [] \<Rightarrow> None | r # _ \<Rightarrow> Some r)"

subsection \<open>Outbound obligations\<close>

definition obligation_row ::
  "int \<Rightarrow> string \<Rightarrow> int \<Rightarrow> string \<Rightarrow> SessionKey \<Rightarrow> string \<Rightarrow> DeliveryObligation" where
  "obligation_row pid started now i k content =
     \<lparr>ob_id = i, ob_session_key = storage_key k, ob_channel_id = channel_id k,
      ob_thread_id = thread_id k, ob_content = content, ob_state = ''pending'',
      ob_attempts = 0, ob_created_at = now, ob_updated_at = now, ob_owner_pid = Some pid,
      ob_last_error = None, ob_owner_started_at = Some started\<rparr>"

definition restamp :: "DeliveryObligation \<Rightarrow> DeliveryObligation \<Rightarrow> DeliveryObligation" where
  "restamp new r = r\<lparr>ob_content := ob_content new, ob_updated_at := ob_updated_at new,
     ob_owner_pid := ob_owner_pid new, ob_owner_started_at := ob_owner_started_at new\<rparr>"

definition record_obligation ::
  "int \<Rightarrow> string \<Rightarrow> int \<Rightarrow> string \<Rightarrow> SessionKey \<Rightarrow> string \<Rightarrow> Db \<Rightarrow> Db" where
  "record_obligation pid started now i k content db0 =
     (let db = ensure_session k db0; new = obligation_row pid started now i k content
      in db\<lparr>db_obligations := fst (sql_upsert ob_id (\<lambda>_. True) (restamp new) new (db_obligations db))\<rparr>)"

definition obligation_to ::
  "int \<Rightarrow> DeliveryObligationState \<Rightarrow> string option \<Rightarrow> DeliveryObligation \<Rightarrow> DeliveryObligation" where
  "obligation_to now st err r =
     r\<lparr>ob_state := obligation_state_str st, ob_updated_at := now, ob_last_error := err\<rparr>"

definition update_obligation_state ::
  "int \<Rightarrow> string \<Rightarrow> DeliveryObligationState \<Rightarrow> string option \<Rightarrow> Db \<Rightarrow> string + Db" where
  "update_obligation_state now i st err db =
     (let (rows, n) = sql_update (\<lambda>r. ob_id r = i) (obligation_to now st err) (db_obligations db)
      in if n = 0 then Inl (''delivery obligation '' @ i @ '' not found'')
         else Inr (db\<lparr>db_obligations := rows\<rparr>))"

definition mark_obligation_attempting :: "int \<Rightarrow> string \<Rightarrow> Db \<Rightarrow> string + Db" where
  "mark_obligation_attempting now i db = update_obligation_state now i OAttempting None db"

definition mark_obligation_delivered :: "int \<Rightarrow> string \<Rightarrow> Db \<Rightarrow> string + Db" where
  "mark_obligation_delivered now i db = update_obligation_state now i ODelivered None db"

definition mark_obligation_failed :: "int \<Rightarrow> string \<Rightarrow> string \<Rightarrow> Db \<Rightarrow> string + Db" where
  "mark_obligation_failed now i err db = update_obligation_state now i OFailed (Some err) db"

definition get_obligation :: "string \<Rightarrow> Db \<Rightarrow> DeliveryObligation option" where
  "get_obligation i db = sql_get ob_id i (db_obligations db)"

subsection \<open>Sweeping the obligations of dead processes\<close>

text \<open>\<open>probe\<close> is the operating system's answer for a non-zero process number.  \<open>num_seconds\<close>
  truncates towards zero, as \<open>TimeDelta::num_seconds\<close> does.\<close>

definition is_process_alive :: "(nat \<Rightarrow> bool) \<Rightarrow> nat \<Rightarrow> bool" where
  "is_process_alive probe pid \<longleftrightarrow> (if pid = 0 then False else probe pid)"

definition num_seconds :: "int \<Rightarrow> int" where
  "num_seconds d = (if d < 0 then - ((- d) div 1000000000) else d div 1000000000)"

definition owner_alive :: "(nat \<Rightarrow> bool) \<Rightarrow> int \<Rightarrow> string \<Rightarrow> DeliveryObligation \<Rightarrow> bool" where
  "owner_alive probe cur_pid cur_started row \<longleftrightarrow>
     (case ob_owner_pid row of
        None \<Rightarrow> False
      | Some pid \<Rightarrow>
          pid > 0 \<and> is_process_alive probe (nat (pid mod 2 ^ 32)) \<and>
          (case ob_owner_started_at row of
             Some started \<Rightarrow> started = cur_started
           | None \<Rightarrow> pid = cur_pid))"

definition exhausted :: "int \<Rightarrow> int \<Rightarrow> int \<Rightarrow> DeliveryObligation \<Rightarrow> bool" where
  "exhausted now max_attempts stale_after row \<longleftrightarrow>
     ob_attempts row \<ge> max_attempts \<or> num_seconds (now - ob_created_at row) > stale_after"

definition abandon :: "int \<Rightarrow> DeliveryObligation \<Rightarrow> DeliveryObligation" where
  "abandon now r = r\<lparr>ob_state := ''abandoned'', ob_updated_at := now\<rparr>"

definition take_over :: "int \<Rightarrow> string \<Rightarrow> int \<Rightarrow> DeliveryObligation \<Rightarrow> DeliveryObligation" where
  "take_over pid started now r =
     r\<lparr>ob_owner_pid := Some pid, ob_owner_started_at := Some started,
       ob_attempts := ob_attempts r + 1, ob_updated_at := now\<rparr>"

text \<open>The conditional update by which a process claims a row it has read before.  A comparison
  with a \<open>NULL\<close> parameter is never true.\<close>

definition claimable :: "int \<Rightarrow> DeliveryObligation \<Rightarrow> DeliveryObligation \<Rightarrow> bool" where
  "claimable pid row r \<longleftrightarrow>
     ob_owner_pid r = None
     \<or> (ob_owner_pid row \<noteq> None \<and> ob_owner_pid r = ob_owner_pid row)
     \<or> ob_owner_pid r = Some pid"

definition claim_row ::
  "int \<Rightarrow> string \<Rightarrow> int \<Rightarrow> DeliveryObligation \<Rightarrow> DeliveryObligation list \<Rightarrow> DeliveryObligation list \<times> nat" where
  "claim_row pid started now row obs =
     sql_update (\<lambda>r. ob_id r = ob_id row \<and> claimable pid row r) (take_over pid started now) obs"

definition sweep_row ::
  "(nat \<Rightarrow> bool) \<Rightarrow> int \<Rightarrow> string \<Rightarrow> int \<Rightarrow> int \<Rightarrow> int \<Rightarrow> DeliveryObligation \<Rightarrow>
   DeliveryObligation list \<times> DeliveryObligation list \<Rightarrow> DeliveryObligation list \<times> DeliveryObligation list" where
  "sweep_row probe pid started now max_attempts stale_after row = (\<lambda>(obs, claimed).
     if owner_alive probe pid started row then (obs, claimed)
     else if exhausted now max_attempts stale_after row then
       (fst (sql_update (\<lambda>r. ob_id r = ob_id row) (abandon now) obs), claimed)
     else
       let (obs', n) = claim_row pid started now row obs in
       if n > 0 then
         (obs', claimed @ [row\<lparr>ob_attempts := ob_attempts row + 1, ob_owner_pid := Some pid,
            ob_owner_started_at := Some started\<rparr>])
       else (obs', claimed))"

definition undelivered :: "DeliveryObligation \<Rightarrow> bool" where
  "undelivered r \<longleftrightarrow> ob_state r \<in> {''pending'', ''attempting'', ''failed''}"

definition sweep_recoverable ::
  "(nat \<Rightarrow> bool) \<Rightarrow> int \<Rightarrow> string \<Rightarrow> int \<Rightarrow> int \<Rightarrow> int \<Rightarrow> Db \<Rightarrow> Db \<times> DeliveryObligation list" where
  "sweep_recoverable probe pid started now max_attempts stale_after db =
     (let rows = sort_key ob_created_at (filter undelivered (db_obligations db));
          (obs, claimed) = fold (sweep_row probe pid started now max_attempts stale_after) rows
            (db_obligations db, [])
      in (db\<lparr>db_obligations := obs\<rparr>, claimed))"

subsection \<open>Pruning and the runtime sweep\<close>

definition terminal :: "DeliveryObligation \<Rightarrow> bool" where
  "terminal r \<longleftrightarrow> ob_state r \<in> {''delivered'', ''abandoned''}"

definition prune_terminal_obligations :: "int \<Rightarrow> int \<Rightarrow> int \<Rightarrow> Db \<Rightarrow> Db \<times> nat" where
  "prune_terminal_obligations now retention_secs max_retained_rows db =
     (let cutoff = now - retention_secs * 1000000000;
          (obs, n) = sql_delete (\<lambda>r. terminal r \<and> ob_updated_at r < cutoff) (db_obligations db);
          count = int (length (filter terminal obs))
      in if count > max_retained_rows then
           let excess = count - max_retained_rows;
               victims = map ob_id (take (nat excess) (sort_key ob_updated_at (filter terminal obs)));
               (obs, m) = sql_delete (\<lambda>r. ob_id r \<in> set victims) obs
           in (db\<lparr>db_obligations := obs\<rparr>, n + m)
         else (db\<lparr>db_obligations := obs\<rparr>, n))"

definition retryable_transport :: "string option \<Rightarrow> bool" where
  "retryable_transport e =
     (case e of
        None \<Rightarrow> False
      | Some err \<Rightarrow>
          let lower = to_ascii_lowercase err in
          (contains ''connection refused'' lower \<or> contains ''connect error'' lower
           \<or> contains ''transport error'' lower \<or> contains ''connection reset'' lower
           \<or> contains ''broken pipe'' lower)
          \<and> \<not> contains ''403'' lower \<and> \<not> contains ''forbidden'' lower
          \<and> \<not> contains ''timeout'' lower)"

definition retry :: "int \<Rightarrow> DeliveryObligation \<Rightarrow> DeliveryObligation" where
  "retry now r = r\<lparr>ob_state := ''attempting'', ob_attempts := ob_attempts r + 1, ob_updated_at := now\<rparr>"

definition row_of_bot :: "string \<Rightarrow> DeliveryObligation \<Rightarrow> bool" where
  "row_of_bot b row \<longleftrightarrow>
     (case from_storage_key (ob_session_key row) of
        Inr k \<Rightarrow> bot_id k = Some b
      | Inl _ \<Rightarrow> False)"

definition sweep_failed_row ::
  "string \<Rightarrow> int \<Rightarrow> int \<Rightarrow> int \<Rightarrow> DeliveryObligation \<Rightarrow>
   DeliveryObligation list \<times> DeliveryObligation list \<Rightarrow> DeliveryObligation list \<times> DeliveryObligation list" where
  "sweep_failed_row b now max_attempts stale_after row = (\<lambda>(obs, claimed).
     if \<not> row_of_bot b row then (obs, claimed)
     else if \<not> retryable_transport (ob_last_error row) then (obs, claimed)
     else if exhausted now max_attempts stale_after row then (obs, claimed)
     else
       let (obs', n) = sql_update (\<lambda>r. ob_id r = ob_id row \<and> ob_state r = ''failed'') (retry now) obs in
       if n > 0 then
         (obs', claimed @ [row\<lparr>ob_state := ''attempting'', ob_attempts := ob_attempts row + 1\<rparr>])
       else (obs', claimed))"

definition sweep_failed_for_runtime ::
  "int \<Rightarrow> string \<Rightarrow> int \<Rightarrow> string \<Rightarrow> int \<Rightarrow> int \<Rightarrow> Db \<Rightarrow> Db \<times> DeliveryObligation list" where
  "sweep_failed_for_runtime pid started now b max_attempts stale_after db =
     (let rows = sort_key ob_created_at
            (filter (\<lambda>r. ob_state r = ''failed'' \<and> ob_owner_pid r = Some pid
                      \<and> ob_owner_started_at r = Some started) (db_obligations db));
          (obs, claimed) = fold (sweep_failed_row b now max_attempts stale_after) rows
            (db_obligations db, [])
      in (db\<lparr>db_obligations := obs\<rparr>, claimed))"

subsection \<open>Recovery at startup\<close>

definition recovered_reply_marker :: string where
  "recovered_reply_marker =
     map char_of [0xE2, 0x99, 0xBB, 0xEF, 0xB8, 0x8F :: nat] @ '' Recovered reply '' @
     map char_of [0xE2, 0x80, 0x94 :: nat] @
     '' the gateway restarted during delivery, so this may be a duplicate:'' @
     [char_of (10 :: nat), char_of (10 :: nat)]"

definition recovered_session :: "DeliveryObligation \<Rightarrow> Db \<Rightarrow> SessionKey" where
  "recovered_session ob db =
     (case from_storage_key (ob_session_key ob) of
        Inr k \<Rightarrow> k
      | Inl _ \<Rightarrow>
          (case sql_get ss_key (ob_session_key ob) (db_sessions db) of
             Some s \<Rightarrow>
               (case from_storage_key (ss_key s) of
                  Inr k \<Rightarrow> k
                | Inl _ \<Rightarrow> session_key_new (ss_platform s) (ss_guild_id s) (ss_channel_id s)
                             (ss_thread_id s) (ss_user_id s))
           | None \<Rightarrow> session_key_new ''discord'' None (ob_channel_id ob) (ob_thread_id ob)
                       ''recovered-delivery''))"

definition recovered_content :: "DeliveryObligation \<Rightarrow> string" where
  "recovered_content ob =
     (if ob_state ob = ''pending'' then ob_content ob else recovered_reply_marker @ ob_content ob)"

text \<open>The dispatcher gets the obligation's identifier (for the fresh stream identifier of the
  call), the session and the text, and answers with an error text or not.  The loop returns the
  database, what was dispatched, and the count or the error that ended it.\<close>

type_synonym dispatcher = "string \<Rightarrow> SessionKey \<Rightarrow> string \<Rightarrow> string option"

fun recover_loop ::
  "dispatcher \<Rightarrow> int \<Rightarrow> DeliveryObligation list \<Rightarrow> Db \<Rightarrow> nat \<Rightarrow>
   Db \<times> (string \<times> SessionKey \<times> string) list \<times> (string + nat)" where
  "recover_loop dispatch now [] db n = (db, [], Inr n)"
| "recover_loop dispatch now (ob # obs) db n =
     (let k = recovered_session ob db; content = recovered_content ob in
      case mark_obligation_attempting now (ob_id ob) db of
        Inl e \<Rightarrow> (db, [], Inl e)
      | Inr db1 \<Rightarrow>
          (let result = dispatch (ob_id ob) k content in
           case (case result of
                   None \<Rightarrow> mark_obligation_delivered now (ob_id ob) db1
                 | Some err \<Rightarrow> mark_obligation_failed now (ob_id ob) err db1) of
             Inl e \<Rightarrow> (db1, [(ob_id ob, k, content)], Inl e)
           | Inr db2 \<Rightarrow>
               (let (db', sent, r) = recover_loop dispatch now obs db2
                      (if result = None then n + 1 else n)
                in (db', (ob_id ob, k, content) # sent, r))))"

definition recover_pending_delivery_obligations ::
  "dispatcher \<Rightarrow> (nat \<Rightarrow> bool) \<Rightarrow> int \<Rightarrow> string \<Rightarrow> int \<Rightarrow> Db \<Rightarrow>
   Db \<times> (string \<times> SessionKey \<times> string) list \<times> (string + nat)" where
  "recover_pending_delivery_obligations dispatch probe pid started now db =
     (let (db, recoverable) = sweep_recoverable probe pid started now 3 86400 db
      in recover_loop dispatch now recoverable db 0)"

subsection \<open>The updates keep the keys\<close>

interpretation reclaim: keyed_update le_message_id "reclaim at" for at
  by unfold_locales (simp add: reclaim_def)

interpretation completed: keyed_update le_message_id "completed jd now st err" for jd now st err
  by unfold_locales (simp add: completed_def)

interpretation link: keyed_update snd "\<lambda>(p, x). (parent, x)" for parent :: string
  by unfold_locales auto

interpretation restamp: keyed_update ob_id "restamp new" for new
  by unfold_locales (simp add: restamp_def)

interpretation obligation_to: keyed_update ob_id "obligation_to now st err" for now st err
  by unfold_locales (simp add: obligation_to_def)

text \<open>What the sweeps do to one row, and what they hand on for it.\<close>

definition sweep_effect ::
  "(nat \<Rightarrow> bool) \<Rightarrow> int \<Rightarrow> string \<Rightarrow> int \<Rightarrow> int \<Rightarrow> int \<Rightarrow> DeliveryObligation \<Rightarrow> DeliveryObligation" where
  "sweep_effect probe pid started now max_attempts stale_after r =
     (if owner_alive probe pid started r then r
      else if exhausted now max_attempts stale_after r then abandon now r
      else take_over pid started now r)"

definition swept ::
  "(nat \<Rightarrow> bool) \<Rightarrow> int \<Rightarrow> string \<Rightarrow> int \<Rightarrow> int \<Rightarrow> int \<Rightarrow> DeliveryObligation \<Rightarrow> bool" where
  "swept probe pid started now max_attempts stale_after r \<longleftrightarrow>
     \<not> owner_alive probe pid started r \<and> \<not> exhausted now max_attempts stale_after r"

definition claimed_copy :: "int \<Rightarrow> string \<Rightarrow> DeliveryObligation \<Rightarrow> DeliveryObligation" where
  "claimed_copy pid started row = row\<lparr>ob_attempts := ob_attempts row + 1,
     ob_owner_pid := Some pid, ob_owner_started_at := Some started\<rparr>"

lemma claimable_self [simp]: "claimable pid row row"
  by (auto simp: claimable_def)

lemma map_only_row:
  assumes "distinct (map key t)" and "row \<in> set t" and "P row"
  shows "map (\<lambda>r. if key r = key row \<and> P r then f r else r) t = map (\<lambda>r. if key r = key row then f r else r) t"
    and "length (filter (\<lambda>r. key r = key row \<and> P r) t) = 1"
proof -
  have "r = row" if "r \<in> set t" "key r = key row" for r
    using row_by_key [OF assms(1) that(1) assms(2)] that by simp
  with assms show "map (\<lambda>r. if key r = key row \<and> P r then f r else r) t = map (\<lambda>r. if key r = key row then f r else r) t"
    by auto
  show "length (filter (\<lambda>r. key r = key row \<and> P r) t) = 1"
    using filter_key_length [OF assms(1), of "key row" P] sql_get_mem [OF assms(1,2)] assms(3) by simp
qed

interpretation sweep: row_sweep ob_id "sweep_effect probe pid started now ma sa"
    "sweep_row probe pid started now ma sa"
    "\<lambda>row. if swept probe pid started now ma sa row then [claimed_copy pid started row] else []"
  for probe pid started now ma sa
proof unfold_locales
  fix t :: "DeliveryObligation list" and row out
  assume t: "distinct (map ob_id t)" "row \<in> set t"
  have row: "r = row" if "r \<in> set t" "ob_id r = ob_id row" for r
    using row_by_key [OF t(1) that(1) t(2)] that by simp
  note one = map_only_row [OF t, of "claimable pid row", simplified]
  have same: "map (\<lambda>r. if ob_id r = ob_id row then f r else r) t = t" if "f row = row" for f
    using that row by (intro map_idI) auto
  show "sweep_row probe pid started now ma sa row (t, out) =
    (map (\<lambda>r. if ob_id r = ob_id row then sweep_effect probe pid started now ma sa r else r) t,
     out @ (if swept probe pid started now ma sa row then [claimed_copy pid started row] else []))"
    by (auto simp: sweep_row_def sweep_effect_def swept_def claimed_copy_def claim_row_def
        sql_update_def one same dest!: row)
qed (simp add: sweep_effect_def abandon_def take_over_def)

definition retried :: "string \<Rightarrow> int \<Rightarrow> int \<Rightarrow> int \<Rightarrow> DeliveryObligation \<Rightarrow> bool" where
  "retried b now ma sa r \<longleftrightarrow> ob_state r = ''failed'' \<and> row_of_bot b r \<and> retryable_transport (ob_last_error r)
     \<and> \<not> exhausted now ma sa r"

lemma sweep_recoverable_eq:
  assumes "distinct (map ob_id (db_obligations db))"
  shows "sweep_recoverable probe pid started now ma sa db =
    (db\<lparr>db_obligations :=
        map (\<lambda>r. if undelivered r then sweep_effect probe pid started now ma sa r else r) (db_obligations db)\<rparr>,
     map (claimed_copy pid started)
       (filter (swept probe pid started now ma sa) (sort_key ob_created_at (filter undelivered (db_obligations db)))))"
proof -
  have "concat (map (\<lambda>x. if P x then [f x] else []) xs) = map f (filter P xs)"
    for P and f :: "DeliveryObligation \<Rightarrow> DeliveryObligation" and xs
    by (induction xs) auto
  then show ?thesis
    using sweep.fold_sweep_select [OF assms, of probe pid started now ma sa ob_created_at undelivered "[]"]
    by (simp add: sweep_recoverable_def)
qed

lemma map_row_same:
  assumes "distinct (map key t)" and "row \<in> set t" and "f row = row"
  shows "map (\<lambda>r. if key r = key row then f r else r) t = t"
proof -
  have "r = row" if "r \<in> set t" "key r = key row" for r
    using row_by_key [OF assms(1) that(1) assms(2)] that by simp
  with assms(3) show ?thesis by (intro map_idI) auto
qed

definition retried_copy :: "DeliveryObligation \<Rightarrow> DeliveryObligation" where
  "retried_copy row = row\<lparr>ob_state := ''attempting'', ob_attempts := ob_attempts row + 1\<rparr>"

interpretation failed_sweep: row_sweep ob_id "\<lambda>r. if retried b now ma sa r then retry now r else r"
    "sweep_failed_row b now ma sa" "\<lambda>row. if retried b now ma sa row then [retried_copy row] else []"
  for b now ma sa
proof unfold_locales
  fix t :: "DeliveryObligation list" and row out
  assume t: "distinct (map ob_id t)" "row \<in> set t"
  let ?P = "\<lambda>r. ob_state r = ''failed''" and ?g = "\<lambda>r. if retried b now ma sa r then retry now r else r"
  let ?new = "map (\<lambda>r. if ob_id r = ob_id row then ?g r else r) t"
  have row: "r = row" if "r \<in> set t" "ob_id r = ob_id row" for r
    using row_by_key [OF t(1) that(1) t(2)] that by simp
  show "sweep_failed_row b now ma sa row (t, out) =
    (?new, out @ (if retried b now ma sa row then [retried_copy row] else []))"
  proof (cases "retried b now ma sa row")
    case True
    then have "?new = map (\<lambda>r. if ob_id r = ob_id row then retry now r else r) t"
      using row by auto
    with True show ?thesis
      using map_only_row(1) [OF t, of ?P "retry now"] map_only_row(2) [OF t, of ?P]
      by (auto simp: sweep_failed_row_def retried_def retried_copy_def sql_update_def)
  next
    case False
    then have "?new = t" using map_row_same [OF t, of ?g] by simp
    moreover have "filter (\<lambda>r. ob_id r = ob_id row \<and> ?P r) t = []"
      "map (\<lambda>r. if ob_id r = ob_id row \<and> ?P r then retry now r else r) t = t" if "\<not> ?P row"
      using that by (auto simp: filter_empty_conv intro!: map_idI dest: row)
    ultimately show ?thesis
      using False by (auto simp: sweep_failed_row_def retried_def sql_update_def)
  qed
qed (simp add: retry_def)

lemma sweep_failed_for_runtime_eq:
  assumes "distinct (map ob_id (db_obligations db))"
  shows "fst (sweep_failed_for_runtime pid started now b ma sa db) =
    db\<lparr>db_obligations := map (\<lambda>r. if ob_owner_pid r = Some pid \<and> ob_owner_started_at r = Some started
        \<and> retried b now ma sa r then retry now r else r) (db_obligations db)\<rparr>"
  using failed_sweep.fold_sweep_select [OF assms, of b now ma sa ob_created_at
      "\<lambda>r. ob_state r = ''failed'' \<and> ob_owner_pid r = Some pid \<and> ob_owner_started_at r = Some started" "[]"]
  by (auto simp: sweep_failed_for_runtime_def retried_def split: prod.splits)

subsection \<open>The invariant of the database\<close>

definition session_known :: "Db \<Rightarrow> string \<Rightarrow> bool" where
  "session_known db k \<longleftrightarrow> sql_get ss_key k (db_sessions db) \<noteq> None"

definition obligation_ok :: "DeliveryObligation \<Rightarrow> bool" where
  "obligation_ok r \<longleftrightarrow> (undelivered r \<or> terminal r) \<and> ob_attempts r \<ge> 0"

definition ledger_ok :: "DeliveryLedgerEntry \<Rightarrow> bool" where
  "ledger_ok r \<longleftrightarrow> le_event_id r = le_message_id r \<and>
     le_status r \<in> {''in_progress'', ''delivered'', ''failed''} \<and>
     (le_status r \<noteq> ''in_progress'' \<longrightarrow> le_completed_at r \<noteq> None)"

definition db_wf :: "Db \<Rightarrow> bool" where
  "db_wf db \<longleftrightarrow>
     distinct (map ss_key (db_sessions db)) \<and> distinct (map le_message_id (db_ledger db)) \<and>
     distinct (map snd (db_constituents db)) \<and> distinct (map ob_id (db_obligations db)) \<and>
     list_all (\<lambda>r. ledger_ok r \<and> session_known db (le_session_key r)) (db_ledger db) \<and>
     list_all (\<lambda>r. obligation_ok r \<and> session_known db (ob_session_key r)) (db_obligations db)"

definition db_empty :: Db where
  "db_empty = \<lparr>db_sessions = [], db_ledger = [], db_constituents = [], db_obligations = []\<rparr>"

text \<open>The operations of the service, as one type.\<close>

datatype LedgerOp =
    RecordIncoming InboundEvent string
  | RecordMerged InboundEvent string "string list"
  | Complete int string bool "string option"
  | RecordObligation int string int string SessionKey string
  | SetObligation int string DeliveryObligationState "string option"
  | SweepRecoverable "nat \<Rightarrow> bool" int string int int int
  | SweepFailed int string int string int int
  | Prune int int int

definition or_keep :: "'a \<Rightarrow> 'e + 'a \<Rightarrow> 'a" where
  "or_keep db r = (case r of Inl _ \<Rightarrow> db | Inr db' \<Rightarrow> db')"

fun ledger_step :: "(int \<Rightarrow> int \<Rightarrow> int) \<Rightarrow> LedgerOp \<Rightarrow> Db \<Rightarrow> Db" where
  "ledger_step jd (RecordIncoming ev m) db = fst (record_incoming_as ev m db)"
| "ledger_step jd (RecordMerged ev m cs) db = fst (record_incoming_with_constituents ev m cs db)"
| "ledger_step jd (Complete now m ok err) db =
     or_keep db (complete jd now m (if ok then Delivered else Failed) err db)"
| "ledger_step jd (RecordObligation pid started now i k content) db =
     record_obligation pid started now i k content db"
| "ledger_step jd (SetObligation now i st err) db =
     or_keep db (update_obligation_state now i st err db)"
| "ledger_step jd (SweepRecoverable probe pid started now ma sa) db =
     fst (sweep_recoverable probe pid started now ma sa db)"
| "ledger_step jd (SweepFailed pid started now b ma sa) db =
     fst (sweep_failed_for_runtime pid started now b ma sa db)"
| "ledger_step jd (Prune now ret mx) db = fst (prune_terminal_obligations now ret mx db)"

lemma session_known_ensure [simp]:
  "session_known (ensure_session k db) s \<longleftrightarrow> session_known db s \<or> s = storage_key k"
  by (auto simp: session_known_def ensure_session_def sql_get_insert_ignore)

lemma session_known_update [simp]:
  "session_known (db\<lparr>db_ledger := x\<rparr>) s = session_known db s"
  "session_known (db\<lparr>db_constituents := y\<rparr>) s = session_known db s"
  "session_known (db\<lparr>db_obligations := z\<rparr>) s = session_known db s"
  by (simp_all add: session_known_def)

lemma ensure_session_tables [simp]:
  "db_ledger (ensure_session k db) = db_ledger db"
  "db_constituents (ensure_session k db) = db_constituents db"
  "db_obligations (ensure_session k db) = db_obligations db"
  by (simp_all add: ensure_session_def)

lemma db_wf_ensure_session: "db_wf db \<Longrightarrow> db_wf (ensure_session k db)"
  by (auto simp: db_wf_def list_all_iff)
    (simp add: ensure_session_def distinct_insert_ignore)

lemma db_wf_ledger:
  assumes "db_wf db" and "distinct (map le_message_id rows)"
    and "list_all (\<lambda>r. ledger_ok r \<and> session_known db (le_session_key r)) rows"
  shows "db_wf (db\<lparr>db_ledger := rows\<rparr>)"
  using assms by (simp add: db_wf_def)

lemma db_wf_obligations:
  assumes "db_wf db" and "distinct (map ob_id rows)"
    and "list_all (\<lambda>r. obligation_ok r \<and> session_known db (ob_session_key r)) rows"
  shows "db_wf (db\<lparr>db_obligations := rows\<rparr>)"
  using assms by (simp add: db_wf_def)

lemma db_wfD:
  assumes "db_wf db"
  shows "distinct (map le_message_id (db_ledger db))" "distinct (map ob_id (db_obligations db))"
    "list_all (\<lambda>r. ledger_ok r \<and> session_known db (le_session_key r)) (db_ledger db)"
    "list_all (\<lambda>r. obligation_ok r \<and> session_known db (ob_session_key r)) (db_obligations db)"
  using assms by (simp_all add: db_wf_def)

lemma ledger_ok_row: "ledger_ok (ledger_row ev m p)"
  by (simp add: ledger_ok_def ledger_row_def)

lemma db_wf_record_incoming_as:
  assumes "db_wf db"
  shows "db_wf (fst (record_incoming_as ev m db))"
proof -
  let ?db = "ensure_session (ev_session ev) db"
  let ?up = "sql_upsert le_message_id (\<lambda>r. le_status r = ''failed'') (reclaim (ev_received_at ev))
    (ledger_row ev m (ev_platform_message_id ev)) (db_ledger ?db)"
  have wf: "db_wf ?db" using assms by (rule db_wf_ensure_session)
  have "db_wf (?db\<lparr>db_ledger := fst ?up\<rparr>)"
    using wf db_wfD(1) [OF wf] db_wfD(3) [OF wf]
    by (intro db_wf_ledger reclaim.distinct_upsert list_all_upsert)
      (auto simp: ledger_ok_def reclaim_def ledger_row_def)
  then show ?thesis by (simp add: record_incoming_as_def split_def Let_def)
qed

lemma db_wf_link_constituent: "db_wf db \<Longrightarrow> db_wf (link_constituent p c db)"
  using link.distinct_upsert [of "db_constituents db" "\<lambda>_. True" p "(p, c)"]
  by (simp add: db_wf_def link_constituent_def)

lemma db_wf_record_constituent:
  assumes "db_wf db" and "session_known db (storage_key (ev_session ev))"
  shows "db_wf (record_constituent ev m c db)"
    and "session_known (record_constituent ev m c db) (storage_key (ev_session ev))"
proof -
  have "db_wf (db\<lparr>db_ledger := sql_insert_ignore le_message_id (ledger_row ev c p) (db_ledger db)\<rparr>)" for p
    using assms db_wfD(1,3) [OF assms(1)]
    by (intro db_wf_ledger distinct_insert_ignore list_all_insert_ignore)
      (simp_all add: ledger_ok_row, simp add: ledger_row_def)
  then show "db_wf (record_constituent ev m c db)"
    using assms(1) by (simp add: record_constituent_def db_wf_link_constituent)
  show "session_known (record_constituent ev m c db) (storage_key (ev_session ev))"
    using assms(2) by (simp add: record_constituent_def link_constituent_def)
qed

lemma db_wf_fold_constituents:
  "db_wf db \<Longrightarrow> session_known db (storage_key (ev_session ev)) \<Longrightarrow>
    db_wf (fold (record_constituent ev m) cs db)"
  by (induction cs arbitrary: db) (simp_all add: db_wf_record_constituent)

lemma db_wf_record_merged:
  assumes "db_wf db"
  shows "db_wf (fst (record_incoming_with_constituents ev m cs db))"
proof -
  let ?db = "ensure_session (ev_session ev) db"
  have "db_wf (fst (record_incoming_as ev m ?db))"
    by (intro db_wf_record_incoming_as db_wf_ensure_session assms)
  moreover have "session_known (fst (record_incoming_as ev m ?db)) (storage_key (ev_session ev))"
    by (simp add: record_incoming_as_def split_def Let_def)
  ultimately show ?thesis
    using db_wf_ensure_session [OF assms]
    by (auto simp: record_incoming_with_constituents_def Let_def split_def
        intro!: db_wf_fold_constituents db_wf_link_constituent)
      (simp add: link_constituent_def)
qed

lemma db_wf_complete:
  assumes "db_wf db" and "complete jd now m (if ok then Delivered else Failed) err db = Inr db'"
  shows "db_wf db'"
proof -
  let ?f = "completed jd now (if ok then Delivered else Failed) err"
  have row: "ledger_ok (?f r) \<and> session_known db (le_session_key (?f r))"
    if "ledger_ok r \<and> session_known db (le_session_key r)" for r
    using that by (auto simp: ledger_ok_def completed_def)
  have "db_wf (db\<lparr>db_ledger := fst (sql_update p ?f (fst (sql_update q ?f (db_ledger db))))\<rparr>)" for p q
    using assms(1) db_wfD(1,3) [OF assms(1)]
    by (intro db_wf_ledger completed.distinct_update list_all_update row)
  with assms(2) show ?thesis
    by (auto simp: complete_def split_def Let_def split: if_splits)
qed

lemma undelivered_str [simp]: "obligation_state_str st \<in> {''pending'', ''attempting'', ''failed''} \<longleftrightarrow> st \<in> {OPending, OAttempting, OFailed}"
  by (cases st) simp_all

lemma obligation_ok_steps:
  "obligation_ok r \<Longrightarrow> obligation_ok (restamp new r)"
  "obligation_ok r \<Longrightarrow> obligation_ok (obligation_to now st err r)"
  "obligation_ok r \<Longrightarrow> obligation_ok (abandon now r)"
  "obligation_ok r \<Longrightarrow> obligation_ok (take_over pid started now r)"
  "obligation_ok r \<Longrightarrow> obligation_ok (retry now r)"
  "obligation_ok (obligation_row pid started now i k content)"
  by (cases st; auto simp: obligation_ok_def undelivered_def terminal_def restamp_def obligation_to_def
      abandon_def take_over_def retry_def obligation_row_def)+

lemma obligation_session [simp]:
  "ob_session_key (restamp new r) = ob_session_key r"
  "ob_session_key (obligation_to now st err r) = ob_session_key r"
  "ob_session_key (sweep_effect probe pid started now ma sa r) = ob_session_key r"
  "ob_session_key (retry now r) = ob_session_key r"
  "ob_session_key (obligation_row pid started now i k content) = storage_key k"
  by (simp_all add: restamp_def obligation_to_def abandon_def take_over_def retry_def
      obligation_row_def sweep_effect_def)

lemma obligation_ok_sweep: "obligation_ok r \<Longrightarrow> obligation_ok (sweep_effect probe pid started now ma sa r)"
  by (simp add: sweep_effect_def obligation_ok_steps)

lemma db_wf_record_obligation:
  assumes "db_wf db"
  shows "db_wf (record_obligation pid started now i k content db)"
proof -
  have wf: "db_wf (ensure_session k db)" using assms by (rule db_wf_ensure_session)
  show ?thesis
    unfolding record_obligation_def Let_def
    using wf db_wfD(2,4) [OF wf]
    by (intro db_wf_obligations restamp.distinct_upsert list_all_upsert)
      (auto simp: obligation_ok_steps)
qed

lemma db_wf_update_obligation_state:
  assumes "db_wf db" and "update_obligation_state now i st err db = Inr db'"
  shows "db_wf db'"
proof -
  have "db_wf (db\<lparr>db_obligations := fst (sql_update p (obligation_to now st err) (db_obligations db))\<rparr>)" for p
    using assms(1) db_wfD(2,4) [OF assms(1)]
    by (intro db_wf_obligations obligation_to.distinct_update list_all_update)
      (auto simp: obligation_ok_steps)
  with assms(2) show ?thesis
    by (auto simp: update_obligation_state_def split_def Let_def split: if_splits)
qed

lemma db_wf_map_obligations:
  assumes "db_wf db" and "\<And>r. ob_id (f r) = ob_id r" and "\<And>r. ob_session_key (f r) = ob_session_key r"
    and "\<And>r. obligation_ok r \<Longrightarrow> obligation_ok (f r)"
  shows "db_wf (db\<lparr>db_obligations := map f (db_obligations db)\<rparr>)"
proof (rule db_wf_obligations [OF assms(1)])
  have "ob_id \<circ> f = ob_id" using assms(2) by auto
  then show "distinct (map ob_id (map f (db_obligations db)))"
    using db_wfD(2) [OF assms(1)] by simp
qed (use db_wfD(4) [OF assms(1)] assms(3,4) in \<open>auto simp: list_all_iff\<close>)

lemma ob_id_steps [simp]:
  "ob_id (retry now r) = ob_id r"
  "ob_id (sweep_effect probe pid started now ma sa r) = ob_id r"
  "ob_id (obligation_to now st err r) = ob_id r"
  by (simp_all add: retry_def sweep.key_update obligation_to.key_update)

lemma db_wf_prune: "db_wf db \<Longrightarrow> db_wf (fst (prune_terminal_obligations now ret mx db))"
  by (auto simp: prune_terminal_obligations_def Let_def split_def
      intro!: db_wf_obligations distinct_sql_delete list_all_delete dest: db_wfD)

lemma db_wf_step: "db_wf db \<Longrightarrow> db_wf (ledger_step jd op db)"
proof (cases op)
  case (SweepRecoverable probe pid started now ma sa)
  assume wf: "db_wf db"
  then show ?thesis
    unfolding SweepRecoverable ledger_step.simps sweep_recoverable_eq [OF db_wfD(2) [OF wf]] fst_conv
    by (rule db_wf_map_obligations) (auto simp: obligation_ok_sweep)
next
  case (SweepFailed pid started now b ma sa)
  assume wf: "db_wf db"
  then show ?thesis
    unfolding SweepFailed ledger_step.simps sweep_failed_for_runtime_eq [OF db_wfD(2) [OF wf]]
    by (rule db_wf_map_obligations) (auto simp: obligation_ok_steps)
qed (auto simp: or_keep_def db_wf_record_incoming_as db_wf_record_merged db_wf_record_obligation db_wf_prune
    split: sum.splits intro: db_wf_complete db_wf_update_obligation_state)

subsection \<open>Claiming a message\<close>

definition claimed_live :: "string \<Rightarrow> Db \<Rightarrow> bool" where
  "claimed_live m db \<longleftrightarrow>
     (case sql_get le_message_id m (db_ledger db) of None \<Rightarrow> False | Some r \<Rightarrow> le_status r \<noteq> ''failed'')"

fun fails_message :: "string \<Rightarrow> LedgerOp \<Rightarrow> Db \<Rightarrow> bool" where
  "fails_message m (Complete now x ok err) db \<longleftrightarrow> \<not> ok \<and> (x = m \<or> (x, m) \<in> set (db_constituents db))"
| "fails_message m op db \<longleftrightarrow> False"

fun failure_free :: "(int \<Rightarrow> int \<Rightarrow> int) \<Rightarrow> string \<Rightarrow> LedgerOp list \<Rightarrow> Db \<Rightarrow> bool" where
  "failure_free jd m [] db \<longleftrightarrow> True"
| "failure_free jd m (op # ops) db \<longleftrightarrow>
     \<not> fails_message m op db \<and> failure_free jd m ops (ledger_step jd op db)"

lemma row_key [simp]: "le_message_id (ledger_row ev m p) = m" "le_status (ledger_row ev m p) = ''in_progress''"
  by (simp_all add: ledger_row_def)

lemma reclaim_status [simp]: "le_status (reclaim at r) = ''in_progress''"
  by (simp add: reclaim_def)

lemma completed_status [simp]: "le_status (completed jd now st err r) = status_name st"
  by (simp add: completed_def)

lemma record_incoming_as_tables:
  "db_ledger (fst (record_incoming_as ev m db)) =
     fst (sql_upsert le_message_id (\<lambda>r. le_status r = ''failed'') (reclaim (ev_received_at ev))
       (ledger_row ev m (ev_platform_message_id ev)) (db_ledger db))"
  "db_constituents (fst (record_incoming_as ev m db)) = db_constituents db"
  by (simp_all add: record_incoming_as_def split_def Let_def)

lemma record_incoming_as_accepts:
  assumes "db_wf db"
  shows "snd (record_incoming_as ev m db) \<longleftrightarrow> \<not> claimed_live m db"
proof -
  let ?w = "\<lambda>r. le_status r = ''failed''"
  have "snd (record_incoming_as ev m db) \<longleftrightarrow> snd (sql_upsert le_message_id ?w (reclaim (ev_received_at ev))
      (ledger_row ev m (ev_platform_message_id ev)) (db_ledger db)) = 1"
    by (simp add: record_incoming_as_def split_def Let_def)
  also have "\<dots> \<longleftrightarrow> \<not> claimed_live m db"
    using db_wfD(1) [OF assms] by (simp add: reclaim.affected_upsert claimed_live_def split: option.splits)
  finally show ?thesis .
qed

lemma claimed_live_record_incoming_as:
  "claimed_live m (fst (record_incoming_as ev x db)) \<longleftrightarrow> x = m \<or> claimed_live m db"
  by (auto simp: claimed_live_def record_incoming_as_tables reclaim.get_upsert split: option.splits)

lemma claimed_live_ensure [simp]: "claimed_live m (ensure_session k db) = claimed_live m db"
  by (simp add: claimed_live_def)

lemma claimed_live_link [simp]: "claimed_live m (link_constituent p c db) = claimed_live m db"
  by (simp add: claimed_live_def link_constituent_def)

lemma claimed_live_fold_constituents:
  "claimed_live m db \<Longrightarrow> claimed_live m (fold (record_constituent ev x) cs db)"
proof (induction cs arbitrary: db)
  case (Cons c cs)
  then have "claimed_live m (record_constituent ev x c db)"
    by (auto simp: record_constituent_def) (auto simp: claimed_live_def sql_get_insert_ignore split: option.splits)
  with Cons.IH show ?case by simp
qed simp

lemma snd_image_fst_eq [simp]: "c \<in> snd ` {e \<in> X. fst e = x} \<longleftrightarrow> (x, c) \<in> X"
  by force

lemma get_complete:
  assumes "complete jd now x st err db = Inr db'"
  shows "sql_get le_message_id m (db_ledger db') =
     map_option (\<lambda>r. if x = m \<or> (x, m) \<in> set (db_constituents db)
        then completed jd now st err r else r) (sql_get le_message_id m (db_ledger db))"
proof -
  have idem: "completed jd now st err (completed jd now st err r) = completed jd now st err r" for r
    by (simp add: completed_def)
  show ?thesis
    using assms sql_get_SomeD [of le_message_id m "db_ledger db"]
    by (cases "sql_get le_message_id m (db_ledger db)")
      (auto simp: complete_def Let_def split_def completed.get_update completed.key_update idem
        split: if_splits)
qed

lemma claimed_live_step:
  assumes "claimed_live m db" and "\<not> fails_message m op db"
  shows "claimed_live m (ledger_step jd op db)"
proof (cases op)
  case (RecordIncoming ev x)
  then show ?thesis using assms by (simp add: claimed_live_record_incoming_as)
next
  case (RecordMerged ev x cs)
  then show ?thesis
    using assms(1)
    by (auto simp: record_incoming_with_constituents_def Let_def split_def claimed_live_record_incoming_as
        intro!: claimed_live_fold_constituents)
next
  case (Complete now x ok err)
  then show ?thesis
    using assms
    by (auto simp: or_keep_def claimed_live_def get_complete split: sum.splits option.splits)
qed (use assms(1) in \<open>auto simp: claimed_live_def or_keep_def record_obligation_def
    update_obligation_state_def sweep_recoverable_def sweep_failed_for_runtime_def
    prune_terminal_obligations_def Let_def split_def split: sum.splits if_splits\<close>)

lemma claimed_live_run:
  "claimed_live m db \<Longrightarrow> failure_free jd m ops db \<Longrightarrow> claimed_live m (fold (ledger_step jd) ops db)"
  by (induction ops arbitrary: db) (simp_all add: claimed_live_step)

interpretation ledger: run_invariant "ledger_step jd" "\<lambda>_. True" db_wf for jd
  by unfold_locales (simp add: db_wf_step)

lemma db_wf_run: "db_wf db \<Longrightarrow> db_wf (fold (ledger_step jd) ops db)"
  by (rule ledger.run) (simp_all add: list_all_iff)

lemma db_wf_empty [simp]: "db_wf db_empty"
  by (simp add: db_wf_def db_empty_def)

text \<open>C20: every database the service can reach is well formed: the keys of the four tables are
  unique, each ledger row and obligation belongs to a known session, statuses are among the
  documented ones, a row that is no longer in progress has a completion time, and no attempt
  counter is negative.\<close>

theorem ledger_invariant: "db_wf (fold (ledger_step jd) ops db_empty)"
  by (intro db_wf_run db_wf_empty)

text \<open>C5: a message is processed once.  After a delivery has been claimed, no other claim of
  the same message succeeds, whatever the service does in between (merges, completions, sweeps,
  prunings), as long as the message itself, or a delivery it was merged into, is not marked
  failed; and marking it failed makes it claimable again.\<close>

theorem message_claimed_once:
  assumes "db_wf db" and "record_incoming_as ev m db = (db1, True)"
  shows "(failure_free jd m ops db1 \<longrightarrow>
      \<not> snd (record_incoming_as ev' m (fold (ledger_step jd) ops db1))) \<and>
    (\<exists>db2. mark_failed jd now m err db1 = Inr db2 \<and> snd (record_incoming_as ev' m db2))"
proof
  have db1: "db1 = fst (record_incoming_as ev m db)" using assms(2) by simp
  have wf: "db_wf db1" unfolding db1 by (rule db_wf_record_incoming_as [OF assms(1)])
  have live: "claimed_live m db1" unfolding db1 by (simp add: claimed_live_record_incoming_as)
  show "failure_free jd m ops db1 \<longrightarrow> \<not> snd (record_incoming_as ev' m (fold (ledger_step jd) ops db1))"
    using claimed_live_run [OF live] record_incoming_as_accepts [OF db_wf_run [OF wf]] by blast
  from live obtain r where r: "sql_get le_message_id m (db_ledger db1) = Some r"
    by (auto simp: claimed_live_def split: option.splits)
  have "le_message_id r = m" "r \<in> set (db_ledger db1)" using sql_get_SomeD [OF r] by auto
  then have "filter (\<lambda>r. le_message_id r = m) (db_ledger db1) \<noteq> []"
    by (auto simp: filter_empty_conv)
  then obtain db2 where db2: "mark_failed jd now m err db1 = Inr db2"
    by (auto simp: mark_failed_def complete_def sql_update_def Let_def)
  have "db_wf db2"
    using db_wf_complete [OF wf, of jd now m False "Some err"] db2 by (simp add: mark_failed_def)
  moreover have "\<not> claimed_live m db2"
    using get_complete [OF db2 [unfolded mark_failed_def], of m] r by (simp add: claimed_live_def)
  ultimately show "\<exists>db2. mark_failed jd now m err db1 = Inr db2 \<and> snd (record_incoming_as ev' m db2)"
    using db2 record_incoming_as_accepts by blast
qed

theorem message_claimed_once_witness:
  "\<exists>ev db1. record_incoming_as ev ''discord:1'' db_empty = (db1, True) \<and>
     \<not> snd (record_incoming_as ev ''discord:1''
         (fold (ledger_step (\<lambda>a b. a - b)) [Complete 7 ''discord:1'' True None] db1)) \<and>
     (\<exists>db2. mark_failed (\<lambda>a b. a - b) 9 ''discord:1'' ''boom'' db1 = Inr db2 \<and>
        snd (record_incoming_as ev ''discord:1'' db2))"
proof -
  let ?ev = "event_message ''e1'' 5 (session_key_new ''discord'' None ''c'' None ''u'') ''1'' ''hello''"
  obtain db1 where 1: "record_incoming_as ?ev ''discord:1'' db_empty = (db1, True)"
    using record_incoming_as_accepts [OF db_wf_empty, of ?ev "''discord:1''"]
    by (cases "record_incoming_as ?ev ''discord:1'' db_empty") (auto simp: claimed_live_def db_empty_def)
  have "failure_free (\<lambda>a b. a - b) ''discord:1'' [Complete 7 ''discord:1'' True None] db1"
    by simp
  with message_claimed_once [OF db_wf_empty 1, of "\<lambda>a b. a - b" "[Complete 7 ''discord:1'' True None]" ?ev 9 "''boom''"]
  show ?thesis using 1 by blast
qed

subsection \<open>Merged deliveries\<close>

definition listed :: "string \<Rightarrow> Db \<Rightarrow> bool" where
  "listed m db \<longleftrightarrow> sql_get le_message_id m (db_ledger db) \<noteq> None"

lemma listed_is_duplicate: "listed m db \<Longrightarrow> is_duplicate m db"
  using sql_get_SomeD [of le_message_id m "db_ledger db"]
  by (auto simp: listed_def is_duplicate_def list_ex_iff names_row_def)

lemma record_constituent_get:
  "listed x (record_constituent ev m c db) \<longleftrightarrow> listed x db \<or> (x = c \<and> c \<noteq> m)"
  "sql_get snd x (db_constituents (record_constituent ev m c db)) =
     (if x = c \<and> c \<noteq> m then Some (m, c) else sql_get snd x (db_constituents db))"
  by (auto simp: record_constituent_def link_constituent_def listed_def sql_get_insert_ignore
      link.get_upsert split: option.splits dest: sql_get_SomeD)

lemma fold_constituents_get:
  "listed x (fold (record_constituent ev m) cs db) \<longleftrightarrow> listed x db \<or> (x \<in> set cs \<and> x \<noteq> m)"
  "sql_get snd x (db_constituents (fold (record_constituent ev m) cs db)) =
     (if x \<in> set cs \<and> x \<noteq> m then Some (m, x) else sql_get snd x (db_constituents db))"
  by (induction cs arbitrary: db) (auto simp: record_constituent_get)

lemma record_merged_eq:
  assumes "\<not> list_ex (\<lambda>c. is_duplicate c db) (m # cs)"
  shows "record_incoming_with_constituents ev m cs db =
    (fold (record_constituent ev m) cs
       (link_constituent m m (fst (record_incoming_as ev m (ensure_session (ev_session ev) db)))), True)"
proof -
  have "is_duplicate c (ensure_session k db) = is_duplicate c db" for c k
    by (simp add: is_duplicate_def)
  moreover have "\<not> list_ex (\<lambda>r. le_message_id r = m) (db_ledger db)"
    using assms by (auto simp: is_duplicate_def list_ex_iff names_row_def)
  then have "snd (record_incoming_as ev m (ensure_session (ev_session ev) db))"
    by (simp add: record_incoming_as_def sql_upsert_def Let_def)
  ultimately show ?thesis
    using assms by (simp add: record_incoming_with_constituents_def Let_def split_def)
qed

lemma completed_row:
  assumes "complete jd now m Delivered err db = Inr db'"
    and "listed c db" and "c = m \<or> (m, c) \<in> set (db_constituents db)"
  shows "is_completed c db'"
proof -
  from assms(2) obtain r where r: "sql_get le_message_id c (db_ledger db) = Some r"
    by (auto simp: listed_def)
  let ?r = "completed jd now Delivered err r"
  have "sql_get le_message_id c (db_ledger db') = Some ?r"
    using get_complete [OF assms(1), of c] r assms(3) by auto
  then show ?thesis
    using sql_get_SomeD [of le_message_id c "db_ledger db'" ?r]
    by (auto simp: is_completed_def list_ex_iff names_row_def intro!: bexI [of _ ?r])
qed

text \<open>A merged delivery is accepted exactly when neither it nor any of the messages merged
  into it was seen before, under any of their names.  Once accepted, all of them count as seen,
  and marking the delivery delivered marks them all delivered.\<close>

theorem merged_delivery:
  "snd (record_incoming_with_constituents ev m cs db) = (\<not> list_ex (\<lambda>c. is_duplicate c db) (m # cs)) \<and>
   (snd (record_incoming_with_constituents ev m cs db) \<longrightarrow>
     (let db' = fst (record_incoming_with_constituents ev m cs db) in
      list_all (\<lambda>c. is_duplicate c db') (m # cs) \<and>
      (\<exists>db''. mark_delivered jd now m db' = Inr db'' \<and>
         list_all (\<lambda>c. is_completed c db'') (m # cs))))"
proof (cases "list_ex (\<lambda>c. is_duplicate c db) (m # cs)")
  case True
  moreover have "is_duplicate c (ensure_session k db) = is_duplicate c db" for c k
    by (simp add: is_duplicate_def)
  ultimately show ?thesis
    by (auto simp: record_incoming_with_constituents_def Let_def)
next
  case False
  define db' where "db' = fst (record_incoming_with_constituents ev m cs db)"
  have rec: "record_incoming_with_constituents ev m cs db = (db', True)"
    using record_merged_eq [OF False] by (simp add: db'_def)
  let ?db1 = "link_constituent m m (fst (record_incoming_as ev m (ensure_session (ev_session ev) db)))"
  have db': "db' = fold (record_constituent ev m) cs ?db1"
    using record_merged_eq [OF False] by (simp add: db'_def)
  have "listed m ?db1"
    by (simp add: listed_def link_constituent_def record_incoming_as_tables reclaim.get_upsert)
  then have listed: "listed c db'" if "c \<in> set (m # cs)" for c
    using that unfolding db' by (auto simp: fold_constituents_get)
  then have seen: "list_all (\<lambda>c. is_duplicate c db') (m # cs)"
    by (simp add: list_all_iff listed_is_duplicate)
  have link: "(m, c) \<in> set (db_constituents db')" if "c \<in> set cs" "c \<noteq> m" for c
    using that sql_get_SomeD [of snd c "db_constituents db'" "(m, c)"]
    unfolding db' by (auto simp: fold_constituents_get)
  obtain db'' where db'': "complete jd now m Delivered None db' = Inr db''"
    using listed [of m] sql_get_SomeD [of le_message_id m "db_ledger db'"]
    by (fastforce simp: complete_def sql_update_def Let_def listed_def filter_empty_conv)
  have "list_all (\<lambda>c. is_completed c db'') (m # cs)"
    unfolding list_all_iff using completed_row [OF db''] listed link by auto
  with False rec seen db'' show ?thesis
    by (auto simp: mark_delivered_def Let_def)
qed

theorem merged_delivery_witness:
  "\<exists>ev. let r = record_incoming_with_constituents ev ''discord:3'' [''discord:1'', ''discord:2''] db_empty in
     snd r \<and> is_duplicate ''discord:2'' (fst r) \<and>
     (\<exists>db''. mark_delivered (\<lambda>a b. a - b) 9 ''discord:3'' (fst r) = Inr db'' \<and> is_completed ''discord:1'' db'')"
proof -
  let ?ev = "event_message ''e3'' 5 (session_key_new ''discord'' None ''c'' None ''u'') ''3'' ''hello''"
  have "\<not> list_ex (\<lambda>c. is_duplicate c db_empty) [''discord:3'', ''discord:1'', ''discord:2'']"
    by (simp add: is_duplicate_def db_empty_def)
  then show ?thesis
    using merged_delivery [of ?ev "''discord:3''" "[''discord:1'', ''discord:2'']" db_empty "\<lambda>a b. a - b" 9]
    by (auto simp: Let_def intro!: exI [of _ ?ev])
qed

subsection \<open>Outbound obligations: sweeps\<close>

lemma get_sweep_recoverable:
  assumes "db_wf db"
  shows "get_obligation i (fst (sweep_recoverable probe pid started now ma sa db)) =
    map_option (\<lambda>r. if undelivered r then sweep_effect probe pid started now ma sa r else r) (get_obligation i db)"
  using sweep.get_update [of i undelivered probe pid started now ma sa "db_obligations db"]
  by (simp add: sweep_recoverable_eq [OF db_wfD(2) [OF assms]] get_obligation_def sql_update_def)

lemma ob_id_claimed_copy [simp]: "ob_id (claimed_copy pid started r) = ob_id r"
  by (simp add: claimed_copy_def)

lemma distinct_selection:
  "db_wf db \<Longrightarrow> distinct (map ob_id (filter p (sort_key k (filter q (db_obligations db)))))"
  by (auto simp: db_wf_def distinct_map inj_on_def)



text \<open>No two processes redeliver one reply.  When two processes have read the same row and
  one claims it, the other's claim finds no row, provided the row's previous owner did not have
  the first process's number.\<close>

theorem claim_row_exclusive:
  assumes "distinct (map ob_id obs)" and "p1 \<noteq> p2" and "ob_owner_pid row \<noteq> Some p1"
    and "claim_row p1 s1 t1 row obs = (obs1, n)" and "0 < n"
  shows "snd (claim_row p2 s2 t2 row obs1) = 0"
proof -
  have obs1: "obs1 = map (\<lambda>r. if ob_id r = ob_id row \<and> claimable p1 row r then take_over p1 s1 t1 r else r) obs"
    and n: "n = length (filter (\<lambda>r. ob_id r = ob_id row \<and> claimable p1 row r) obs)"
    using assms(4) by (simp_all add: claim_row_def sql_update_def)
  from n assms(5) obtain r0 where r0: "r0 \<in> set obs" "ob_id r0 = ob_id row" "claimable p1 row r0"
    by (auto simp: filter_empty_conv)
  have "r = r0" if "r \<in> set obs" "ob_id r = ob_id row" for r
    using row_by_key [OF assms(1) that(1) r0(1)] that r0(2) by simp
  then have "ob_owner_pid r = Some p1" if "r \<in> set obs1" "ob_id r = ob_id row" for r
    using that r0(3) unfolding obs1 by (auto simp: take_over_def split: if_splits)
  then have "\<not> claimable p2 row r" if "r \<in> set obs1" "ob_id r = ob_id row" for r
    using that assms(2,3) by (fastforce simp: claimable_def)
  then show ?thesis
    by (auto simp: claim_row_def sql_update_def filter_empty_conv)
qed

definition sample_obligation :: DeliveryObligation where
  "sample_obligation = obligation_row 41 ''A'' 0 ''o1'' (session_key_new ''discord'' None ''c'' None ''u'') ''hi''"

theorem claim_row_exclusive_witness:
  "snd (claim_row 43 ''C'' 2 sample_obligation (fst (claim_row 42 ''B'' 1 sample_obligation [sample_obligation]))) = 0"
proof -
  have "claim_row 42 ''B'' 1 sample_obligation [sample_obligation] =
      ([take_over 42 ''B'' 1 sample_obligation], 1)"
    by (simp add: claim_row_def sql_update_def)
  then show ?thesis
    using claim_row_exclusive [of "[sample_obligation]" 42 43 sample_obligation "''B''" 1 _ _ "''C''" 2]
    by (simp add: sample_obligation_def obligation_row_def)
qed

text \<open>The sweep does not spare the rows of other live processes.  Process 42, starting
  while process 41 is alive and owns a reply it has just recorded, takes that reply over; and a
  row left by an earlier process with number 42 can be claimed by 42 and by 43.\<close>

theorem sweep_claims_live_row:
  "snd (sweep_recoverable (\<lambda>_. True) 42 ''B'' 0 3 86400 (db_empty\<lparr>db_obligations := [sample_obligation]\<rparr>)) =
     [claimed_copy 42 ''B'' sample_obligation] \<and>
   (let row = sample_obligation\<lparr>ob_owner_pid := Some 42\<rparr>;
        (obs1, n1) = claim_row 42 ''B'' 1 row [row];
        (obs2, n2) = claim_row 43 ''C'' 2 row obs1
    in n1 = 1 \<and> n2 = 1)"
proof -
  have "swept (\<lambda>_. True) 42 ''B'' 0 3 86400 sample_obligation" "undelivered sample_obligation"
    by (simp_all add: swept_def owner_alive_def exhausted_def num_seconds_def undelivered_def
        sample_obligation_def obligation_row_def)
  then show ?thesis
    by (subst sweep_recoverable_eq)
      (simp_all add: claim_row_def sql_update_def claimable_def take_over_def)
qed

subsection \<open>Pruning\<close>

lemma filter_out_taken:
  assumes "distinct (map key t)" and "set v \<subseteq> set t" and "distinct v"
  shows "length (filter (\<lambda>r. key r \<notin> key ` set v) t) = length t - length v"
proof -
  have "key r \<in> key ` set v \<longleftrightarrow> r \<in> set v" if "r \<in> set t" for r
    using row_by_key [OF assms(1)] that assms(2) by blast
  then have "filter (\<lambda>r. key r \<in> key ` set v) t = filter (\<lambda>r. r \<in> set v) t"
    by (intro filter_cong) simp_all
  moreover have "length (filter (\<lambda>r. r \<in> set v) t) = length v"
    using assms distinct_card [of v] distinct_card [of "filter (\<lambda>r. r \<in> set v) t"]
    by (simp add: distinct_map Int_absorb1 flip: Int_def [of "set t"])
  ultimately show ?thesis
    using sum_length_filter_compl [of "\<lambda>r. key r \<in> key ` set v" t] by simp
qed

lemma prune_excess:
  assumes "distinct (map ob_id obs)"
    and "v = take k (sort_key ob_updated_at (filter terminal obs))"
  shows "length (filter terminal (filter (\<lambda>r. ob_id r \<notin> ob_id ` set v) obs)) = length (filter terminal obs) - k"
    and "filter (\<lambda>r. \<not> terminal r) (filter (\<lambda>r. ob_id r \<notin> ob_id ` set v) obs) = filter (\<lambda>r. \<not> terminal r) obs"
proof -
  let ?t = "filter terminal obs"
  have v: "set v \<subseteq> set ?t" "distinct v" "length v = min (length ?t) k"
    using assms by (auto simp: distinct_map dest: in_set_takeD)
  have "distinct (map ob_id ?t)" using assms(1) by (simp add: distinct_map_filter)
  from filter_out_taken [OF this v(1,2)] v(3)
  show "length (filter terminal (filter (\<lambda>r. ob_id r \<notin> ob_id ` set v) obs)) = length ?t - k"
    by (simp add: conj_commute)
  have "ob_id r \<notin> ob_id ` set v" if "r \<in> set obs" "\<not> terminal r" for r
    using row_by_key [OF assms(1)] v(1) that by (auto simp: subset_iff)
  then show "filter (\<lambda>r. \<not> terminal r) (filter (\<lambda>r. ob_id r \<notin> ob_id ` set v) obs) = filter (\<lambda>r. \<not> terminal r) obs"
    unfolding filter_filter by (intro filter_cong) auto
qed

text \<open>Pruning never drops a reply that is still to be delivered, leaves at most the allowed
  number of finished ones, none of them older than the retention time, and reports the number of
  rows it removed.\<close>

theorem prune_terminal_outcome:
  assumes "db_wf db" and "prune_terminal_obligations now ret mx db = (db', n)"
  shows "filter (\<lambda>r. \<not> terminal r) (db_obligations db') = filter (\<lambda>r. \<not> terminal r) (db_obligations db) \<and>
    length (filter terminal (db_obligations db')) \<le> nat mx \<and>
    list_all (\<lambda>r. terminal r \<longrightarrow> now - ret * 1000000000 \<le> ob_updated_at r) (db_obligations db') \<and>
    n + length (db_obligations db') = length (db_obligations db)"
proof -
  let ?old = "\<lambda>r. terminal r \<and> ob_updated_at r < now - ret * 1000000000"
  define obs1 where "obs1 = filter (\<lambda>r. \<not> ?old r) (db_obligations db)"
  have d: "distinct (map ob_id obs1)"
    using db_wfD(2) [OF assms(1)] by (simp add: obs1_def distinct_map_filter)
  have keep: "filter (\<lambda>r. \<not> terminal r) obs1 = filter (\<lambda>r. \<not> terminal r) (db_obligations db)"
    unfolding obs1_def filter_filter by (intro filter_cong) auto
  have fresh: "list_all (\<lambda>r. terminal r \<longrightarrow> now - ret * 1000000000 \<le> ob_updated_at r) obs1"
    by (auto simp: obs1_def list_all_iff)
  have n1: "length (filter ?old (db_obligations db)) + length obs1 = length (db_obligations db)"
    unfolding obs1_def by (rule sum_length_filter_compl)
  let ?count = "length (filter terminal obs1)"
  show ?thesis
  proof (cases "int ?count > mx")
    case True
    define v where "v = take (nat (int ?count - mx)) (sort_key ob_updated_at (filter terminal obs1))"
    define obs2 where "obs2 = filter (\<lambda>r. ob_id r \<notin> ob_id ` set v) obs1"
    note excess = prune_excess [OF d v_def, folded obs2_def]
    have r: "db_obligations db' = obs2"
      "n = length (filter ?old (db_obligations db)) + length (filter (\<lambda>r. ob_id r \<in> ob_id ` set v) obs1)"
      using assms(2) True
      unfolding prune_terminal_obligations_def Let_def split_def sql_delete_def fst_conv snd_conv
        obs1_def [symmetric] set_map v_def [symmetric] obs2_def [symmetric] by auto
    moreover have "length (filter (\<lambda>r. ob_id r \<in> ob_id ` set v) obs1) + length obs2 = length obs1"
      unfolding obs2_def by (rule sum_length_filter_compl)
    moreover have "length (filter terminal obs2) \<le> nat mx"
      using True excess(1) by simp
    moreover have "list_all (\<lambda>r. terminal r \<longrightarrow> now - ret * 1000000000 \<le> ob_updated_at r) obs2"
      using fresh by (auto simp: obs2_def list_all_iff)
    ultimately show ?thesis using keep excess(2) n1 by simp
  next
    case False
    then have "db_obligations db' = obs1" "n = length (filter ?old (db_obligations db))"
      using assms(2)
      unfolding prune_terminal_obligations_def Let_def split_def sql_delete_def fst_conv snd_conv
        obs1_def [symmetric] by auto
    with False keep fresh n1 show ?thesis by simp
  qed
qed

theorem prune_terminal_outcome_witness:
  "\<exists>db'. prune_terminal_obligations 0 0 0 (ledger_step (\<lambda>a b. a - b) (SetObligation 5 ''o1'' ODelivered None)
      (record_obligation 41 ''A'' 0 ''o1'' (session_key_new ''discord'' None ''c'' None ''u'') ''hi'' db_empty)) = (db', 1) \<and>
     db_obligations db' = []"
proof -
  let ?k = "session_key_new ''discord'' None ''c'' None ''u''"
  let ?db = "ledger_step (\<lambda>a b. a - b) (SetObligation 5 ''o1'' ODelivered None)
    (record_obligation 41 ''A'' 0 ''o1'' ?k ''hi'' db_empty)"
  have wf: "db_wf ?db" by (intro db_wf_step db_wf_record_obligation db_wf_empty)
  have obs: "db_obligations ?db = [obligation_to 5 ODelivered None (obligation_row 41 ''A'' 0 ''o1'' ?k ''hi'')]"
    by (simp add: or_keep_def update_obligation_state_def record_obligation_def sql_upsert_def
        sql_update_def Let_def db_empty_def ensure_session_def obligation_row_def)
  have t: "terminal (obligation_to 5 ODelivered None r)" for r
    by (simp add: terminal_def obligation_to_def)
  obtain db' n where r: "prune_terminal_obligations 0 0 0 ?db = (db', n)"
    by (cases "prune_terminal_obligations 0 0 0 ?db") blast
  note out = prune_terminal_outcome [OF wf r, unfolded obs]
  have "filter (\<lambda>r. \<not> terminal r) (db_obligations db') = []" "filter terminal (db_obligations db') = []"
    using out t by auto
  then have "db_obligations db' = []"
    using sum_length_filter_compl [of terminal "db_obligations db'"] by simp
  with out r show ?thesis by auto
qed

subsection \<open>Recovery at startup\<close>

definition settled :: "dispatcher \<Rightarrow> int \<Rightarrow> DeliveryObligation \<Rightarrow> Db \<Rightarrow> Db" where
  "settled dispatch now ob db =
     (let e = dispatch (ob_id ob) (recovered_session ob db) (recovered_content ob) in
      db\<lparr>db_obligations := fst (sql_update (\<lambda>r. ob_id r = ob_id ob)
        (obligation_to now (if e = None then ODelivered else OFailed) e) (db_obligations db))\<rparr>)"

lemma update_obligation_state_ok:
  assumes "get_obligation i db \<noteq> None"
  shows "update_obligation_state now i st err db =
    Inr (db\<lparr>db_obligations := fst (sql_update (\<lambda>r. ob_id r = i) (obligation_to now st err) (db_obligations db))\<rparr>)"
proof -
  from assms obtain r where "r \<in> set (db_obligations db)" "ob_id r = i"
    by (auto simp: get_obligation_def dest: sql_get_SomeD)
  then have "filter (\<lambda>r. ob_id r = i) (db_obligations db) \<noteq> []"
    by (auto simp: filter_empty_conv)
  then show ?thesis by (simp add: update_obligation_state_def sql_update_def Let_def)
qed

lemma settled_sessions [simp]: "db_sessions (settled dispatch now ob db) = db_sessions db"
  by (simp add: settled_def Let_def)

lemma recovered_session_settled [simp]:
  "recovered_session ob (settled dispatch now ob' db) = recovered_session ob db"
  unfolding recovered_session_def settled_sessions by (rule refl)

lemma get_settled:
  "get_obligation i (settled dispatch now ob db) =
     map_option (\<lambda>r. if ob_id r = ob_id ob then
        (let e = dispatch (ob_id ob) (recovered_session ob db) (recovered_content ob)
         in obligation_to now (if e = None then ODelivered else OFailed) e r) else r) (get_obligation i db)"
  by (cases "get_obligation i db")
    (auto simp: settled_def Let_def get_obligation_def obligation_to.get_update)

lemma recover_step:
  assumes "get_obligation (ob_id ob) db \<noteq> None"
    and e_def: "e = dispatch (ob_id ob) (recovered_session ob db) (recovered_content ob)"
  shows "recover_loop dispatch now (ob # obs) db n =
    (let (db', sent, r) = recover_loop dispatch now obs (settled dispatch now ob db) (if e = None then n + 1 else n)
     in (db', (ob_id ob, recovered_session ob db, recovered_content ob) # sent, r))"
proof -
  let ?db1 = "db\<lparr>db_obligations := fst (sql_update (\<lambda>r. ob_id r = ob_id ob)
    (obligation_to now OAttempting None) (db_obligations db))\<rparr>"
  have a: "mark_obligation_attempting now (ob_id ob) db = Inr ?db1"
    unfolding mark_obligation_attempting_def by (rule update_obligation_state_ok [OF assms(1)])
  have g: "get_obligation (ob_id ob) ?db1 \<noteq> None"
    using assms(1) by (simp add: get_obligation_def obligation_to.get_update)
  have "obligation_to now st err (obligation_to now OAttempting None r) = obligation_to now st err r" for st err r
    by (simp add: obligation_to_def)
  then have u: "update_obligation_state now (ob_id ob) st err ?db1 =
      Inr (db\<lparr>db_obligations := fst (sql_update (\<lambda>r. ob_id r = ob_id ob) (obligation_to now st err) (db_obligations db))\<rparr>)"
    for st err
    using update_obligation_state_ok [OF g] by (auto simp: sql_update_def)
  have "(case e of None \<Rightarrow> mark_obligation_delivered now (ob_id ob) ?db1
       | Some err \<Rightarrow> mark_obligation_failed now (ob_id ob) err ?db1) = Inr (settled dispatch now ob db)"
    by (cases e)
      (simp_all add: u settled_def e_def [symmetric] mark_obligation_delivered_def mark_obligation_failed_def)
  then show ?thesis
    by (simp add: a e_def [symmetric] Let_def split: prod.splits)
qed

lemma recover_loop_eq:
  assumes "\<forall>ob \<in> set obs. get_obligation (ob_id ob) db \<noteq> None"
  shows "recover_loop dispatch now obs db n =
    (fold (settled dispatch now) obs db,
     map (\<lambda>ob. (ob_id ob, recovered_session ob db, recovered_content ob)) obs,
     Inr (n + length (filter (\<lambda>ob. dispatch (ob_id ob) (recovered_session ob db) (recovered_content ob) = None) obs)))"
  using assms
proof (induction obs arbitrary: db n)
  case (Cons ob obs)
  have "\<forall>x \<in> set obs. get_obligation (ob_id x) (settled dispatch now ob db) \<noteq> None"
    using Cons.prems by (simp add: get_settled)
  from Cons.IH [OF this] Cons.prems show ?case
    by (simp add: recover_step [OF _ refl] Let_def del: recover_loop.simps(2))
qed simp

lemma get_obligation_id: "get_obligation i db = Some r \<Longrightarrow> ob_id r = i"
  by (auto simp: get_obligation_def dest: sql_get_SomeD)

lemma get_fold_settled_other:
  "i \<notin> ob_id ` set obs \<Longrightarrow> get_obligation i (fold (settled dispatch now) obs db) = get_obligation i db"
proof (induction obs arbitrary: db)
  case (Cons ob obs)
  then show ?case by (cases "get_obligation i db") (auto simp: get_settled dest: get_obligation_id)
qed simp

lemma get_fold_settled:
  assumes "distinct (map ob_id obs)" and "ob \<in> set obs" and "get_obligation (ob_id ob) db = Some r"
  shows "get_obligation (ob_id ob) (fold (settled dispatch now) obs db) =
    Some (let e = dispatch (ob_id ob) (recovered_session ob db) (recovered_content ob)
          in obligation_to now (if e = None then ODelivered else OFailed) e r)"
  using assms
proof (induction obs arbitrary: db r)
  case (Cons x obs)
  have id: "ob_id r = ob_id ob"
    using Cons.prems(3) by (rule get_obligation_id)
  show ?case
  proof (cases "x = ob")
    case True
    with Cons.prems id show ?thesis
      by (simp add: get_fold_settled_other get_settled Let_def)
  next
    case False
    with Cons.prems have "ob \<in> set obs" "ob_id ob \<noteq> ob_id x" by (auto simp: image_iff)
    with Cons id show ?thesis by (simp add: get_settled)
  qed
qed simp

text \<open>C27: the recovery at startup always runs to its end.  It sends each claimed reply once, in
  the order of the sweep, to the session stored with it, with the duplicate warning unless the
  reply was never tried; it records each as delivered or failed as the dispatcher answered, and
  returns the number delivered.\<close>

theorem recovery_settles_all:
  assumes "db_wf db" and "sweep_recoverable probe pid started now 3 86400 db = (db1, claimed)"
  shows "\<exists>db'. recover_pending_delivery_obligations dispatch probe pid started now db =
      (db', map (\<lambda>ob. (ob_id ob, recovered_session ob db, recovered_content ob)) claimed,
       Inr (length (filter (\<lambda>ob. dispatch (ob_id ob) (recovered_session ob db) (recovered_content ob) = None) claimed))) \<and>
    list_all (\<lambda>ob. map_option (\<lambda>r. (ob_state r, ob_last_error r)) (get_obligation (ob_id ob) db') =
      Some (case dispatch (ob_id ob) (recovered_session ob db) (recovered_content ob) of
              None \<Rightarrow> (''delivered'', None) | Some err \<Rightarrow> (''failed'', Some err))) claimed"
proof -
  have s: "sweep_recoverable probe pid started now 3 86400 db =
    (db\<lparr>db_obligations := map (\<lambda>r. if undelivered r then sweep_effect probe pid started now 3 86400 r else r)
        (db_obligations db)\<rparr>,
     map (claimed_copy pid started) (filter (swept probe pid started now 3 86400)
       (sort_key ob_created_at (filter undelivered (db_obligations db)))))"
    by (rule sweep_recoverable_eq [OF db_wfD(2) [OF assms(1)]])
  have "db_sessions db1 = db_sessions db" using assms(2) unfolding s by auto
  then have sess: "recovered_session ob db1 = recovered_session ob db" for ob
    unfolding recovered_session_def by (simp only:)
  have ids: "ob_id ob \<in> ob_id ` set (db_obligations db)" if "ob \<in> set claimed" for ob
    using that assms(2) unfolding s by auto
  have d: "distinct (map ob_id claimed)"
    using assms(2) distinct_selection [OF assms(1)] unfolding s by (auto simp: comp_def)
  have known: "\<exists>r. get_obligation (ob_id ob) db1 = Some r" if "ob \<in> set claimed" for ob
    using ids [OF that] get_sweep_recoverable [OF assms(1), of "ob_id ob" probe pid started now 3 86400]
      sql_get_None_iff [of ob_id "ob_id ob" "db_obligations db"] assms(2)
    by (auto simp: get_obligation_def)
  have "map_option (\<lambda>r. (ob_state r, ob_last_error r)) (get_obligation (ob_id ob) (fold (settled dispatch now) claimed db1)) =
      Some (case dispatch (ob_id ob) (recovered_session ob db) (recovered_content ob) of
              None \<Rightarrow> (''delivered'', None) | Some err \<Rightarrow> (''failed'', Some err))" if "ob \<in> set claimed" for ob
    using known [OF that] get_fold_settled [OF d that, of db1 _ dispatch now]
    by (auto simp: sess Let_def obligation_to_def split: option.splits)
  then show ?thesis
    using recover_loop_eq [of claimed db1 dispatch now 0] known assms(2)
    by (auto simp: recover_pending_delivery_obligations_def sess list_all_iff)
qed

theorem recovery_settles_all_witness:
  "\<exists>db db' sent. recover_pending_delivery_obligations (\<lambda>_ _ _. None) (\<lambda>_. False) 42 ''B'' 0 db = (db', sent, Inr 1) \<and>
     map_option ob_state (get_obligation ''o1'' db') = Some ''delivered''"
proof -
  let ?k = "session_key_new ''discord'' None ''c'' None ''u''"
  let ?db = "record_obligation 41 ''A'' 0 ''o1'' ?k ''hi'' db_empty"
  let ?row = "obligation_row 41 ''A'' 0 ''o1'' ?k ''hi''"
  let ?sw = "sweep_recoverable (\<lambda>_. False) 42 ''B'' 0 3 86400 ?db"
  have wf: "db_wf ?db" by (intro db_wf_record_obligation db_wf_empty)
  have obs: "db_obligations ?db = [?row]"
    by (simp add: record_obligation_def Let_def sql_upsert_def db_empty_def ensure_session_def)
  have row: "undelivered ?row" "swept (\<lambda>_. False) 42 ''B'' 0 3 86400 ?row"
    by (simp_all add: obligation_row_def undelivered_def swept_def owner_alive_def is_process_alive_def
        exhausted_def num_seconds_def)
  have claimed: "snd ?sw = [claimed_copy 42 ''B'' ?row]"
    using row by (simp add: sweep_recoverable_eq [OF db_wfD(2) [OF wf]] obs)
  have "?sw = (fst ?sw, [claimed_copy 42 ''B'' ?row])"
    by (simp add: prod_eq_iff claimed)
  from recovery_settles_all [OF wf this, of "\<lambda>_ _ _. None"] obtain db' sent where
    "recover_pending_delivery_obligations (\<lambda>_ _ _. None) (\<lambda>_. False) 42 ''B'' 0 ?db = (db', sent, Inr 1)"
    "map_option (\<lambda>r. (ob_state r, ob_last_error r)) (get_obligation ''o1'' db') = Some (''delivered'', None)"
    by (auto simp: obligation_row_def)
  then show ?thesis
    by (intro exI [of _ ?db] exI [of _ db'] exI [of _ sent])
      (cases "get_obligation ''o1'' db'"; simp)
qed

end
