(* ===== verification/Session_Actor.thy ===== *)
theory Session_Actor
  imports Gateway_Events "HOL-Library.Multiset" "HOL-Library.Sublist"
begin

section \<open>The session actor\<close>

text \<open>
  \<open>SessionActor::run\<close> of \<open>src/multiplexer/actor.rs\<close> as a state machine.  The state has the
  actor's fields, its mailbox (the channel), the queue of events that arrived during a turn, the
  active turn, the stored state of the session's row, and the log of everything the actor did
  to the outside.  One step is one iteration of the loop, of the inner loop of a turn, or the
  end of a turn; what the database, the runner and the clock answer in a step is the record
  \<open>Env\<close>.  Reply channels are numbers.  A completion call for an event that carries no delivery
  claim does nothing; it is logged all the same, so that every event has its outcome in the log.
  A flush or insert that fails leaves the stored row as it was.
\<close>

datatype ActorCommand =
    CEvent InboundEvent
  | CEventWithAck InboundEvent nat
  | CStop nat
  | CEvictIfIdle int nat
  | CTouchActivity
  | CSetModel string nat
  | CReset nat
  | CGetContext nat

datatype Effect =
    DeliveryDone "string option" "string option"
  | AckSent nat "OmonError + unit"
  | BoolReply nat "OmonError + bool"
  | UnitReply nat "OmonError + unit"
  | ContextReply nat SessionContext
  | Persisted InboundEvent
  | RunnerCancelled
  | RolledBack string
  | MarkedResumePending
  | ClearedResumePending
  | Dispatched OutboundAction

record Turn =
  tu_event :: InboundEvent
  tu_ctx :: SessionContext

record Actor =
  ac_ctx :: SessionContext
  ac_mailbox :: "ActorCommand list"
  ac_pending :: "ActorCommand list"
  ac_turn :: "Turn option"
  ac_last_active :: int
  ac_dirty :: bool
  ac_binding_cleared :: bool
  ac_pending_ack :: "nat option"
  ac_stored :: "SessionState option"
  ac_stopped :: bool
  ac_log :: "Effect list"

record Env =
  en_now :: int
  en_instant :: int
  en_seen :: "OmonError + bool"
  en_persist :: "OmonError option"
  en_flush :: "OmonError option"
  en_cancel :: "OmonError option"
  en_dispatcher :: bool

datatype TurnOutcome =
    Completed "OmonError + unit"
  | Stopped nat
  | Shutdown

abbreviation max_pending_events :: nat where
  "max_pending_events \<equiv> 64"

definition actor_load :: "SessionContext \<Rightarrow> SessionState option \<Rightarrow> int \<Rightarrow> Actor" where
  "actor_load ctx stored instant =
     \<lparr>ac_ctx = ctx, ac_mailbox = [], ac_pending = [], ac_turn = None, ac_last_active = instant,
      ac_dirty = False, ac_binding_cleared = False, ac_pending_ack = None, ac_stored = stored,
      ac_stopped = False, ac_log = []\<rparr>"

subsection \<open>Helpers\<close>

definition emit :: "Effect \<Rightarrow> Actor \<Rightarrow> Actor" where
  "emit e st = st\<lparr>ac_log := ac_log st @ [e]\<rparr>"

definition resolve_pending_ack :: "OmonError + unit \<Rightarrow> Actor \<Rightarrow> Actor" where
  "resolve_pending_ack r st =
     (case ac_pending_ack st of
        Some a \<Rightarrow> emit (AckSent a r) (st\<lparr>ac_pending_ack := None\<rparr>)
      | None \<Rightarrow> st)"

definition complete_delivery :: "string option \<Rightarrow> OmonError + unit \<Rightarrow> Actor \<Rightarrow> Actor" where
  "complete_delivery d r st =
     emit (DeliveryDone d (case r of Inr _ \<Rightarrow> None | Inl e \<Rightarrow> Some (error_to_string e))) st"

definition is_cron :: "Actor \<Rightarrow> bool" where
  "is_cron st \<longleftrightarrow> starts_with ''cron:'' (user_id (ctx_key (ac_ctx st)))"

definition send_typing :: "Env \<Rightarrow> bool \<Rightarrow> Actor \<Rightarrow> Actor" where
  "send_typing env active st =
     (if \<not> is_cron st \<and> en_dispatcher env
      then emit (Dispatched (Typing (ctx_key (ac_ctx st)) active)) st else st)"

definition react :: "Env \<Rightarrow> string \<Rightarrow> string \<Rightarrow> Actor \<Rightarrow> Actor" where
  "react env msg emoji st =
     (if en_dispatcher env \<and> msg \<noteq> ''''
      then emit (Dispatched (React (ctx_key (ac_ctx st)) msg emoji True)) st else st)"

text \<open>\<open>json_extract\<close> gives \<open>NULL\<close> for a missing entry and for a JSON null.\<close>

definition thread_binding :: "SessionState \<Rightarrow> json option" where
  "thread_binding s =
     (case metadata s ''omo_thread_id'' of Some JNull \<Rightarrow> None | x \<Rightarrow> x)"

definition flush_row :: "bool \<Rightarrow> SessionState \<Rightarrow> SessionState option \<Rightarrow> SessionState" where
  "flush_row cleared new stored =
     (let old = (case stored of Some s \<Rightarrow> s | None \<Rightarrow> new) in
      case (thread_binding old, thread_binding new) of
        (Some v, None) \<Rightarrow>
          if \<not> cleared then new\<lparr>metadata := (metadata new)(''omo_thread_id'' \<mapsto> v)\<rparr> else new
      | _ \<Rightarrow> new)"

definition flush_if_dirty :: "Env \<Rightarrow> Actor \<Rightarrow> Actor \<times> (OmonError + unit)" where
  "flush_if_dirty env st =
     (if \<not> ac_dirty st then (st, Inr ())
      else case en_flush env of
             Some e \<Rightarrow> (st, Inl e)
           | None \<Rightarrow>
               (st\<lparr>ac_stored := Some (flush_row (ac_binding_cleared st) (ctx_state (ac_ctx st)) (ac_stored st)),
                   ac_dirty := False, ac_binding_cleared := False\<rparr>, Inr ()))"

definition interrupt_turn :: "string \<Rightarrow> string option \<Rightarrow> string \<Rightarrow> Actor \<Rightarrow> Actor" where
  "interrupt_turn event_id d reason st =
     emit (DeliveryDone d (Some reason)) (emit (RolledBack event_id) (emit RunnerCancelled st))"

definition map_state :: "(SessionState \<Rightarrow> SessionState) \<Rightarrow> Actor \<Rightarrow> Actor" where
  "map_state f st = st\<lparr>ac_ctx := (ac_ctx st)\<lparr>ctx_state := f (ctx_state (ac_ctx st))\<rparr>\<rparr>"

definition touch :: "Env \<Rightarrow> Actor \<Rightarrow> Actor" where
  "touch env st = st\<lparr>ac_last_active := en_instant env\<rparr>"

definition touch_context :: "Env \<Rightarrow> Actor \<Rightarrow> Actor" where
  "touch_context env st = st\<lparr>ac_ctx := (ac_ctx st)\<lparr>ctx_updated_at := en_now env\<rparr>\<rparr>"

text \<open>Failing the queued events, when a stop or the closing of the channel drops them.\<close>

definition refuse :: "string \<Rightarrow> ActorCommand \<Rightarrow> Actor \<Rightarrow> Actor" where
  "refuse reason c st =
     (case c of
        CEvent ev \<Rightarrow> complete_delivery (ev_delivery_id ev) (Inl (Multiplexer reason)) st
      | CEventWithAck ev a \<Rightarrow>
          emit (AckSent a (Inl (Multiplexer reason)))
            (complete_delivery (ev_delivery_id ev) (Inl (Multiplexer reason)) st)
      | _ \<Rightarrow> st)"

definition drain_pending :: "string \<Rightarrow> Actor \<Rightarrow> Actor" where
  "drain_pending reason st = fold (refuse reason) (ac_pending st) (st\<lparr>ac_pending := []\<rparr>)"

subsection \<open>A turn\<close>

text \<open>The event arm up to the start of the runner: the transcript check, the insert of the
  message, the typing indicator.\<close>

definition start_event :: "Env \<Rightarrow> InboundEvent \<Rightarrow> Actor \<Rightarrow> Actor" where
  "start_event env ev st0 =
     (let st = (map_state (\<lambda>s. s\<lparr>suspended := False\<rparr>) (touch_context env (touch env st0)))\<lparr>ac_dirty := True\<rparr>;
          d = ev_delivery_id ev
      in if ev_platform_message_id ev \<noteq> '''' \<and> en_seen env = Inr True then
           resolve_pending_ack (Inr ()) (complete_delivery d (Inr ()) st)
         else case en_persist env of
           Some error \<Rightarrow>
             (let e = Database (''failed to persist inbound event: '' @ error_to_string error)
              in resolve_pending_ack (Inl e) (complete_delivery d (Inl e) (st\<lparr>ac_dirty := False\<rparr>)))
         | None \<Rightarrow>
             (let st = emit (Persisted ev)
                    (st\<lparr>ac_stored := (case ac_stored st of None \<Rightarrow> Some (ctx_state (ac_ctx st)) | x \<Rightarrow> x)\<rparr>)
              in send_typing env True (st\<lparr>ac_turn := Some \<lparr>tu_event = ev, tu_ctx = ac_ctx st\<rparr>\<rparr>)))"

text \<open>A turn that ran to its end: on success the runner's context replaces the actor's and is
  flushed; then the delivery, the acknowledgement, the reaction and the error message.\<close>

definition turn_completed :: "Env \<Rightarrow> InboundEvent \<Rightarrow> SessionContext \<Rightarrow> OmonError + unit \<Rightarrow> Actor \<Rightarrow> Actor" where
  "turn_completed env ev turn_ctx result0 st0 =
     (let (st, result) =
        (case result0 of
           Inr _ \<Rightarrow>
             (case flush_if_dirty env (st0\<lparr>ac_ctx := turn_ctx\<rparr>) of
                (st, Inl error) \<Rightarrow>
                  (emit MarkedResumePending st,
                   Inl (Database (''failed to flush session actor on turn completion: '' @ error_to_string error)))
              | (st, Inr _) \<Rightarrow> (emit ClearedResumePending st, Inr ()))
         | Inl e \<Rightarrow> (st0\<lparr>ac_dirty := False\<rparr>, Inl e));
          st = complete_delivery (ev_delivery_id ev) result st;
          st = resolve_pending_ack
            (case result of
               Inr _ \<Rightarrow> Inr ()
             | Inl e \<Rightarrow> Inl (Multiplexer (''turn failed: '' @ error_to_string e))) st;
          st = react env (ev_platform_message_id ev)
            (case result of Inr _ \<Rightarrow> processing_success_emoji | Inl _ \<Rightarrow> processing_failure_emoji) st;
          st = (case result of
                  Inl e \<Rightarrow>
                    if en_dispatcher env
                    then emit (Dispatched (SendMessage (ctx_key (ac_ctx st)) (error_to_string e)
                           (Some (ev_platform_message_id ev)))) st
                    else st
                | Inr _ \<Rightarrow> st)
      in send_typing env False st)"

definition turn_stopped :: "Env \<Rightarrow> InboundEvent \<Rightarrow> nat \<Rightarrow> Actor \<Rightarrow> Actor" where
  "turn_stopped env ev r st0 =
     (let st = (map_state (\<lambda>s. s\<lparr>suspended := True\<rparr>) st0)\<lparr>ac_dirty := True\<rparr>;
          st = interrupt_turn (ev_id ev) (ev_delivery_id ev) ''stopped by user'' st;
          st = send_typing env False st;
          st = fst (flush_if_dirty env st);
          st = react env (ev_platform_message_id ev) processing_failure_emoji st;
          st = resolve_pending_ack (Inl (Multiplexer ''stopped by user'')) st
      in emit (BoolReply r (case en_cancel env of None \<Rightarrow> Inr True | Some e \<Rightarrow> Inl e)) st)"

definition turn_shutdown :: "Env \<Rightarrow> InboundEvent \<Rightarrow> Actor \<Rightarrow> Actor" where
  "turn_shutdown env ev st0 =
     (let st = interrupt_turn (ev_id ev) (ev_delivery_id ev) ''session actor shutting down'' st0;
          st = send_typing env False st;
          st = emit MarkedResumePending st
      in resolve_pending_ack (Inl (Multiplexer ''session actor shutting down'')) st)"

definition rebind_thread :: "SessionContext \<Rightarrow> Actor \<Rightarrow> Actor" where
  "rebind_thread turn_ctx st =
     (case metadata (ctx_state turn_ctx) ''omo_thread_id'' of
        Some v \<Rightarrow> map_state (\<lambda>s. s\<lparr>metadata := (metadata s)(''omo_thread_id'' \<mapsto> v)\<rparr>) st
      | None \<Rightarrow> st)"

definition end_turn :: "Env \<Rightarrow> TurnOutcome \<Rightarrow> Turn \<Rightarrow> Actor \<Rightarrow> Actor" where
  "end_turn env how t st0 =
     (let st = rebind_thread (tu_ctx t) (st0\<lparr>ac_turn := None\<rparr>);
          st = (case how of
                  Completed result \<Rightarrow> turn_completed env (tu_event t) (tu_ctx t) result st
                | Stopped r \<Rightarrow> turn_stopped env (tu_event t) r st
                | Shutdown \<Rightarrow> turn_shutdown env (tu_event t) st)
      in touch_context env st)"

text \<open>A command that arrives during a turn.\<close>

definition reset_state :: "Actor \<Rightarrow> Actor" where
  "reset_state st =
     (map_state (\<lambda>_. session_state_default)
       (map_state (\<lambda>s. s\<lparr>metadata := (metadata s)(''omo_thread_id'' := None)\<rparr>) st))
       \<lparr>ac_binding_cleared := True, ac_dirty := True\<rparr>"

definition receive_in_turn :: "Env \<Rightarrow> ActorCommand \<Rightarrow> Turn \<Rightarrow> Actor \<Rightarrow> Actor" where
  "receive_in_turn env c t st =
     (case c of
        CEvent ev \<Rightarrow>
          if length (ac_pending st) < max_pending_events
          then st\<lparr>ac_pending := ac_pending st @ [c]\<rparr>
          else refuse ''pending turn queue full'' c st
      | CEventWithAck ev a \<Rightarrow>
          if length (ac_pending st) < max_pending_events
          then st\<lparr>ac_pending := ac_pending st @ [c]\<rparr>
          else refuse ''pending turn queue full'' c st
      | CStop r \<Rightarrow> end_turn env (Stopped r) t (drain_pending ''stopped by user'' st)
      | CEvictIfIdle _ r \<Rightarrow> emit (BoolReply r (Inr False)) st
      | CTouchActivity \<Rightarrow> touch env st
      | CSetModel m r \<Rightarrow>
          emit (UnitReply r (Inr ()))
            ((map_state (\<lambda>s. s\<lparr>active_model := Some m\<rparr>) st)\<lparr>ac_dirty := True\<rparr>)
      | CReset r \<Rightarrow> end_turn env Shutdown t (emit (UnitReply r (Inr ())) (reset_state st))
      | CGetContext r \<Rightarrow> emit (ContextReply r (ac_ctx st)) st)"

subsection \<open>Between turns\<close>

definition finish :: "Env \<Rightarrow> Actor \<Rightarrow> Actor" where
  "finish env st0 =
     (let st = (if ac_pending st0 \<noteq> [] then emit MarkedResumePending st0 else st0)
      in case flush_if_dirty env st of
           (st, Inl _) \<Rightarrow> (emit MarkedResumePending st)\<lparr>ac_stopped := True\<rparr>
         | (st, Inr _) \<Rightarrow> st\<lparr>ac_stopped := True\<rparr>)"

definition receive_idle :: "Env \<Rightarrow> ActorCommand \<Rightarrow> Actor \<Rightarrow> Actor" where
  "receive_idle env c st =
     (case c of
        CEvent ev \<Rightarrow> start_event env ev st
      | CEventWithAck ev a \<Rightarrow>
          start_event env ev
            ((resolve_pending_ack (Inl (Multiplexer ''superseded by a newer acked turn'')) st)
              \<lparr>ac_pending_ack := Some a\<rparr>)
      | CStop r \<Rightarrow>
          (let st = (map_state (\<lambda>s. s\<lparr>suspended := True\<rparr>) (touch env st))\<lparr>ac_dirty := True\<rparr>;
               st = send_typing env False (drain_pending ''stopped by user'' st);
               st = fst (flush_if_dirty env st)
           in emit (BoolReply r (Inr False)) st)
      | CTouchActivity \<Rightarrow> touch env st
      | CSetModel m r \<Rightarrow>
          (let st = (map_state (\<lambda>s. s\<lparr>active_model := Some m\<rparr>) (touch env st))\<lparr>ac_dirty := True\<rparr>;
               (st, res) = flush_if_dirty env st
           in emit (UnitReply r res) st)
      | CReset r \<Rightarrow>
          (let (st, res) = flush_if_dirty env (reset_state (touch env st))
           in emit (UnitReply r res) st)
      | CGetContext r \<Rightarrow> emit (ContextReply r (ac_ctx st)) st
      | CEvictIfIdle idle_timeout r \<Rightarrow>
          if en_instant env - ac_last_active st > idle_timeout \<and> ac_mailbox st = [] \<and> ac_pending st = []
          then (case flush_if_dirty env st of
                  (st, Inr _) \<Rightarrow> finish env (emit (BoolReply r (Inr True)) st)
                | (st, Inl e) \<Rightarrow> emit (BoolReply r (Inl e)) st)
          else emit (BoolReply r (Inr False)) st)"

definition channel_closed :: "Env \<Rightarrow> Actor \<Rightarrow> Actor" where
  "channel_closed env st =
     (case ac_turn st of
        Some t \<Rightarrow> end_turn env Shutdown t (drain_pending ''session actor shutting down'' st)
      | None \<Rightarrow> finish env st)"

subsection \<open>Steps and runs\<close>

text \<open>A step is labelled with the commands it puts into the mailbox.  The runner may change its
  copy of the context at any time during the turn.\<close>

inductive actor_step :: "Actor \<Rightarrow> ActorCommand list \<Rightarrow> Actor \<Rightarrow> bool" where
  send: "\<not> ac_stopped st \<Longrightarrow> length (ac_mailbox st) < 64 \<Longrightarrow>
    actor_step st [c] (st\<lparr>ac_mailbox := ac_mailbox st @ [c]\<rparr>)"
| next_pending: "\<not> ac_stopped st \<Longrightarrow> ac_turn st = None \<Longrightarrow> ac_pending st = c # cs \<Longrightarrow>
    actor_step st [] (receive_idle env c (st\<lparr>ac_pending := cs\<rparr>))"
| next_mail: "\<not> ac_stopped st \<Longrightarrow> ac_turn st = None \<Longrightarrow> ac_pending st = [] \<Longrightarrow> ac_mailbox st = c # cs \<Longrightarrow>
    actor_step st [] (receive_idle env c (st\<lparr>ac_mailbox := cs\<rparr>))"
| turn_mail: "\<not> ac_stopped st \<Longrightarrow> ac_turn st = Some t \<Longrightarrow> ac_mailbox st = c # cs \<Longrightarrow>
    actor_step st [] (receive_in_turn env c t (st\<lparr>ac_mailbox := cs\<rparr>))"
| runner: "\<not> ac_stopped st \<Longrightarrow> ac_turn st = Some t \<Longrightarrow>
    actor_step st [] (st\<lparr>ac_turn := Some (t\<lparr>tu_ctx := ctx\<rparr>)\<rparr>)"
| completed: "\<not> ac_stopped st \<Longrightarrow> ac_turn st = Some t \<Longrightarrow>
    actor_step st [] (end_turn env (Completed result) t st)"
| closed: "\<not> ac_stopped st \<Longrightarrow> ac_mailbox st = [] \<Longrightarrow> (ac_turn st = None \<Longrightarrow> ac_pending st = []) \<Longrightarrow>
    actor_step st [] (channel_closed env st)"

inductive actor_runs :: "Actor \<Rightarrow> ActorCommand list \<Rightarrow> Actor \<Rightarrow> bool" where
  refl: "actor_runs st [] st"
| step: "actor_runs st cs st' \<Longrightarrow> actor_step st' ds st'' \<Longrightarrow> actor_runs st (cs @ ds) st''"

subsection \<open>Everything is answered once\<close>

text \<open>What a command obliges the actor to do: to settle the delivery of an event, to answer an
  acknowledgement channel, to answer a reply channel.\<close>

datatype duty = Settle "string option" | Ack nat | Reply nat

fun cmd_duties :: "ActorCommand \<Rightarrow> duty multiset" where
  "cmd_duties (CEvent ev) = {#Settle (ev_delivery_id ev)#}"
| "cmd_duties (CEventWithAck ev a) = {#Settle (ev_delivery_id ev), Ack a#}"
| "cmd_duties (CStop r) = {#Reply r#}"
| "cmd_duties (CEvictIfIdle _ r) = {#Reply r#}"
| "cmd_duties CTouchActivity = {#}"
| "cmd_duties (CSetModel _ r) = {#Reply r#}"
| "cmd_duties (CReset r) = {#Reply r#}"
| "cmd_duties (CGetContext r) = {#Reply r#}"

fun effect_duties :: "Effect \<Rightarrow> duty multiset" where
  "effect_duties (DeliveryDone d _) = {#Settle d#}"
| "effect_duties (AckSent a _) = {#Ack a#}"
| "effect_duties (BoolReply r _) = {#Reply r#}"
| "effect_duties (UnitReply r _) = {#Reply r#}"
| "effect_duties (ContextReply r _) = {#Reply r#}"
| "effect_duties _ = {#}"

definition duties :: "ActorCommand list \<Rightarrow> duty multiset" where
  "duties cs = sum_list (map cmd_duties cs)"

definition done_duties :: "Actor \<Rightarrow> duty multiset" where
  "done_duties st = sum_list (map effect_duties (ac_log st))"

definition open_duties :: "Actor \<Rightarrow> duty multiset" where
  "open_duties st = duties (ac_mailbox st) + duties (ac_pending st)
     + (case ac_turn st of None \<Rightarrow> {#} | Some t \<Rightarrow> {#Settle (ev_delivery_id (tu_event t))#})
     + (case ac_pending_ack st of None \<Rightarrow> {#} | Some a \<Rightarrow> {#Ack a#})"

definition account :: "Actor \<Rightarrow> duty multiset" where
  "account st = open_duties st + done_duties st"

lemma duties_simps [simp]:
  "duties [] = {#}" "duties (c # cs) = cmd_duties c + duties cs"
  "duties (cs @ ds) = duties cs + duties ds"
  by (simp_all add: duties_def)

lemmas account_defs = account_def open_duties_def done_duties_def

lemma account_emit [simp]: "account (emit e st) = account st + effect_duties e"
  by (simp add: account_defs emit_def)

lemma account_update [simp]:
  "account (st\<lparr>ac_dirty := b\<rparr>) = account st" "account (st\<lparr>ac_ctx := c\<rparr>) = account st"
  "account (st\<lparr>ac_stored := s\<rparr>) = account st" "account (st\<lparr>ac_last_active := i\<rparr>) = account st"
  "account (st\<lparr>ac_binding_cleared := b\<rparr>) = account st" "account (st\<lparr>ac_stopped := b\<rparr>) = account st"
  by (simp_all add: account_defs)

lemma account_helpers [simp]:
  "account (resolve_pending_ack r st) = account st"
  "account (complete_delivery d r st) = account st + {#Settle d#}"
  "account (send_typing env b st) = account st"
  "account (react env m e st) = account st"
  "account (map_state f st) = account st"
  "account (touch env st) = account st"
  "account (touch_context env st) = account st"
  "account (fst (flush_if_dirty env st)) = account st"
  "account (interrupt_turn i d reason st) = account st + {#Settle d#}"
  "account (rebind_thread c st) = account st"
  "account (reset_state st) = account st"
  by (simp_all add: resolve_pending_ack_def complete_delivery_def send_typing_def react_def
      map_state_def touch_def touch_context_def flush_if_dirty_def interrupt_turn_def
      rebind_thread_def reset_state_def split: option.splits)
    (simp_all add: account_defs emit_def)

fun is_event :: "ActorCommand \<Rightarrow> bool" where
  "is_event (CEvent _) = True"
| "is_event (CEventWithAck _ _) = True"
| "is_event _ = False"

lemma account_refuse: "is_event c \<Longrightarrow> account (refuse reason c st) = account st + cmd_duties c"
  by (cases c) (simp_all add: refuse_def)

lemma account_fold_refuse:
  "list_all is_event cs \<Longrightarrow> account (fold (refuse reason) cs st) = account st + duties cs"
  by (induction cs arbitrary: st) (simp_all add: account_refuse)

lemma account_pending: "account (st\<lparr>ac_pending := cs\<rparr>) + duties (ac_pending st) = account st + duties cs"
  by (simp add: account_defs)

lemma account_drain [simp]: "list_all is_event (ac_pending st) \<Longrightarrow> account (drain_pending reason st) = account st"
  using account_pending [where st = st and cs = "[]"] by (simp add: drain_pending_def account_fold_refuse)

lemma account_turn_none:
  "ac_turn st = Some t \<Longrightarrow> account (st\<lparr>ac_turn := None\<rparr>) + {#Settle (ev_delivery_id (tu_event t))#} = account st"
  by (simp add: account_defs)

text \<open>What the helpers leave alone: \<open>shape\<close> is the part of the state the steps are guarded by.\<close>

definition shape :: "Actor \<Rightarrow> ActorCommand list \<times> ActorCommand list \<times> Turn option \<times> bool" where
  "shape st = (ac_mailbox st, ac_pending st, ac_turn st, ac_stopped st)"

lemma shape_update [simp]:
  "shape (emit e st) = shape st"
  "shape (st\<lparr>ac_dirty := b\<rparr>) = shape st" "shape (st\<lparr>ac_ctx := c\<rparr>) = shape st"
  "shape (st\<lparr>ac_stored := s\<rparr>) = shape st" "shape (st\<lparr>ac_last_active := i\<rparr>) = shape st"
  "shape (st\<lparr>ac_binding_cleared := b\<rparr>) = shape st" "shape (st\<lparr>ac_pending_ack := a\<rparr>) = shape st"
  by (simp_all add: shape_def emit_def)

lemma shape_helpers [simp]:
  "shape (resolve_pending_ack r st) = shape st"
  "shape (complete_delivery d r st) = shape st"
  "shape (send_typing env b st) = shape st"
  "shape (react env m e st) = shape st"
  "shape (map_state f st) = shape st"
  "shape (touch env st) = shape st"
  "shape (touch_context env st) = shape st"
  "shape (fst (flush_if_dirty env st)) = shape st"
  "shape (interrupt_turn i d reason st) = shape st"
  "shape (rebind_thread c st) = shape st"
  "shape (reset_state st) = shape st"
  "shape (refuse reason cmd st) = shape st"
  by (simp_all add: resolve_pending_ack_def complete_delivery_def send_typing_def react_def
      map_state_def touch_def touch_context_def flush_if_dirty_def interrupt_turn_def
      rebind_thread_def reset_state_def refuse_def split: option.splits ActorCommand.splits)

lemma shape_fold_refuse [simp]: "shape (fold (refuse reason) cs st) = shape st"
  by (induction cs arbitrary: st) simp_all

lemma shapeD:
  "shape st = shape st' \<Longrightarrow> ac_mailbox st = ac_mailbox st'"
  "shape st = shape st' \<Longrightarrow> ac_pending st = ac_pending st'"
  "shape st = shape st' \<Longrightarrow> ac_turn st = ac_turn st'"
  "shape st = shape st' \<Longrightarrow> ac_stopped st = ac_stopped st'"
  by (simp_all add: shape_def)

lemma shape_drain: "shape (drain_pending reason st) = (ac_mailbox st, [], ac_turn st, ac_stopped st)"
  by (simp add: drain_pending_def) (simp add: shape_def)

text \<open>The transitions, in the accounts and in the shape.\<close>

lemma account_turn_completed [simp]:
  "account (turn_completed env ev c r st) = account st + {#Settle (ev_delivery_id ev)#}"
proof -
  have "account (fst (flush_if_dirty env (st\<lparr>ac_ctx := c\<rparr>))) = account st" by simp
  then show ?thesis
    by (cases r; cases "flush_if_dirty env (st\<lparr>ac_ctx := c\<rparr>)")
      (auto simp: turn_completed_def Let_def split: sum.splits)
qed

lemma shape_turn_completed [simp]: "shape (turn_completed env ev c r st) = shape st"
proof -
  have "shape (fst (flush_if_dirty env (st\<lparr>ac_ctx := c\<rparr>))) = shape st" by simp
  then show ?thesis
    by (cases r; cases "flush_if_dirty env (st\<lparr>ac_ctx := c\<rparr>)")
      (auto simp: turn_completed_def Let_def split: sum.splits)
qed

lemma turn_stopped_simps [simp]:
  "account (turn_stopped env ev r st) = account st + {#Settle (ev_delivery_id ev), Reply r#}"
  "shape (turn_stopped env ev r st) = shape st"
  by (simp_all add: turn_stopped_def Let_def)

lemma turn_shutdown_simps [simp]:
  "account (turn_shutdown env ev st) = account st + {#Settle (ev_delivery_id ev)#}"
  "shape (turn_shutdown env ev st) = shape st"
  by (simp_all add: turn_shutdown_def Let_def)

lemma account_end_turn:
  assumes "ac_turn st = Some t"
  shows "account (end_turn env how t st) = account st + (case how of Stopped r \<Rightarrow> {#Reply r#} | _ \<Rightarrow> {#})"
  using account_turn_none [OF assms]
  by (cases how) (simp_all add: end_turn_def Let_def flip: add.assoc)

lemma shape_end_turn: "shape (end_turn env how t st) = (ac_mailbox st, ac_pending st, None, ac_stopped st)"
  by (cases how) (simp_all add: end_turn_def Let_def, simp_all add: shape_def)

lemma ack_helpers [simp]:
  "ac_pending_ack (emit e st) = ac_pending_ack st"
  "ac_pending_ack (resolve_pending_ack r st) = None"
  "ac_pending_ack (complete_delivery d r st) = ac_pending_ack st"
  "ac_pending_ack (send_typing env b st) = ac_pending_ack st"
  "ac_pending_ack (react env m emoji st) = ac_pending_ack st"
  "ac_pending_ack (map_state f st) = ac_pending_ack st"
  "ac_pending_ack (touch env st) = ac_pending_ack st"
  "ac_pending_ack (touch_context env st) = ac_pending_ack st"
  "ac_pending_ack (fst (flush_if_dirty env st)) = ac_pending_ack st"
  "ac_pending_ack (reset_state st) = ac_pending_ack st"
  "ac_pending_ack (refuse reason cmd st) = ac_pending_ack st"
  by (simp_all add: resolve_pending_ack_def complete_delivery_def send_typing_def react_def emit_def
      map_state_def touch_def touch_context_def flush_if_dirty_def reset_state_def refuse_def
      split: option.splits ActorCommand.splits)

lemma ack_drain [simp]: "ac_pending_ack (drain_pending reason st) = ac_pending_ack st"
proof -
  have "ac_pending_ack (fold (refuse reason) cs st) = ac_pending_ack st" for cs st
    by (induction cs arbitrary: st) simp_all
  then show ?thesis by (simp add: drain_pending_def)
qed

lemma ack_end_turn [simp]: "ac_pending_ack (end_turn env how t st) = None"
proof -
  have "ac_pending_ack (turn_completed env ev c r st) = None" for ev c r st
    by (auto simp: turn_completed_def Let_def split: sum.splits prod.splits)
  then show ?thesis
    by (cases how) (simp_all add: end_turn_def turn_stopped_def turn_shutdown_def Let_def)
qed

lemma start_event_account:
  assumes "ac_turn st = None"
  shows "account (start_event env ev st) = account st + {#Settle (ev_delivery_id ev)#}"
proof -
  have "account (st\<lparr>ac_turn := Some t\<rparr>) = account st + {#Settle (ev_delivery_id (tu_event t))#}"
    if "ac_turn st = None" for st t using that by (simp add: account_defs)
  moreover have "ac_turn (emit e s) = ac_turn s" "ac_turn (map_state f s) = ac_turn s"
    "ac_turn (touch env s) = ac_turn s" "ac_turn (touch_context env s) = ac_turn s" for e s f
    by (simp_all add: emit_def map_state_def touch_def touch_context_def)
  ultimately show ?thesis
    using assms by (simp add: start_event_def Let_def split: option.splits)
qed

lemma start_event_shape:
  assumes "ac_turn st = None"
  shows "shape (start_event env ev st) = (ac_mailbox st, ac_pending st, ac_turn (start_event env ev st), ac_stopped st)"
    and "ac_pending_ack (start_event env ev st) = None \<or> ac_turn (start_event env ev st) \<noteq> None"
proof -
  let ?st = "(map_state (\<lambda>s. s\<lparr>suspended := False\<rparr>) (touch_context env (touch env st)))\<lparr>ac_dirty := True\<rparr>"
  have st: "shape ?st = shape st" by simp
  have turn: "ac_turn (send_typing env True (s\<lparr>ac_turn := Some t\<rparr>)) = Some t"
    "shape (send_typing env True (s\<lparr>ac_turn := Some t\<rparr>)) = (ac_mailbox s, ac_pending s, Some t, ac_stopped s)" for s t
    using shapeD(3) [OF shape_helpers(3) [of env True "s\<lparr>ac_turn := Some t\<rparr>"]]
    by (simp_all) (simp_all add: shape_def)
  have frame: "ac_mailbox (emit e s) = ac_mailbox s" "ac_pending (emit e s) = ac_pending s"
    "ac_stopped (emit e s) = ac_stopped s" for e s by (simp_all add: emit_def)
  show "shape (start_event env ev st) = (ac_mailbox st, ac_pending st, ac_turn (start_event env ev st), ac_stopped st)"
    "ac_pending_ack (start_event env ev st) = None \<or> ac_turn (start_event env ev st) \<noteq> None"
    using shapeD [OF st]
    by (auto simp: start_event_def Let_def turn frame split: option.splits)
      (auto simp: shape_def resolve_pending_ack_def complete_delivery_def emit_def split: option.splits)
qed

definition actor_ok :: "Actor \<Rightarrow> bool" where
  "actor_ok st \<longleftrightarrow>
     list_all is_event (ac_pending st) \<and> length (ac_pending st) \<le> max_pending_events \<and>
     length (ac_mailbox st) \<le> 64 \<and> (ac_pending_ack st = None \<or> ac_turn st \<noteq> None) \<and>
     (\<not> ac_stopped st \<or> ac_turn st = None \<and> ac_pending st = [] \<and> ac_mailbox st = [])"

lemma finish_frame:
  "account (finish env st) = account st"
  "shape (finish env st) = (ac_mailbox st, ac_pending st, ac_turn st, True)"
  "ac_pending_ack (finish env st) = ac_pending_ack st"
proof -
  let ?st = "if ac_pending st \<noteq> [] then emit MarkedResumePending st else st"
  obtain f r where fr: "flush_if_dirty env ?st = (f, r)" by fastforce
  have f: "account f = account st" "shape f = shape st" "ac_pending_ack f = ac_pending_ack st"
    using account_helpers(8) [of env ?st] shape_helpers(8) [of env ?st] ack_helpers(9) [of env ?st]
    unfolding fr by (simp_all split: if_splits)
  have eq: "finish env st =
      (case r of Inl _ \<Rightarrow> (emit MarkedResumePending f)\<lparr>ac_stopped := True\<rparr> | Inr _ \<Rightarrow> f\<lparr>ac_stopped := True\<rparr>)"
    unfolding finish_def Let_def fr prod.case by (cases r) simp_all
  have stop: "shape (s\<lparr>ac_stopped := True\<rparr>) = (ac_mailbox s, ac_pending s, ac_turn s, True)" for s
    by (simp add: shape_def)
  show "account (finish env st) = account st" unfolding eq using f(1) by (cases r) simp_all
  show "shape (finish env st) = (ac_mailbox st, ac_pending st, ac_turn st, True)"
    unfolding eq using shapeD [OF f(2)] by (cases r) (simp_all add: stop, simp add: emit_def)
  show "ac_pending_ack (finish env st) = ac_pending_ack st" unfolding eq using f(3) by (cases r) simp_all
qed

lemma receive_in_turn_account:
  assumes "actor_ok st" and "ac_turn st = Some t"
  shows "account (receive_in_turn env c t st) = account st + cmd_duties c"
proof -
  have push: "account (st\<lparr>ac_pending := ac_pending st @ [c]\<rparr>) = account st + cmd_duties c" for c
    by (simp add: account_defs)
  have "ac_turn (drain_pending reason st) = Some t" for reason
    using shape_drain [of reason st] assms(2) by (simp add: shape_def)
  moreover have "ac_turn (emit e (reset_state st)) = Some t" for e
    using assms(2) shapeD(3) [of "emit e (reset_state st)" st] by simp
  ultimately show ?thesis
    using assms(1)
    by (cases c) (simp_all add: receive_in_turn_def push account_refuse account_end_turn actor_ok_def)
qed

lemma receive_idle_account:
  assumes "actor_ok st" and "ac_turn st = None"
  shows "account (receive_idle env c st) = account st + cmd_duties c"
proof -
  have flush: "flush_if_dirty env s = (s', r) \<Longrightarrow> account s' = account s" for s s' r
    using account_helpers(8) [of env s] by simp
  have ack: "account (s\<lparr>ac_pending_ack := Some a\<rparr>) = account s + {#Ack a#}" if "ac_pending_ack s = None" for s a
    using that by (simp add: account_defs)
  have pend: "ac_pending (map_state f (touch env st)) = ac_pending st" for f
    by (simp add: map_state_def touch_def)
  have none: "ac_turn (resolve_pending_ack r st) = None" for r
    using assms(2) shapeD(3) [of "resolve_pending_ack r st" st] by simp
  show ?thesis
    using assms none
    by (cases c)
      (auto simp: receive_idle_def start_event_account ack finish_frame Let_def actor_ok_def pend
        dest!: flush split: prod.splits sum.splits)
qed

lemma actor_ok_shape:
  assumes "shape st' = (m, p, t, s)"
  shows "actor_ok st' \<longleftrightarrow> list_all is_event p \<and> length p \<le> max_pending_events \<and> length m \<le> 64 \<and>
    (ac_pending_ack st' = None \<or> t \<noteq> None) \<and> (\<not> s \<or> t = None \<and> p = [] \<and> m = [])"
  using assms by (auto simp: actor_ok_def shape_def)

lemma actor_ok_end_turn: "actor_ok st \<Longrightarrow> \<not> ac_stopped st \<Longrightarrow> actor_ok (end_turn env how t st)"
  by (simp add: actor_ok_shape [OF shape_end_turn]) (simp add: actor_ok_def)

lemma actor_ok_drain: "actor_ok st \<Longrightarrow> actor_ok (drain_pending reason st)"
  by (auto simp: actor_ok_shape [OF shape_drain]) (auto simp: actor_ok_def)

lemma actor_ok_same_shape:
  "actor_ok st \<Longrightarrow> shape st' = shape st \<Longrightarrow> ac_pending_ack st' = ac_pending_ack st \<Longrightarrow> actor_ok st'"
  by (auto simp: actor_ok_def shape_def)

lemma receive_in_turn_ok:
  assumes ok: "actor_ok st" and t: "ac_turn st = Some t" "\<not> ac_stopped st"
  shows "actor_ok (receive_in_turn env c t st)"
proof -
  have push: "actor_ok (st\<lparr>ac_pending := ac_pending st @ [c]\<rparr>)"
    if "length (ac_pending st) < max_pending_events" "is_event c" for c
    using ok that t by (auto simp: actor_ok_def)
  note same = actor_ok_same_shape [OF ok]
  have "\<not> ac_stopped (drain_pending reason st)" for reason
    using shape_drain [of reason st] t(2) by (simp add: shape_def)
  then have stop: "actor_ok (end_turn env (Stopped r) t (drain_pending reason st))" for r reason
    by (intro actor_ok_end_turn actor_ok_drain ok)
  have "shape (emit e (reset_state st)) = shape st" for e by simp
  from shapeD(4) [OF this] have "\<not> ac_stopped (emit e (reset_state st))" for e using t(2) by simp
  then have reset: "actor_ok (end_turn env Shutdown t (emit e (reset_state st)))" for e
    by (intro actor_ok_end_turn same) simp_all
  show ?thesis
    by (cases c) (auto simp: receive_in_turn_def push stop reset intro!: same)
qed

lemma start_event_ok:
  assumes "actor_ok s" and "ac_turn s = None" and "\<not> ac_stopped s" and "shape st = shape s"
  shows "actor_ok (start_event env ev st)"
proof -
  have st: "ac_turn st = None" "\<not> ac_stopped st" "ac_mailbox st = ac_mailbox s" "ac_pending st = ac_pending s"
    using shapeD [OF assms(4)] assms(2,3) by simp_all
  show ?thesis
    using assms(1) st start_event_shape(2) [OF st(1)]
    by (simp add: actor_ok_shape [OF start_event_shape(1) [OF st(1)]]) (simp add: actor_ok_def)
qed

lemma receive_idle_ok:
  assumes ok: "actor_ok st" and t: "ac_turn st = None" "\<not> ac_stopped st"
  shows "actor_ok (receive_idle env c st)"
proof -
  note same = actor_ok_same_shape [OF ok]
  have flushed: "actor_ok (emit e (fst (flush_if_dirty env s)))"
    if "actor_ok s" for s e
    by (rule actor_ok_same_shape [OF that]) simp_all
  have fin: "actor_ok (finish env s)"
    if "shape s = shape st" "ac_pending_ack s = ac_pending_ack st" "ac_mailbox st = []" "ac_pending st = []" for s
    using that t ok shapeD [OF that(1)]
    by (simp add: actor_ok_shape [OF finish_frame(2)] finish_frame(3)) (simp add: actor_ok_def)
  show ?thesis
  proof (cases c)
    case (CEvent ev)
    then show ?thesis using start_event_ok [OF ok t] by (simp add: receive_idle_def)
  next
    case (CEventWithAck ev a)
    then show ?thesis using start_event_ok [OF ok t] by (simp add: receive_idle_def)
  next
    case (CStop r)
    have "actor_ok (send_typing env False (drain_pending reason s))" if "actor_ok s" for s reason
      by (rule actor_ok_same_shape [OF actor_ok_drain [OF that]]) simp_all
    moreover have "actor_ok ((map_state f (touch env st))\<lparr>ac_dirty := True\<rparr>)" for f
      by (rule same) simp_all
    ultimately show ?thesis unfolding CStop receive_idle_def Let_def ActorCommand.case
      by (intro flushed) simp
  next
    case (CEvictIfIdle timeout r)
    have "flush_if_dirty env st = (s, x) \<Longrightarrow> shape s = shape st \<and> ac_pending_ack s = ac_pending_ack st" for s x
      using shape_helpers(8) [of env st] ack_helpers(9) [of env st] by simp
    then show ?thesis unfolding CEvictIfIdle
      by (auto simp: receive_idle_def fin split: prod.splits sum.splits intro!: same)
  next
    case (CSetModel m r)
    have "actor_ok ((map_state f (touch env st))\<lparr>ac_dirty := True\<rparr>)" for f
      by (rule same) simp_all
    then show ?thesis unfolding CSetModel receive_idle_def Let_def split_def ActorCommand.case by (intro flushed)
  next
    case (CReset r)
    have "actor_ok (reset_state (touch env st))" by (rule same) simp_all
    then show ?thesis unfolding CReset receive_idle_def Let_def split_def ActorCommand.case by (intro flushed)
  qed (auto simp: receive_idle_def intro!: same)
qed

lemma channel_closed_ok:
  assumes "actor_ok st" and "\<not> ac_stopped st" and "ac_mailbox st = []"
    and "ac_turn st = None \<Longrightarrow> ac_pending st = []"
  shows "actor_ok (channel_closed env st)" and "account (channel_closed env st) = account st"
proof -
  have "\<not> ac_stopped (drain_pending reason st)" "ac_turn (drain_pending reason st) = ac_turn st" for reason
    using shape_drain [of reason st] assms(2) by (simp_all add: shape_def)
  then show "actor_ok (channel_closed env st)"
    using assms actor_ok_end_turn [OF actor_ok_drain [OF assms(1)]]
    by (auto simp: channel_closed_def actor_ok_shape [OF finish_frame(2)] finish_frame(3) split: option.splits)
      (auto simp: actor_ok_def)
  have "list_all is_event (ac_pending st)" using assms(1) by (simp add: actor_ok_def)
  with \<open>\<And>reason. ac_turn (drain_pending reason st) = ac_turn st\<close>
  show "account (channel_closed env st) = account st"
    by (simp add: channel_closed_def finish_frame account_end_turn split: option.splits)
qed

lemma actor_step_ok:
  assumes "actor_step st cs st'" and "actor_ok st"
  shows "actor_ok st' \<and> account st' = account st + duties cs"
  using assms
proof cases
  case (send c)
  with assms(2) show ?thesis by (auto simp: actor_ok_def account_defs)
next
  case (next_pending c cs env)
  have ok: "actor_ok (st\<lparr>ac_pending := cs\<rparr>)" using assms(2) next_pending by (auto simp: actor_ok_def)
  have "account (st\<lparr>ac_pending := cs\<rparr>) + cmd_duties c = account st"
    using next_pending by (simp add: account_defs)
  with receive_idle_ok [OF ok] receive_idle_account [OF ok] next_pending show ?thesis by simp
next
  case (next_mail c cs env)
  have ok: "actor_ok (st\<lparr>ac_mailbox := cs\<rparr>)" using assms(2) next_mail by (auto simp: actor_ok_def)
  have "account (st\<lparr>ac_mailbox := cs\<rparr>) + cmd_duties c = account st"
    using next_mail by (simp add: account_defs)
  with receive_idle_ok [OF ok] receive_idle_account [OF ok] next_mail show ?thesis by simp
next
  case (turn_mail t c cs env)
  have ok: "actor_ok (st\<lparr>ac_mailbox := cs\<rparr>)" using assms(2) turn_mail by (auto simp: actor_ok_def)
  have "account (st\<lparr>ac_mailbox := cs\<rparr>) + cmd_duties c = account st"
    using turn_mail by (simp add: account_defs)
  with receive_in_turn_ok [OF ok] receive_in_turn_account [OF ok] turn_mail show ?thesis by simp
next
  case (runner t ctx)
  with assms(2) show ?thesis by (auto simp: actor_ok_def account_defs)
next
  case (completed t env result)
  with assms(2) show ?thesis by (simp add: actor_ok_end_turn account_end_turn)
next
  case (closed env)
  with channel_closed_ok [OF assms(2)] show ?thesis by simp
qed

lemma actor_runs_ok:
  assumes "actor_runs st cs st'" and "actor_ok st"
  shows "actor_ok st' \<and> account st' = account st + duties cs"
  using assms
  by (induction rule: actor_runs.induct) (auto dest: actor_step_ok simp: ac_simps)

lemma actor_load_ok: "actor_ok (actor_load ctx stored i)" "account (actor_load ctx stored i) = {#}"
  by (simp_all add: actor_ok_def actor_load_def account_defs)

text \<open>C8: in every run of a session actor, whatever the runner, the database and the senders
  do, each command that was sent is answered exactly once or is still open: the deliveries
  settled, the acknowledgements and the replies given so far, together with those still owed,
  are exactly the ones the sent commands ask for; once the actor has stopped nothing is owed.
  The queue of waiting events never holds more than 64, nor anything but events.\<close>

theorem actor_answers_once:
  assumes "actor_runs (actor_load ctx stored i) cs st"
  shows "open_duties st + done_duties st = duties cs \<and>
    (ac_stopped st \<longrightarrow> done_duties st = duties cs) \<and>
    length (ac_pending st) \<le> max_pending_events \<and> list_all is_event (ac_pending st)"
proof -
  have ok: "actor_ok st" "account st = duties cs"
    using actor_runs_ok [OF assms actor_load_ok(1)] by (simp_all add: actor_load_ok(2))
  then have "open_duties st = {#}" if "ac_stopped st"
    using that by (auto simp: actor_ok_def open_duties_def)
  with ok show ?thesis by (auto simp: account_def actor_ok_def)
qed

theorem actor_answers_once_witness:
  "\<exists>st ev. actor_runs (actor_load (session_context_new 0 (session_key_new ''discord'' None ''c'' None ''u'')) None 0)
      [CEventWithAck ev 7] st \<and> done_duties st = {#Settle (ev_delivery_id ev), Ack 7#}"
proof -
  let ?k = "session_key_new ''discord'' None ''c'' None ''u''"
  let ?ev = "event_message ''e1'' 5 ?k ''1'' ''hello''"
  let ?env = "\<lparr>en_now = 1, en_instant = 1, en_seen = Inr False, en_persist = None, en_flush = None,
    en_cancel = None, en_dispatcher = True\<rparr>"
  let ?st0 = "actor_load (session_context_new 0 ?k) None 0"
  let ?st1 = "?st0\<lparr>ac_mailbox := ac_mailbox ?st0 @ [CEventWithAck ?ev 7]\<rparr>"
  let ?st2 = "receive_idle ?env (CEventWithAck ?ev 7) (?st1\<lparr>ac_mailbox := []\<rparr>)"
  have 1: "actor_step ?st0 [CEventWithAck ?ev 7] ?st1"
    by (rule actor_step.send) (simp_all add: actor_load_def)
  have 2: "actor_step ?st1 [] ?st2"
    by (rule actor_step.next_mail) (simp_all add: actor_load_def)
  have s2: "ac_turn ?st2 \<noteq> None" "ac_mailbox ?st2 = []" "ac_pending ?st2 = []" "\<not> ac_stopped ?st2"
    by (simp_all add: receive_idle_def start_event_def Let_def event_message_def actor_load_def
        resolve_pending_ack_def map_state_def touch_context_def touch_def send_typing_def emit_def
        is_cron_def)
  then obtain t where t: "ac_turn ?st2 = Some t" by blast
  let ?st3 = "end_turn ?env (Completed (Inr ())) t ?st2"
  have 3: "actor_step ?st2 [] ?st3" using s2(4) t by (rule actor_step.completed)
  have run: "actor_runs ?st0 [CEventWithAck ?ev 7] ?st3"
    using actor_runs.step [OF actor_runs.step [OF actor_runs.step [OF actor_runs.refl 1] 2] 3] by simp
  have "open_duties ?st3 = {#}"
    using shape_end_turn [of ?env "Completed (Inr ())" t ?st2] s2 ack_end_turn
    by (simp add: open_duties_def shape_def)
  with actor_answers_once [OF run] run show ?thesis by auto
qed

subsection \<open>Order\<close>

fun event_of :: "ActorCommand \<Rightarrow> InboundEvent list" where
  "event_of (CEvent ev) = [ev]"
| "event_of (CEventWithAck ev _) = [ev]"
| "event_of _ = []"

definition events :: "ActorCommand list \<Rightarrow> InboundEvent list" where
  "events cs = concat (map event_of cs)"

fun persisted :: "Effect \<Rightarrow> InboundEvent list" where
  "persisted (Persisted ev) = [ev]"
| "persisted _ = []"

definition started :: "Actor \<Rightarrow> InboundEvent list" where
  "started st = concat (map persisted (ac_log st))"

definition line :: "Actor \<Rightarrow> InboundEvent list" where
  "line st = started st @ events (ac_pending st) @ events (ac_mailbox st)"

lemma events_simps [simp]:
  "events [] = []" "events (c # cs) = event_of c @ events cs" "events (cs @ ds) = events cs @ events ds"
  by (simp_all add: events_def)

lemma started_update [simp]:
  "started (emit e st) = started st @ persisted e"
  "started (st\<lparr>ac_dirty := b\<rparr>) = started st" "started (st\<lparr>ac_ctx := c\<rparr>) = started st"
  "started (st\<lparr>ac_stored := s\<rparr>) = started st" "started (st\<lparr>ac_last_active := i\<rparr>) = started st"
  "started (st\<lparr>ac_binding_cleared := b\<rparr>) = started st" "started (st\<lparr>ac_pending_ack := a\<rparr>) = started st"
  "started (st\<lparr>ac_turn := t\<rparr>) = started st" "started (st\<lparr>ac_mailbox := m\<rparr>) = started st"
  "started (st\<lparr>ac_pending := p\<rparr>) = started st" "started (st\<lparr>ac_stopped := b\<rparr>) = started st"
  by (simp_all add: started_def emit_def)

lemma started_helpers [simp]:
  "started (resolve_pending_ack r st) = started st"
  "started (complete_delivery d r st) = started st"
  "started (send_typing env b st) = started st"
  "started (react env m emoji st) = started st"
  "started (map_state f st) = started st"
  "started (touch env st) = started st"
  "started (touch_context env st) = started st"
  "started (fst (flush_if_dirty env st)) = started st"
  "started (interrupt_turn i d reason st) = started st"
  "started (rebind_thread c st) = started st"
  "started (reset_state st) = started st"
  "started (refuse reason cmd st) = started st"
  by (simp_all add: resolve_pending_ack_def complete_delivery_def send_typing_def react_def
      map_state_def touch_def touch_context_def flush_if_dirty_def interrupt_turn_def
      rebind_thread_def reset_state_def refuse_def split: option.splits ActorCommand.splits)

lemma started_flush: "flush_if_dirty env st = (st', r) \<Longrightarrow> started st' = started st"
  using started_helpers(8) [of env st] by simp

lemma started_transitions [simp]:
  "started (drain_pending reason st) = started st"
  "started (end_turn env how t st) = started st"
  "started (finish env st) = started st"
proof -
  have "started (fold (refuse reason) cs st) = started st" for cs st
    by (induction cs arbitrary: st) simp_all
  then show "started (drain_pending reason st) = started st" by (simp add: drain_pending_def)
  have "started (turn_completed env ev c r st) = started st" for ev c r st
    by (auto simp: turn_completed_def Let_def dest!: started_flush split: sum.splits prod.splits)
  then show "started (end_turn env how t st) = started st"
    by (cases how) (simp_all add: end_turn_def turn_stopped_def turn_shutdown_def Let_def)
  show "started (finish env st) = started st"
    by (auto simp: finish_def Let_def dest!: started_flush split: sum.splits prod.splits if_splits)
qed

lemma started_start_event: "started (start_event env ev st) = started st \<or> started (start_event env ev st) = started st @ [ev]"
  by (auto simp: start_event_def Let_def split: option.splits)

lemma subseq_mids:
  "subseq (a @ b @ c) (a @ b @ x # c)" "subseq (a @ c) (a @ b @ c)" "subseq (a @ b) (a @ x # b)"
  "subseq (a @ c) (a @ x # b @ c)"
proof -
  have "subseq (a @ c) (a @ b @ c)" for a b c :: "'a list"
    by (simp add: list_emb_append_mono list_emb_append2)
  from this [of a c b] this [of "a @ b" c "[x]"] this [of a b "[x]"] this [of a c "x # b"]
  show "subseq (a @ b @ c) (a @ b @ x # c)" "subseq (a @ c) (a @ b @ c)" "subseq (a @ b) (a @ x # b)"
    "subseq (a @ c) (a @ x # b @ c)"
    by simp_all
qed

lemma line_receive_in_turn:
  assumes "ac_turn st = Some t"
  shows "subseq (line (receive_in_turn env c t st)) (started st @ events (ac_pending st) @ event_of c @ events (ac_mailbox st))"
proof -
  have same: "line s = started s @ events (ac_pending st) @ events (ac_mailbox st)" if "shape s = shape st" for s
    using shapeD [OF that] by (simp add: line_def)
  have ends: "line (end_turn env how t s) = started s @ events (ac_pending s) @ events (ac_mailbox s)" for how s
    using shape_end_turn [of env how t s] by (simp add: line_def shape_def)
  have drain: "line (end_turn env how t (drain_pending reason st)) = started st @ events (ac_mailbox st)" for how reason
    using shape_drain [of reason st] by (simp add: ends shape_def)
  have reset: "line (end_turn env Shutdown t (emit e (reset_state st))) =
      started st @ persisted e @ events (ac_pending st) @ events (ac_mailbox st)" for e
    using shapeD [of "emit e (reset_state st)" st] by (simp add: ends)
  show ?thesis
    by (cases c) (auto simp: receive_in_turn_def same drain reset subseq_mids, auto simp: line_def)
qed

lemma line_start_event:
  assumes "ac_turn s = None" and "shape st = shape s" and "started st = started s"
  shows "subseq (line (start_event env ev st)) (started s @ ev # events (ac_pending s) @ events (ac_mailbox s))"
proof -
  have st: "ac_turn st = None" "ac_mailbox st = ac_mailbox s" "ac_pending st = ac_pending s"
    using shapeD [OF assms(2)] assms(1) by simp_all
  then have "ac_mailbox (start_event env ev st) = ac_mailbox s" "ac_pending (start_event env ev st) = ac_pending s"
    using start_event_shape(1) [OF st(1), of env ev] by (simp_all add: shape_def)
  then show ?thesis
    using started_start_event [of env ev st] assms(3) by (auto simp: line_def subseq_mids)
qed

lemma line_receive_idle:
  assumes "ac_turn st = None"
  shows "subseq (line (receive_idle env c st)) (started st @ event_of c @ events (ac_pending st) @ events (ac_mailbox st))"
proof -
  have same: "line s = started s @ events (ac_pending st) @ events (ac_mailbox st)" if "shape s = shape st" for s
    using shapeD [OF that] by (simp add: line_def)
  have drain: "line s = started s @ events (ac_mailbox st)"
    if "shape s = shape (drain_pending reason s')" "shape s' = shape st" for s s' reason
    using that shape_drain [of reason s'] shapeD [OF that(2)] by (simp add: line_def shape_def)
  show ?thesis
  proof (cases c)
    case (CStop r)
    let ?s = "(map_state (\<lambda>s. s\<lparr>suspended := True\<rparr>) (touch env st))\<lparr>ac_dirty := True\<rparr>"
    have "line (receive_idle env c st) = started (receive_idle env c st) @ events (ac_mailbox st)"
      by (rule drain [of _ "''stopped by user''" ?s]) (simp_all add: CStop receive_idle_def Let_def)
    then show ?thesis by (simp add: CStop receive_idle_def Let_def subseq_mids)
  next
    case (CEvictIfIdle timeout r)
    have fin: "line (finish env s) = started s @ events (ac_pending st) @ events (ac_mailbox st)"
      if "shape s = shape st" for s
      using finish_frame(2) [of env s] shapeD [OF that] by (simp add: line_def shape_def)
    have "flush_if_dirty env st = (s, x) \<Longrightarrow> shape s = shape st \<and> started s = started st" for s x
      using shape_helpers(8) [of env st] started_flush [of env st] by simp
    then show ?thesis unfolding CEvictIfIdle
      by (auto simp: receive_idle_def same fin split: prod.splits sum.splits)
  qed (auto simp: receive_idle_def Let_def split_def same intro: line_start_event [OF assms])
qed

lemma line_step:
  assumes "actor_step st cs st'"
  shows "subseq (line st') (line st @ events cs)"
  using assms
proof cases
  case (next_pending c cs env)
  then show ?thesis using line_receive_idle [of "st\<lparr>ac_pending := cs\<rparr>" env c] by (simp add: line_def)
next
  case (next_mail c cs env)
  then show ?thesis using line_receive_idle [of "st\<lparr>ac_mailbox := cs\<rparr>" env c] by (simp add: line_def)
next
  case (turn_mail t c cs env)
  then show ?thesis using line_receive_in_turn [of "st\<lparr>ac_mailbox := cs\<rparr>" t env c] by (simp add: line_def)
next
  case (completed t env result)
  then show ?thesis using shape_end_turn [of env "Completed result" t st] by (simp add: line_def shape_def)
next
  case (closed env)
  have "line (end_turn env Shutdown t (drain_pending reason st)) = started st @ events (ac_mailbox st)" for t reason
    using shape_end_turn [of env Shutdown t "drain_pending reason st"] shape_drain [of reason st]
    by (simp add: line_def shape_def)
  moreover have "line (finish env st) = line st"
    using finish_frame(2) [of env st] by (simp add: line_def shape_def)
  ultimately show ?thesis using closed
    by (auto simp: channel_closed_def subseq_mids line_def [of st] split: option.splits)
qed (auto simp: line_def)



subsection \<open>Reset and model change\<close>

lemma log_frame [simp]:
  "ac_ctx (emit e st) = ac_ctx st" "ac_stored (emit e st) = ac_stored st"
  "ac_dirty (emit e st) = ac_dirty st" "ac_binding_cleared (emit e st) = ac_binding_cleared st"
  by (simp_all add: emit_def)

text \<open>Between turns, a reset that is answered with success has cleared the session: the
  stored row has the default state and no conversation binding, whatever was stored before.\<close>

theorem reset_idle_clears:
  assumes "en_flush env = None"
  shows "ac_stored (receive_idle env (CReset r) st) = Some session_state_default \<and>
    ctx_state (ac_ctx (receive_idle env (CReset r) st)) = session_state_default \<and>
    last (ac_log (receive_idle env (CReset r) st)) = UnitReply r (Inr ())"
proof -
  have "thread_binding session_state_default = None"
    by (simp add: thread_binding_def session_state_default_def)
  then show ?thesis
    using assms
    by (simp add: receive_idle_def flush_if_dirty_def reset_state_def map_state_def touch_def
        flush_row_def Let_def split: option.splits) (simp add: emit_def)
qed

theorem reset_idle_clears_witness:
  "ac_stored (receive_idle \<lparr>en_now = 0, en_instant = 0, en_seen = Inr False, en_persist = None,
      en_flush = None, en_cancel = None, en_dispatcher = False\<rparr> (CReset 3)
     (actor_load (session_context_new 0 (session_key_new ''discord'' None ''c'' None ''u''))
       (Some (session_state_default\<lparr>metadata := [''omo_thread_id'' \<mapsto> JStr ''t'']\<rparr>)) 0)) = Some session_state_default"
  by (rule conjunct1 [OF reset_idle_clears]) simp

text \<open>During a turn neither holds.  A reset is answered with success, but the end of the
  interrupted turn copies the turn's conversation binding back into the cleared context, and the
  next flush stores it again; and a model change that was answered with success is gone when the
  turn completes, because the turn's copy of the context replaces the actor's.\<close>

theorem turn_undoes_reset_and_model:
  assumes "metadata (ctx_state (tu_ctx t)) ''omo_thread_id'' = Some (JStr v)"
  shows "metadata (ctx_state (ac_ctx (receive_in_turn env (CReset r) t st))) ''omo_thread_id'' = Some (JStr v) \<and>
    thread_binding (flush_row True (ctx_state (ac_ctx (receive_in_turn env (CReset r) t st))) stored) = Some (JStr v) \<and>
    active_model (ctx_state (ac_ctx (end_turn env (Completed (Inr ())) t
      (receive_in_turn env (CSetModel m r) t st)))) = active_model (ctx_state (tu_ctx t))"
proof -
  have ctx: "ac_ctx (resolve_pending_ack x s) = ac_ctx s" "ac_ctx (send_typing env b s) = ac_ctx s"
    "ac_ctx (interrupt_turn i d reason s) = ac_ctx s" "ac_ctx (react env msg emoji s) = ac_ctx s"
    "ac_ctx (complete_delivery d x s) = ac_ctx s" "ac_ctx (fst (flush_if_dirty env s)) = ac_ctx s" for x s b i d reason msg emoji
    by (simp_all add: resolve_pending_ack_def send_typing_def interrupt_turn_def react_def
        complete_delivery_def flush_if_dirty_def split: option.splits)
  have flush: "flush_if_dirty env s = (s', x) \<Longrightarrow> ac_ctx s' = ac_ctx s" for s s' x
    using ctx(6) [of s] by simp
  have a: "metadata (ctx_state (ac_ctx (receive_in_turn env (CReset r) t st))) ''omo_thread_id'' = Some (JStr v)"
    using assms
    by (simp add: receive_in_turn_def end_turn_def turn_shutdown_def Let_def touch_context_def ctx
        rebind_thread_def map_state_def)
  then have "thread_binding (ctx_state (ac_ctx (receive_in_turn env (CReset r) t st))) = Some (JStr v)"
    by (simp add: thread_binding_def)
  then have b: "thread_binding (flush_row True (ctx_state (ac_ctx (receive_in_turn env (CReset r) t st))) stored) = Some (JStr v)"
    by (simp add: flush_row_def Let_def split: option.splits)
  have "ac_ctx (turn_completed env ev c (Inr ()) s) = c" for ev c s
    by (auto simp: turn_completed_def Let_def ctx dest!: flush split: prod.splits sum.splits)
  then have "active_model (ctx_state (ac_ctx (end_turn env (Completed (Inr ())) t
      (receive_in_turn env (CSetModel m r) t st)))) = active_model (ctx_state (tu_ctx t))"
    by (simp add: end_turn_def Let_def touch_context_def)
  with a b show ?thesis by blast
qed

theorem turn_undoes_reset_and_model_witness:
  "\<exists>env t st. metadata (ctx_state (ac_ctx (receive_in_turn env (CReset 1) t st))) ''omo_thread_id'' = Some (JStr ''th'') \<and>
     active_model (ctx_state (ac_ctx (end_turn env (Completed (Inr ())) t
       (receive_in_turn env (CSetModel ''new'' 1) t st)))) \<noteq> Some ''new''"
proof -
  let ?c = "session_context_new 0 (session_key_new ''discord'' None ''c'' None ''u'')"
  define t where "t = \<lparr>tu_event = event_message ''e1'' 5 (ctx_key ?c) ''1'' ''hello'',
    tu_ctx = ?c\<lparr>ctx_state := session_state_default\<lparr>metadata := [''omo_thread_id'' \<mapsto> JStr ''th'']\<rparr>\<rparr>\<rparr>"
  define st where "st = (actor_load ?c None 0)\<lparr>ac_turn := Some t\<rparr>"
  define env where "env = \<lparr>en_now = 0, en_instant = 0, en_seen = Inr False, en_persist = None,
    en_flush = None, en_cancel = None, en_dispatcher = False\<rparr>"
  have "metadata (ctx_state (tu_ctx t)) ''omo_thread_id'' = Some (JStr ''th'')"
    by (simp add: t_def)
  note undo = turn_undoes_reset_and_model [OF this, of env 1 st None "''new''"]
  have "active_model (ctx_state (tu_ctx t)) \<noteq> Some ''new''"
    by (simp add: t_def session_state_default_def)
  then have "active_model (ctx_state (ac_ctx (end_turn env (Completed (Inr ())) t
      (receive_in_turn env (CSetModel ''new'' 1) t st)))) \<noteq> Some ''new''"
    using undo by (simp only:) simp
  with undo show ?thesis by blast
qed

end
