(* ===== verification/Session_Handle.thy ===== *)
theory Session_Handle
  imports Transition_System
begin

section \<open>Handing events to an actor that may retire\<close>

text \<open>
  \<open>SessionHandle\<close> of \<open>src/multiplexer/router.rs\<close> and the collector of \<open>src/multiplexer/gc.rs\<close>
  for one session: any number of tasks in \<open>send_command\<close>, the collector that retires idle
  actors, the actor that drains the mailbox, and the heartbeat that puts \<open>TouchActivity\<close> into
  the mailbox past the protocol.  Each step is one access to a shared variable or one operation
  of the channel; steps of different tasks interleave, each seeing the latest value of every
  variable (sequential consistency).  Sender \<open>s\<close> sends event \<open>s\<close>.  The actor has started
  (\<open>wait_started\<close> has returned).
\<close>

datatype SendOutcome = Sent | Retiring | Closed

datatype mail = Event nat | EvictIfIdle | TouchActivity

text \<open>Where a task is in \<open>send_command\<close>: before its first check, past the check of \<open>finished\<close>,
  past the check of \<open>accepting\<close>, counted in \<open>in_flight\<close>, past the second check of each, turned
  down, its count given back, past the channel's \<open>send\<close> (with its result), returned.\<close>

datatype sender =
    SStart | SLoaded | SChecked | SCounted | SAccepting | SReady
  | SRefused | SReleased | SSent bool | SDone SendOutcome

datatype collector =
    GIdle | GLoaded | GWaiting | GDrained | GAwait | GResume | GStore | GEvicted | GDead

datatype actor = ARunning | AEvicting | AStopped

record Handle =
  accepting :: bool
  finished :: bool
  in_flight :: nat
  mailbox :: "mail list"
  reply :: "bool option"
  actor_at :: actor
  collector_at :: collector
  sender_at :: "nat \<Rightarrow> sender"
  taken :: "nat list"

abbreviation capacity :: nat where
  "capacity \<equiv> 64"

definition handle_new :: "Handle \<Rightarrow> bool" where
  "handle_new h \<longleftrightarrow> h = \<lparr>accepting = True, finished = False, in_flight = 0, mailbox = [],
     reply = None, actor_at = ARunning, collector_at = GIdle, sender_at = (\<lambda>_. SStart), taken = []\<rparr>"

definition goto :: "nat \<Rightarrow> sender \<Rightarrow> Handle \<Rightarrow> Handle" where
  "goto s pc h = h\<lparr>sender_at := (sender_at h)(s := pc)\<rparr>"

subsection \<open>The tasks, one access at a time\<close>

text \<open>\<open>SessionHandle::send_command\<close>; a full mailbox makes the channel's \<open>send\<close> wait.\<close>

inductive send_step :: "nat \<Rightarrow> Handle \<Rightarrow> Handle \<Rightarrow> bool" where
  load_finished: "sender_at h s = SStart \<Longrightarrow>
    send_step s h (goto s (if finished h then SDone Closed else SLoaded) h)"
| load_accepting: "sender_at h s = SLoaded \<Longrightarrow>
    send_step s h (goto s (if accepting h then SChecked else SDone Retiring) h)"
| count: "sender_at h s = SChecked \<Longrightarrow>
    send_step s h (goto s SCounted (h\<lparr>in_flight := in_flight h + 1\<rparr>))"
| recheck_accepting: "sender_at h s = SCounted \<Longrightarrow>
    send_step s h (goto s (if accepting h then SAccepting else SRefused) h)"
| recheck_finished: "sender_at h s = SAccepting \<Longrightarrow>
    send_step s h (goto s (if finished h then SRefused else SReady) h)"
| release: "sender_at h s = SRefused \<Longrightarrow>
    send_step s h (goto s SReleased (h\<lparr>in_flight := in_flight h - 1\<rparr>))"
| refused: "sender_at h s = SReleased \<Longrightarrow>
    send_step s h (goto s (SDone (if finished h then Closed else Retiring)) h)"
| channel_closed: "sender_at h s = SReady \<Longrightarrow> actor_at h = AStopped \<Longrightarrow>
    send_step s h (goto s (SSent False) h)"
| channel_send: "sender_at h s = SReady \<Longrightarrow> actor_at h \<noteq> AStopped \<Longrightarrow> length (mailbox h) < capacity \<Longrightarrow>
    send_step s h (goto s (SSent True) (h\<lparr>mailbox := mailbox h @ [Event s]\<rparr>))"
| finish_send: "sender_at h s = SSent ok \<Longrightarrow>
    send_step s h (goto s (SDone (if ok then Sent else Closed)) (h\<lparr>in_flight := in_flight h - 1\<rparr>))"

text \<open>The accesses of \<open>try_retire\<close> (a compare-and-exchange; a failed one changes nothing),
  \<open>wait_for_in_flight\<close>, \<open>resume\<close> and \<open>mark_finished\<close>.\<close>

definition retire_exchange :: "Handle \<Rightarrow> Handle" where
  "retire_exchange h = (if accepting h then h\<lparr>accepting := False\<rparr> else h)"

definition in_flight_drained :: "Handle \<Rightarrow> bool" where
  "in_flight_drained h \<longleftrightarrow> in_flight h = 0"

definition resume_accepting :: "Handle \<Rightarrow> Handle" where
  "resume_accepting h = h\<lparr>accepting := True\<rparr>"

definition finish_accepting :: "Handle \<Rightarrow> Handle" where
  "finish_accepting h = h\<lparr>accepting := False\<rparr>"

definition finish_finished :: "Handle \<Rightarrow> Handle" where
  "finish_finished h = h\<lparr>finished := True\<rparr>"

lemmas handle_accesses = retire_exchange_def in_flight_drained_def resume_accepting_def
  finish_accepting_def finish_finished_def

text \<open>\<open>gc::collect\<close> with \<open>try_retire\<close>, \<open>wait_for_in_flight\<close>, \<open>resume\<close> and \<open>mark_finished\<close>.  An
  error reply resumes the handle like a negative one.\<close>

inductive gc_step :: "Handle \<Rightarrow> Handle \<Rightarrow> bool" where
  load: "collector_at h = GIdle \<Longrightarrow> \<not> finished h \<Longrightarrow> gc_step h (h\<lparr>collector_at := GLoaded\<rparr>)"
| retire: "collector_at h = GLoaded \<Longrightarrow>
    gc_step h (retire_exchange h\<lparr>collector_at := (if accepting h then GWaiting else GIdle)\<rparr>)"
| drained: "collector_at h = GWaiting \<Longrightarrow> in_flight_drained h \<Longrightarrow> gc_step h (h\<lparr>collector_at := GDrained\<rparr>)"
| evict: "collector_at h = GDrained \<Longrightarrow> actor_at h \<noteq> AStopped \<Longrightarrow> length (mailbox h) < capacity \<Longrightarrow>
    gc_step h (h\<lparr>mailbox := mailbox h @ [EvictIfIdle], reply := None, collector_at := GAwait\<rparr>)"
| evict_closed: "collector_at h = GDrained \<Longrightarrow> actor_at h = AStopped \<Longrightarrow> gc_step h (h\<lparr>collector_at := GEvicted\<rparr>)"
| replied: "collector_at h = GAwait \<Longrightarrow> reply h = Some evicted \<Longrightarrow>
    gc_step h (h\<lparr>collector_at := (if evicted then GEvicted else GResume)\<rparr>)"
| resume_load: "collector_at h = GResume \<Longrightarrow>
    gc_step h (h\<lparr>collector_at := (if finished h then GIdle else GStore)\<rparr>)"
| resume_store: "collector_at h = GStore \<Longrightarrow> gc_step h (resume_accepting h\<lparr>collector_at := GIdle\<rparr>)"
| mark_accepting: "collector_at h = GEvicted \<Longrightarrow> gc_step h (finish_accepting h\<lparr>collector_at := GDead\<rparr>)"
| mark_finished: "collector_at h = GDead \<Longrightarrow> gc_step h (finish_finished h)"

text \<open>The actor: it takes the next message; it answers \<open>EvictIfIdle\<close> with no unless it is idle and
  the mailbox is empty; then it flushes, and either stops or (the flush failed) answers no.
  After it stopped, its task and the senders that found the channel closed also finish the
  handle.\<close>

inductive mailbox_step :: "Handle \<Rightarrow> Handle \<Rightarrow> bool" where
  take_event: "actor_at h = ARunning \<Longrightarrow> mailbox h = Event e # ms \<Longrightarrow>
    mailbox_step h (h\<lparr>mailbox := ms, taken := taken h @ [e]\<rparr>)"
| take_touch: "actor_at h = ARunning \<Longrightarrow> mailbox h = TouchActivity # ms \<Longrightarrow> mailbox_step h (h\<lparr>mailbox := ms\<rparr>)"
| refuse_evict: "actor_at h = ARunning \<Longrightarrow> mailbox h = EvictIfIdle # ms \<Longrightarrow>
    mailbox_step h (h\<lparr>mailbox := ms, reply := Some False\<rparr>)"
| begin_evict: "actor_at h = ARunning \<Longrightarrow> mailbox h = [EvictIfIdle] \<Longrightarrow>
    mailbox_step h (h\<lparr>mailbox := [], actor_at := AEvicting\<rparr>)"
| flush_failed: "actor_at h = AEvicting \<Longrightarrow> mailbox_step h (h\<lparr>reply := Some False, actor_at := ARunning\<rparr>)"
| stop: "actor_at h = AEvicting \<Longrightarrow> mailbox_step h (h\<lparr>reply := Some True, actor_at := AStopped\<rparr>)"
| heartbeat: "actor_at h \<noteq> AStopped \<Longrightarrow> length (mailbox h) < capacity \<Longrightarrow>
    mailbox_step h (h\<lparr>mailbox := mailbox h @ [TouchActivity]\<rparr>)"
| task_mark_accepting: "actor_at h = AStopped \<Longrightarrow> mailbox_step h (finish_accepting h)"
| task_mark_finished: "actor_at h = AStopped \<Longrightarrow> \<not> accepting h \<Longrightarrow> mailbox_step h (finish_finished h)"

inductive handle_step :: "Handle \<Rightarrow> Handle \<Rightarrow> bool" where
  sender: "send_step s h h' \<Longrightarrow> handle_step h h'"
| collector: "gc_step h h' \<Longrightarrow> handle_step h h'"
| actor: "mailbox_step h h' \<Longrightarrow> handle_step h h'"

subsection \<open>The invariant\<close>

text \<open>First, \<open>in_flight\<close> counts the senders between the increment and the decrement.\<close>

fun is_counted :: "sender \<Rightarrow> bool" where
  "is_counted SCounted = True"
| "is_counted SAccepting = True"
| "is_counted SReady = True"
| "is_counted SRefused = True"
| "is_counted (SSent _) = True"
| "is_counted _ = False"

definition counted :: "Handle \<Rightarrow> nat set" where
  "counted h = {s. is_counted (sender_at h s)}"

definition count_inv :: "Handle \<Rightarrow> bool" where
  "count_inv h \<longleftrightarrow> finite (counted h) \<and> in_flight h = card (counted h)"

lemma sender_at_goto [simp]: "sender_at (goto s pc h) = (sender_at h)(s := pc)"
  by (simp add: goto_def)

lemma goto_fields [simp]:
  "accepting (goto s pc h) = accepting h" "finished (goto s pc h) = finished h"
  "in_flight (goto s pc h) = in_flight h" "mailbox (goto s pc h) = mailbox h"
  "reply (goto s pc h) = reply h" "actor_at (goto s pc h) = actor_at h"
  "collector_at (goto s pc h) = collector_at h" "taken (goto s pc h) = taken h"
  by (simp_all add: goto_def)

lemma counted_goto: "counted (goto s pc h) = (if is_counted pc then insert s (counted h) else counted h - {s})"
  by (auto simp: counted_def)

lemma counted_update [simp]:
  "counted (h\<lparr>in_flight := n\<rparr>) = counted h" "counted (h\<lparr>mailbox := ms\<rparr>) = counted h"
  "counted (h\<lparr>accepting := b\<rparr>) = counted h" "counted (h\<lparr>finished := b\<rparr>) = counted h"
  "counted (h\<lparr>reply := r\<rparr>) = counted h" "counted (h\<lparr>actor_at := a\<rparr>) = counted h"
  "counted (h\<lparr>collector_at := c\<rparr>) = counted h" "counted (h\<lparr>taken := t\<rparr>) = counted h"
  by (simp_all add: counted_def)

lemma count_inv_step:
  assumes "handle_step h h'" and "count_inv h"
  shows "count_inv h'"
  using assms(1)
proof cases
  case (sender s)
  have mem: "s \<in> counted h \<longleftrightarrow> is_counted (sender_at h s)" by (simp add: counted_def)
  from sender show ?thesis
    using assms(2) mem
    by cases (auto simp: count_inv_def counted_goto insert_absorb card_insert_if)
next
  case collector
  then show ?thesis using assms(2) by cases (auto simp: count_inv_def handle_accesses)
next
  case actor
  then show ?thesis using assms(2) by cases (auto simp: count_inv_def handle_accesses)
qed

text \<open>Second, what the collector, the actor and the mailbox have to do with each other while a
  handle retires: from the moment the collector has seen no sender in flight, no sender passes
  the second check, and behind the eviction command there are only heartbeats.\<close>

definition only_touch :: "mail list \<Rightarrow> bool" where
  "only_touch ms \<longleftrightarrow> list_all (\<lambda>m. m = TouchActivity) ms"

fun evict_last :: "mail list \<Rightarrow> bool" where
  "evict_last [] = True"
| "evict_last (m # ms) = (if m = EvictIfIdle then only_touch ms else evict_last ms)"

abbreviation sealed :: "Handle \<Rightarrow> bool" where
  "sealed h \<equiv> collector_at h \<in> {GDrained, GAwait, GResume, GStore, GEvicted, GDead}"

definition seal_inv :: "Handle \<Rightarrow> bool" where
  "seal_inv h \<longleftrightarrow> (sealed h \<longrightarrow> (\<forall>s. sender_at h s \<noteq> SAccepting \<and> sender_at h s \<noteq> SReady))"

definition lane_inv :: "Handle \<Rightarrow> bool" where
  "lane_inv h \<longleftrightarrow>
     (collector_at h \<notin> {GIdle, GLoaded} \<longrightarrow> \<not> accepting h) \<and>
     (EvictIfIdle \<in> set (mailbox h) \<longrightarrow>
        collector_at h = GAwait \<and> reply h = None \<and> actor_at h = ARunning \<and> evict_last (mailbox h)) \<and>
     (actor_at h = AEvicting \<longrightarrow> collector_at h = GAwait \<and> reply h = None \<and> only_touch (mailbox h)) \<and>
     (actor_at h = AStopped \<longrightarrow> only_touch (mailbox h)) \<and>
     (actor_at h = AStopped \<longleftrightarrow>
        collector_at h = GAwait \<and> reply h = Some True \<or> collector_at h \<in> {GEvicted, GDead}) \<and>
     (finished h \<longrightarrow> actor_at h = AStopped)"

lemma only_touch_simps [simp]:
  "only_touch []" "only_touch (m # ms) \<longleftrightarrow> m = TouchActivity \<and> only_touch ms"
  "only_touch (ms @ ns) \<longleftrightarrow> only_touch ms \<and> only_touch ns"
  by (simp_all add: only_touch_def)

lemma only_touch_no_evict: "only_touch ms \<Longrightarrow> EvictIfIdle \<notin> set ms"
  by (induction ms) auto

lemma evict_last_append: "EvictIfIdle \<notin> set ms \<Longrightarrow> evict_last (ms @ [EvictIfIdle])"
  by (induction ms) auto

lemma evict_last_touch: "evict_last ms \<Longrightarrow> evict_last (ms @ [TouchActivity])"
  by (induction ms) auto

lemma lane_inv_goto [simp]: "lane_inv (goto s pc h) = lane_inv h"
  by (simp add: lane_inv_def)

lemma lane_inv_in_flight [simp]: "lane_inv (h\<lparr>in_flight := n\<rparr>) = lane_inv h"
  by (simp add: lane_inv_def)

lemma lane_inv_push:
  assumes "lane_inv h" and "\<not> sealed h"
  shows "lane_inv (h\<lparr>mailbox := mailbox h @ [Event s]\<rparr>)"
  using assms by (cases "actor_at h") (auto simp: lane_inv_def)

lemma seal_inv_goto:
  "seal_inv h \<Longrightarrow> (pc = SAccepting \<Longrightarrow> \<not> sealed h) \<Longrightarrow> (pc = SReady \<Longrightarrow> \<not> sealed h) \<Longrightarrow> seal_inv (goto s pc h)"
  by (simp add: seal_inv_def) blast

lemma seal_inv_update [simp]:
  "seal_inv (h\<lparr>in_flight := n\<rparr>) = seal_inv h" "seal_inv (h\<lparr>mailbox := ms\<rparr>) = seal_inv h"
  by (simp_all add: seal_inv_def)

lemma accepting_not_sealed: "lane_inv h \<Longrightarrow> accepting h \<Longrightarrow> \<not> sealed h"
  by (auto simp: lane_inv_def)

lemma passing_not_sealed:
  "seal_inv h \<Longrightarrow> sender_at h s = SAccepting \<Longrightarrow> \<not> sealed h"
  "seal_inv h \<Longrightarrow> sender_at h s = SReady \<Longrightarrow> \<not> sealed h"
  by (auto simp: seal_inv_def)

definition retire_inv :: "Handle \<Rightarrow> bool" where
  "retire_inv h \<longleftrightarrow> seal_inv h \<and> lane_inv h"

lemma retire_inv_send:
  assumes "send_step s h h'" and "retire_inv h"
  shows "retire_inv h'"
proof -
  have inv: "seal_inv h" "lane_inv h" using assms(2) by (simp_all add: retire_inv_def)
  from assms(1) show ?thesis
  proof cases
    case recheck_accepting
    then show ?thesis
      using inv accepting_not_sealed [of h] by (auto simp: retire_inv_def intro!: seal_inv_goto)
  next
    case recheck_finished
    then show ?thesis
      using inv passing_not_sealed(1) [of h s] by (auto simp: retire_inv_def intro!: seal_inv_goto)
  next
    case channel_send
    then show ?thesis
      using inv passing_not_sealed(2) [of h s]
      by (simp add: retire_inv_def seal_inv_goto lane_inv_push)
  qed (use inv in \<open>auto simp: retire_inv_def intro!: seal_inv_goto\<close>)
qed

lemma retire_inv_gc:
  assumes "gc_step h h'" and "retire_inv h" and "count_inv h"
  shows "retire_inv h'"
proof -
  have inv: "seal_inv h" "lane_inv h" using assms(2) by (simp_all add: retire_inv_def)
  have lane: "lane_inv h'"
    using assms(1) inv(2)
    by (cases "actor_at h"; cases rule: gc_step.cases) (auto simp: lane_inv_def evict_last_append handle_accesses)
  from assms(1) have "seal_inv h'"
  proof cases
    case drained
    then have "counted h = {}" using assms(3) by (auto simp: count_inv_def handle_accesses)
    then have "sender_at h s \<noteq> SAccepting \<and> sender_at h s \<noteq> SReady" for s
      by (auto simp: counted_def dest: spec [of _ s])
    with drained show ?thesis by (auto simp: seal_inv_def)
  qed (use inv(1) in \<open>auto simp: seal_inv_def handle_accesses\<close>)
  with lane show ?thesis by (simp add: retire_inv_def)
qed

lemma retire_inv_mailbox:
  assumes "mailbox_step h h'" and "retire_inv h"
  shows "retire_inv h'"
proof -
  have inv: "seal_inv h" "lane_inv h" using assms(2) by (simp_all add: retire_inv_def)
  have "seal_inv h'" using assms(1) inv(1) by cases (auto simp: seal_inv_def handle_accesses)
  moreover from assms(1) have "lane_inv h'"
    by cases (use inv(2) in \<open>auto simp: lane_inv_def evict_last_touch handle_accesses dest: only_touch_no_evict\<close>)
  ultimately show ?thesis by (simp add: retire_inv_def)
qed

text \<open>Third, an event is in the mailbox or taken by the actor exactly when its send went
  through, and only once.\<close>

fun events_in :: "mail list \<Rightarrow> nat list" where
  "events_in [] = []"
| "events_in (Event e # ms) = e # events_in ms"
| "events_in (_ # ms) = events_in ms"

definition queued :: "Handle \<Rightarrow> nat list" where
  "queued h = taken h @ events_in (mailbox h)"

definition went_through :: "Handle \<Rightarrow> nat \<Rightarrow> bool" where
  "went_through h s \<longleftrightarrow> sender_at h s \<in> {SSent True, SDone Sent}"

definition delivery_inv :: "Handle \<Rightarrow> bool" where
  "delivery_inv h \<longleftrightarrow> distinct (queued h) \<and> (\<forall>s. went_through h s \<longleftrightarrow> s \<in> set (queued h))"

lemma events_in_append [simp]: "events_in (ms @ ns) = events_in ms @ events_in ns"
  by (induction ms rule: events_in.induct) simp_all

lemma only_touch_events: "only_touch ms \<Longrightarrow> events_in ms = []"
  by (induction ms rule: events_in.induct) simp_all

lemma delivery_inv_step:
  assumes "handle_step h h'" and "delivery_inv h"
  shows "delivery_inv h'"
  using assms(1)
proof cases
  case (sender s)
  have s: "went_through h s \<longleftrightarrow> s \<in> set (queued h)" using assms(2) by (simp add: delivery_inv_def)
  from sender show ?thesis
    by cases (use assms(2) s in \<open>auto simp: delivery_inv_def went_through_def queued_def\<close>)
next
  case collector
  then show ?thesis
    by cases (use assms(2) in \<open>auto simp: delivery_inv_def went_through_def queued_def handle_accesses\<close>)
next
  case actor
  then show ?thesis
    by cases (use assms(2) in \<open>auto simp: delivery_inv_def went_through_def queued_def handle_accesses\<close>)
qed

definition handle_inv :: "Handle \<Rightarrow> bool" where
  "handle_inv h \<longleftrightarrow> count_inv h \<and> retire_inv h \<and> delivery_inv h"

interpretation handle: invariant handle_new handle_step handle_inv
proof
  fix h assume "handle_new h"
  then show "handle_inv h"
    by (auto simp: handle_inv_def handle_new_def count_inv_def counted_def retire_inv_def seal_inv_def
        lane_inv_def delivery_inv_def queued_def went_through_def)
next
  fix h h' assume h: "handle_inv h" "handle_step h h'"
  from h(2) have "retire_inv h'"
    by cases (use h(1) in \<open>auto simp: handle_inv_def intro: retire_inv_send retire_inv_gc retire_inv_mailbox\<close>)
  with h show "handle_inv h'"
    by (auto simp: handle_inv_def intro: count_inv_step delivery_inv_step)
qed

subsection \<open>Properties\<close>

text \<open>C11: retiring an idle actor loses no event, whatever the interleaving.  Once the actor has
  stopped, the mailbox holds no event, every send that returned \<open>Sent\<close> had its event taken by
  the actor, and no task is about to put another event into the closed channel.\<close>

theorem eviction_loses_nothing:
  assumes "reachable handle_new handle_step h" and "actor_at h = AStopped"
  shows "events_in (mailbox h) = [] \<and> (sender_at h s = SDone Sent \<longrightarrow> s \<in> set (taken h)) \<and>
    sender_at h s \<noteq> SReady"
proof -
  have inv: "handle_inv h" by (rule handle.holds [OF assms(1)])
  then have "only_touch (mailbox h)" "sealed h"
    using assms(2) by (auto simp: handle_inv_def retire_inv_def lane_inv_def)
  with inv show ?thesis
    using only_touch_events [of "mailbox h"]
    by (auto simp: handle_inv_def retire_inv_def seal_inv_def delivery_inv_def queued_def went_through_def)
qed

text \<open>The eviction command is a strict barrier, and an event is delivered at most once.
  While the command waits in the mailbox only heartbeats are behind it; no event is taken twice;
  and a send that was turned down (so that the caller tries again) has left no copy behind.\<close>

theorem eviction_is_barrier:
  assumes "reachable handle_new handle_step h"
  shows "evict_last (mailbox h) \<and> distinct (taken h @ events_in (mailbox h)) \<and>
    (sender_at h s \<in> {SDone Retiring, SDone Closed} \<longrightarrow> s \<notin> set (taken h @ events_in (mailbox h)))"
proof -
  have inv: "handle_inv h" by (rule handle.holds [OF assms])
  have "evict_last ms" if "EvictIfIdle \<notin> set ms" for ms
    using that by (induction ms) auto
  then have "evict_last (mailbox h)"
    using inv by (auto simp: handle_inv_def retire_inv_def lane_inv_def)
  moreover have "went_through h s \<longleftrightarrow> s \<in> set (queued h)" "distinct (queued h)"
    using inv by (simp_all add: handle_inv_def delivery_inv_def)
  ultimately show ?thesis
    by (auto simp: queued_def went_through_def)
qed

text \<open>A run that sends one event and then evicts the actor, for the examples below.\<close>

definition sample_handle ::
  "bool \<Rightarrow> nat \<Rightarrow> mail list \<Rightarrow> bool option \<Rightarrow> actor \<Rightarrow> collector \<Rightarrow> sender \<Rightarrow> nat list \<Rightarrow> Handle" where
  "sample_handle acc n ms r a g pc tk = \<lparr>accepting = acc, finished = False, in_flight = n, mailbox = ms,
     reply = r, actor_at = a, collector_at = g, sender_at = (\<lambda>_. SStart)(0 := pc), taken = tk\<rparr>"

lemma sample_run:
  "reachable handle_new handle_step (sample_handle False 0 [EvictIfIdle] None ARunning GAwait (SDone Sent) [0])"
  "reachable handle_new handle_step (sample_handle False 0 [] (Some True) AStopped GAwait (SDone Sent) [0])"
proof -
  have "handle_new (sample_handle True 0 [] None ARunning GIdle SStart [])"
    by (simp add: handle_new_def sample_handle_def fun_eq_iff)
  then have s0: "reachable handle_new handle_step (sample_handle True 0 [] None ARunning GIdle SStart [])"
    by (rule reachable.start)
  have s1: "reachable handle_new handle_step (sample_handle True 0 [] None ARunning GIdle SLoaded [])"
    by (rule reachable.next_state [OF s0], rule handle_step.sender)
      (use send_step.load_finished [of "sample_handle True 0 [] None ARunning GIdle SStart []" 0] in \<open>simp add: sample_handle_def goto_def handle_accesses\<close>)
  have s2: "reachable handle_new handle_step (sample_handle True 0 [] None ARunning GIdle SChecked [])"
    by (rule reachable.next_state [OF s1], rule handle_step.sender)
      (use send_step.load_accepting [of "sample_handle True 0 [] None ARunning GIdle SLoaded []" 0] in \<open>simp add: sample_handle_def goto_def handle_accesses\<close>)
  have s3: "reachable handle_new handle_step (sample_handle True 1 [] None ARunning GIdle SCounted [])"
    by (rule reachable.next_state [OF s2], rule handle_step.sender)
      (use send_step.count [of "sample_handle True 0 [] None ARunning GIdle SChecked []" 0] in \<open>simp add: sample_handle_def goto_def handle_accesses\<close>)
  have s4: "reachable handle_new handle_step (sample_handle True 1 [] None ARunning GIdle SAccepting [])"
    by (rule reachable.next_state [OF s3], rule handle_step.sender)
      (use send_step.recheck_accepting [of "sample_handle True 1 [] None ARunning GIdle SCounted []" 0] in \<open>simp add: sample_handle_def goto_def handle_accesses\<close>)
  have s5: "reachable handle_new handle_step (sample_handle True 1 [] None ARunning GIdle SReady [])"
    by (rule reachable.next_state [OF s4], rule handle_step.sender)
      (use send_step.recheck_finished [of "sample_handle True 1 [] None ARunning GIdle SAccepting []" 0] in \<open>simp add: sample_handle_def goto_def handle_accesses\<close>)
  have s6: "reachable handle_new handle_step (sample_handle True 1 [Event 0] None ARunning GIdle (SSent True) [])"
    by (rule reachable.next_state [OF s5], rule handle_step.sender)
      (use send_step.channel_send [of "sample_handle True 1 [] None ARunning GIdle SReady []" 0] in \<open>simp add: sample_handle_def goto_def handle_accesses\<close>)
  have s7: "reachable handle_new handle_step (sample_handle True 0 [Event 0] None ARunning GIdle (SDone Sent) [])"
    by (rule reachable.next_state [OF s6], rule handle_step.sender)
      (use send_step.finish_send [of "sample_handle True 1 [Event 0] None ARunning GIdle (SSent True) []" 0 True] in \<open>simp add: sample_handle_def goto_def handle_accesses\<close>)
  have s8: "reachable handle_new handle_step (sample_handle True 0 [Event 0] None ARunning GLoaded (SDone Sent) [])"
    by (rule reachable.next_state [OF s7], rule handle_step.collector)
      (use gc_step.load [of "sample_handle True 0 [Event 0] None ARunning GIdle (SDone Sent) []"] in \<open>simp add: sample_handle_def goto_def handle_accesses\<close>)
  have s9: "reachable handle_new handle_step (sample_handle False 0 [Event 0] None ARunning GWaiting (SDone Sent) [])"
    by (rule reachable.next_state [OF s8], rule handle_step.collector)
      (use gc_step.retire [of "sample_handle True 0 [Event 0] None ARunning GLoaded (SDone Sent) []"] in \<open>simp add: sample_handle_def goto_def handle_accesses\<close>)
  have s10: "reachable handle_new handle_step (sample_handle False 0 [Event 0] None ARunning GDrained (SDone Sent) [])"
    by (rule reachable.next_state [OF s9], rule handle_step.collector)
      (use gc_step.drained [of "sample_handle False 0 [Event 0] None ARunning GWaiting (SDone Sent) []"] in \<open>simp add: sample_handle_def goto_def handle_accesses\<close>)
  have s11: "reachable handle_new handle_step (sample_handle False 0 [Event 0, EvictIfIdle] None ARunning GAwait (SDone Sent) [])"
    by (rule reachable.next_state [OF s10], rule handle_step.collector)
      (use gc_step.evict [of "sample_handle False 0 [Event 0] None ARunning GDrained (SDone Sent) []"] in \<open>simp add: sample_handle_def goto_def handle_accesses\<close>)
  have s12: "reachable handle_new handle_step (sample_handle False 0 [EvictIfIdle] None ARunning GAwait (SDone Sent) [0])"
    by (rule reachable.next_state [OF s11], rule handle_step.actor)
      (use mailbox_step.take_event [of "sample_handle False 0 [Event 0, EvictIfIdle] None ARunning GAwait (SDone Sent) []"] in \<open>simp add: sample_handle_def goto_def handle_accesses\<close>)
  have s13: "reachable handle_new handle_step (sample_handle False 0 [] None AEvicting GAwait (SDone Sent) [0])"
    by (rule reachable.next_state [OF s12], rule handle_step.actor)
      (use mailbox_step.begin_evict [of "sample_handle False 0 [EvictIfIdle] None ARunning GAwait (SDone Sent) [0]"] in \<open>simp add: sample_handle_def goto_def handle_accesses\<close>)
  have s14: "reachable handle_new handle_step (sample_handle False 0 [] (Some True) AStopped GAwait (SDone Sent) [0])"
    by (rule reachable.next_state [OF s13], rule handle_step.actor)
      (use mailbox_step.stop [of "sample_handle False 0 [] None AEvicting GAwait (SDone Sent) [0]"] in \<open>simp add: sample_handle_def goto_def handle_accesses\<close>)
  show "reachable handle_new handle_step (sample_handle False 0 [EvictIfIdle] None ARunning GAwait (SDone Sent) [0])"
    by (rule s12)
  show "reachable handle_new handle_step (sample_handle False 0 [] (Some True) AStopped GAwait (SDone Sent) [0])"
    by (rule s14)
qed

theorem eviction_loses_nothing_witness:
  "\<exists>h. reachable handle_new handle_step h \<and> actor_at h = AStopped \<and> sender_at h 0 = SDone Sent \<and> 0 \<in> set (taken h)"
proof -
  let ?h = "sample_handle False 0 [] (Some True) AStopped GAwait (SDone Sent) [0]"
  have "actor_at ?h = AStopped" "sender_at ?h 0 = SDone Sent" by (simp_all add: sample_handle_def)
  then show ?thesis using eviction_loses_nothing [OF sample_run(2), of 0] sample_run(2) by blast
qed

theorem eviction_is_barrier_witness:
  "\<exists>h. reachable handle_new handle_step h \<and> EvictIfIdle \<in> set (mailbox h) \<and> evict_last (mailbox h)"
proof -
  let ?h = "sample_handle False 0 [EvictIfIdle] None ARunning GAwait (SDone Sent) [0]"
  have "EvictIfIdle \<in> set (mailbox ?h)" by (simp add: sample_handle_def)
  then show ?thesis using eviction_is_barrier [OF sample_run(1), of 0] sample_run(1) by blast
qed

end
