(* ===== verification/Message_Chunks.thy ===== *)
theory Message_Chunks
  imports Gateway_Events
begin

section \<open>Splitting long replies into messages\<close>

text \<open>
  \<open>src/discord/throttler.rs\<close>: a reply is cut into messages of at most \<open>limit\<close> characters, a code
  fence that crosses a cut is closed and reopened, and at most eight messages are kept; a live
  preview is one message.  The splitting loop is a partial function: with a limit of zero it
  would not end, and that it ends for every other limit is proved.  The final update edits and
  sends through a transport whose answers are an argument.
\<close>

subsection \<open>Cutting\<close>

definition char_count :: "string \<Rightarrow> nat" where
  "char_count s = length (chars s)"

definition take_chars :: "string \<Rightarrow> nat \<Rightarrow> string \<times> string" where
  "take_chars s n = (concat (take n (chars s)), concat (drop n (chars s)))"

text \<open>The last character that satisfies \<open>P\<close>, with its byte offset (\<open>rmatch_indices(P).next()\<close>).\<close>

fun rmatch :: "(string \<Rightarrow> bool) \<Rightarrow> nat \<Rightarrow> string list \<Rightarrow> (nat \<times> string) option" where
  "rmatch P off [] = None"
| "rmatch P off (c # cs) =
     (case rmatch P (off + length c) cs of
        Some r \<Rightarrow> Some r
      | None \<Rightarrow> if P c then Some (off, c) else None)"

definition boundary_at :: "(string \<Rightarrow> bool) \<Rightarrow> string \<Rightarrow> nat option" where
  "boundary_at P s =
     (case rmatch P 0 (chars s) of
        Some (i, c) \<Rightarrow> if i > length s div 2 then Some (i + length c) else None
      | None \<Rightarrow> None)"

definition preferred_boundary :: "string \<Rightarrow> nat option" where
  "preferred_boundary s =
     (case boundary_at (\<lambda>c. c = [nl]) s of
        Some i \<Rightarrow> Some i
      | None \<Rightarrow> boundary_at is_whitespace s)"

fun split_inclusive :: "string \<Rightarrow> string list" where
  "split_inclusive [] = []"
| "split_inclusive (c # s) =
     (if c = nl then [c] # split_inclusive s
      else case split_inclusive s of [] \<Rightarrow> [[c]] | l # ls \<Rightarrow> (c # l) # ls)"

definition scan_line :: "string \<Rightarrow> string option \<Rightarrow> string option" where
  "scan_line line open_fence =
     (case strip_prefix ''```'' (trim_start line) of
        Some after \<Rightarrow> (if open_fence \<noteq> None then None else Some (trim after))
      | None \<Rightarrow> open_fence)"

definition scan_fences :: "string \<Rightarrow> string option \<Rightarrow> string option" where
  "scan_fences text open_fence = fold scan_line (split_inclusive text) open_fence"

subsection \<open>The splitting loop\<close>

definition chunk_prefix :: "nat option \<Rightarrow> nat \<Rightarrow> string option \<Rightarrow> string" where
  "chunk_prefix tot idx reopen =
     (case tot of
        Some n \<Rightarrow> ''('' @ dec idx @ ''/'' @ dec n @ '')'' @ [nl]
      | None \<Rightarrow> '''') @
     (case reopen of Some language \<Rightarrow> ''```'' @ language @ [nl] | None \<Rightarrow> '''')"

text \<open>One round of the loop: the chunk, what remains, and the fence that is still open.\<close>

definition chunk_round ::
  "nat \<Rightarrow> nat option \<Rightarrow> nat \<Rightarrow> string option \<Rightarrow> string \<Rightarrow> string \<times> string \<times> string option" where
  "chunk_round limit tot idx reopen remaining =
     (let prefix = chunk_prefix tot idx reopen;
          budget = limit - (char_count prefix + 4)
      in if budget = 0 then
           (fst (take_chars remaining limit), snd (take_chars remaining limit), None)
         else
           let (candidate, rest) = take_chars remaining budget;
               split_at = (if rest = [] then length candidate
                           else case preferred_boundary candidate of
                                  Some i \<Rightarrow> i | None \<Rightarrow> length candidate);
               piece = take split_at remaining;
               fence = scan_fences piece reopen;
               suffix = (if rest \<noteq> [] \<and> fence \<noteq> None then [nl] @ ''```'' else '''')
           in (prefix @ piece @ suffix, drop split_at remaining, fence))"

partial_function (option) chunk_loop ::
  "nat \<Rightarrow> nat option \<Rightarrow> nat \<Rightarrow> string option \<Rightarrow> string \<Rightarrow> string list option" where
  "chunk_loop limit tot idx reopen remaining =
     (if remaining = [] then Some []
      else case chunk_round limit tot idx reopen remaining of
             (chunk, remaining', reopen') \<Rightarrow>
               Option.bind (chunk_loop limit tot (idx + 1) reopen' remaining') (\<lambda>cs. Some (chunk # cs)))"

definition chunk_markdown_raw :: "string \<Rightarrow> nat \<Rightarrow> nat option \<Rightarrow> string list option" where
  "chunk_markdown_raw content limit tot = chunk_loop limit tot 1 None content"

abbreviation zero_width_space :: string where
  "zero_width_space \<equiv> [CHR 0xE2, CHR 0x80, CHR 0x8B]"

definition chunk_markdown_paginated :: "string \<Rightarrow> nat \<Rightarrow> bool \<Rightarrow> string list option" where
  "chunk_markdown_paginated content limit paginate =
     (if limit = 0 then Some []
      else if content = [] then Some [zero_width_space]
      else Option.bind (chunk_markdown_raw content limit None) (\<lambda>unpaginated.
        if length unpaginated \<le> 1 \<or> \<not> paginate then Some unpaginated
        else
          let tot = length unpaginated in
          Option.bind (chunk_markdown_raw content limit (Some tot)) (\<lambda>chunks.
            if length chunks \<noteq> tot
            then chunk_markdown_raw content limit (Some (length chunks))
            else Some chunks)))"

definition is_chunk_pagination_enabled :: "string option \<Rightarrow> bool" where
  "is_chunk_pagination_enabled var =
     (case var of
        None \<Rightarrow> True
      | Some v \<Rightarrow> to_ascii_lowercase v \<notin> {''false'', ''0'', ''no'', ''off''})"

definition chunk_markdown :: "string option \<Rightarrow> string \<Rightarrow> nat \<Rightarrow> string list option" where
  "chunk_markdown var content limit =
     chunk_markdown_paginated content limit (is_chunk_pagination_enabled var)"

subsection \<open>Bounds on the number of messages\<close>

abbreviation discord_message_limit :: nat where
  "discord_message_limit \<equiv> 2000"

abbreviation max_split_messages :: nat where
  "max_split_messages \<equiv> 8"

definition truncation_notice :: string where
  "truncation_notice = [nl, nl, CHR 0xE2, CHR 0x80, CHR 0xA6] @
     '' [Response truncated: output exceeded Discord 8-message limit]''"

text \<open>The greatest character boundary that is not after \<open>e\<close>.\<close>

fun boundary_down :: "string \<Rightarrow> nat \<Rightarrow> nat" where
  "boundary_down s 0 = 0"
| "boundary_down s (Suc e) = (if is_char_boundary s (Suc e) then Suc e else boundary_down s e)"

definition bound_split_messages :: "string list \<Rightarrow> nat \<Rightarrow> string list" where
  "bound_split_messages chunks max_messages =
     (if length chunks \<le> max_messages \<or> max_messages = 0 then chunks
      else
        let kept = take max_messages chunks;
            budget = discord_message_limit - length truncation_notice;
            last_one = last kept;
            last_one = (if length last_one > budget then take (boundary_down last_one budget) last_one
                        else last_one)
        in butlast kept @ [last_one @ truncation_notice])"

definition truncate_live_preview :: "string \<Rightarrow> nat \<Rightarrow> string" where
  "truncate_live_preview content limit =
     (if limit = 0 then ''''
      else if content = [] then zero_width_space
      else if char_count content \<le> limit then content
      else fst (take_chars content (limit - 2)) @ '' '' @ [CHR 0xE2, CHR 0x80, CHR 0xA6])"

subsection \<open>The final update of a streamed reply\<close>

text \<open>What the throttler asks the transport to do, and the transport's answer: an error, or the
  identifier of the message.  The state is the identifiers of the reply's messages.\<close>

datatype transport_op =
    StartTyping
  | EditTo nat string
  | SendNew string
  | DeleteOld nat

type_synonym transport = "transport_op \<Rightarrow> OmonError + nat"

fun put_chunks ::
  "transport \<Rightarrow> nat \<Rightarrow> string list \<Rightarrow> nat list \<Rightarrow> transport_op list \<times> nat list \<times> (OmonError + unit)" where
  "put_chunks tr i [] ids = ([], ids, Inr ())"
| "put_chunks tr i (c # cs) ids =
     (let op = (if i < length ids then EditTo (ids ! i) c else SendNew c) in
      case tr op of
        Inl e \<Rightarrow> ([op], ids, Inl e)
      | Inr m \<Rightarrow>
          (let (ops, ids', r) = put_chunks tr (i + 1) cs (if i < length ids then ids else ids @ [m])
           in (op # ops, ids', r)))"

fun delete_stale :: "transport \<Rightarrow> nat list \<Rightarrow> transport_op list \<times> (OmonError + unit)" where
  "delete_stale tr [] = ([], Inr ())"
| "delete_stale tr (m # ms) =
     (case tr (DeleteOld m) of
        Inl e \<Rightarrow> ([DeleteOld m], Inl e)
      | Inr _ \<Rightarrow> (let (ops, r) = delete_stale tr ms in (DeleteOld m # ops, r)))"

definition final_update ::
  "transport \<Rightarrow> string list \<Rightarrow> nat list \<Rightarrow> transport_op list \<times> nat list \<times> (OmonError + unit)" where
  "final_update tr chunks ids =
     (case tr StartTyping of
        Inl e \<Rightarrow> ([StartTyping], ids, Inl e)
      | Inr _ \<Rightarrow>
          (case put_chunks tr 0 chunks ids of
             (ops, ids', Inl e) \<Rightarrow> (StartTyping # ops, ids', Inl e)
           | (ops, ids', Inr _) \<Rightarrow>
               (let (dels, r) = delete_stale tr (drop (length chunks) ids')
                in (StartTyping # ops @ dels, take (length chunks) ids', r))))"

definition live_update ::
  "transport \<Rightarrow> string \<Rightarrow> nat list \<Rightarrow> transport_op list \<times> nat list \<times> (OmonError + unit)" where
  "live_update tr content ids =
     (case tr StartTyping of
        Inl e \<Rightarrow> ([StartTyping], ids, Inl e)
      | Inr _ \<Rightarrow>
          (case ids of
             [] \<Rightarrow> ([StartTyping], ids, Inr ())
           | m # _ \<Rightarrow>
               (let op = EditTo m (truncate_live_preview content discord_message_limit)
                in ([StartTyping, op], ids, case tr op of Inl e \<Rightarrow> Inl e | Inr _ \<Rightarrow> Inr ()))))"

subsection \<open>Counting characters\<close>

lemma char_count_Cons: "char_count (c # cs) = Suc (length (filter (\<lambda>x. \<not> is_cont x) cs))"
proof -
  have "length (chars s) = (if s = [] then 0 else Suc (length (filter (\<lambda>x. \<not> is_cont x) (tl s))))" for s
  proof (induction s rule: chars.induct)
    case (2 c cs)
    have split: "filter (\<lambda>x. \<not> is_cont x) cs = filter (\<lambda>x. \<not> is_cont x) (dropWhile is_cont cs)"
      by (induction cs) auto
    show ?case
    proof (cases "dropWhile is_cont cs")
      case Nil
      then have "chars (dropWhile is_cont cs) = []" by (simp only: chars.simps)
      then show ?thesis using split Nil by (simp del: dropWhile_eq_Nil_conv)
    next
      case (Cons d ds)
      with hd_dropWhile_cont [of cs] have "\<not> is_cont d" by simp
      with "2" split Cons show ?thesis by simp
    qed
  qed simp
  from this [of "c # cs"] show ?thesis by (simp add: char_count_def)
qed

lemma char_count_Nil [simp]: "char_count [] = 0"
  by (simp add: char_count_def)

lemma char_count_append: "char_count (a @ b) \<le> char_count a + char_count b"
  by (cases a; cases b) (simp_all add: char_count_Cons)

lemma char_count_prefix: "char_count a \<le> char_count (a @ b)"
  by (cases a) (simp_all add: char_count_Cons)

lemma char_count_take: "char_count (take n s) \<le> char_count s"
  using char_count_prefix [of "take n s" "drop n s"] by simp

lemma char_count_concat: "list_all wf_char cs \<Longrightarrow> char_count (concat cs) \<le> length cs"
proof (induction cs)
  case (Cons c cs)
  have "char_count c = 1"
    using Cons.prems
    by (cases c) (auto simp: wf_char_def char_count_Cons list_all_iff filter_empty_conv)
  with Cons char_count_append [of c "concat cs"] show ?case by simp
qed simp

lemma char_count_le_length: "char_count s \<le> length s"
  by (simp add: char_count_def length_chars_le)

lemma take_chars_append [simp]: "fst (take_chars s n) @ snd (take_chars s n) = s"
proof -
  have "concat (take n (chars s)) @ concat (drop n (chars s)) = s"
    by (simp flip: concat_append)
  then show ?thesis by (simp add: take_chars_def)
qed

lemma take_chars_count: "char_count (fst (take_chars s n)) \<le> n"
proof -
  have "list_all wf_char (take n (chars s))"
    using wf_chars [of s] by (auto simp: list_all_iff dest: in_set_takeD)
  from char_count_concat [OF this] show ?thesis by (simp add: take_chars_def)
qed

lemma take_chars_nonempty: "s \<noteq> [] \<Longrightarrow> 0 < n \<Longrightarrow> fst (take_chars s n) \<noteq> []"
  by (cases s; cases n) (auto simp: take_chars_def)

subsection \<open>The loop ends\<close>

lemma rmatch_bounds:
  "rmatch P off cs = Some (i, c) \<Longrightarrow> off \<le> i \<and> i + length c \<le> off + length (concat cs)"
  by (induction cs arbitrary: off) (fastforce split: option.splits if_splits)+

lemma preferred_boundary_bounds:
  assumes "preferred_boundary s = Some i"
  shows "0 < i \<and> i \<le> length s"
proof -
  have "0 < i \<and> i \<le> length s" if "boundary_at P s = Some i" for P
    using that rmatch_bounds [of P 0 "chars s"]
    by (auto simp: boundary_at_def split: option.splits if_splits)
  then show ?thesis
    using assms by (auto simp: preferred_boundary_def split: option.splits)
qed

lemma nl_fence_count: "char_count ([nl] @ ''```'') = 4"
  by (simp add: char_count_Cons is_cont_def)

text \<open>What one round does: it takes a non-empty piece off the front, and the chunk is that piece
  with a prefix and a suffix, within the limit.\<close>

definition carries :: "nat option \<Rightarrow> string \<Rightarrow> string \<Rightarrow> bool" where
  "carries tot piece chunk \<longleftrightarrow>
     (\<exists>pre suf. chunk = pre @ piece @ suf \<and> (pre = [] \<or> (\<exists>i r. pre = chunk_prefix tot i r)) \<and>
        (suf = [] \<or> suf = [nl] @ ''```''))"

lemma carries_self: "carries tot piece piece"
  unfolding carries_def by (intro exI [of _ "[]"]) simp

lemma chunk_round_sound:
  assumes "remaining \<noteq> []" and "0 < limit"
    and "chunk_round limit tot idx reopen remaining = (chunk, rest', reopen')"
  shows "\<exists>piece. remaining = piece @ rest' \<and> piece \<noteq> [] \<and> carries tot piece chunk \<and> char_count chunk \<le> limit"
proof -
  let ?p = "chunk_prefix tot idx reopen"
  let ?b = "limit - (char_count ?p + 4)"
  show ?thesis
  proof (cases "?b = 0")
    case True
    then have "chunk = fst (take_chars remaining limit)" "rest' = snd (take_chars remaining limit)"
      using assms(3) by (simp_all add: chunk_round_def)
    then show ?thesis
      using take_chars_append [of remaining limit] take_chars_nonempty [OF assms(1,2)]
        take_chars_count [of remaining limit]
      by (intro exI [of _ chunk]) (auto simp: carries_self)
  next
    case False
    obtain cand rest where t: "take_chars remaining ?b = (cand, rest)" by fastforce
    define k where "k = (if rest = [] then length cand
      else case preferred_boundary cand of Some i \<Rightarrow> i | None \<Rightarrow> length cand)"
    define suf where "suf = (if rest \<noteq> [] \<and> scan_fences (take k remaining) reopen \<noteq> None then [nl] @ ''```'' else [])"
    have out: "chunk = ?p @ take k remaining @ suf" "rest' = drop k remaining"
      using assms(3) False t by (auto simp: chunk_round_def Let_def k_def suf_def)
    have cand: "cand @ rest = remaining" "char_count cand \<le> ?b" "cand \<noteq> []"
      using take_chars_append [of remaining ?b] take_chars_count [of remaining ?b]
        take_chars_nonempty [OF assms(1), of ?b] False unfolding t by simp_all
    have k: "0 < k" "k \<le> length cand"
      using cand(3) preferred_boundary_bounds [of cand] by (auto simp: k_def split: option.splits)
    have "take k remaining = take k cand"
      using k(2) cand(1) by (metis take_append diff_is_0_eq take0 append_Nil2)
    then have "char_count (take k remaining) \<le> ?b"
      using char_count_take [of k cand] cand(2) by simp
    moreover have "char_count suf \<le> 4" using nl_fence_count by (simp add: suf_def)
    ultimately have "char_count chunk \<le> limit"
      using char_count_append [of ?p "take k remaining @ suf"] char_count_append [of "take k remaining" suf] False
      unfolding out(1) by simp
    moreover have "carries tot (take k remaining) chunk"
      unfolding carries_def out(1) by (intro exI [of _ ?p] exI [of _ suf]) (auto simp: suf_def)
    moreover have "take k remaining \<noteq> []" using k(1) assms(1) by simp
    ultimately show ?thesis using out(2) by (intro exI [of _ "take k remaining"]) simp
  qed
qed

lemma chunk_loop_total:
  assumes "0 < limit"
  shows "\<exists>cs ps. chunk_loop limit tot idx reopen remaining = Some cs \<and> concat ps = remaining \<and>
    list_all2 (carries tot) ps cs \<and> list_all (\<lambda>c. char_count c \<le> limit) cs"
proof (induction "length remaining" arbitrary: idx reopen remaining rule: less_induct)
  case less
  show ?case
  proof (cases "remaining = []")
    case True
    then show ?thesis by (intro exI [of _ "[]"]) (simp add: chunk_loop.simps)
  next
    case False
    obtain chunk rest' reopen' where r: "chunk_round limit tot idx reopen remaining = (chunk, rest', reopen')"
      by (cases "chunk_round limit tot idx reopen remaining") auto
    from chunk_round_sound [OF False assms r] obtain piece where
      p: "remaining = piece @ rest'" "piece \<noteq> []" "carries tot piece chunk" "char_count chunk \<le> limit"
      by blast
    then have "length rest' < length remaining" by simp
    from less [OF this, of "idx + 1" reopen'] obtain cs ps where
      "chunk_loop limit tot (idx + 1) reopen' rest' = Some cs" "concat ps = rest'"
      "list_all2 (carries tot) ps cs" "list_all (\<lambda>c. char_count c \<le> limit) cs"
      by blast
    moreover have "chunk_loop limit tot idx reopen remaining =
        Option.bind (chunk_loop limit tot (idx + 1) reopen' rest') (\<lambda>cs. Some (chunk # cs))"
      using False r by (simp add: chunk_loop.simps [of limit tot idx reopen remaining])
    ultimately have "chunk_loop limit tot idx reopen remaining = Some (chunk # cs) \<and> concat (piece # ps) = remaining \<and>
        list_all2 (carries tot) (piece # ps) (chunk # cs) \<and> list_all (\<lambda>c. char_count c \<le> limit) (chunk # cs)"
      using p by simp
    then show ?thesis by blast
  qed
qed

subsection \<open>Properties\<close>

lemma chunk_markdown_total:
  assumes "0 < limit" and "content \<noteq> []"
  shows "\<exists>cs tot ps. chunk_markdown var content limit = Some cs \<and> list_all (\<lambda>c. char_count c \<le> limit) cs \<and>
    concat ps = content \<and> list_all2 (carries tot) ps cs"
proof -
  have raw: "\<exists>cs ps. chunk_markdown_raw content limit tot = Some cs \<and> concat ps = content \<and>
      list_all2 (carries tot) ps cs \<and> list_all (\<lambda>c. char_count c \<le> limit) cs" for tot
    unfolding chunk_markdown_raw_def by (rule chunk_loop_total [OF assms(1)])
  from raw [of None] obtain cs0 where cs0: "chunk_markdown_raw content limit None = Some cs0" by blast
  from raw [of "Some (length cs0)"] obtain cs1 where
    cs1: "chunk_markdown_raw content limit (Some (length cs0)) = Some cs1" by blast
  have "\<exists>tot. chunk_markdown var content limit = chunk_markdown_raw content limit tot"
  proof (cases "length cs0 \<le> 1 \<or> \<not> is_chunk_pagination_enabled var")
    case True
    then have "chunk_markdown var content limit = chunk_markdown_raw content limit None"
      using assms cs0 by (auto simp: chunk_markdown_def chunk_markdown_paginated_def)
    then show ?thesis by blast
  next
    case False
    then have "chunk_markdown var content limit =
        chunk_markdown_raw content limit (Some (if length cs1 \<noteq> length cs0 then length cs1 else length cs0))"
      using assms cs0 cs1 by (auto simp: chunk_markdown_def chunk_markdown_paginated_def Let_def)
    then show ?thesis by blast
  qed
  with raw show ?thesis by metis
qed

text \<open>C33: for every limit but zero the splitter returns.  Every message is within the limit, and
  the messages carry the reply without loss and in order: stripped of a page header and reopened
  fence in front and a closing fence behind, they are consecutive pieces whose concatenation is
  the reply.\<close>

theorem chunk_markdown_carries_content:
  assumes "0 < limit" and "content \<noteq> []"
  shows "\<exists>cs tot ps. chunk_markdown var content limit = Some cs \<and> list_all (\<lambda>c. char_count c \<le> limit) cs \<and>
    concat ps = content \<and> list_all2 (carries tot) ps cs"
  using assms by (rule chunk_markdown_total)

theorem chunk_markdown_carries_content_witness:
  "\<exists>cs tot ps. chunk_markdown None ''hello world'' 10 = Some cs \<and> list_all (\<lambda>c. char_count c \<le> 10) cs \<and>
     concat ps = ''hello world'' \<and> list_all2 (carries tot) ps cs"
  by (rule chunk_markdown_carries_content) simp_all

lemma boundary_down_le: "boundary_down s e \<le> e"
  by (induction e) auto

lemma length_truncation_notice: "length truncation_notice = 67"
  by (simp add: truncation_notice_def)

lemma bound_split_last:
  assumes "max_messages < length chunks" and "0 < max_messages"
  shows "\<exists>l. bound_split_messages chunks max_messages = butlast (take max_messages chunks) @ [l] \<and> length l \<le> 2000"
proof -
  let ?l = "last (take max_messages chunks)"
  let ?b = "discord_message_limit - length truncation_notice"
  let ?m = "(if length ?l > ?b then take (boundary_down ?l ?b) ?l else ?l) @ truncation_notice"
  have "length ?m \<le> 2000"
    using boundary_down_le [of ?l ?b] by (simp add: length_truncation_notice)
  moreover have "bound_split_messages chunks max_messages = butlast (take max_messages chunks) @ [?m]"
    using assms by (simp add: bound_split_messages_def Let_def)
  ultimately show ?thesis by blast
qed

text \<open>What is finally posted for a reply of any length is at least one and at most eight
  messages, and each has at most 2000 characters.\<close>

theorem posted_messages_bounded:
  "\<exists>cs. chunk_markdown var content discord_message_limit = Some cs \<and>
     (let posted = bound_split_messages cs max_split_messages in
      0 < length posted \<and> length posted \<le> 8 \<and> list_all (\<lambda>m. char_count m \<le> 2000) posted)"
proof (cases "content = []")
  case True
  then have "chunk_markdown var content discord_message_limit = Some [zero_width_space]"
    by (simp add: chunk_markdown_def chunk_markdown_paginated_def)
  moreover have "char_count zero_width_space \<le> 2000"
    using char_count_le_length [of zero_width_space] by simp
  ultimately show ?thesis by (simp add: bound_split_messages_def)
next
  case False
  obtain cs tot ps where cs: "chunk_markdown var content discord_message_limit = Some cs"
    "list_all (\<lambda>c. char_count c \<le> 2000) cs" "concat ps = content" "list_all2 (carries tot) ps cs"
    using chunk_markdown_total [of discord_message_limit content var] False by auto
  have "cs \<noteq> []" using cs(3,4) False by auto
  show ?thesis
  proof (cases "length cs \<le> 8")
    case True
    then show ?thesis using cs \<open>cs \<noteq> []\<close> by (simp add: bound_split_messages_def)
  next
    case False
    then obtain l where l: "bound_split_messages cs 8 = butlast (take 8 cs) @ [l]" "length l \<le> 2000"
      using bound_split_last [of 8 cs] by auto
    have "list_all (\<lambda>m. char_count m \<le> 2000) (butlast (take 8 cs))"
      using cs(2) by (auto simp: list_all_iff dest!: in_set_butlastD in_set_takeD)
    with cs(1) l char_count_le_length [of l] show ?thesis by simp
  qed
qed

text \<open>A live preview fits into one message: with a limit of at least two characters it has at
  most that many, and a text that fits is shown unchanged.\<close>

theorem live_preview_fits:
  assumes "2 \<le> limit"
  shows "char_count (truncate_live_preview content limit) \<le> limit \<and>
    (content \<noteq> [] \<and> char_count content \<le> limit \<longrightarrow> truncate_live_preview content limit = content)"
proof -
  have e: "char_count ('' '' @ [CHR 0xE2, CHR 0x80, CHR 0xA6]) = 2" "char_count zero_width_space = 1"
    by (simp_all add: char_count_Cons is_cont_def)
  have "char_count (fst (take_chars content (limit - 2)) @ '' '' @ [CHR 0xE2, CHR 0x80, CHR 0xA6]) \<le> limit"
    using char_count_append [of "fst (take_chars content (limit - 2))" "'' '' @ [CHR 0xE2, CHR 0x80, CHR 0xA6]"]
      take_chars_count [of content "limit - 2"] assms unfolding e by linarith
  then show ?thesis using assms e by (simp add: truncate_live_preview_def)
qed

theorem live_preview_fits_witness:
  "char_count (truncate_live_preview ''hello'' 4) \<le> 4 \<and> truncate_live_preview ''hi'' 4 = ''hi''"
  using live_preview_fits [of 4 "''hello''"] live_preview_fits [of 4 "''hi''"]
  by (simp add: char_count_Cons is_cont_def)

definition chunk_op :: "nat list \<Rightarrow> nat \<times> string \<Rightarrow> transport_op" where
  "chunk_op ids = (\<lambda>(j, c). if j < length ids then EditTo (ids ! j) c else SendNew c)"

lemma put_chunks_ok:
  assumes "put_chunks tr i cs ids = (ops, ids', Inr ())" and "i \<le> length ids"
  shows "ops = map (chunk_op ids) (enumerate i cs) \<and> length ids' = max (length ids) (i + length cs) \<and> prefix ids ids'"
  using assms
proof (induction tr i cs ids arbitrary: ops ids' rule: put_chunks.induct)
  case (2 tr i c cs ids)
  let ?op = "if i < length ids then EditTo (ids ! i) c else SendNew c"
  obtain m where m: "tr ?op = Inr m"
    using "2.prems"(1) by (cases "tr ?op") (auto simp: Let_def)
  let ?ids = "if i < length ids then ids else ids @ [m]"
  obtain ops1 where ops: "ops = ?op # ops1" and r: "put_chunks tr (i + 1) cs ?ids = (ops1, ids', Inr ())"
    using "2.prems"(1) m by (auto simp: Let_def split: prod.splits)
  have IH: "ops1 = map (chunk_op ?ids) (enumerate (i + 1) cs) \<and>
      length ids' = max (length ?ids) (i + 1 + length cs) \<and> prefix ?ids ids'"
    using "2.IH" [OF refl m r] "2.prems"(2) by simp
  have "map (chunk_op ?ids) (enumerate (i + 1) cs) = map (chunk_op ids) (enumerate (i + 1) cs)"
    using "2.prems"(2) by (intro map_cong) (auto simp: chunk_op_def in_set_enumerate_eq nth_append)
  with IH ops "2.prems"(2) show ?case
    by (auto simp: chunk_op_def dest: append_prefixD)
qed simp

lemma delete_stale_ok: "delete_stale tr ms = (ops, Inr ()) \<Longrightarrow> ops = map DeleteOld ms"
  by (induction tr ms arbitrary: ops rule: delete_stale.induct)
    (auto split: sum.splits prod.splits)

text \<open>A final update that succeeds leaves exactly one message per chunk: it writes the
  chunks in order, editing the messages that exist and sending the others, then deletes the
  messages that are left over.\<close>

theorem final_update_places_chunks:
  assumes "final_update tr chunks ids = (ops, ids', Inr ())"
  shows "ops = StartTyping # map (chunk_op ids) (enumerate 0 chunks) @ map DeleteOld (drop (length chunks) ids) \<and>
    length ids' = length chunks \<and> prefix (take (length chunks) ids) ids'"
proof -
  obtain t where t: "tr StartTyping = Inr t"
    using assms by (cases "tr StartTyping") (auto simp: final_update_def)
  obtain pops pids where p: "put_chunks tr 0 chunks ids = (pops, pids, Inr ())"
    using assms t by (auto simp: final_update_def split: prod.splits sum.splits)
  obtain dels where d: "delete_stale tr (drop (length chunks) pids) = (dels, Inr ())"
    and out: "ops = StartTyping # pops @ dels" "ids' = take (length chunks) pids"
    using assms t p by (auto simp: final_update_def split: prod.splits)
  note put = put_chunks_ok [OF p]
  obtain zs where zs: "pids = ids @ zs" using put by (auto simp: prefix_def)
  have len: "length pids = max (length ids) (length chunks)" using put by simp
  then have "drop (length chunks) pids = drop (length chunks) ids"
    using zs by (cases "length ids \<le> length chunks") auto
  moreover have "length ids' = length chunks" using out(2) len by simp
  moreover have "prefix (take (length chunks) ids) ids'"
    using out(2) zs by (simp add: prefix_def)
  ultimately show ?thesis
    using put out delete_stale_ok [OF d] by simp
qed

theorem final_update_places_chunks_witness:
  "\<exists>ops ids'. final_update (\<lambda>_. Inr 9) [''a'', ''b''] [5] = (ops, ids', Inr ()) \<and>
     ops = [StartTyping, EditTo 5 ''a'', SendNew ''b''] \<and> length ids' = 2"
proof -
  have f: "final_update (\<lambda>_. Inr 9) [''a'', ''b''] [5] = ([StartTyping, EditTo 5 ''a'', SendNew ''b''], [5, 9], Inr ())"
    by (simp add: final_update_def)
  show ?thesis using f final_update_places_chunks [OF f] by auto
qed

end
