(* ===== verification/Pairing_Store.thy ===== *)
theory Pairing_Store
  imports Sql_Table Gateway_Events Transition_System
begin

section \<open>Pairing codes\<close>

text \<open>
  \<open>src/discord/pairing.rs\<close>: one-time codes by which an operator lets an unknown user in, with a
  platform-wide lockout after five wrong codes, at most one hundred pending codes and a rate
  limit on the notifications.  The state is the four tables (the lockout table has one row, for
  the default platform) and the cache of paired users.  A time is in nanoseconds; \<open>now\<close> and the
  random bytes of a new code are arguments, and so are Unicode's tables for characters outside
  ASCII (\<open>ualnum\<close>, \<open>uupper\<close>).  Each public operation is one transaction: when it returns an error
  the tables are as before.  \<open>format_code\<close> slices a string at byte 4, which panics inside a
  character.
\<close>

datatype PairingOutcome = Success nat | InvalidCode | Expired | LockedOut

datatype PairingError = Refused OmonError | Panicked

record PairingCodeRow =
  pc_code :: string
  pc_user_id :: string
  pc_created_at :: int
  pc_expires_at :: int
  pc_attempts :: int

record PairingStore =
  ps_codes :: "PairingCodeRow list"
  ps_paired :: "(string \<times> int) list"
  ps_lockout :: "(int \<times> int) option"
  ps_notified :: "(string \<times> int) list"
  ps_cache :: "nat set"

abbreviation sec :: int where
  "sec \<equiv> 1000000000"

abbreviation code_ttl_seconds :: int where "code_ttl_seconds \<equiv> 3600"
abbreviation rate_limit_seconds :: int where "rate_limit_seconds \<equiv> 600"
abbreviation lockout_duration_seconds :: int where "lockout_duration_seconds \<equiv> 900"
abbreviation max_failed_attempts :: int where "max_failed_attempts \<equiv> 5"
abbreviation max_pending_codes :: nat where "max_pending_codes \<equiv> 100"

text \<open>\<open>strftime('%s', t)\<close>.\<close>

definition epoch :: "int \<Rightarrow> int" where
  "epoch t = t div sec"

definition pairing_new :: PairingStore where
  "pairing_new = \<lparr>ps_codes = [], ps_paired = [], ps_lockout = None, ps_notified = [], ps_cache = {}\<rparr>"

definition init_cache :: "PairingStore \<Rightarrow> PairingStore" where
  "init_cache db = db\<lparr>ps_cache := set (List.map_filter (\<lambda>(u, _). parse_u64 u) (ps_paired db))\<rparr>"

definition is_user_paired :: "nat \<Rightarrow> PairingStore \<Rightarrow> bool" where
  "is_user_paired u db \<longleftrightarrow> u \<in> ps_cache db"

subsection \<open>Codes\<close>

definition pairing_alphabet :: string where
  "pairing_alphabet = ''ABCDEFGHJKLMNPQRSTUVWXYZ23456789''"

definition ascii_upper :: "char \<Rightarrow> char" where
  "ascii_upper c = (if 97 \<le> byte_val c \<and> byte_val c \<le> 122 then char_of (byte_val c - 32) else c)"

definition ascii_alphanumeric :: "char \<Rightarrow> bool" where
  "ascii_alphanumeric c \<longleftrightarrow>
     48 \<le> byte_val c \<and> byte_val c \<le> 57 \<or> 65 \<le> byte_val c \<and> byte_val c \<le> 90 \<or>
     97 \<le> byte_val c \<and> byte_val c \<le> 122"

definition is_alphanumeric :: "(string \<Rightarrow> bool) \<Rightarrow> string \<Rightarrow> bool" where
  "is_alphanumeric ualnum ch = (case ch of [c] \<Rightarrow> ascii_alphanumeric c | _ \<Rightarrow> ualnum ch)"

definition to_uppercase :: "(string \<Rightarrow> string) \<Rightarrow> string \<Rightarrow> string" where
  "to_uppercase uupper ch = (case ch of [c] \<Rightarrow> [ascii_upper c] | _ \<Rightarrow> uupper ch)"

definition normalize_code :: "(string \<Rightarrow> bool) \<Rightarrow> (string \<Rightarrow> string) \<Rightarrow> string \<Rightarrow> string" where
  "normalize_code ualnum uupper raw =
     concat (map (to_uppercase uupper) (filter (is_alphanumeric ualnum) (chars raw)))"

definition format_code :: "(string \<Rightarrow> bool) \<Rightarrow> (string \<Rightarrow> string) \<Rightarrow> string \<Rightarrow> string option" where
  "format_code ualnum uupper raw =
     (let n = normalize_code ualnum uupper raw in
      if length n = 8 then
        if is_char_boundary n 4 then Some (take 4 n @ ''-'' @ drop 4 n) else None
      else Some n)"

definition generate_raw_code :: "nat list \<Rightarrow> string" where
  "generate_raw_code bytes =
     map (\<lambda>b. pairing_alphabet ! (b mod length pairing_alphabet)) (take 8 bytes)"

subsection \<open>Lockout and clean-up\<close>

definition is_platform_locked :: "int \<Rightarrow> PairingStore \<Rightarrow> bool" where
  "is_platform_locked now db =
     (case ps_lockout db of
        Some (locked_until, failed) \<Rightarrow> failed \<ge> max_failed_attempts \<and> now < locked_until
      | None \<Rightarrow> False)"

definition record_failed_attempt :: "int \<Rightarrow> PairingStore \<Rightarrow> PairingStore" where
  "record_failed_attempt now db = db\<lparr>ps_lockout := Some
     (case ps_lockout db of
        None \<Rightarrow> (now, 1)
      | Some (locked_until, failed) \<Rightarrow>
          if epoch now \<ge> epoch locked_until \<and> failed \<ge> max_failed_attempts then (now, 1)
          else (if failed + 1 \<ge> max_failed_attempts then now + lockout_duration_seconds * sec else locked_until,
                failed + 1))\<rparr>"

definition cleanup_expired_codes :: "int \<Rightarrow> PairingStore \<Rightarrow> PairingStore \<times> nat" where
  "cleanup_expired_codes now db =
     (let (rows, n) = sql_delete (\<lambda>r. pc_expires_at r \<le> now) (ps_codes db) in (db\<lparr>ps_codes := rows\<rparr>, n))"

subsection \<open>Issuing codes\<close>

text \<open>Every row for a user; the newest of them; the oldest active codes that make room.\<close>

definition drop_codes_of :: "string \<Rightarrow> PairingStore \<Rightarrow> PairingStore" where
  "drop_codes_of u db = db\<lparr>ps_codes := fst (sql_delete (\<lambda>r. pc_user_id r = u) (ps_codes db))\<rparr>"

definition existing_code :: "string \<Rightarrow> PairingStore \<Rightarrow> PairingCodeRow option" where
  "existing_code u db =
     (case sort_key (\<lambda>r. - pc_created_at r) (filter (\<lambda>r. pc_user_id r = u) (ps_codes db)) of
        r # _ \<Rightarrow> Some r
      | [] \<Rightarrow> None)"

definition make_room :: "int \<Rightarrow> PairingStore \<Rightarrow> PairingStore" where
  "make_room now db =
     (let active = filter (\<lambda>r. pc_expires_at r > now) (ps_codes db) in
      if length active \<ge> max_pending_codes then
        let to_evict = length active - max_pending_codes + 1;
            victims = map pc_code (take to_evict (sort_key pc_created_at active))
        in db\<lparr>ps_codes := fst (sql_delete (\<lambda>r. pc_code r \<in> set victims) (ps_codes db))\<rparr>
      else db)"

definition insert_code :: "string \<Rightarrow> string \<Rightarrow> int \<Rightarrow> PairingStore \<Rightarrow> PairingError + PairingStore" where
  "insert_code raw u now db =
     (if list_ex (\<lambda>r. pc_code r = raw) (ps_codes db)
      then Inl (Refused (Database ''failed to store pairing code: UNIQUE constraint failed: pairing_codes.code''))
      else Inr (db\<lparr>ps_codes := ps_codes db @
        [\<lparr>pc_code = raw, pc_user_id = u, pc_created_at = now,
          pc_expires_at = now + code_ttl_seconds * sec, pc_attempts = 0\<rparr>]\<rparr>))"

definition formatted ::
  "(string \<Rightarrow> bool) \<Rightarrow> (string \<Rightarrow> string) \<Rightarrow> string \<Rightarrow> PairingStore \<Rightarrow> PairingError + (PairingStore \<times> string)" where
  "formatted ualnum uupper code db =
     (case format_code ualnum uupper code of Some s \<Rightarrow> Inr (db, s) | None \<Rightarrow> Inl Panicked)"

definition request_pairing_code ::
  "(string \<Rightarrow> bool) \<Rightarrow> (string \<Rightarrow> string) \<Rightarrow> nat list \<Rightarrow> nat \<Rightarrow> int \<Rightarrow> PairingStore \<Rightarrow>
   PairingError + (PairingStore \<times> string)" where
  "request_pairing_code ualnum uupper bytes user now db0 =
     (if is_platform_locked now db0
      then Inl (Refused (Approval ''Pairing is locked out due to too many failed attempts''))
      else
        let u = dec user; db = fst (cleanup_expired_codes now db0) in
        case (case existing_code u db of
                Some r \<Rightarrow>
                  if pc_attempts r \<ge> max_failed_attempts then Inl (drop_codes_of u db)
                  else if pc_expires_at r > now then Inr (pc_code r)
                  else Inl db
              | None \<Rightarrow> Inl db) of
          Inr code \<Rightarrow> formatted ualnum uupper code db
        | Inl db \<Rightarrow>
            let db = make_room now (drop_codes_of u db); raw = generate_raw_code bytes in
            and_then (insert_code raw u now db) (formatted ualnum uupper raw))"

definition claim_notification :: "nat \<Rightarrow> int \<Rightarrow> (string \<times> int) list \<Rightarrow> (string \<times> int) list \<times> nat" where
  "claim_notification user now rows =
     sql_upsert fst (\<lambda>(u, t). epoch now - epoch t \<ge> rate_limit_seconds) (\<lambda>(u, _). (u, now)) (dec user, now) rows"

definition drop_stale :: "int \<Rightarrow> (string \<times> int) list \<Rightarrow> (string \<times> int) list" where
  "drop_stale now rows = fst (sql_delete (\<lambda>(u, t). epoch now - epoch t > rate_limit_seconds) rows)"

definition check_and_record_notification ::
  "(string \<Rightarrow> bool) \<Rightarrow> (string \<Rightarrow> string) \<Rightarrow> nat list \<Rightarrow> nat \<Rightarrow> int \<Rightarrow> PairingStore \<Rightarrow>
   PairingError + (PairingStore \<times> string option)" where
  "check_and_record_notification ualnum uupper bytes user now db =
     (if is_platform_locked now db then Inr (db, None)
      else if list_ex (\<lambda>(u, _). u = dec user) (ps_paired db) then Inr (db, None)
      else
        let (rows, n) = claim_notification user now (ps_notified db)
        in if n = 0 then Inr (db, None)
           else and_then (request_pairing_code ualnum uupper bytes user now (db\<lparr>ps_notified := rows\<rparr>))
             (\<lambda>(db, code). Inr (db\<lparr>ps_notified := drop_stale now (ps_notified db)\<rparr>, Some code)))"

definition record_confirmed_delivery :: "nat \<Rightarrow> int \<Rightarrow> PairingStore \<Rightarrow> PairingStore" where
  "record_confirmed_delivery user at db = db\<lparr>ps_notified :=
     fst (sql_upsert fst (\<lambda>_. True) (\<lambda>(u, _). (u, at)) (dec user, at) (ps_notified db))\<rparr>"

subsection \<open>Approving codes\<close>

definition count_attempt :: "PairingStore \<Rightarrow> PairingStore" where
  "count_attempt db = db\<lparr>ps_codes := fst (sql_update (\<lambda>r. pc_attempts r < max_failed_attempts)
     (\<lambda>r. r\<lparr>pc_attempts := pc_attempts r + 1\<rparr>) (ps_codes db))\<rparr>"

definition admit :: "string \<Rightarrow> nat \<Rightarrow> int \<Rightarrow> PairingStore \<Rightarrow> PairingStore" where
  "admit u user now db = db\<lparr>ps_paired := sql_insert_ignore fst (u, now) (ps_paired db),
     ps_lockout := Some (now, 0), ps_cache := insert user (ps_cache db),
     ps_notified := fst (sql_delete (\<lambda>(x, _). x = dec user) (ps_notified db))\<rparr>"

definition approve_code ::
  "(string \<Rightarrow> bool) \<Rightarrow> (string \<Rightarrow> string) \<Rightarrow> string \<Rightarrow> int \<Rightarrow> PairingStore \<Rightarrow> PairingStore \<times> PairingOutcome" where
  "approve_code ualnum uupper input now db =
     (let code = normalize_code ualnum uupper input in
      if code = '''' then (db, InvalidCode)
      else if is_platform_locked now db then (db, LockedOut)
      else
        case sql_get pc_code code (ps_codes db) of
          None \<Rightarrow> (count_attempt (record_failed_attempt now db), InvalidCode)
        | Some r \<Rightarrow>
            if pc_attempts r \<ge> max_failed_attempts then (db, LockedOut)
            else
              let (rows, n) = sql_delete (\<lambda>x. pc_code x = pc_code r) (ps_codes db) in
              if now > pc_expires_at r then (db\<lparr>ps_codes := rows\<rparr>, Expired)
              else
                case parse_u64 (pc_user_id r) of
                  None \<Rightarrow> (db, InvalidCode)
                | Some user \<Rightarrow>
                    if n = 0 then (db, InvalidCode)
                    else (admit (pc_user_id r) user now (db\<lparr>ps_codes := rows\<rparr>), Success user))"

subsection \<open>The shape of a code\<close>

definition valid_code :: "string \<Rightarrow> bool" where
  "valid_code s \<longleftrightarrow> length s = 8 \<and> list_all (\<lambda>c. c \<in> set pairing_alphabet) s"

lemma alphabet_char:
  assumes "c \<in> set pairing_alphabet"
  shows "\<not> is_cont c" "ascii_alphanumeric c" "ascii_upper c = c"
  using assms unfolding pairing_alphabet_def
  by (auto simp: is_cont_def ascii_alphanumeric_def ascii_upper_def byte_val_def)

lemma normalize_alphabet:
  assumes "list_all (\<lambda>c. c \<in> set pairing_alphabet \<or> c = CHR ''-'') s"
  shows "normalize_code ualnum uupper s = filter (\<lambda>c. c \<noteq> CHR ''-'') s"
proof -
  have dash: "\<not> is_cont (CHR ''-'')" "\<not> ascii_alphanumeric (CHR ''-'')"
    by (simp_all add: is_cont_def ascii_alphanumeric_def byte_val_def)
  have "CHR ''-'' \<notin> set pairing_alphabet" by (simp add: pairing_alphabet_def)
  then have "concat (map (to_uppercase uupper) (filter (is_alphanumeric ualnum) (map (\<lambda>c. [c]) s))) =
      filter (\<lambda>c. c \<noteq> CHR ''-'') s"
    using assms dash alphabet_char
    by (induction s) (auto simp: is_alphanumeric_def to_uppercase_def)
  moreover have "chars s = map (\<lambda>c. [c]) s"
    using assms dash(1) alphabet_char(1) by (intro chars_no_cont) (auto simp: list_all_iff)
  ultimately show ?thesis by (simp add: normalize_code_def)
qed

lemma valid_no_dash: "valid_code s \<Longrightarrow> filter (\<lambda>c. c \<noteq> CHR ''-'') (take n s) = take n s"
  "valid_code s \<Longrightarrow> filter (\<lambda>c. c \<noteq> CHR ''-'') (drop n s) = drop n s"
proof -
  have "CHR ''-'' \<notin> set pairing_alphabet" by (simp add: pairing_alphabet_def)
  then show "valid_code s \<Longrightarrow> filter (\<lambda>c. c \<noteq> CHR ''-'') (take n s) = take n s"
    "valid_code s \<Longrightarrow> filter (\<lambda>c. c \<noteq> CHR ''-'') (drop n s) = drop n s"
    by (auto simp: valid_code_def list_all_iff filter_id_conv dest!: in_set_takeD in_set_dropD)
qed

lemma format_valid:
  assumes "valid_code s"
  shows "format_code ualnum uupper s = Some (take 4 s @ ''-'' @ drop 4 s)"
    and "normalize_code ualnum uupper (take 4 s @ ''-'' @ drop 4 s) = s"
proof -
  have mem: "c \<in> set pairing_alphabet" if "c \<in> set s" for c
    using assms that by (simp add: valid_code_def list_all_iff)
  have "normalize_code ualnum uupper s = s"
    using normalize_alphabet [of s] valid_no_dash(2) [OF assms, of 0] mem by (simp add: list_all_iff)
  moreover have "is_char_boundary s 4"
    using assms alphabet_char(1) mem by (simp add: is_char_boundary_def valid_code_def)
  ultimately show "format_code ualnum uupper s = Some (take 4 s @ ''-'' @ drop 4 s)"
    using assms by (simp add: format_code_def valid_code_def)
  have "list_all (\<lambda>c. c \<in> set pairing_alphabet \<or> c = CHR ''-'') (take 4 s @ ''-'' @ drop 4 s)"
    using mem by (auto simp: list_all_iff dest: in_set_takeD in_set_dropD)
  from normalize_alphabet [OF this] valid_no_dash [OF assms]
  show "normalize_code ualnum uupper (take 4 s @ ''-'' @ drop 4 s) = s" by simp
qed

lemma generated_valid:
  assumes "8 \<le> length bytes"
  shows "valid_code (generate_raw_code bytes)"
proof -
  have "0 < length pairing_alphabet" by (simp add: pairing_alphabet_def)
  then have "pairing_alphabet ! (b mod length pairing_alphabet) \<in> set pairing_alphabet" for b
    by (intro nth_mem mod_less_divisor)
  with assms show ?thesis by (simp add: valid_code_def generate_raw_code_def list_all_iff)
qed

subsection \<open>The invariant\<close>

definition code_ok :: "PairingCodeRow \<Rightarrow> bool" where
  "code_ok r \<longleftrightarrow> valid_code (pc_code r) \<and> 0 \<le> pc_attempts r \<and> pc_attempts r \<le> max_failed_attempts \<and>
     (\<exists>n < 2 ^ 64. pc_user_id r = dec n)"

definition codes_ok :: "PairingCodeRow list \<Rightarrow> bool" where
  "codes_ok rs \<longleftrightarrow> distinct (map pc_code rs) \<and> distinct (map pc_user_id rs) \<and> list_all code_ok rs \<and>
     length rs \<le> max_pending_codes"

definition pairing_ok :: "PairingStore \<Rightarrow> bool" where
  "pairing_ok db \<longleftrightarrow> codes_ok (ps_codes db) \<and> distinct (map fst (ps_paired db)) \<and>
     list_all (\<lambda>(u, _). \<exists>n < 2 ^ 64. u = dec n) (ps_paired db) \<and>
     distinct (map fst (ps_notified db)) \<and> ps_cache db \<subseteq> {n. dec n \<in> fst ` set (ps_paired db)}"

interpretation notified: keyed_update fst "\<lambda>(u, _). (u, now)" for now :: int
  by unfold_locales auto

lemma codes_ok_filter: "codes_ok rs \<Longrightarrow> codes_ok (filter p rs)"
  by (auto simp: codes_ok_def distinct_map_filter list_all_iff intro: le_trans [OF length_filter_le])

lemma codes_ok_delete: "codes_ok rs \<Longrightarrow> codes_ok (fst (sql_delete p rs))"
  by (simp add: sql_delete_def codes_ok_filter)

lemma pairing_ok_codes: "pairing_ok db \<Longrightarrow> codes_ok rs \<Longrightarrow> pairing_ok (db\<lparr>ps_codes := rs\<rparr>)"
  by (simp add: pairing_ok_def)

lemma pairing_okD: "pairing_ok db \<Longrightarrow> codes_ok (ps_codes db)"
  by (simp add: pairing_ok_def)

lemma pairing_ok_cleanup: "pairing_ok db \<Longrightarrow> pairing_ok (fst (cleanup_expired_codes now db))"
  by (auto simp: cleanup_expired_codes_def split_def Let_def intro!: pairing_ok_codes codes_ok_delete dest: pairing_okD)

lemma pairing_ok_drop: "pairing_ok db \<Longrightarrow> pairing_ok (drop_codes_of u db)"
  by (auto simp: drop_codes_of_def intro!: pairing_ok_codes codes_ok_delete dest: pairing_okD)

lemma pairing_ok_make_room: "pairing_ok db \<Longrightarrow> pairing_ok (make_room now db)"
  by (auto simp: make_room_def Let_def intro!: pairing_ok_codes codes_ok_delete dest: pairing_okD)

lemma make_room_length:
  assumes "codes_ok (ps_codes db)" and "list_all (\<lambda>r. now < pc_expires_at r) (ps_codes db)"
  shows "length (ps_codes (make_room now db)) < max_pending_codes"
proof (cases "length (ps_codes db) \<ge> max_pending_codes")
  case True
  let ?rs = "ps_codes db"
  have active: "filter (\<lambda>r. pc_expires_at r > now) ?rs = ?rs"
    using assms(2) by (simp add: filter_id_conv list_all_iff)
  define v where "v = take (length ?rs - max_pending_codes + 1) (sort_key pc_created_at ?rs)"
  have "0 < length v" using True by (simp add: v_def)
  moreover have "set v \<subseteq> set ?rs" by (auto simp: v_def dest: in_set_takeD)
  ultimately obtain r where r: "r \<in> set v" "r \<in> set ?rs" by (cases v) auto
  have "ps_codes (make_room now db) = filter (\<lambda>r. pc_code r \<notin> pc_code ` set v) ?rs"
    using True by (simp add: make_room_def active Let_def sql_delete_def v_def)
  moreover have "length (filter (\<lambda>r. pc_code r \<notin> pc_code ` set v) ?rs) < length ?rs"
    using r by (intro length_filter_less [of r]) auto
  ultimately show ?thesis using assms(1) by (simp add: codes_ok_def)
next
  case False
  have "\<not> max_pending_codes \<le> length (filter (\<lambda>r. pc_expires_at r > now) (ps_codes db))"
    using False length_filter_le [of "\<lambda>r. pc_expires_at r > now" "ps_codes db"] by linarith
  with False show ?thesis by (simp add: make_room_def)
qed

lemma make_room_subset: "set (ps_codes (make_room now db)) \<subseteq> set (ps_codes db)"
  by (auto simp: make_room_def Let_def sql_delete_def)

lemma existing_codeD: "existing_code u db = Some r \<Longrightarrow> r \<in> set (ps_codes db) \<and> pc_user_id r = u"
proof -
  assume "existing_code u db = Some r"
  then obtain rs where "sort_key (\<lambda>r. - pc_created_at r) (filter (\<lambda>r. pc_user_id r = u) (ps_codes db)) = r # rs"
    by (auto simp: existing_code_def split: list.splits)
  from arg_cong [OF this, of set] show ?thesis by auto
qed

lemma insert_code_ok:
  assumes "pairing_ok db" and "length (ps_codes db) < max_pending_codes" and "valid_code raw"
    and "u \<notin> pc_user_id ` set (ps_codes db)" and "u = dec n" and "n < 2 ^ 64"
    and "insert_code raw u now db = Inr db'"
  shows "pairing_ok db'"
    and "sql_get pc_code raw (ps_codes db') = Some \<lparr>pc_code = raw, pc_user_id = u, pc_created_at = now,
          pc_expires_at = now + code_ttl_seconds * sec, pc_attempts = 0\<rparr>"
proof -
  let ?r = "\<lparr>pc_code = raw, pc_user_id = u, pc_created_at = now,
          pc_expires_at = now + code_ttl_seconds * sec, pc_attempts = 0\<rparr>"
  have new: "raw \<notin> pc_code ` set (ps_codes db)" and db': "db' = db\<lparr>ps_codes := ps_codes db @ [?r]\<rparr>"
    using assms(7) by (auto simp: insert_code_def list_ex_iff split: if_splits)
  have "code_ok ?r" using assms(3,5,6) by (auto simp: code_ok_def)
  with assms(2,4) new pairing_okD [OF assms(1)] show "pairing_ok db'"
    unfolding db' by (auto intro!: pairing_ok_codes [OF assms(1)] simp: codes_ok_def)
  show "sql_get pc_code raw (ps_codes db') = Some ?r"
    using new unfolding db' by (simp add: sql_get_append sql_get_None_iff [symmetric] del: image_iff)
qed

text \<open>What a successful request leaves behind: a pending code of that user, shown in its
  formatted form.\<close>

definition pending_for :: "nat \<Rightarrow> int \<Rightarrow> string \<Rightarrow> PairingCodeRow \<Rightarrow> PairingStore \<Rightarrow> bool" where
  "pending_for user now shown r db \<longleftrightarrow>
     sql_get pc_code (pc_code r) (ps_codes db) = Some r \<and> pc_user_id r = dec user \<and>
     pc_attempts r < max_failed_attempts \<and> now < pc_expires_at r \<and> valid_code (pc_code r) \<and>
     shown = take 4 (pc_code r) @ ''-'' @ drop 4 (pc_code r)"

lemma request_sound:
  assumes "pairing_ok db" and "user < 2 ^ 64" and "8 \<le> length bytes"
    and req: "request_pairing_code ualnum uupper bytes user now db = Inr (db', shown)"
  shows "pairing_ok db'" and "\<exists>r. pending_for user now shown r db'"
proof -
  let ?u = "dec user" and ?c = "fst (cleanup_expired_codes now db)" and ?raw = "generate_raw_code bytes"
  have ok: "pairing_ok ?c" by (rule pairing_ok_cleanup [OF assms(1)])
  have alive: "list_all (\<lambda>r. now < pc_expires_at r) (ps_codes ?c)"
    by (auto simp: cleanup_expired_codes_def sql_delete_def Let_def list_all_iff)
  have cok: "code_ok r" if "r \<in> set (ps_codes ?c)" for r
    using pairing_okD [OF ok] that by (simp add: codes_ok_def list_all_iff)
  have unlocked: "\<not> is_platform_locked now db" using req by (auto simp: request_pairing_code_def)
  have fresh: "pairing_ok db' \<and> (\<exists>r. pending_for user now shown r db')"
    if d: "pairing_ok d" "set (ps_codes d) \<subseteq> set (ps_codes ?c)"
      and ins: "and_then (insert_code ?raw ?u now (make_room now (drop_codes_of ?u d)))
        (formatted ualnum uupper ?raw) = Inr (db', shown)" for d
  proof -
    let ?d = "drop_codes_of ?u d" and ?m = "make_room now (drop_codes_of ?u d)"
    have okd: "pairing_ok ?d" "pairing_ok ?m"
      using pairing_ok_drop [OF d(1)] pairing_ok_make_room by blast+
    have sub: "set (ps_codes ?d) \<subseteq> set (ps_codes ?c)"
      using d(2) by (auto simp: drop_codes_of_def sql_delete_def)
    have "list_all (\<lambda>r. now < pc_expires_at r) (ps_codes ?d)"
      using alive sub by (auto simp: list_all_iff)
    from make_room_length [OF pairing_okD [OF okd(1)] this]
    have len: "length (ps_codes ?m) < max_pending_codes" .
    have no: "?u \<notin> pc_user_id ` set (ps_codes ?m)"
      using make_room_subset [of now ?d] by (auto simp: drop_codes_of_def sql_delete_def)
    obtain d1 where d1: "insert_code ?raw ?u now ?m = Inr d1" "formatted ualnum uupper ?raw d1 = Inr (db', shown)"
      using ins by (auto simp: and_then_Inr_iff)
    have v: "valid_code ?raw" by (rule generated_valid [OF assms(3)])
    note ins_ok = insert_code_ok [OF okd(2) len v no refl assms(2) d1(1)]
    have "db' = d1" "shown = take 4 ?raw @ ''-'' @ drop 4 ?raw"
      using d1(2) format_valid(1) [OF v] by (auto simp: formatted_def)
    with ins_ok v show ?thesis
      by (auto simp: pending_for_def intro!: exI [of _ "\<lparr>pc_code = ?raw, pc_user_id = ?u, pc_created_at = now,
          pc_expires_at = now + code_ttl_seconds * sec, pc_attempts = 0\<rparr>"])
  qed
  have "pairing_ok db' \<and> (\<exists>r. pending_for user now shown r db')"
  proof (cases "existing_code ?u ?c")
    case None
    then show ?thesis using req unlocked ok by (intro fresh [of ?c]) (simp_all add: request_pairing_code_def Let_def)
  next
    case (Some r)
    note r = existing_codeD [OF Some]
    have exp: "now < pc_expires_at r" using alive r by (simp add: list_all_iff)
    show ?thesis
    proof (cases "pc_attempts r \<ge> max_failed_attempts")
      case True
      have "pairing_ok (drop_codes_of ?u ?c)" by (rule pairing_ok_drop [OF ok])
      moreover have "set (ps_codes (drop_codes_of ?u ?c)) \<subseteq> set (ps_codes ?c)"
        by (auto simp: drop_codes_of_def sql_delete_def)
      ultimately show ?thesis
        using req unlocked Some True
        by (intro fresh [of "drop_codes_of ?u ?c"]) (simp_all add: request_pairing_code_def Let_def)
    next
      case False
      have v: "valid_code (pc_code r)" using cok r by (simp add: code_ok_def)
      have "db' = ?c" "shown = take 4 (pc_code r) @ ''-'' @ drop 4 (pc_code r)"
        using req unlocked Some False exp format_valid(1) [OF v]
        by (auto simp: request_pairing_code_def Let_def formatted_def)
      moreover have "sql_get pc_code (pc_code r) (ps_codes ?c) = Some r"
        using pairing_okD [OF ok] r by (intro sql_get_mem) (auto simp: codes_ok_def)
      ultimately show ?thesis using ok r v exp False by (auto simp: pending_for_def)
    qed
  qed
  then show "pairing_ok db'" "\<exists>r. pending_for user now shown r db'" by blast+
qed

subsection \<open>Every operation keeps the invariant\<close>

lemma pairing_ok_fields [simp]:
  "pairing_ok (db\<lparr>ps_lockout := x\<rparr>) = pairing_ok db"
  by (simp add: pairing_ok_def)

lemma pairing_ok_notified:
  "pairing_ok db \<Longrightarrow> distinct (map fst rows) \<Longrightarrow> pairing_ok (db\<lparr>ps_notified := rows\<rparr>)"
  by (simp add: pairing_ok_def)

lemma notified_distinct: "pairing_ok db \<Longrightarrow> distinct (map fst (ps_notified db))"
  by (simp add: pairing_ok_def)

interpretation attempt_code: keyed_update pc_code "\<lambda>r. r\<lparr>pc_attempts := pc_attempts r + 1\<rparr>"
  by unfold_locales simp

interpretation attempt_user: keyed_update pc_user_id "\<lambda>r. r\<lparr>pc_attempts := pc_attempts r + 1\<rparr>"
  by unfold_locales simp

lemma codes_ok_count:
  assumes "codes_ok rs"
  shows "codes_ok (fst (sql_update (\<lambda>r. pc_attempts r < max_failed_attempts) (\<lambda>r. r\<lparr>pc_attempts := pc_attempts r + 1\<rparr>) rs))"
proof -
  have "list_all code_ok (fst (sql_update (\<lambda>r. pc_attempts r < max_failed_attempts) (\<lambda>r. r\<lparr>pc_attempts := pc_attempts r + 1\<rparr>) rs))"
    using assms by (intro list_all_update) (auto simp: codes_ok_def code_ok_def)
  moreover have "length (fst (sql_update p f rs)) = length rs" for p :: "PairingCodeRow \<Rightarrow> bool" and f
    by (simp add: sql_update_def)
  ultimately show ?thesis
    using assms by (simp add: codes_ok_def attempt_code.distinct_update attempt_user.distinct_update)
qed

lemma pairing_ok_count_attempt: "pairing_ok db \<Longrightarrow> pairing_ok (count_attempt db)"
  unfolding count_attempt_def by (intro pairing_ok_codes codes_ok_count pairing_okD)

lemma pairing_ok_record_failed: "pairing_ok db \<Longrightarrow> pairing_ok (record_failed_attempt now db)"
  by (simp add: record_failed_attempt_def)

lemma pairing_ok_admit:
  assumes "pairing_ok db" and "u = dec user \<and> user < 2 ^ 64"
  shows "pairing_ok (admit u user now db)"
proof -
  have "list_all (\<lambda>(u, _). \<exists>n < 2 ^ 64. u = dec n) (sql_insert_ignore fst (u, now) (ps_paired db))"
    using assms by (intro list_all_insert_ignore) (auto simp: pairing_ok_def)
  moreover  have "distinct (map fst (sql_insert_ignore fst (u, now) (ps_paired db)))"
    using assms(1) by (intro distinct_insert_ignore) (simp add: pairing_ok_def)
  moreover have "u \<in> fst ` set (sql_insert_ignore fst (u, now) (ps_paired db))"
    by (force simp: sql_insert_ignore_def list_ex_iff)
  moreover have "fst ` set (ps_paired db) \<subseteq> fst ` set (sql_insert_ignore fst (u, now) (ps_paired db))"
    by (intro image_mono set_insert_ignore)
  ultimately show ?thesis
    using assms by (simp add: pairing_ok_def admit_def distinct_sql_delete) blast
qed

lemma parse_user: "code_ok r \<Longrightarrow> parse_u64 (pc_user_id r) = Some user \<Longrightarrow> pc_user_id r = dec user \<and> user < 2 ^ 64"
  by (auto simp: code_ok_def parse_uint_dec)

lemma pairing_ok_approve:
  assumes "pairing_ok db"
  shows "pairing_ok (fst (approve_code ualnum uupper input now db))"
proof (cases "sql_get pc_code (normalize_code ualnum uupper input) (ps_codes db)")
  case None
  then show ?thesis
    using assms by (simp add: approve_code_def Let_def pairing_ok_count_attempt pairing_ok_record_failed)
next
  case (Some r)
  have "code_ok r"
    using sql_get_SomeD [OF Some] pairing_okD [OF assms] by (simp add: codes_ok_def list_all_iff)
  then have adm: "pairing_ok (admit (pc_user_id r) user now (db\<lparr>ps_codes := fst (sql_delete p (ps_codes db))\<rparr>))"
    if "parse_u64 (pc_user_id r) = Some user" for user p
    using that assms by (intro pairing_ok_admit pairing_ok_codes codes_ok_delete pairing_okD parse_user)
  have "pairing_ok (db\<lparr>ps_codes := fst (sql_delete p (ps_codes db))\<rparr>)" for p
    using assms by (intro pairing_ok_codes codes_ok_delete pairing_okD)
  with Some assms adm show ?thesis
    by (auto simp: approve_code_def Let_def split_def split: option.splits)
qed

lemma notification_cases:
  assumes "check_and_record_notification ualnum uupper bytes user now db = Inr (db', shown)"
  obtains "db' = db" "shown = None"
  | d code where "snd (claim_notification user now (ps_notified db)) \<noteq> 0"
      "request_pairing_code ualnum uupper bytes user now
         (db\<lparr>ps_notified := fst (claim_notification user now (ps_notified db))\<rparr>) = Inr (d, code)"
      "db' = d\<lparr>ps_notified := drop_stale now (ps_notified d)\<rparr>" "shown = Some code"
  using assms
  by (auto simp: check_and_record_notification_def and_then_Inr_iff split: if_splits prod.splits)

lemma pairing_ok_notification:
  assumes "pairing_ok db" and "user < 2 ^ 64" and "8 \<le> length bytes"
    and "check_and_record_notification ualnum uupper bytes user now db = Inr (db', shown)"
  shows "pairing_ok db'"
  using assms(4)
proof (cases rule: notification_cases)
  case (2 d code)
  have "pairing_ok (db\<lparr>ps_notified := fst (claim_notification user now (ps_notified db))\<rparr>)"
    using notified.distinct_upsert [OF notified_distinct [OF assms(1)]] assms(1)
    by (simp add: pairing_ok_notified claim_notification_def)
  from request_sound(1) [OF this assms(2,3) 2(2)] show ?thesis
    unfolding 2(3) by (auto simp: drop_stale_def intro!: pairing_ok_notified distinct_sql_delete notified_distinct)
qed (use assms(1) in simp)

datatype PairingOp =
    InitCache
  | Cleanup int
  | FailedAttempt int
  | Request "nat list" nat int
  | Notify "nat list" nat int
  | Confirm nat int
  | Approve string int

definition keep :: "'a \<Rightarrow> 'e + ('a \<times> 'b) \<Rightarrow> 'a" where
  "keep db r = (case r of Inr (db', _) \<Rightarrow> db' | Inl _ \<Rightarrow> db)"

fun pairing_step :: "(string \<Rightarrow> bool) \<Rightarrow> (string \<Rightarrow> string) \<Rightarrow> PairingOp \<Rightarrow> PairingStore \<Rightarrow> PairingStore" where
  "pairing_step ua uu InitCache db = init_cache db"
| "pairing_step ua uu (Cleanup now) db = fst (cleanup_expired_codes now db)"
| "pairing_step ua uu (FailedAttempt now) db = record_failed_attempt now db"
| "pairing_step ua uu (Request bytes user now) db = keep db (request_pairing_code ua uu bytes user now db)"
| "pairing_step ua uu (Notify bytes user now) db = keep db (check_and_record_notification ua uu bytes user now db)"
| "pairing_step ua uu (Confirm user at) db = record_confirmed_delivery user at db"
| "pairing_step ua uu (Approve input now) db = fst (approve_code ua uu input now db)"

text \<open>The requests a program can make: a user number is a \<open>u64\<close>, a UUID has sixteen bytes.\<close>

fun op_fits :: "PairingOp \<Rightarrow> bool" where
  "op_fits (Request bytes user now) \<longleftrightarrow> user < 2 ^ 64 \<and> length bytes = 16"
| "op_fits (Notify bytes user now) \<longleftrightarrow> user < 2 ^ 64 \<and> length bytes = 16"
| "op_fits _ \<longleftrightarrow> True"

lemma pairing_ok_init_cache:
  assumes "pairing_ok db"
  shows "pairing_ok (init_cache db)"
proof -
  have "dec n \<in> fst ` set (ps_paired db)" if "(u, t) \<in> set (ps_paired db)" "parse_u64 u = Some n" for u t n
  proof -
    have "list_all (\<lambda>(u, _). \<exists>n < 2 ^ 64. u = dec n) (ps_paired db)"
      using assms unfolding pairing_ok_def by blast
    from this [unfolded list_all_iff, THEN bspec, OF that(1)] obtain k where "k < 2 ^ 64" "u = dec k"
      by blast
    with that show ?thesis by (force simp: parse_uint_dec)
  qed
  then have "set (List.map_filter (\<lambda>(u, _). parse_u64 u) (ps_paired db)) \<subseteq> {n. dec n \<in> fst ` set (ps_paired db)}"
    by (auto simp: List.map_filter_def split: prod.splits)
  with assms show ?thesis by (simp add: init_cache_def pairing_ok_def)
qed

lemma pairing_ok_step:
  assumes "pairing_ok db" and "op_fits op"
  shows "pairing_ok (pairing_step ua uu op db)"
proof (cases op)
  case (Request bytes user now)
  then show ?thesis
    using assms request_sound(1) [OF assms(1), of user bytes ua uu now]
    by (auto simp: keep_def split: sum.splits prod.splits)
next
  case (Notify bytes user now)
  then show ?thesis
    using assms pairing_ok_notification [OF assms(1), of user bytes ua uu now]
    by (auto simp: keep_def split: sum.splits prod.splits)
next
  case (Confirm user at)
  then show ?thesis
    using assms notified.distinct_upsert [OF notified_distinct [OF assms(1)]]
    by (simp add: record_confirmed_delivery_def pairing_ok_notified)
qed (use assms in \<open>simp_all add: pairing_ok_init_cache pairing_ok_cleanup pairing_ok_record_failed pairing_ok_approve\<close>)

interpretation pairing: run_invariant "pairing_step ua uu" op_fits pairing_ok for ua uu
  by unfold_locales (rule pairing_ok_step)

subsection \<open>Properties\<close>

text \<open>C37: in every state the pairing store reaches, codes are unique and of the documented form,
  each user has at most one, there are never more than one hundred, no attempt counter exceeds
  five, and the cache lets in only users that are recorded as paired.\<close>

theorem pairing_invariant:
  assumes "list_all op_fits ops"
  shows "pairing_ok (fold (pairing_step ua uu) ops pairing_new)"
proof -
  have "pairing_ok pairing_new" by (simp add: pairing_ok_def pairing_new_def codes_ok_def)
  then show ?thesis using assms by (rule pairing.run)
qed

theorem pairing_invariant_witness:
  "pairing_ok (fold (pairing_step (\<lambda>_. False) (\<lambda>x. x))
     [Request (replicate 16 7) 42 0, Approve ''HHHH-HHHH'' 1, InitCache] pairing_new)"
  by (rule pairing_invariant) simp

lemma approve_hit:
  assumes "normalize_code ua uu input = pc_code r" and "pc_code r \<noteq> []" and "\<not> is_platform_locked now db"
    and "sql_get pc_code (pc_code r) (ps_codes db) = Some r" and "pc_attempts r < max_failed_attempts"
    and "now \<le> pc_expires_at r" and "parse_u64 (pc_user_id r) = Some user"
  shows "approve_code ua uu input now db =
    (admit (pc_user_id r) user now (db\<lparr>ps_codes := filter (\<lambda>x. pc_code x \<noteq> pc_code r) (ps_codes db)\<rparr>), Success user)"
proof -
  have "filter (\<lambda>x. pc_code x = pc_code r) (ps_codes db) \<noteq> []"
    using sql_get_SomeD [OF assms(4)] by (auto simp: filter_empty_conv)
  then show ?thesis
    using assms by (simp add: approve_code_def sql_delete_def)
qed




subsection \<open>The lockout\<close>

definition failures :: "PairingStore \<Rightarrow> int" where
  "failures db = (case ps_lockout db of Some (_, n) \<Rightarrow> n | None \<Rightarrow> 0)"

definition wrong_code :: "(string \<Rightarrow> bool) \<Rightarrow> (string \<Rightarrow> string) \<Rightarrow> PairingStore \<Rightarrow> string \<Rightarrow> bool" where
  "wrong_code ua uu db input \<longleftrightarrow> normalize_code ua uu input \<noteq> '''' \<and>
     normalize_code ua uu input \<notin> pc_code ` set (ps_codes db)"

definition locked_until_after :: "int \<Rightarrow> PairingStore \<Rightarrow> bool" where
  "locked_until_after t db \<longleftrightarrow> ps_lockout db = Some (t + lockout_duration_seconds * sec, max_failed_attempts)"

lemma codes_after_count: "pc_code ` set (ps_codes (count_attempt (record_failed_attempt t db))) = pc_code ` set (ps_codes db)"
  using arg_cong [OF attempt_code.keys_update [of "\<lambda>r. pc_attempts r < max_failed_attempts" "ps_codes db"], of set]
  by (simp add: count_attempt_def record_failed_attempt_def)

lemma approve_wrong:
  assumes "wrong_code ua uu db input" and "failures db < max_failed_attempts"
  shows "approve_code ua uu input t db = (count_attempt (record_failed_attempt t db), InvalidCode)"
proof -
  have "\<not> is_platform_locked t db"
    using assms(2) by (auto simp: is_platform_locked_def failures_def split: option.splits)
  with assms(1) show ?thesis
    by (simp add: approve_code_def Let_def wrong_code_def sql_get_None_iff [THEN iffD2])
qed

lemma failed_attempt_counts:
  assumes "failures db < max_failed_attempts"
  shows "failures (count_attempt (record_failed_attempt t db)) = failures db + 1"
    and "failures db + 1 = max_failed_attempts \<Longrightarrow> locked_until_after t (count_attempt (record_failed_attempt t db))"
  using assms
  by (auto simp: failures_def count_attempt_def record_failed_attempt_def locked_until_after_def split: option.splits)

lemma wrong_codes_lock:
  assumes "tries \<noteq> []" and "failures db + int (length tries) = max_failed_attempts"
    and "list_all (\<lambda>(input, _). wrong_code ua uu db input) tries"
  shows "locked_until_after (snd (last tries)) (fold (\<lambda>(input, t) db. fst (approve_code ua uu input t db)) tries db)"
  using assms
proof (induction tries arbitrary: db)
  case (Cons a tries)
  obtain input t where [simp]: "a = (input, t)" by (cases a)
  have f: "failures db < max_failed_attempts" and w: "wrong_code ua uu db input" using Cons.prems by auto
  let ?db = "count_attempt (record_failed_attempt t db)"
  have step: "fst (approve_code ua uu input t db) = ?db" by (simp add: approve_wrong [OF w f])
  have "list_all (\<lambda>(input, _). wrong_code ua uu ?db input) tries"
    using Cons.prems(3) by (simp add: wrong_code_def codes_after_count)
  then show ?case
    using Cons.IH [of ?db] Cons.prems failed_attempt_counts [OF f, of t] step
    by (cases "tries = []") simp_all
qed simp

lemma locked_refuses:
  assumes "is_platform_locked now db"
  shows "snd (approve_code ua uu input now db) \<in> {LockedOut, InvalidCode}"
    and "fst (approve_code ua uu input now db) = db"
    and "request_pairing_code ua uu bytes user now db =
      Inl (Refused (Approval ''Pairing is locked out due to too many failed attempts''))"
    and "check_and_record_notification ua uu bytes user now db = Inr (db, None)"
  using assms by (auto simp: approve_code_def Let_def request_pairing_code_def check_and_record_notification_def)

text \<open>As many wrong codes as are missing to five lock the platform for fifteen minutes, and
  not longer.  While it is locked no code is accepted, no code is issued, nobody is notified and
  nothing changes; afterwards it is open again.\<close>

theorem wrong_codes_lock_platform:
  assumes "tries \<noteq> []" and "failures db + int (length tries) = max_failed_attempts"
    and "list_all (\<lambda>(input, _). wrong_code ua uu db input) tries"
    and "db' = fold (\<lambda>(input, t) db. fst (approve_code ua uu input t db)) tries db"
    and "until = snd (last tries) + lockout_duration_seconds * sec"
  shows "(\<forall>now < until.
      (\<forall>input. approve_code ua uu input now db' = (db', LockedOut) \<or>
         normalize_code ua uu input = '''' \<and> approve_code ua uu input now db' = (db', InvalidCode)) \<and>
      (\<forall>bytes user. request_pairing_code ua uu bytes user now db' =
         Inl (Refused (Approval ''Pairing is locked out due to too many failed attempts'')) \<and>
         check_and_record_notification ua uu bytes user now db' = Inr (db', None))) \<and>
    (\<forall>now \<ge> until. \<not> is_platform_locked now db')"
proof -
  have lk: "ps_lockout db' = Some (until, max_failed_attempts)"
    using wrong_codes_lock [OF assms(1-3)] assms(4,5) by (simp add: locked_until_after_def)
  then have "\<forall>now \<ge> until. \<not> is_platform_locked now db'" by (simp add: is_platform_locked_def)
  have "is_platform_locked now db'" if "now < until" for now
    using lk that by (simp add: is_platform_locked_def)
  note locked = this and refuse = locked_refuses [OF this]
  have "approve_code ua uu input now db' = (db', LockedOut) \<or>
         normalize_code ua uu input = '''' \<and> approve_code ua uu input now db' = (db', InvalidCode)"
    if "now < until" for now input
    using locked [OF that] by (simp add: approve_code_def Let_def)
  moreover note refuse(3,4) \<open>\<forall>now \<ge> until. \<not> is_platform_locked now db'\<close>
  ultimately show ?thesis by blast
qed

theorem wrong_codes_lock_platform_witness:
  "approve_code (\<lambda>_. False) (\<lambda>x. x) ''Z'' 600
     (fold (\<lambda>(input, t) db. fst (approve_code (\<lambda>_. False) (\<lambda>x. x) input t db))
       [(''A'', 0), (''B'', 1), (''A'', 2), (''b'', 3), (''7'', 4)] pairing_new) =
   (fold (\<lambda>(input, t) db. fst (approve_code (\<lambda>_. False) (\<lambda>x. x) input t db))
       [(''A'', 0), (''B'', 1), (''A'', 2), (''b'', 3), (''7'', 4)] pairing_new, LockedOut)"
proof -
  let ?ua = "\<lambda>_ :: string. False" and ?uu = "\<lambda>x :: string. x"
  let ?tries = "[(''A'', 0), (''B'', 1), (''A'', 2), (''b'', 3), (''7'', 4 :: int)]"
  have n: "normalize_code ?ua ?uu ''A'' = ''A''" "normalize_code ?ua ?uu ''B'' = ''B''"
    "normalize_code ?ua ?uu ''b'' = ''B''" "normalize_code ?ua ?uu ''7'' = ''7''" "normalize_code ?ua ?uu ''Z'' = ''Z''"
    by code_simp+
  have w: "list_all (\<lambda>(input, _). wrong_code ?ua ?uu pairing_new input) ?tries"
    by (simp add: wrong_code_def n pairing_new_def)
  have f: "failures pairing_new + int (length ?tries) = max_failed_attempts"
    by (simp add: failures_def pairing_new_def)
  have t: "?tries \<noteq> []" "600 < snd (last ?tries) + lockout_duration_seconds * sec" by simp_all
  note at_600 = wrong_codes_lock_platform [OF t(1) f w refl refl, THEN conjunct1, THEN spec, THEN mp, OF t(2)]
  from at_600 [THEN conjunct1, THEN spec, of "''Z''"] show ?thesis
    unfolding n(5) by (elim disjE) simp_all
qed


subsection \<open>The notification rate limit\<close>

text \<open>The operations that may come between two notifications of a user: those of a clock that
  has not passed \<open>later\<close>, and no confirmation dated before the first.\<close>

fun between :: "nat \<Rightarrow> int \<Rightarrow> int \<Rightarrow> PairingOp \<Rightarrow> bool" where
  "between user now later (Notify _ _ t) \<longleftrightarrow> t \<le> later"
| "between user now later (Confirm u t) \<longleftrightarrow> (u = user \<longrightarrow> now \<le> t)"
| "between user now later _ \<longleftrightarrow> True"

definition throttled :: "nat \<Rightarrow> int \<Rightarrow> PairingStore \<Rightarrow> bool" where
  "throttled user now db \<longleftrightarrow> dec user \<in> fst ` set (ps_paired db) \<or>
     (\<exists>t. sql_get fst (dec user) (ps_notified db) = Some (dec user, t) \<and> epoch now \<le> epoch t)"

lemma epoch_mono: "s \<le> t \<Longrightarrow> epoch s \<le> epoch t"
  by (simp add: epoch_def zdiv_mono1)

lemma request_keeps:
  assumes "request_pairing_code ua uu bytes user now db = Inr (db', shown)"
  shows "ps_notified db' = ps_notified db" and "ps_paired db' = ps_paired db"
  using assms
  by (auto simp: request_pairing_code_def Let_def formatted_def insert_code_def make_room_def drop_codes_of_def
      cleanup_expired_codes_def split_def and_then_Inr_iff split: option.splits if_splits sum.splits)

lemma sql_get_delete:
  "sql_get key k t = Some r \<Longrightarrow> \<not> p r \<Longrightarrow> distinct (map key t) \<Longrightarrow> sql_get key k (fst (sql_delete p t)) = Some r"
  using sql_get_SomeD [of key k t r] sql_get_mem [of key "filter (\<lambda>r. \<not> p r) t" r]
  by (auto simp: sql_delete_def distinct_map_filter)

lemma notification_None:
  assumes "pairing_ok db" and "throttled user now db" and "epoch later - epoch now < rate_limit_seconds"
  shows "check_and_record_notification ua uu bytes user later db = Inr (db, None)"
proof (cases "is_platform_locked later db \<or> dec user \<in> fst ` set (ps_paired db)")
  case True
  then show ?thesis by (force simp: check_and_record_notification_def list_ex_iff)
next
  case False
  then obtain t where t: "sql_get fst (dec user) (ps_notified db) = Some (dec user, t)" "epoch now \<le> epoch t"
    using assms(2) by (auto simp: throttled_def)
  have "snd (claim_notification user later (ps_notified db)) = 0"
    using t assms(3) by (simp add: claim_notification_def notified.affected_upsert [OF notified_distinct [OF assms(1)]])
  with False show ?thesis
    by (auto simp: check_and_record_notification_def list_ex_iff split: prod.splits)
qed

lemma throttled_frame:
  "throttled user now db \<Longrightarrow> fst ` set (ps_paired db) \<subseteq> fst ` set (ps_paired db') \<Longrightarrow>
   ps_notified db' = ps_notified db \<Longrightarrow> throttled user now db'"
  by (auto simp: throttled_def)

lemma throttled_admit:
  assumes "throttled user now db" and "pairing_ok db" and "u = dec n"
  shows "throttled user now (admit u n t db)"
proof (cases "n = user")
  case True
  then show ?thesis using assms(3) by (force simp: throttled_def admit_def sql_insert_ignore_def list_ex_iff)
next
  case False
  then have "dec user \<noteq> dec n" by simp
  then have "sql_get fst (dec user) (fst (sql_delete (\<lambda>(x, _). x = dec n) (ps_notified db))) = Some (dec user, s)"
    if "sql_get fst (dec user) (ps_notified db) = Some (dec user, s)" for s
    using that notified_distinct [OF assms(2)] by (intro sql_get_delete) auto
  moreover have "fst ` set (ps_paired db) \<subseteq> fst ` set (sql_insert_ignore fst (u, t) (ps_paired db))"
    by (intro image_mono set_insert_ignore)
  ultimately show ?thesis using assms(1) by (auto simp: throttled_def admit_def)
qed

lemma throttled_approve:
  assumes "throttled user now db" and "pairing_ok db"
  shows "throttled user now (fst (approve_code ua uu input t db))"
proof (cases "sql_get pc_code (normalize_code ua uu input) (ps_codes db)")
  case None
  have "throttled user now (count_attempt (record_failed_attempt t db))"
    by (rule throttled_frame [OF assms(1)]) (simp_all add: count_attempt_def record_failed_attempt_def)
  with None assms(1) show ?thesis by (simp add: approve_code_def Let_def)
next
  case (Some r)
  have "code_ok r"
    using sql_get_SomeD [OF Some] pairing_okD [OF assms(2)] by (simp add: codes_ok_def list_all_iff)
  moreover have del: "throttled user now (db\<lparr>ps_codes := rows\<rparr>)" for rows
    by (rule throttled_frame [OF assms(1)]) simp_all
  ultimately have "throttled user now (admit (pc_user_id r) n t (db\<lparr>ps_codes := fst (sql_delete p (ps_codes db))\<rparr>))"
    if "parse_u64 (pc_user_id r) = Some n" for n p
    using that assms(2) parse_user [of r n] 
    by (intro throttled_admit pairing_ok_codes codes_ok_delete pairing_okD) auto
  with Some assms(1) del show ?thesis
    by (auto simp: approve_code_def Let_def split_def split: option.splits)
qed

lemma throttled_notify:
  assumes "throttled user now db" and "pairing_ok db" and "t \<le> later" and "epoch later - epoch now < rate_limit_seconds"
  shows "throttled user now (keep db (check_and_record_notification ua uu bytes u t db))"
proof (cases "u = user")
  case True
  have "epoch t - epoch now < rate_limit_seconds" using epoch_mono [OF assms(3)] assms(4) by linarith
  from notification_None [OF assms(2,1) this] True assms(1) show ?thesis by (simp add: keep_def)
next
  case False
  let ?rows = "fst (claim_notification u t (ps_notified db))"
  have stay: "sql_get fst (dec user) (drop_stale t ?rows) = Some (dec user, s)"
    if s: "sql_get fst (dec user) (ps_notified db) = Some (dec user, s)" "epoch now \<le> epoch s" for s
    unfolding drop_stale_def
  proof (rule sql_get_delete)
    show "sql_get fst (dec user) ?rows = Some (dec user, s)"
      using False s by (simp add: claim_notification_def notified.get_upsert)
    show "distinct (map fst ?rows)"
      using notified.distinct_upsert [OF notified_distinct [OF assms(2)]] by (simp add: claim_notification_def)
    show "\<not> (case (dec user, s) of (u, s) \<Rightarrow> epoch t - epoch s > rate_limit_seconds)"
      using s(2) epoch_mono [OF assms(3)] assms(4) by simp
  qed
  have "throttled user now db'" if "check_and_record_notification ua uu bytes u t db = Inr (db', shown)" for db' shown
    using that
  proof (cases rule: notification_cases)
    case (2 d code)
    with request_keeps [OF 2(2)] stay assms(1) show ?thesis by (auto simp: throttled_def)
  qed (use assms(1) in simp)
  with assms(1) show ?thesis by (auto simp: keep_def split: sum.splits)
qed

lemma throttled_step:
  assumes "throttled user now db" and "pairing_ok db" and "between user now later op"
    and "epoch later - epoch now < rate_limit_seconds"
  shows "throttled user now (pairing_step ua uu op db)"
proof (cases op)
  case (Request bytes u t)
  have "throttled user now db'" if "request_pairing_code ua uu bytes u t db = Inr (db', shown)" for db' shown
    using request_keeps [OF that] by (intro throttled_frame [OF assms(1)]) simp_all
  with Request assms(1) show ?thesis by (auto simp: keep_def split: sum.splits)
next
  case (Notify bytes u t)
  then show ?thesis using throttled_notify [OF assms(1,2)] assms(3,4) by simp
next
  case (Confirm u t)
  then show ?thesis
    using assms(1,3) epoch_mono [of now t]
    by (auto simp: throttled_def record_confirmed_delivery_def notified.get_upsert)
next
  case (Approve input t)
  then show ?thesis by (simp add: throttled_approve [OF assms(1,2)])
qed (rule throttled_frame [OF assms(1)];
  simp add: init_cache_def cleanup_expired_codes_def record_failed_attempt_def split_def Let_def)+

text \<open>Once a user has been sent a pairing code, nobody sends that user another notification
  for ten minutes, whatever else happens to the store in between.\<close>

theorem notification_rate_limited:
  assumes "pairing_ok db" and "user < 2 ^ 64" and "length bytes = 16"
    and "check_and_record_notification ua uu bytes user now db = Inr (db', Some shown)"
    and "list_all (\<lambda>op. op_fits op \<and> between user now later op) ops"
    and "later div sec - now div sec < rate_limit_seconds"
    and "db2 = fold (pairing_step ua uu) ops db'"
  shows "check_and_record_notification ua uu bytes2 user later db2 = Inr (db2, None)"
proof -
  have ep: "epoch later - epoch now < rate_limit_seconds" using assms(6) by (simp add: epoch_def)
  have ok: "pairing_ok db'" using pairing_ok_notification [OF assms(1,2) _ assms(4)] assms(3) by simp
  have "sql_get fst (dec user) (ps_notified db') = Some (dec user, now)"
    using assms(4)
  proof (cases rule: notification_cases)
    case (2 d code)
    let ?rows = "fst (claim_notification user now (ps_notified db))"
    have "sql_get fst (dec user) ?rows = Some (dec user, now)"
      using 2(1) notified_distinct [OF assms(1)]
      by (auto simp: claim_notification_def notified.get_upsert notified.affected_upsert
          split: option.splits if_splits dest: sql_get_SomeD)
    moreover have "distinct (map fst ?rows)"
      using notified.distinct_upsert [OF notified_distinct [OF assms(1)]] by (simp add: claim_notification_def)
    ultimately show ?thesis
      using 2(3) request_keeps(1) [OF 2(2)] by (auto simp: drop_stale_def intro!: sql_get_delete)
  qed simp
  then have "throttled user now db'" by (auto simp: throttled_def)
  then have "throttled user now db2 \<and> pairing_ok db2"
    using assms(5) ok unfolding assms(7)
    by (induction ops arbitrary: db') (auto simp: pairing_ok_step throttled_step [OF _ _ _ ep])
  then show ?thesis using notification_None ep by blast
qed

theorem notification_rate_limited_witness:
  "\<exists>db' shown. check_and_record_notification (\<lambda>_. False) (\<lambda>x. x) (replicate 16 7) 42 0 pairing_new = Inr (db', Some shown) \<and>
     (let db2 = fold (pairing_step (\<lambda>_. False) (\<lambda>x. x)) [Notify (replicate 16 3) 43 (5 * sec), Confirm 42 (6 * sec), Cleanup 7] db' in
      check_and_record_notification (\<lambda>_. False) (\<lambda>x. x) (replicate 16 1) 42 (599 * sec) db2 = Inr (db2, None))"
proof -
  let ?ua = "\<lambda>_ :: string. False" and ?uu = "\<lambda>x :: string. x"
  have ok: "pairing_ok pairing_new" by (simp add: pairing_ok_def pairing_new_def codes_ok_def)
  have raw: "generate_raw_code (replicate 16 7) = ''HHHHHHHH''" by code_simp
  have v: "valid_code ''HHHHHHHH''" using generated_valid [of "replicate 16 7"] raw by simp
  obtain db' where n: "check_and_record_notification ?ua ?uu (replicate 16 7) 42 0 pairing_new = Inr (db', Some ''HHHH-HHHH'')"
    using format_valid(1) [OF v, of ?ua ?uu] raw
    by (simp add: check_and_record_notification_def request_pairing_code_def pairing_new_def is_platform_locked_def
        cleanup_expired_codes_def sql_delete_def existing_code_def drop_codes_of_def make_room_def insert_code_def
        formatted_def claim_notification_def sql_upsert_def Let_def)
  have "check_and_record_notification ?ua ?uu (replicate 16 1) 42 (599 * sec)
      (fold (pairing_step ?ua ?uu) [Notify (replicate 16 3) 43 (5 * sec), Confirm 42 (6 * sec), Cleanup 7] db') =
    Inr (fold (pairing_step ?ua ?uu) [Notify (replicate 16 3) 43 (5 * sec), Confirm 42 (6 * sec), Cleanup 7] db', None)"
    by (rule notification_rate_limited [OF ok _ _ n _ _ refl]) simp_all
  with n show ?thesis by (simp only: Let_def) blast
qed
end
