(* ===== verification/Approval_Guard.thy ===== *)
theory Approval_Guard
  imports Gateway_Events Transition_System
begin

section \<open>Approval of commands\<close>

text \<open>
  \<open>src/discord/approval.rs\<close>: a tool asks a person before it runs a command.  The guard keeps the
  pending requests, the grants of each session, the permanent grants and the sessions that
  approve everything; the requester is the asynchronous call that posts the buttons, waits for
  the decision and remembers it.  Its suspension points are separate events here, so that clicks,
  denials, resets and time-outs interleave with it.

  A UUID is its number; \<open>parse_uuid\<close> and \<open>show_uuid\<close> (crate \<open>uuid\<close>), the decoder of stored session
  states and the redaction patterns (crate \<open>regex\<close>) are arguments.  A hash table is the list of
  its entries with distinct keys; \<open>pick\<close> says which of the entries an iteration meets first.  A
  one-shot channel is the value its receiver sees.
\<close>

datatype ApprovalDecision = Once | Session | Always | Deny "string option"

datatype ApprovalError = Timeout | Cancelled | Persistence string

datatype ApprovalScope = ScopeOnce | ScopeSession | ScopeAlways

fun is_approved_decision :: "ApprovalDecision \<Rightarrow> bool" where
  "is_approved_decision (Deny _) \<longleftrightarrow> False"
| "is_approved_decision _ \<longleftrightarrow> True"

fun cap :: "ApprovalScope \<Rightarrow> ApprovalDecision \<Rightarrow> ApprovalDecision" where
  "cap ScopeOnce Session = Once"
| "cap ScopeOnce Always = Once"
| "cap ScopeSession Always = Session"
| "cap _ d = d"

record PendingApprovalEntry =
  pe_session :: "SessionKey option"
  pe_created_at :: int

datatype Channel = Waiting | Sent ApprovalDecision | SenderDropped

record SmartApprovalGuard =
  pending :: "(nat \<times> PendingApprovalEntry) list"
  channels :: "nat \<rightharpoonup> Channel"
  session_cache :: "(SessionKey \<times> string list) list"
  yolo_sessions :: "string set"
  always_cache :: "string set"
  allowlist :: "string list option"

definition guard_new :: "string list option \<Rightarrow> SmartApprovalGuard" where
  "guard_new table = \<lparr>pending = [], channels = Map.empty, session_cache = [], yolo_sessions = {},
     always_cache = {}, allowlist = table\<rparr>"

subsection \<open>Hash tables\<close>

definition hm_remove :: "'k \<Rightarrow> ('k \<times> 'v) list \<Rightarrow> ('k \<times> 'v) list" where
  "hm_remove k m = filter (\<lambda>p. fst p \<noteq> k) m"

definition hm_insert :: "'k \<Rightarrow> 'v \<Rightarrow> ('k \<times> 'v) list \<Rightarrow> ('k \<times> 'v) list" where
  "hm_insert k v m = (k, v) # hm_remove k m"

function evict :: "('a list \<Rightarrow> nat) \<Rightarrow> nat \<Rightarrow> 'a list \<Rightarrow> 'a list" where
  "evict pick n xs =
     (if length xs \<le> n then xs
      else let i = pick xs mod length xs in evict pick n (take i xs @ drop (Suc i) xs))"
  by pat_completeness auto

termination evict
proof (relation "measure (\<lambda>(_, _, xs). length xs)")
  fix pick :: "'a list \<Rightarrow> nat" and n xs i
  assume "\<not> length xs \<le> n" "i = pick xs mod length xs"
  then have "i < length xs" by (metis gr_zeroI le0 mod_less_divisor)
  then show "((pick, n, take i xs @ drop (Suc i) xs), pick, n, xs) \<in> measure (\<lambda>(_, _, xs). length xs)"
    by simp
qed simp

declare evict.simps [simp del]

subsection \<open>Grants\<close>

abbreviation max_sessions :: nat where "max_sessions \<equiv> 512"
abbreviation max_patterns_per_session :: nat where "max_patterns_per_session \<equiv> 128"

definition is_yolo :: "SessionKey \<Rightarrow> SmartApprovalGuard \<Rightarrow> bool" where
  "is_yolo s g \<longleftrightarrow> storage_key s \<in> yolo_sessions g"

definition set_yolo :: "SessionKey \<Rightarrow> bool \<Rightarrow> SmartApprovalGuard \<Rightarrow> SmartApprovalGuard" where
  "set_yolo s enabled g = g\<lparr>yolo_sessions :=
     (if enabled then insert (storage_key s) (yolo_sessions g) else yolo_sessions g - {storage_key s})\<rparr>"

definition in_session_cache :: "SessionKey \<Rightarrow> string \<Rightarrow> SmartApprovalGuard \<Rightarrow> bool" where
  "in_session_cache s k g = (case map_of (session_cache g) s of Some ks \<Rightarrow> k \<in> set ks | None \<Rightarrow> False)"

definition is_approved :: "SessionKey \<Rightarrow> string \<Rightarrow> SmartApprovalGuard \<Rightarrow> bool" where
  "is_approved s k g \<longleftrightarrow> k \<in> always_cache g \<or> in_session_cache s k g"

definition approve_session ::
  "(string list \<Rightarrow> nat) \<Rightarrow> ((SessionKey \<times> string list) list \<Rightarrow> nat) \<Rightarrow> SessionKey \<Rightarrow> string \<Rightarrow>
   SmartApprovalGuard \<Rightarrow> SmartApprovalGuard" where
  "approve_session pick_pattern pick_session s k g =
     (let patterns = (case map_of (session_cache g) s of Some ks \<Rightarrow> ks | None \<Rightarrow> []);
          patterns = evict pick_pattern max_patterns_per_session (List.insert k patterns)
      in g\<lparr>session_cache := evict pick_session max_sessions (hm_insert s patterns (session_cache g))\<rparr>)"

text \<open>\<open>failure\<close> is the error of the insertion, if it fails.\<close>

definition approve_always :: "string option \<Rightarrow> string \<Rightarrow> SmartApprovalGuard \<Rightarrow> string + SmartApprovalGuard" where
  "approve_always failure k g =
     (case (allowlist g, failure) of
        (Some _, Some e) \<Rightarrow> Inl e
      | (Some rows, None) \<Rightarrow> Inr (g\<lparr>allowlist := Some (if k \<in> set rows then rows else rows @ [k]),
                                  always_cache := insert k (always_cache g)\<rparr>)
      | (None, _) \<Rightarrow> Inr (g\<lparr>always_cache := insert k (always_cache g)\<rparr>))"

definition load_permanent :: "string list \<Rightarrow> SmartApprovalGuard \<Rightarrow> SmartApprovalGuard" where
  "load_permanent patterns g = g\<lparr>always_cache := fold insert patterns (always_cache g)\<rparr>"

definition load_persisted_allowlist :: "SmartApprovalGuard \<Rightarrow> SmartApprovalGuard \<times> nat" where
  "load_persisted_allowlist g =
     (case allowlist g of
        None \<Rightarrow> (g, 0)
      | Some rows \<Rightarrow> (g\<lparr>always_cache := fold insert rows (always_cache g)\<rparr>, length rows))"

fun load_yolo_rows ::
  "(string \<Rightarrow> SessionState option) \<Rightarrow> (string \<times> string) list \<Rightarrow> string set \<Rightarrow> nat \<Rightarrow> string set \<times> nat option" where
  "load_yolo_rows decode [] acc n = (acc, Some n)"
| "load_yolo_rows decode ((key, state_json) # rows) acc n =
     (case decode state_json of
        None \<Rightarrow> (acc, None)
      | Some st \<Rightarrow> if yolo st then load_yolo_rows decode rows (insert key acc) (n + 1)
                  else load_yolo_rows decode rows acc n)"

definition load_persisted_yolo ::
  "(string \<Rightarrow> SessionState option) \<Rightarrow> (string \<times> string) list \<Rightarrow> SmartApprovalGuard \<Rightarrow> SmartApprovalGuard \<times> nat option" where
  "load_persisted_yolo decode sessions g =
     (case allowlist g of
        None \<Rightarrow> (g, Some 0)
      | Some _ \<Rightarrow> let (y, n) = load_yolo_rows decode sessions (yolo_sessions g) 0 in (g\<lparr>yolo_sessions := y\<rparr>, n))"


subsection \<open>Prompts and decisions\<close>

text \<open>The sender of a removed entry is dropped; its receiver, if still there, sees that.\<close>

definition drop_sender :: "nat \<Rightarrow> (nat \<rightharpoonup> Channel) \<Rightarrow> (nat \<rightharpoonup> Channel)" where
  "drop_sender i chs = (if chs i = Some Waiting then chs(i \<mapsto> SenderDropped) else chs)"

definition request_with_session :: "nat \<Rightarrow> SessionKey option \<Rightarrow> int \<Rightarrow> SmartApprovalGuard \<Rightarrow> SmartApprovalGuard" where
  "request_with_session i s now g =
     g\<lparr>pending := hm_insert i \<lparr>pe_session = s, pe_created_at = now\<rparr> (pending g),
       channels := (channels g)(i \<mapsto> Waiting)\<rparr>"

definition send :: "nat \<Rightarrow> ApprovalDecision \<Rightarrow> SmartApprovalGuard \<Rightarrow> SmartApprovalGuard \<times> bool" where
  "send i d g =
     (if channels g i = Some Waiting then (g\<lparr>channels := (channels g)(i \<mapsto> Sent d)\<rparr>, True) else (g, False))"

definition resolve :: "nat \<Rightarrow> ApprovalDecision \<Rightarrow> SmartApprovalGuard \<Rightarrow> SmartApprovalGuard \<times> bool" where
  "resolve i d g =
     (case map_of (pending g) i of
        None \<Rightarrow> (g, False)
      | Some _ \<Rightarrow> send i d (g\<lparr>pending := hm_remove i (pending g)\<rparr>))"

fun parse_decision :: "string \<Rightarrow> ApprovalDecision option" where
  "parse_decision d =
     (if d = ''once'' \<or> d = ''approve'' then Some Once
      else if d = ''session'' then Some Session
      else if d = ''always'' then Some Always
      else if d = ''deny'' \<or> d = ''reject'' then Some (Deny None)
      else None)"

definition parse_custom_id :: "(string \<Rightarrow> nat option) \<Rightarrow> string \<Rightarrow> (nat \<times> ApprovalDecision) option" where
  "parse_custom_id parse_uuid custom_id =
     (case split_on (CHR '':'') custom_id of
        [a, b, i, d] \<Rightarrow>
          if a \<noteq> ''omon'' \<or> b \<noteq> ''approval'' then None
          else (case parse_uuid i of
                  None \<Rightarrow> None
                | Some i \<Rightarrow> map_option (\<lambda>d. (i, d)) (parse_decision d))
      | _ \<Rightarrow> None)"

definition is_approval_custom_id :: "(string \<Rightarrow> nat option) \<Rightarrow> string \<Rightarrow> bool" where
  "is_approval_custom_id parse_uuid custom_id \<longleftrightarrow> parse_custom_id parse_uuid custom_id \<noteq> None"

datatype ButtonStyle = PrimaryStyle | SuccessStyle | DangerStyle

definition approval_buttons :: "(nat \<Rightarrow> string) \<Rightarrow> nat \<Rightarrow> (string \<times> string \<times> ButtonStyle) list" where
  "approval_buttons show_uuid i =
     (let custom_id = (\<lambda>a. ''omon:approval:'' @ show_uuid i @ '':'' @ a) in
      [(custom_id ''once'', ''Allow Once'', PrimaryStyle),
       (custom_id ''session'', ''Allow Session'', SuccessStyle),
       (custom_id ''always'', ''Always Allow'', SuccessStyle),
       (custom_id ''deny'', ''Deny'', DangerStyle)])"

definition resolve_custom_id ::
  "(string \<Rightarrow> nat option) \<Rightarrow> string \<Rightarrow> SmartApprovalGuard \<Rightarrow> SmartApprovalGuard \<times> bool" where
  "resolve_custom_id parse_uuid custom_id g =
     (case parse_custom_id parse_uuid custom_id of
        None \<Rightarrow> (g, False)
      | Some (i, d) \<Rightarrow> resolve i d g)"

definition session_target ::
  "((nat \<times> PendingApprovalEntry) list \<Rightarrow> nat) \<Rightarrow> SessionKey \<Rightarrow> (nat \<times> PendingApprovalEntry) list \<Rightarrow> nat option" where
  "session_target pick s m =
     (let mine = filter (\<lambda>(_, e). pe_session e = Some s) m;
          oldest = filter (\<lambda>(_, e). list_all (\<lambda>(_, e'). pe_created_at e \<le> pe_created_at e') mine) mine
      in if oldest = [] then None else Some (fst (oldest ! (pick oldest mod length oldest))))"

definition resolve_session_deny ::
  "((nat \<times> PendingApprovalEntry) list \<Rightarrow> nat) \<Rightarrow> SessionKey \<Rightarrow> string option \<Rightarrow> SmartApprovalGuard \<Rightarrow>
   SmartApprovalGuard \<times> bool" where
  "resolve_session_deny pick s reason g =
     (case session_target pick s (pending g) of
        None \<Rightarrow> (g, False)
      | Some i \<Rightarrow> resolve i (Deny reason) g)"

definition cancel :: "nat \<Rightarrow> SmartApprovalGuard \<Rightarrow> SmartApprovalGuard" where
  "cancel i g =
     (case map_of (pending g) i of
        None \<Rightarrow> g
      | Some _ \<Rightarrow> g\<lparr>pending := hm_remove i (pending g), channels := drop_sender i (channels g)\<rparr>)"

text \<open>\<open>clear_session\<close> takes its three locks one after the other.\<close>

definition clear_pending :: "SessionKey \<Rightarrow> SmartApprovalGuard \<Rightarrow> SmartApprovalGuard" where
  "clear_pending s g =
     g\<lparr>pending := filter (\<lambda>(_, e). pe_session e \<noteq> Some s) (pending g),
       channels := fold drop_sender (map fst (filter (\<lambda>(_, e). pe_session e = Some s) (pending g))) (channels g)\<rparr>"

definition clear_grants :: "SessionKey \<Rightarrow> SmartApprovalGuard \<Rightarrow> SmartApprovalGuard" where
  "clear_grants s g = g\<lparr>session_cache := hm_remove s (session_cache g)\<rparr>"

definition clear_yolo :: "SessionKey \<Rightarrow> SmartApprovalGuard \<Rightarrow> SmartApprovalGuard" where
  "clear_yolo s g = g\<lparr>yolo_sessions := yolo_sessions g - {storage_key s}\<rparr>"

definition clear_session :: "SessionKey \<Rightarrow> SmartApprovalGuard \<Rightarrow> SmartApprovalGuard" where
  "clear_session s g = clear_yolo s (clear_grants s (clear_pending s g))"

definition pending_count :: "SmartApprovalGuard \<Rightarrow> nat" where
  "pending_count g = length (pending g)"

text \<open>Dropping a prompt drops its receiver and its lease; a waiting prompt sees the channel
  before the deadline.\<close>

definition drop_prompt :: "nat \<Rightarrow> SmartApprovalGuard \<Rightarrow> SmartApprovalGuard" where
  "drop_prompt i g = g\<lparr>pending := hm_remove i (pending g), channels := (channels g)(i := None)\<rparr>"

definition wait :: "nat \<Rightarrow> bool \<Rightarrow> SmartApprovalGuard \<Rightarrow> (ApprovalError + ApprovalDecision) option" where
  "wait i deadline_passed g =
     (case channels g i of
        Some (Sent d) \<Rightarrow> Some (Inr d)
      | Some SenderDropped \<Rightarrow> Some (Inl Cancelled)
      | Some Waiting \<Rightarrow> if deadline_passed then Some (Inl Timeout) else None
      | None \<Rightarrow> None)"

subsection \<open>The requester\<close>

text \<open>\<open>src/security/approval_display.rs\<close>: the patterns are compiled once, which may fail.\<close>

definition redact_approval_display ::
  "('re \<Rightarrow> string \<Rightarrow> string \<Rightarrow> string) \<Rightarrow> string + ('re \<times> string) list \<Rightarrow> string \<Rightarrow> OmonError + string" where
  "redact_approval_display replace_all patterns v =
     (case patterns of
        Inl e \<Rightarrow> Inl (Config (''invalid approval redaction pattern: '' @ e))
      | Inr ps \<Rightarrow> Inr (fold (\<lambda>(re, replacement) display. replace_all re replacement display) ps v))"

fun scope_debug :: "ApprovalScope \<Rightarrow> string" where
  "scope_debug ScopeOnce = ''Once''"
| "scope_debug ScopeSession = ''Session''"
| "scope_debug ScopeAlways = ''Always''"

text \<open>The key under which \<open>request_approval_with_max_scope\<close> remembers a grant; \<open>derive_key\<close> is the
  pattern key of a command and \<open>json_pair\<close> the printed JSON array of two strings.\<close>

definition max_scope_key ::
  "(string \<Rightarrow> string) \<Rightarrow> (string \<Rightarrow> string \<Rightarrow> string) \<Rightarrow> string \<Rightarrow> string \<Rightarrow> ApprovalScope \<Rightarrow> string" where
  "max_scope_key derive_key json_pair command reason scope =
     (if scope = ScopeAlways then derive_key command
      else ''tirith:'' @ scope_debug scope @ '':'' @ json_pair command reason)"

datatype Phase = Delivering | Awaiting | Settling "ApprovalError + ApprovalDecision"

record Request =
  rq_session :: SessionKey
  rq_key :: string
  rq_scope :: ApprovalScope
  rq_phase :: Phase

datatype DeliveryTask = Dispatching | AwaitingEnd

record ApprovalSystem =
  guard :: SmartApprovalGuard
  has_dispatcher :: bool
  calls :: "nat \<rightharpoonup> Request"
  deliveries :: "nat \<rightharpoonup> DeliveryTask"
  results :: "(nat \<times> Request \<times> (ApprovalError + ApprovalDecision)) list"
  outbound :: "OutboundAction list"

definition remembered :: "SessionKey \<Rightarrow> string \<Rightarrow> ApprovalScope \<Rightarrow> SmartApprovalGuard \<Rightarrow> bool" where
  "remembered s k scope g =
     (case scope of
        ScopeOnce \<Rightarrow> False
      | ScopeSession \<Rightarrow> in_session_cache s k g
      | ScopeAlways \<Rightarrow> is_approved s k g)"

definition return_result :: "nat \<Rightarrow> Request \<Rightarrow> ApprovalError + ApprovalDecision \<Rightarrow> ApprovalSystem \<Rightarrow> ApprovalSystem" where
  "return_result i r res y = y\<lparr>calls := (calls y)(i := None), results := results y @ [(i, r, res)]\<rparr>"

text \<open>\<open>request_with_scope\<close>: up to the delivery of the buttons; when the delivery is done or has
  failed; when the wait is over; and its last part, which remembers the decision.\<close>

definition request_begin ::
  "(nat \<Rightarrow> string) \<Rightarrow> (string \<Rightarrow> OmonError + string) \<Rightarrow> nat \<Rightarrow> SessionKey \<Rightarrow> string \<Rightarrow> string \<Rightarrow> string \<Rightarrow>
   ApprovalScope \<Rightarrow> int \<Rightarrow> ApprovalSystem \<Rightarrow> ApprovalSystem" where
  "request_begin show_uuid redact i s command reason k scope now y =
     (let r = \<lparr>rq_session = s, rq_key = k, rq_scope = scope, rq_phase = Delivering\<rparr> in
      if is_yolo s (guard y) then return_result i r (Inr Once) y
      else if remembered s k scope (guard y) then return_result i r (Inr Session) y
      else if \<not> has_dispatcher y then return_result i r (Inl Cancelled) y
      else
        case (redact command, redact reason) of
          (Inr command, Inr reason) \<Rightarrow>
            y\<lparr>guard := request_with_session i (Some s) now (guard y),
              calls := (calls y)(i \<mapsto> r), deliveries := (deliveries y)(i \<mapsto> Dispatching),
              outbound := outbound y @ [ApprovalRequest s (show_uuid i) command reason]\<rparr>
        | _ \<Rightarrow> return_result i r (Inl Cancelled) y)"

definition delivery_done :: "nat \<Rightarrow> bool \<Rightarrow> ApprovalSystem \<Rightarrow> ApprovalSystem" where
  "delivery_done i success y =
     (if deliveries y i \<noteq> Some Dispatching then y
      else
        let y = y\<lparr>deliveries := (deliveries y)(i \<mapsto> AwaitingEnd)\<rparr> in
        case calls y i of
          None \<Rightarrow> y
        | Some r \<Rightarrow>
            if success then y\<lparr>calls := (calls y)(i \<mapsto> r\<lparr>rq_phase := Awaiting\<rparr>)\<rparr>
            else return_result i r (Inl Cancelled) (y\<lparr>guard := drop_prompt i (guard y)\<rparr>))"

definition wait_done :: "nat \<Rightarrow> bool \<Rightarrow> ApprovalSystem \<Rightarrow> ApprovalSystem" where
  "wait_done i deadline_passed y =
     (case calls y i of
        None \<Rightarrow> y
      | Some r \<Rightarrow>
          if rq_phase r \<noteq> Awaiting then y
          else case wait i deadline_passed (guard y) of
            None \<Rightarrow> y
          | Some res \<Rightarrow> y\<lparr>guard := drop_prompt i (guard y), calls := (calls y)(i \<mapsto> r\<lparr>rq_phase := Settling res\<rparr>)\<rparr>)"

definition settle ::
  "(string list \<Rightarrow> nat) \<Rightarrow> ((SessionKey \<times> string list) list \<Rightarrow> nat) \<Rightarrow> string option \<Rightarrow> nat \<Rightarrow>
   ApprovalSystem \<Rightarrow> ApprovalSystem" where
  "settle pick_pattern pick_session failure i y =
     (case calls y i of
        None \<Rightarrow> y
      | Some r \<Rightarrow>
          (case rq_phase r of
             Settling res \<Rightarrow>
               (case map_sum id (cap (rq_scope r)) res of
                  Inr Session \<Rightarrow>
                    return_result i r (Inr Session)
                      (y\<lparr>guard := approve_session pick_pattern pick_session (rq_session r) (rq_key r) (guard y)\<rparr>)
                | Inr Always \<Rightarrow>
                    (case approve_always failure (rq_key r) (guard y) of
                       Inl e \<Rightarrow> return_result i r (Inl (Persistence e)) y
                     | Inr g \<Rightarrow> return_result i r (Inr Always) (y\<lparr>guard := g\<rparr>))
                | res \<Rightarrow> return_result i r res y)
           | _ \<Rightarrow> y))"

text \<open>The caller may be dropped at any suspension point; the delivery task then still posts the
  expiry of the buttons, as it does after every call.\<close>

definition call_dropped :: "nat \<Rightarrow> ApprovalSystem \<Rightarrow> ApprovalSystem" where
  "call_dropped i y =
     (case calls y i of
        None \<Rightarrow> y
      | Some _ \<Rightarrow> y\<lparr>guard := drop_prompt i (guard y), calls := (calls y)(i := None)\<rparr>)"

definition delivery_expire :: "(nat \<Rightarrow> string) \<Rightarrow> nat \<Rightarrow> ApprovalSystem \<Rightarrow> ApprovalSystem" where
  "delivery_expire show_uuid i y =
     (if deliveries y i = Some AwaitingEnd \<and> calls y i = None
      then y\<lparr>deliveries := (deliveries y)(i := None), outbound := outbound y @ [ExpireApproval (show_uuid i)]\<rparr>
      else y)"

subsection \<open>Events\<close>

datatype ApprovalEvent =
    RequestBegin nat SessionKey string string string ApprovalScope int
  | DeliveryDone nat bool
  | DeliveryExpire nat
  | WaitDone nat bool
  | Settle "string list \<Rightarrow> nat" "(SessionKey \<times> string list) list \<Rightarrow> nat" "string option" nat
  | CallDropped nat
  | Click string
  | DenySession "(nat \<times> PendingApprovalEntry) list \<Rightarrow> nat" SessionKey "string option"
  | Cancel nat
  | ClearPending SessionKey
  | ClearGrants SessionKey
  | ClearYolo SessionKey
  | SetYolo SessionKey bool
  | LoadPermanent "string list"
  | LoadAllowlist
  | LoadYolo "(string \<times> string) list"
  | SetDispatcher

record ApprovalEnv =
  env_parse_uuid :: "string \<Rightarrow> nat option"
  env_show_uuid :: "nat \<Rightarrow> string"
  env_redact :: "string \<Rightarrow> OmonError + string"
  env_decode :: "string \<Rightarrow> SessionState option"

definition on_guard :: "(SmartApprovalGuard \<Rightarrow> SmartApprovalGuard) \<Rightarrow> ApprovalSystem \<Rightarrow> ApprovalSystem" where
  "on_guard f y = y\<lparr>guard := f (guard y)\<rparr>"

fun approval_step :: "ApprovalEnv \<Rightarrow> ApprovalEvent \<Rightarrow> ApprovalSystem \<Rightarrow> ApprovalSystem" where
  "approval_step v (RequestBegin i s command reason k scope now) y =
     request_begin (env_show_uuid v) (env_redact v) i s command reason k scope now y"
| "approval_step v (DeliveryDone i success) y = delivery_done i success y"
| "approval_step v (DeliveryExpire i) y = delivery_expire (env_show_uuid v) i y"
| "approval_step v (WaitDone i late) y = wait_done i late y"
| "approval_step v (Settle pp ps failure i) y = settle pp ps failure i y"
| "approval_step v (CallDropped i) y = call_dropped i y"
| "approval_step v (Click custom_id) y = on_guard (\<lambda>g. fst (resolve_custom_id (env_parse_uuid v) custom_id g)) y"
| "approval_step v (DenySession pick s reason) y = on_guard (\<lambda>g. fst (resolve_session_deny pick s reason g)) y"
| "approval_step v (Cancel i) y = on_guard (cancel i) y"
| "approval_step v (ClearPending s) y = on_guard (clear_pending s) y"
| "approval_step v (ClearGrants s) y = on_guard (clear_grants s) y"
| "approval_step v (ClearYolo s) y = on_guard (clear_yolo s) y"
| "approval_step v (SetYolo s enabled) y = on_guard (set_yolo s enabled) y"
| "approval_step v (LoadPermanent patterns) y = on_guard (load_permanent patterns) y"
| "approval_step v LoadAllowlist y = on_guard (\<lambda>g. fst (load_persisted_allowlist g)) y"
| "approval_step v (LoadYolo rows) y = on_guard (\<lambda>g. fst (load_persisted_yolo (env_decode v) rows g)) y"
| "approval_step v SetDispatcher y = y\<lparr>has_dispatcher := True\<rparr>"

definition approval_init :: "string list option \<Rightarrow> ApprovalSystem" where
  "approval_init table = \<lparr>guard = guard_new table, has_dispatcher = False, calls = Map.empty,
     deliveries = Map.empty, results = [], outbound = []\<rparr>"

definition approval_run :: "ApprovalEnv \<Rightarrow> ApprovalEvent list \<Rightarrow> string list option \<Rightarrow> ApprovalSystem" where
  "approval_run v evs table = fold (approval_step v) evs (approval_init table)"

subsection \<open>Hash tables and evictions: lemmas\<close>

lemma map_of_hm_remove [simp]: "map_of (hm_remove k m) x = (if x = k then None else map_of m x)"
  by (induction m) (auto simp: hm_remove_def)

lemma map_of_hm_insert [simp]: "map_of (hm_insert k v m) x = (if x = k then Some v else map_of m x)"
  by (simp add: hm_insert_def)

lemma hm_remove_mem [simp]: "p \<in> set (hm_remove k m) \<longleftrightarrow> p \<in> set m \<and> fst p \<noteq> k"
  by (auto simp: hm_remove_def)

lemma hm_insert_mem [simp]: "p \<in> set (hm_insert k v m) \<longleftrightarrow> p = (k, v) \<or> p \<in> set m \<and> fst p \<noteq> k"
  by (simp add: hm_insert_def)

lemma distinct_hm_remove [simp]: "distinct (map fst m) \<Longrightarrow> distinct (map fst (hm_remove k m))"
  by (simp add: hm_remove_def distinct_map_filter)

lemma distinct_hm_insert [simp]: "distinct (map fst m) \<Longrightarrow> distinct (map fst (hm_insert k v m))"
  by (auto simp: hm_insert_def)

lemma evict_bound: "length (evict pick n xs) \<le> n"
  by (induction pick n xs rule: evict.induct) (subst evict.simps, simp add: Let_def)

lemma evict_fits: "length xs \<le> n \<Longrightarrow> evict pick n xs = xs"
  by (subst evict.simps) simp

lemma set_evict: "set (evict pick n xs) \<subseteq> set xs"
proof (induction pick n xs rule: evict.induct)
  case (1 pick n xs)
  then show ?case
    by (subst evict.simps) (auto simp: Let_def dest!: in_set_takeD in_set_dropD subsetD)
qed

lemma distinct_evict: "distinct (map f xs) \<Longrightarrow> distinct (map f (evict pick n xs))"
proof (induction pick n xs rule: evict.induct)
  case (1 pick n xs)
  have "distinct (map f (take i xs @ drop (Suc i) xs))" for i
    using 1(2) distinct_map [of f "take i xs @ drop (Suc i) xs"]
    by (auto simp: distinct_map inj_on_def set_take_disj_set_drop_if_distinct disjoint_iff
        dest: in_set_takeD in_set_dropD)
  with 1 show ?case by (subst evict.simps) (simp add: Let_def)
qed

lemma map_of_mem: "distinct (map fst m) \<Longrightarrow> (k, v) \<in> set m \<longleftrightarrow> map_of m k = Some v"
  by auto

subsection \<open>Where a grant comes from\<close>

text \<open>The events behind a grant: the click on a request's button, the question a request asked,
  the commands that switch a session's approvals off, and the configured and stored grants.\<close>

definition clicked :: "ApprovalEnv \<Rightarrow> ApprovalEvent set \<Rightarrow> nat \<Rightarrow> ApprovalDecision \<Rightarrow> bool" where
  "clicked v E i d \<longleftrightarrow> (\<exists>c. Click c \<in> E \<and> parse_custom_id (env_parse_uuid v) c = Some (i, d))"

definition asked :: "ApprovalEvent set \<Rightarrow> nat \<Rightarrow> SessionKey \<Rightarrow> string \<Rightarrow> ApprovalScope \<Rightarrow> bool" where
  "asked E i s k scope \<longleftrightarrow> (\<exists>command reason now. RequestBegin i s command reason k scope now \<in> E)"

definition session_granted :: "ApprovalEnv \<Rightarrow> ApprovalEvent set \<Rightarrow> SessionKey \<Rightarrow> string \<Rightarrow> bool" where
  "session_granted v E s k \<longleftrightarrow>
     (\<exists>i scope d. asked E i s k scope \<and> clicked v E i d \<and> cap scope d = Session)"

definition always_granted :: "ApprovalEnv \<Rightarrow> ApprovalEvent set \<Rightarrow> string list option \<Rightarrow> string \<Rightarrow> bool" where
  "always_granted v E table k \<longleftrightarrow>
     (\<exists>i s. asked E i s k ScopeAlways \<and> clicked v E i Always) \<or>
     (\<exists>rows. table = Some rows \<and> k \<in> set rows) \<or> (\<exists>ps. LoadPermanent ps \<in> E \<and> k \<in> set ps)"

definition yolo_granted :: "ApprovalEnv \<Rightarrow> ApprovalEvent set \<Rightarrow> string \<Rightarrow> bool" where
  "yolo_granted v E key \<longleftrightarrow>
     (\<exists>s. SetYolo s True \<in> E \<and> storage_key s = key) \<or>
     (\<exists>rows json st. LoadYolo rows \<in> E \<and> (key, json) \<in> set rows \<and> env_decode v json = Some st \<and> yolo st)"

definition authorised ::
  "ApprovalEnv \<Rightarrow> ApprovalEvent set \<Rightarrow> string list option \<Rightarrow> nat \<Rightarrow> Request \<Rightarrow> ApprovalDecision \<Rightarrow> bool" where
  "authorised v E table i r d \<longleftrightarrow>
     (\<exists>d0. clicked v E i d0 \<and> d = cap (rq_scope r) d0) \<or>
     yolo_granted v E (storage_key (rq_session r)) \<or>
     rq_scope r \<noteq> ScopeOnce \<and> session_granted v E (rq_session r) (rq_key r) \<or>
     rq_scope r = ScopeAlways \<and> always_granted v E table (rq_key r)"

definition guard_traced :: "ApprovalEnv \<Rightarrow> ApprovalEvent set \<Rightarrow> string list option \<Rightarrow> SmartApprovalGuard \<Rightarrow> bool" where
  "guard_traced v E table g \<longleftrightarrow>
     (\<forall>i d. channels g i = Some (Sent d) \<longrightarrow> is_approved_decision d \<longrightarrow> clicked v E i d) \<and>
     (\<forall>s ks k. (s, ks) \<in> set (session_cache g) \<longrightarrow> k \<in> set ks \<longrightarrow> session_granted v E s k) \<and>
     (\<forall>k \<in> always_cache g. always_granted v E table k) \<and>
     (\<forall>rows. allowlist g = Some rows \<longrightarrow> (\<forall>k \<in> set rows. always_granted v E table k)) \<and>
     (\<forall>key \<in> yolo_sessions g. yolo_granted v E key)"

definition call_traced :: "ApprovalEnv \<Rightarrow> ApprovalEvent set \<Rightarrow> nat \<Rightarrow> Request \<Rightarrow> bool" where
  "call_traced v E i r \<longleftrightarrow> asked E i (rq_session r) (rq_key r) (rq_scope r) \<and>
     (\<forall>d. rq_phase r = Settling (Inr d) \<longrightarrow> is_approved_decision d \<longrightarrow> clicked v E i d)"

definition result_traced ::
  "ApprovalEnv \<Rightarrow> ApprovalEvent set \<Rightarrow> string list option \<Rightarrow> nat \<times> Request \<times> (ApprovalError + ApprovalDecision) \<Rightarrow> bool" where
  "result_traced v E table = (\<lambda>(i, r, res). asked E i (rq_session r) (rq_key r) (rq_scope r) \<and>
     (\<forall>d. res = Inr d \<longrightarrow> is_approved_decision d \<longrightarrow> authorised v E table i r d))"

definition traced :: "ApprovalEnv \<Rightarrow> ApprovalEvent set \<Rightarrow> string list option \<Rightarrow> ApprovalSystem \<Rightarrow> bool" where
  "traced v E table y \<longleftrightarrow> guard_traced v E table (guard y) \<and>
     (\<forall>i r. calls y i = Some r \<longrightarrow> call_traced v E i r) \<and>
     (\<forall>x \<in> set (results y). result_traced v E table x)"

lemma guard_traced_channels:
  assumes "guard_traced v E table g"
    and "\<And>i d. chs i = Some (Sent d) \<Longrightarrow> is_approved_decision d \<Longrightarrow> channels g i \<noteq> Some (Sent d) \<Longrightarrow> clicked v E i d"
  shows "guard_traced v E table (g\<lparr>pending := p, channels := chs\<rparr>)"
  using assms by (auto simp: guard_traced_def)

lemma drop_sender_Sent [simp]: "drop_sender i chs j = Some (Sent d) \<longleftrightarrow> chs j = Some (Sent d)"
  by (auto simp: drop_sender_def)

lemma drop_senders_Sent [simp]: "fold drop_sender is chs j = Some (Sent d) \<longleftrightarrow> chs j = Some (Sent d)"
  by (induction "is" arbitrary: chs) auto

lemma guard_traced_resolve:
  assumes "guard_traced v E table g" and "is_approved_decision d \<Longrightarrow> clicked v E i d"
  shows "guard_traced v E table (fst (resolve i d g))"
  using assms by (auto simp: resolve_def send_def guard_traced_def split: option.splits)

lemma guard_traced_prompt_ops:
  assumes "guard_traced v E table g"
  shows "guard_traced v E table (request_with_session i s now g)"
    and "guard_traced v E table (cancel i g)"
    and "guard_traced v E table (clear_pending s' g)"
    and "guard_traced v E table (drop_prompt i g)"
    and "guard_traced v E table (fst (resolve_session_deny pick s' reason g))"
proof -
  show "guard_traced v E table (fst (resolve_session_deny pick s' reason g))"
    using assms by (auto simp: resolve_session_deny_def intro: guard_traced_resolve split: option.splits)
qed (use assms in \<open>auto simp: request_with_session_def cancel_def clear_pending_def drop_prompt_def
  intro!: guard_traced_channels split: if_splits option.splits\<close>)

lemma guard_traced_click:
  assumes "guard_traced v E table g" and "Click c \<in> E"
  shows "guard_traced v E table (fst (resolve_custom_id (env_parse_uuid v) c g))"
  using assms
  by (auto simp: resolve_custom_id_def clicked_def intro!: guard_traced_resolve split: option.splits)

lemma guard_traced_approve_session:
  assumes "guard_traced v E table g" and "session_granted v E s k"
  shows "guard_traced v E table (approve_session pp ps s k g)"
proof -
  let ?old = "case map_of (session_cache g) s of Some ks \<Rightarrow> ks | None \<Rightarrow> []"
  let ?new = "evict pp max_patterns_per_session (List.insert k ?old)"
  have old: "session_granted v E t x" if "(t, ks) \<in> set (session_cache g)" "x \<in> set ks" for t ks x
    using assms(1) that by (auto simp: guard_traced_def)
  have "session_granted v E s x" if "x \<in> set ?new" for x
    using subsetD [OF set_evict that] assms(2) old [of s]
    by (cases "map_of (session_cache g) s") (auto split: option.splits dest!: map_of_SomeD)
  then have "session_granted v E t x" if "(t, ks) \<in> set (hm_insert s ?new (session_cache g))" "x \<in> set ks" for t ks x
    using that old by auto
  then have "session_granted v E t x"
    if "(t, ks) \<in> set (evict ps max_sessions (hm_insert s ?new (session_cache g)))" "x \<in> set ks" for t ks x
    using that subsetD [OF set_evict that(1)] by blast
  with assms(1) show ?thesis by (auto simp: guard_traced_def approve_session_def Let_def)
qed

lemma guard_traced_approve_always:
  "guard_traced v E table g \<Longrightarrow> always_granted v E table k \<Longrightarrow> approve_always failure k g = Inr g' \<Longrightarrow>
   guard_traced v E table g'"
  by (auto simp: guard_traced_def approve_always_def split: option.splits if_splits)

lemma load_yolo_rows_sound:
  "key \<in> fst (load_yolo_rows decode rows acc n) \<Longrightarrow>
   key \<in> acc \<or> (\<exists>json st. (key, json) \<in> set rows \<and> decode json = Some st \<and> yolo st)"
  by (induction decode rows acc n rule: load_yolo_rows.induct) (auto split: option.splits if_splits)

lemma guard_traced_loads:
  assumes "guard_traced v E table g"
  shows "LoadPermanent ps \<in> E \<Longrightarrow> guard_traced v E table (load_permanent ps g)"
    and "guard_traced v E table (fst (load_persisted_allowlist g))"
    and "LoadYolo rows \<in> E \<Longrightarrow> guard_traced v E table (fst (load_persisted_yolo (env_decode v) rows g))"
    and "SetYolo s b \<in> E \<Longrightarrow> guard_traced v E table (set_yolo s b g)"
    and "guard_traced v E table (clear_grants s g)"
    and "guard_traced v E table (clear_yolo s g)"
proof -
  have fold_insert: "fold insert xs A = set xs \<union> A" for xs and A :: "string set"
    by (induction xs arbitrary: A) auto
  show "LoadPermanent ps \<in> E \<Longrightarrow> guard_traced v E table (load_permanent ps g)"
    using assms by (auto simp: guard_traced_def load_permanent_def fold_insert always_granted_def)
  show "guard_traced v E table (fst (load_persisted_allowlist g))"
    using assms by (auto simp: guard_traced_def load_persisted_allowlist_def fold_insert split: option.splits)
  show "LoadYolo rows \<in> E \<Longrightarrow> guard_traced v E table (fst (load_persisted_yolo (env_decode v) rows g))"
    using assms load_yolo_rows_sound [of _ "env_decode v" rows "yolo_sessions g" 0]
    by (fastforce simp: guard_traced_def load_persisted_yolo_def yolo_granted_def split_def Let_def split: option.splits)
  show "SetYolo s b \<in> E \<Longrightarrow> guard_traced v E table (set_yolo s b g)"
    using assms by (auto simp: guard_traced_def set_yolo_def yolo_granted_def)
qed (use assms in \<open>auto simp: guard_traced_def clear_grants_def clear_yolo_def\<close>)

lemma traced_guard: "traced v E table y \<Longrightarrow> guard_traced v E table g \<Longrightarrow> traced v E table (y\<lparr>guard := g\<rparr>)"
  by (simp add: traced_def)

lemma traced_call: "traced v E table y \<Longrightarrow> call_traced v E i r \<Longrightarrow> traced v E table (y\<lparr>calls := (calls y)(i \<mapsto> r)\<rparr>)"
  by (simp add: traced_def)

lemma traced_frame [simp]:
  "traced v E table (y\<lparr>deliveries := x\<rparr>) = traced v E table y"
  "traced v E table (y\<lparr>outbound := o'\<rparr>) = traced v E table y"
  "traced v E table (y\<lparr>has_dispatcher := b\<rparr>) = traced v E table y"
  by (simp_all add: traced_def)

lemma traced_return:
  "traced v E table y \<Longrightarrow> result_traced v E table (i, r, res) \<Longrightarrow> traced v E table (return_result i r res y)"
  by (auto simp: traced_def return_result_def)

lemma in_session_cache_traced:
  "guard_traced v E table g \<Longrightarrow> in_session_cache s k g \<Longrightarrow> session_granted v E s k"
  by (auto simp: guard_traced_def in_session_cache_def split: option.splits dest!: map_of_SomeD)

lemma traced_begin:
  assumes "traced v E table y" and "RequestBegin i s command reason k scope now \<in> E"
  shows "traced v E table (request_begin show redact i s command reason k scope now y)"
proof -
  let ?r = "\<lparr>rq_session = s, rq_key = k, rq_scope = scope, rq_phase = Delivering\<rparr>"
  have g: "guard_traced v E table (guard y)" using assms(1) by (simp add: traced_def)
  have a: "asked E i s k scope" using assms(2) by (auto simp: asked_def)
  have "authorised v E table i ?r Once" if "is_yolo s (guard y)"
    using that g by (auto simp: authorised_def is_yolo_def guard_traced_def)
  moreover have "authorised v E table i ?r Session" if "remembered s k scope (guard y)"
    using that g in_session_cache_traced [OF g]
    by (auto simp: authorised_def remembered_def is_approved_def guard_traced_def split: ApprovalScope.splits)
  moreover have "traced v E table (y\<lparr>guard := request_with_session i (Some s) now (guard y),
              calls := (calls y)(i \<mapsto> ?r), deliveries := ds, outbound := os\<rparr>)" for ds os
    using traced_call [OF traced_guard [OF assms(1) guard_traced_prompt_ops(1) [OF g]], of i ?r i "Some s" now] a
    by (simp add: call_traced_def)
  ultimately show ?thesis
    using assms(1) a
    by (auto simp: request_begin_def Let_def result_traced_def intro!: traced_return split: sum.splits)
qed

lemma traced_settle:
  assumes "traced v E table y"
  shows "traced v E table (settle pp ps failure i y)"
proof (cases "\<exists>r res. calls y i = Some r \<and> rq_phase r = Settling res")
  case True
  then obtain r res where r: "calls y i = Some r" "rq_phase r = Settling res" by blast
  have g: "guard_traced v E table (guard y)" and c: "call_traced v E i r"
    using assms r by (auto simp: traced_def)
  have a: "asked E i (rq_session r) (rq_key r) (rq_scope r)" using c by (simp add: call_traced_def)
  show ?thesis
  proof (cases res)
    case (Inl e)
    then show ?thesis using r a assms by (auto simp: settle_def result_traced_def intro!: traced_return)
  next
    case (Inr d0)
    let ?d = "cap (rq_scope r) d0"
    have click: "clicked v E i d0" if "is_approved_decision ?d"
      using c r(2) Inr that by (cases d0; cases "rq_scope r") (auto simp: call_traced_def)
    have auth: "result_traced v E table (i, r, Inr ?d)"
      using a click by (auto simp: result_traced_def authorised_def)
    have fail: "result_traced v E table (i, r, Inl e)" for e
      using a by (simp add: result_traced_def)
    have sess: "guard_traced v E table (approve_session pp ps (rq_session r) (rq_key r) (guard y))" if "?d = Session"
      using g a click that by (intro guard_traced_approve_session) (auto simp: session_granted_def)
    have alw: "guard_traced v E table g'" if "?d = Always" "approve_always failure (rq_key r) (guard y) = Inr g'" for g'
    proof (rule guard_traced_approve_always [OF g _ that(2)])
      from that(1) have "rq_scope r = ScopeAlways" "d0 = Always" by (cases d0; cases "rq_scope r"; simp)+
      with a click that(1) show "always_granted v E table (rq_key r)" by (auto simp: always_granted_def)
    qed
    show ?thesis
      using r Inr auth sess alw fail assms
      by (cases ?d) (auto simp: settle_def intro!: traced_return traced_guard split: sum.splits)
  qed
next
  case False
  with assms show ?thesis by (auto simp: settle_def split: option.splits Phase.splits)
qed

lemma traced_call_ops:
  assumes "traced v E table y"
  shows "traced v E table (delivery_done i success y)"
    and "traced v E table (wait_done i late y)"
    and "traced v E table (call_dropped i y)"
proof -
  have g: "guard_traced v E table (drop_prompt i (guard y))"
    using assms guard_traced_prompt_ops(4) by (simp add: traced_def)
  have c: "call_traced v E i r" if "calls y i = Some r" for r using assms that by (simp add: traced_def)
  have "traced v E table (y\<lparr>deliveries := ds, calls := (calls y)(i \<mapsto> r\<lparr>rq_phase := Awaiting\<rparr>)\<rparr>)"
    if "calls y i = Some r" for r ds
    using assms c [OF that] by (simp add: traced_def call_traced_def)
  then show "traced v E table (delivery_done i success y)"
    using assms g c
    by (auto simp: delivery_done_def Let_def result_traced_def call_traced_def
        intro!: traced_return traced_guard split: option.splits)
  have "call_traced v E i (r\<lparr>rq_phase := Settling res\<rparr>)"
    if "calls y i = Some r" "wait i late (guard y) = Some res" for r res
    using c [OF that(1)] that(2) assms
    by (auto simp: call_traced_def wait_def traced_def guard_traced_def split: option.splits Channel.splits if_splits)
  with assms g show "traced v E table (wait_done i late y)"
    by (auto simp: wait_done_def traced_def split: option.splits)
  show "traced v E table (call_dropped i y)"
    using assms g by (auto simp: call_dropped_def traced_def split: option.splits)
qed

lemma traced_on_guard:
  "traced v E table y \<Longrightarrow> (guard_traced v E table (guard y) \<Longrightarrow> guard_traced v E table (f (guard y))) \<Longrightarrow>
   traced v E table (on_guard f y)"
  by (simp add: on_guard_def traced_def)

lemma traced_step:
  assumes "traced v E table y" and "e \<in> E"
  shows "traced v E table (approval_step v e y)"
  using assms
  by (cases e)
    (auto simp: traced_begin traced_settle traced_call_ops delivery_expire_def guard_traced_prompt_ops
      guard_traced_click guard_traced_loads intro!: traced_on_guard)

interpretation grants: run_invariant "approval_step v" "\<lambda>e. e \<in> E" "traced v E table" for v E table
  by unfold_locales (rule traced_step)

text \<open>C4: every approval the gateway gives traces back to a person.  A call returns an approval
  only when somebody clicked that decision on that request's own buttons (reduced to the scope of
  the request), or clicked \<^emph>\<open>session\<close> for the same key in the same session, or \<^emph>\<open>always\<close> for
  the same key, or the grant was stored or configured before, or the session's approvals were
  switched off; and a request limited to one use or one session never rests on a wider grant.
  Being true of every run, it is true of the events up to the moment of the answer.\<close>

theorem approvals_traceable:
  assumes "(i, r, Inr d) \<in> set (results (approval_run v evs table))" and "is_approved_decision d"
  shows "authorised v (set evs) table i r d \<and> asked (set evs) i (rq_session r) (rq_key r) (rq_scope r)"
proof -
  have "traced v (set evs) table (approval_init table)"
    by (auto simp: traced_def approval_init_def guard_traced_def guard_new_def always_granted_def)
  then have "traced v (set evs) table (approval_run v evs table)"
    unfolding approval_run_def by (rule grants.run) (simp add: list_all_iff)
  with assms show ?thesis by (auto simp: traced_def result_traced_def)
qed

theorem approvals_traceable_witness:
  "let v = \<lparr>env_parse_uuid = (\<lambda>_. Some 7), env_show_uuid = dec, env_redact = Inr, env_decode = (\<lambda>_. None)\<rparr>;
       s = session_key_new ''discord'' None ''c'' None ''u'';
       evs = [SetDispatcher, RequestBegin 7 s ''rm'' ''why'' ''k'' ScopeSession 0, DeliveryDone 7 True,
              Click ''omon:approval:7:always'', WaitDone 7 False, Settle (\<lambda>_. 0) (\<lambda>_. 0) None 7];
       r = \<lparr>rq_session = s, rq_key = ''k'', rq_scope = ScopeSession, rq_phase = Settling (Inr Always)\<rparr>
   in authorised v (set evs) None 7 r Session \<and> asked (set evs) 7 s ''k'' ScopeSession"
proof -
  let ?v = "\<lparr>env_parse_uuid = (\<lambda>_. Some 7), env_show_uuid = dec, env_redact = Inr, env_decode = (\<lambda>_. None)\<rparr>"
  let ?s = "session_key_new ''discord'' None ''c'' None ''u''"
  let ?evs = "[SetDispatcher, RequestBegin 7 ?s ''rm'' ''why'' ''k'' ScopeSession 0, DeliveryDone 7 True,
              Click ''omon:approval:7:always'', WaitDone 7 False, Settle (\<lambda>_. 0) (\<lambda>_. 0) None 7]"
  let ?r = "\<lparr>rq_session = ?s, rq_key = ''k'', rq_scope = ScopeSession, rq_phase = Settling (Inr Always)\<rparr>"
  have parse: "parse_custom_id (\<lambda>_. Some 7) ''omon:approval:7:always'' = Some (7, Always)" by code_simp
  have "results (approval_run ?v ?evs None) = [(7, ?r, Inr Session)]"
    by (simp add: approval_run_def approval_init_def guard_new_def request_begin_def is_yolo_def remembered_def
        in_session_cache_def request_with_session_def hm_insert_def hm_remove_def delivery_done_def on_guard_def
        resolve_custom_id_def parse resolve_def send_def wait_done_def wait_def drop_prompt_def settle_def
        return_result_def Let_def)
  with approvals_traceable [of 7 ?r Session ?v ?evs None] show ?thesis by (simp add: Let_def)
qed

subsection \<open>Waiting calls\<close>

definition waiting :: "Request \<Rightarrow> bool" where
  "waiting r \<longleftrightarrow> rq_phase r = Delivering \<or> rq_phase r = Awaiting"

definition waiters :: "SmartApprovalGuard \<Rightarrow> (nat \<rightharpoonup> Request) \<Rightarrow> bool" where
  "waiters g cs \<longleftrightarrow> distinct (map fst (pending g)) \<and>
     (\<forall>i e. map_of (pending g) i = Some e \<longrightarrow>
        channels g i = Some Waiting \<and> (\<exists>r. cs i = Some r \<and> pe_session e = Some (rq_session r))) \<and>
     (\<forall>i. channels g i \<noteq> None \<longleftrightarrow> (\<exists>r. cs i = Some r \<and> waiting r))"

definition caches_bounded :: "SmartApprovalGuard \<Rightarrow> bool" where
  "caches_bounded g \<longleftrightarrow> distinct (map fst (session_cache g)) \<and> length (session_cache g) \<le> max_sessions \<and>
     (\<forall>s ks. (s, ks) \<in> set (session_cache g) \<longrightarrow> length ks \<le> max_patterns_per_session)"

fun begin_id :: "ApprovalEvent \<Rightarrow> nat list" where
  "begin_id (RequestBegin i _ _ _ _ _ _) = [i]"
| "begin_id _ = []"

definition begin_ids :: "ApprovalEvent list \<Rightarrow> nat list" where
  "begin_ids evs = concat (map begin_id evs)"

definition tracked :: "ApprovalSystem \<Rightarrow> bool" where
  "tracked y \<longleftrightarrow> waiters (guard y) (calls y) \<and> caches_bounded (guard y) \<and>
     (\<forall>i r. deliveries y i = Some Dispatching \<longrightarrow> calls y i = Some r \<longrightarrow> rq_phase r = Delivering)"

lemma distinct_fst_filter [simp]: "distinct (map fst m) \<Longrightarrow> distinct (map fst (filter p m))"
  by (rule distinct_map_filter)

lemma waiters_request:
  "waiters g cs \<Longrightarrow> rq_phase r = Delivering \<Longrightarrow>
   waiters (request_with_session i (Some (rq_session r)) now g) (cs(i \<mapsto> r))"
  by (auto simp: waiters_def request_with_session_def waiting_def)

lemma waiters_resolve:
  assumes "waiters g cs"
  shows "waiters (fst (resolve i d g)) cs"
proof (cases "map_of (pending g) i")
  case (Some e)
  with assms have "channels g i = Some Waiting" by (auto simp: waiters_def)
  with Some assms show ?thesis
    by (auto simp: waiters_def resolve_def send_def split: if_splits)
qed (use assms in \<open>simp add: resolve_def\<close>)

lemma drop_sender_dom: "drop_sender i chs j = None \<longleftrightarrow> chs j = None"
  by (auto simp: drop_sender_def)

lemma drop_senders_dom: "fold drop_sender is chs j = None \<longleftrightarrow> chs j = None"
  by (induction "is" arbitrary: chs) (auto simp: drop_sender_dom)

lemma drop_senders_other: "j \<notin> set is \<Longrightarrow> fold drop_sender is chs j = chs j"
  by (induction "is" arbitrary: chs) (auto simp: drop_sender_def)

lemma waiters_cancel: "waiters g cs \<Longrightarrow> waiters (cancel i g) cs"
  by (auto simp: waiters_def cancel_def drop_sender_def split: option.splits if_splits)

lemma map_of_filter_iff:
  "distinct (map fst m) \<Longrightarrow> map_of (filter p m) k = Some v \<longleftrightarrow> map_of m k = Some v \<and> p (k, v)"
  by (simp flip: map_of_mem)

lemma waiters_clear:
  assumes "waiters g cs"
  shows "waiters (clear_pending s g) cs"
proof -
  let ?gone = "map fst (filter (\<lambda>(_, e). pe_session e = Some s) (pending g))"
  have d: "distinct (map fst (pending g))" using assms by (simp add: waiters_def)
  have "i \<notin> set ?gone" if "map_of (pending g) i = Some e" "pe_session e \<noteq> Some s" for i e
    using that d by (auto dest: eq_key_imp_eq_value)
  then have "fold drop_sender ?gone (channels g) i = channels g i"
    if "map_of (pending g) i = Some e" "pe_session e \<noteq> Some s" for i e
    using that drop_senders_other by blast
  with assms show ?thesis
    by (auto simp: waiters_def clear_pending_def drop_senders_dom map_of_filter_iff)
qed

lemma waiters_drop:
  "waiters g cs \<Longrightarrow> waiters (drop_prompt i g) (cs(i := None))"
  "waiters g cs \<Longrightarrow> \<not> waiting r \<Longrightarrow> waiters (drop_prompt i g) (cs(i \<mapsto> r))"
  by (auto simp: waiters_def drop_prompt_def split: if_splits)

lemma waiters_frame:
  "waiters g cs \<Longrightarrow> pending g' = pending g \<Longrightarrow> channels g' = channels g \<Longrightarrow> waiters g' cs"
  by (simp add: waiters_def)

lemma waiters_settled:
  assumes "waiters g cs" and "cs i = Some r" and "\<not> waiting r"
  shows "waiters g (cs(i := None))"
proof -
  have "(channels g i \<noteq> None) = (\<exists>r. cs i = Some r \<and> waiting r)" using assms(1) unfolding waiters_def by blast
  with assms(2,3) have ch: "channels g i = None" by auto
  then have "map_of (pending g) i = None" using assms(1) unfolding waiters_def by (metis not_None_eq option.distinct(1))
  with ch assms show ?thesis unfolding waiters_def by (auto simp del: map_of_eq_Some_iff)
qed

lemma approve_session_bounded:
  assumes "caches_bounded g"
  shows "caches_bounded (approve_session pp ps s k g)"
proof -
  let ?old = "case map_of (session_cache g) s of Some ks \<Rightarrow> ks | None \<Rightarrow> []"
  let ?new = "evict pp max_patterns_per_session (List.insert k ?old)"
  have "length ks \<le> max_patterns_per_session" if "(t, ks) \<in> set (hm_insert s ?new (session_cache g))" for t ks
    using that assms evict_bound by (auto simp: caches_bounded_def)
  moreover have "set (evict ps max_sessions (hm_insert s ?new (session_cache g))) \<subseteq> set (hm_insert s ?new (session_cache g))"
    by (rule set_evict)
  moreover have "distinct (map fst (evict ps max_sessions (hm_insert s ?new (session_cache g))))"
    using assms by (intro distinct_evict) (simp add: caches_bounded_def)
  ultimately show ?thesis
    by (auto simp: caches_bounded_def approve_session_def Let_def evict_bound)
qed

lemma caches_bounded_frame: "session_cache g' = session_cache g \<Longrightarrow> caches_bounded g' = caches_bounded g"
  by (simp add: caches_bounded_def)

lemma tracked_guard:
  assumes "tracked y" and "waiters g (calls y)" and "session_cache g = session_cache (guard y)"
  shows "tracked (y\<lparr>guard := g\<rparr>)"
  using assms caches_bounded_frame [of g "guard y"] by (simp add: tracked_def)

lemma resolve_cache [simp]: "session_cache (fst (resolve i d g)) = session_cache g"
  by (simp add: resolve_def send_def split: option.splits)

lemma tracked_prompt_events:
  assumes "tracked y"
  shows "tracked (on_guard (\<lambda>g. fst (resolve_custom_id parse c g)) y)"
    and "tracked (on_guard (\<lambda>g. fst (resolve_session_deny pick s reason g)) y)"
    and "tracked (on_guard (cancel i) y)"
    and "tracked (on_guard (clear_pending s) y)"
proof -
  have w: "waiters (guard y) (calls y)" using assms by (simp add: tracked_def)
  show "tracked (on_guard (\<lambda>g. fst (resolve_custom_id parse c g)) y)"
    unfolding on_guard_def using w waiters_resolve
    by (intro tracked_guard [OF assms]) (auto simp: resolve_custom_id_def split: option.splits)
  show "tracked (on_guard (\<lambda>g. fst (resolve_session_deny pick s reason g)) y)"
    unfolding on_guard_def using w waiters_resolve
    by (intro tracked_guard [OF assms]) (auto simp: resolve_session_deny_def split: option.splits)
  show "tracked (on_guard (cancel i) y)"
    unfolding on_guard_def using waiters_cancel [OF w]
    by (intro tracked_guard [OF assms]) (auto simp: cancel_def split: option.splits)
  show "tracked (on_guard (clear_pending s) y)"
    unfolding on_guard_def using waiters_clear [OF w]
    by (intro tracked_guard [OF assms]) (auto simp: clear_pending_def)
qed

lemma tracked_grant_events:
  assumes "tracked y"
  shows "tracked (on_guard (set_yolo s b) y)" and "tracked (on_guard (clear_yolo s) y)"
    and "tracked (on_guard (load_permanent ps) y)" and "tracked (on_guard (\<lambda>g. fst (load_persisted_allowlist g)) y)"
    and "tracked (on_guard (\<lambda>g. fst (load_persisted_yolo dc rows g)) y)"
    and "tracked (on_guard (clear_grants s) y)"
proof -
  have "caches_bounded (guard y)" using assms by (simp add: tracked_def)
  then have "caches_bounded (clear_grants s (guard y))"
    by (auto simp: caches_bounded_def clear_grants_def hm_remove_def intro: le_trans [OF length_filter_le])
  with assms show "tracked (on_guard (clear_grants s) y)"
    by (auto simp: tracked_def on_guard_def clear_grants_def intro: waiters_frame)
qed (use assms in \<open>auto simp: on_guard_def tracked_def set_yolo_def clear_yolo_def load_permanent_def
  load_persisted_allowlist_def load_persisted_yolo_def split_def Let_def caches_bounded_def
  intro: waiters_frame split: option.splits\<close>)

lemma tracked_call_events:
  assumes "tracked y"
  shows "tracked (delivery_done i success y)" and "tracked (wait_done i late y)" and "tracked (call_dropped i y)"
    and "tracked (delivery_expire show i y)"
proof -
  have w: "waiters (guard y) (calls y)" and b: "caches_bounded (drop_prompt i (guard y))"
    using assms by (simp_all add: tracked_def drop_prompt_def caches_bounded_def)
  have sent: "waiters (guard y) ((calls y)(i \<mapsto> r\<lparr>rq_phase := Awaiting\<rparr>))"
    if "calls y i = Some r" "rq_phase r = Delivering" for r
  proof -
    have "waiting r" "waiting (r\<lparr>rq_phase := Awaiting\<rparr>)" using that(2) by (simp_all add: waiting_def)
    moreover have "pe_session e = Some (rq_session r)" if "map_of (pending (guard y)) i = Some e" for e
      using w that \<open>calls y i = Some r\<close> unfolding waiters_def by (metis option.inject)
    ultimately show ?thesis using w that(1) unfolding waiters_def by (auto simp del: map_of_eq_Some_iff)
  qed
  show "tracked (wait_done i late y)" "tracked (call_dropped i y)" "tracked (delivery_expire show i y)"
    using assms w b
    by (auto simp: wait_done_def call_dropped_def delivery_expire_def tracked_def waiting_def
        intro!: waiters_drop split: option.splits)
  show "tracked (delivery_done i success y)"
    using assms w b sent
    by (auto simp: delivery_done_def Let_def tracked_def return_result_def intro!: waiters_drop split: option.splits)
qed

lemma tracked_begin:
  assumes "tracked y" and "calls y i = None"
  shows "tracked (request_begin show redact i s command reason k scope now y)"
proof -
  let ?r = "\<lparr>rq_session = s, rq_key = k, rq_scope = scope, rq_phase = Delivering\<rparr>"
  have "tracked (return_result i ?r res y)" for res
    using assms by (simp add: return_result_def fun_upd_idem tracked_def)
  moreover have "tracked (y\<lparr>guard := request_with_session i (Some s) now (guard y),
              calls := (calls y)(i \<mapsto> ?r), deliveries := (deliveries y)(i \<mapsto> Dispatching), outbound := os\<rparr>)" for os
    using assms(1) waiters_request [of "guard y" "calls y" ?r i now]
    by (auto simp: tracked_def request_with_session_def caches_bounded_def)
  ultimately show ?thesis by (auto simp: request_begin_def Let_def split: sum.splits)
qed

lemma approve_always_frame:
  "approve_always failure k g = Inr g' \<Longrightarrow>
   pending g' = pending g \<and> channels g' = channels g \<and> session_cache g' = session_cache g"
  by (auto simp: approve_always_def split: option.splits)

lemma tracked_settle:
  assumes "tracked y"
  shows "tracked (settle pp ps failure i y)"
proof (cases "\<exists>r res. calls y i = Some r \<and> rq_phase r = Settling res")
  case True
  then obtain r res where r: "calls y i = Some r" "rq_phase r = Settling res" by blast
  have w: "waiters (guard y) ((calls y)(i := None))"
    using assms r by (intro waiters_settled) (auto simp: tracked_def waiting_def)
  have ret: "tracked (return_result i r res' (y\<lparr>guard := g\<rparr>))"
    if "pending g = pending (guard y)" "channels g = channels (guard y)" "caches_bounded g" for g res'
    using assms waiters_frame [OF w that(1,2)] that(3) by (simp add: tracked_def return_result_def)
  have bounded: "caches_bounded (guard y)" using assms by (simp add: tracked_def)
  have keep: "tracked (return_result i r res' y)" for res' using ret [of "guard y"] bounded by simp
  have sess: "tracked (return_result i r res' (y\<lparr>guard := approve_session pp ps s k (guard y)\<rparr>))" for res' s k
    using approve_session_bounded [OF bounded] by (intro ret) (simp_all add: approve_session_def Let_def)
  have alw: "tracked (return_result i r res' (y\<lparr>guard := g\<rparr>))"
    if "approve_always failure (rq_key r) (guard y) = Inr g" for g res'
    using approve_always_frame [OF that] bounded caches_bounded_frame [of g "guard y"] by (intro ret) simp_all
  show ?thesis
  proof (cases "map_sum id (cap (rq_scope r)) res")
    case (Inl e)
    then show ?thesis using r keep by (simp add: settle_def)
  next
    case (Inr d)
    then show ?thesis
      using r keep sess alw
      by (cases d; cases "approve_always failure (rq_key r) (guard y)") (simp_all add: settle_def)
  qed
next
  case False
  with assms show ?thesis by (auto simp: settle_def split: option.splits Phase.splits)
qed

lemma calls_begun:
  "calls (approval_step v e y) i \<noteq> None \<Longrightarrow> calls y i \<noteq> None \<or> i \<in> set (begin_id e)"
  by (cases e)
    (auto simp: request_begin_def delivery_done_def wait_done_def settle_def call_dropped_def delivery_expire_def
      return_result_def on_guard_def Let_def
      split: if_splits option.splits sum.splits Phase.splits ApprovalDecision.splits)

lemma tracked_step:
  assumes "tracked y" and "\<forall>i \<in> set (begin_id e). calls y i = None"
  shows "tracked (approval_step v e y)"
  using assms
  by (cases e)
    (simp_all add: tracked_begin tracked_settle tracked_call_events tracked_prompt_events tracked_grant_events,
     simp add: tracked_def)

lemma tracked_run:
  assumes "distinct (begin_ids evs)"
  shows "tracked (approval_run v evs table) \<and> (\<forall>i. calls (approval_run v evs table) i \<noteq> None \<longrightarrow> i \<in> set (begin_ids evs))"
  using assms
proof (induction evs rule: rev_induct)
  case Nil
  show ?case by (simp add: approval_run_def approval_init_def tracked_def waiters_def caches_bounded_def guard_new_def)
next
  case (snoc e evs)
  let ?y = "approval_run v evs table"
  have run: "approval_run v (evs @ [e]) table = approval_step v e ?y" by (simp add: approval_run_def)
  have ids: "begin_ids (evs @ [e]) = begin_ids evs @ begin_id e" by (simp add: begin_ids_def)
  have IH: "tracked ?y" "\<And>i. calls ?y i \<noteq> None \<Longrightarrow> i \<in> set (begin_ids evs)" using snoc by (auto simp: ids)
  have "\<forall>i \<in> set (begin_id e). calls ?y i = None" using IH(2) snoc.prems by (fastforce simp: ids)
  then have "tracked (approval_step v e ?y)" by (rule tracked_step [OF IH(1)])
  moreover have "i \<in> set (begin_ids evs @ begin_id e)" if "calls (approval_step v e ?y) i \<noteq> None" for i
    using calls_begun [OF that] IH(2) by auto
  ultimately show ?case by (simp add: run ids)
qed

text \<open>Nothing of a finished call is left behind.  With distinct request identifiers, every
  pending entry belongs to a call that is still waiting, in the session it is filed under; so when
  no call runs, no entry is pending; and the grants of sessions stay within their bounds.\<close>

theorem pending_entries_have_callers:
  assumes "distinct (begin_ids evs)" and "y = approval_run v evs table"
  shows "(\<forall>i e. map_of (pending (guard y)) i = Some e \<longrightarrow>
      (\<exists>r. calls y i = Some r \<and> waiting r \<and> pe_session e = Some (rq_session r))) \<and>
    pending_count (guard y) = card (fst ` set (pending (guard y))) \<and>
    (calls y = Map.empty \<longrightarrow> pending_count (guard y) = 0) \<and>
    length (session_cache (guard y)) \<le> max_sessions \<and>
    (\<forall>s ks. (s, ks) \<in> set (session_cache (guard y)) \<longrightarrow> length ks \<le> max_patterns_per_session)"
proof -
  have t: "tracked y" using tracked_run assms by blast
  then have w: "waiters (guard y) (calls y)" by (simp add: tracked_def)
  have own: "\<exists>r. calls y i = Some r \<and> waiting r \<and> pe_session e = Some (rq_session r)"
    if "map_of (pending (guard y)) i = Some e" for i e
  proof -
    from w that obtain r where r: "channels (guard y) i = Some Waiting" "calls y i = Some r"
      "pe_session e = Some (rq_session r)" unfolding waiters_def by blast
    from w r(1) obtain r' where "calls y i = Some r'" "waiting r'" unfolding waiters_def by (metis option.distinct(1))
    with r show ?thesis by simp
  qed
  moreover have "pending (guard y) = []" if "calls y = Map.empty"
  proof (cases "pending (guard y)")
    case (Cons p ps)
    with own [of "fst p" "snd p"] that show ?thesis by simp
  qed
  moreover have "pending_count (guard y) = card (fst ` set (pending (guard y)))"
    using w distinct_card [of "map fst (pending (guard y))"] by (simp add: waiters_def pending_count_def)
  ultimately show ?thesis
    using t by (auto simp: tracked_def caches_bounded_def pending_count_def simp del: map_of_eq_Some_iff)
qed

theorem pending_entries_have_callers_witness:
  "pending_count (guard (approval_run
     \<lparr>env_parse_uuid = (\<lambda>_. None), env_show_uuid = dec, env_redact = Inr, env_decode = (\<lambda>_. None)\<rparr>
     [SetDispatcher, RequestBegin 7 (session_key_new ''discord'' None ''c'' None ''u'') ''rm'' ''why'' ''k'' ScopeAlways 0,
      RequestBegin 8 (session_key_new ''discord'' None ''c'' None ''u'') ''ls'' ''why'' ''l'' ScopeAlways 1,
      CallDropped 7, DeliveryDone 8 False] None)) = 0"
proof -
  let ?v = "\<lparr>env_parse_uuid = (\<lambda>_. None), env_show_uuid = dec, env_redact = Inr, env_decode = (\<lambda>_. None)\<rparr>"
  let ?evs = "[SetDispatcher, RequestBegin 7 (session_key_new ''discord'' None ''c'' None ''u'') ''rm'' ''why'' ''k'' ScopeAlways 0,
      RequestBegin 8 (session_key_new ''discord'' None ''c'' None ''u'') ''ls'' ''why'' ''l'' ScopeAlways 1,
      CallDropped 7, DeliveryDone 8 False]"
  have "distinct (begin_ids ?evs)" by (simp add: begin_ids_def)
  moreover have "calls (approval_run ?v ?evs None) = Map.empty"
    by (simp add: approval_run_def approval_init_def guard_new_def request_begin_def is_yolo_def remembered_def is_approved_def
        in_session_cache_def request_with_session_def delivery_done_def call_dropped_def drop_prompt_def
        return_result_def Let_def)
  ultimately show ?thesis using pending_entries_have_callers [of ?evs _ ?v None, OF _ refl] by blast
qed

lemma settle_returns:
  assumes "calls y i = Some r" and "rq_phase r = Settling res"
  obtains z res' where "settle pp ps failure i y = return_result i r res' z" "calls z = calls y"
    "results z = results y" "outbound z = outbound y" "deliveries z = deliveries y" "pending (guard z) = pending (guard y)"
proof (cases "map_sum id (cap (rq_scope r)) res")
  case (Inl e)
  then show thesis using assms by (intro that [of "Inl e" y]) (simp_all add: settle_def)
next
  case (Inr d)
  show thesis
  proof (cases d)
    case Once
    then show thesis using assms Inr by (intro that [of "Inr Once" y]) (simp_all add: settle_def)
  next
    case Session
    let ?g = "approve_session pp ps (rq_session r) (rq_key r) (guard y)"
    show thesis
      using assms Inr Session
      by (intro that [of "Inr Session" "y\<lparr>guard := ?g\<rparr>"]) (simp_all add: settle_def approve_session_def Let_def)
  next
    case Always
    show thesis
    proof (cases "approve_always failure (rq_key r) (guard y)")
      case (Inl e)
      then show thesis
        using assms Inr Always by (intro that [of "Inl (Persistence e)" y]) (simp_all add: settle_def)
    next
      case (Inr g)
      from Always \<open>map_sum id (cap (rq_scope r)) res = Inr d\<close> Inr approve_always_frame [OF Inr] assms show thesis
        by (intro that [of "Inr Always" "y\<lparr>guard := g\<rparr>"]) (simp_all add: settle_def)
    qed
  next
    case (Deny reason)
    then show thesis using assms Inr by (intro that [of "Inr (Deny reason)" y]) (simp_all add: settle_def)
  qed
qed

text \<open>A call that waits for a decision ends at its deadline at the latest: it returns exactly
  one result, its entry is gone, and the delivery task then takes the buttons back.\<close>

theorem request_ends_at_deadline:
  assumes "distinct (begin_ids evs)" and "y = approval_run v evs table"
    and "calls y i = Some r" and "rq_phase r = Awaiting"
    and "y' = settle pp ps failure i (wait_done i True y)"
  shows "calls y' i = None \<and> i \<notin> fst ` set (pending (guard y')) \<and>
    (\<exists>r' res. results y' = results y @ [(i, r', res)]) \<and>
    (deliveries y i = Some AwaitingEnd \<longrightarrow>
       outbound (delivery_expire show i y') = outbound y @ [ExpireApproval (show i)])"
proof -
  have w: "waiters (guard y) (calls y)" using tracked_run [OF assms(1)] assms(2) by (simp add: tracked_def)
  have "waiting r" using assms(4) by (simp add: waiting_def)
  with w assms(3) obtain ch where "channels (guard y) i = Some ch" unfolding waiters_def by blast
  then obtain res where res: "wait i True (guard y) = Some res" by (cases ch) (auto simp: wait_def)
  let ?r = "r\<lparr>rq_phase := Settling res\<rparr>"
  let ?z = "y\<lparr>guard := drop_prompt i (guard y), calls := (calls y)(i \<mapsto> ?r)\<rparr>"
  have z: "wait_done i True y = ?z" using res assms(3,4) by (simp add: wait_done_def)
  have gone: "i \<notin> fst ` set (pending (drop_prompt i (guard y)))" by (auto simp: drop_prompt_def)
  have "calls ?z i = Some ?r" "rq_phase ?r = Settling res" by simp_all
  then obtain z res' where "y' = return_result i ?r res' z" "results z = results y" "outbound z = outbound y"
    "deliveries z = deliveries y" "pending (guard z) = pending (drop_prompt i (guard y))"
    unfolding assms(5) z by (rule settle_returns [where pp = pp and ps = ps and failure = failure]) simp_all
  then show ?thesis using gone by (auto simp: return_result_def delivery_expire_def)
qed

text \<open>\<open>/deny\<close> answers the oldest pending request of its own session, and nothing else.\<close>

theorem deny_answers_oldest:
  assumes "distinct (begin_ids evs)" and "g = guard (approval_run v evs table)"
    and "session_target pick s (pending g) = Some i"
  shows "resolve_session_deny pick s reason g =
      (g\<lparr>pending := hm_remove i (pending g), channels := (channels g)(i \<mapsto> Sent (Deny reason))\<rparr>, True) \<and>
    (\<exists>e. map_of (pending g) i = Some e \<and> pe_session e = Some s \<and>
       (\<forall>j e'. map_of (pending g) j = Some e' \<longrightarrow> pe_session e' = Some s \<longrightarrow> pe_created_at e \<le> pe_created_at e'))"
proof -
  have w: "waiters g (calls (approval_run v evs table))" using tracked_run [OF assms(1)] assms(2) by (simp add: tracked_def)
  let ?mine = "filter (\<lambda>(_, e). pe_session e = Some s) (pending g)"
  let ?old = "filter (\<lambda>(_, e). list_all (\<lambda>(_, e'). pe_created_at e \<le> pe_created_at e') ?mine) ?mine"
  have ne: "?old \<noteq> []" and i: "i = fst (?old ! (pick ?old mod length ?old))"
    using assms(3) by (auto simp: session_target_def Let_def split: if_splits)
  have "?old ! (pick ?old mod length ?old) \<in> set ?old" using ne by (intro nth_mem mod_less_divisor) simp
  then obtain e where e: "(i, e) \<in> set ?old" using i by (metis prod.collapse)
  then have "map_of (pending g) i = Some e" "pe_session e = Some s"
    "\<forall>j e'. map_of (pending g) j = Some e' \<longrightarrow> pe_session e' = Some s \<longrightarrow> pe_created_at e \<le> pe_created_at e'"
    using w by (auto simp: list_all_iff waiters_def)
  moreover from w this(1) have "channels g i = Some Waiting" unfolding waiters_def by blast
  ultimately show ?thesis using assms(3) by (auto simp: resolve_session_deny_def resolve_def send_def simp del: map_of_eq_Some_iff)
qed

lemmas approval_eval = approval_run_def approval_init_def guard_new_def request_begin_def is_yolo_def remembered_def
  is_approved_def in_session_cache_def request_with_session_def hm_insert_def hm_remove_def delivery_done_def
  call_dropped_def on_guard_def wait_done_def wait_def drop_prompt_def settle_def return_result_def

theorem request_ends_at_deadline_witness:
  "let v = \<lparr>env_parse_uuid = (\<lambda>_. None), env_show_uuid = dec, env_redact = Inr, env_decode = (\<lambda>_. None)\<rparr>;
       y = approval_run v [SetDispatcher,
         RequestBegin 7 (session_key_new ''discord'' None ''c'' None ''u'') ''rm'' ''why'' ''k'' ScopeAlways 0,
         DeliveryDone 7 True] None;
       y' = settle (\<lambda>_. 0) (\<lambda>_. 0) None 7 (wait_done 7 True y)
   in calls y' 7 = None \<and> outbound (delivery_expire dec 7 y') = outbound y @ [ExpireApproval (dec 7)]"
proof -
  let ?v = "\<lparr>env_parse_uuid = (\<lambda>_. None), env_show_uuid = dec, env_redact = Inr, env_decode = (\<lambda>_. None)\<rparr>"
  let ?s = "session_key_new ''discord'' None ''c'' None ''u''"
  let ?evs = "[SetDispatcher, RequestBegin 7 ?s ''rm'' ''why'' ''k'' ScopeAlways 0, DeliveryDone 7 True]"
  let ?r = "\<lparr>rq_session = ?s, rq_key = ''k'', rq_scope = ScopeAlways, rq_phase = Awaiting\<rparr>"
  have "distinct (begin_ids ?evs)" by (simp add: begin_ids_def)
  moreover have "calls (approval_run ?v ?evs None) 7 = Some ?r" by (simp add: approval_eval Let_def)
  moreover have "deliveries (approval_run ?v ?evs None) 7 = Some AwaitingEnd" by (simp add: approval_eval Let_def)
  ultimately show ?thesis
    using request_ends_at_deadline [of ?evs _ ?v None 7 ?r _ "\<lambda>_. 0" "\<lambda>_. 0" None dec, OF _ refl _ _ refl]
    unfolding Let_def by simp
qed

theorem deny_answers_oldest_witness:
  "let s = session_key_new ''discord'' None ''c'' None ''u'';
       g = guard (approval_run \<lparr>env_parse_uuid = (\<lambda>_. None), env_show_uuid = dec, env_redact = Inr, env_decode = (\<lambda>_. None)\<rparr>
         [SetDispatcher, RequestBegin 7 s ''rm'' ''why'' ''k'' ScopeAlways 0, RequestBegin 8 s ''ls'' ''why'' ''l'' ScopeAlways 1] None)
   in resolve_session_deny (\<lambda>_. 0) s None g =
      (g\<lparr>pending := hm_remove 7 (pending g), channels := (channels g)(7 \<mapsto> Sent (Deny None))\<rparr>, True)"
proof -
  let ?v = "\<lparr>env_parse_uuid = (\<lambda>_. None), env_show_uuid = dec, env_redact = Inr, env_decode = (\<lambda>_. None)\<rparr>"
  let ?s = "session_key_new ''discord'' None ''c'' None ''u''"
  let ?evs = "[SetDispatcher, RequestBegin 7 ?s ''rm'' ''why'' ''k'' ScopeAlways 0, RequestBegin 8 ?s ''ls'' ''why'' ''l'' ScopeAlways 1]"
  have "distinct (begin_ids ?evs)" by (simp add: begin_ids_def)
  moreover have "session_target (\<lambda>_. 0) ?s (pending (guard (approval_run ?v ?evs None))) = Some 7"
    by (simp add: approval_eval session_target_def Let_def)
  ultimately show ?thesis
    using deny_answers_oldest [of ?evs _ ?v None "\<lambda>_. 0" ?s 7 None, OF _ refl] unfolding Let_def by blast
qed

lemma fold_drop_sender_mem:
  "i \<in> set is \<Longrightarrow> chs i = Some Waiting \<Longrightarrow> fold drop_sender is chs i = Some SenderDropped"
proof (induction "is" arbitrary: chs)
  case (Cons j js)
  have dropped: "fold drop_sender js chs' i = Some SenderDropped" if "chs' i = Some SenderDropped" for chs'
    using that by (induction js arbitrary: chs') (auto simp: drop_sender_def)
  show ?case
  proof (cases "i = j")
    case True
    with Cons.prems have "drop_sender j chs i = Some SenderDropped" by (simp add: drop_sender_def)
    with dropped show ?thesis by simp
  next
    case False
    with Cons show ?thesis by (auto simp: drop_sender_def)
  qed
qed simp

text \<open>Clearing a session ends its pending requests with a cancellation and takes its grants
  and its switched-off approvals back, and touches nothing of any other session.\<close>

theorem clear_session_isolated:
  assumes "distinct (begin_ids evs)" and "g = guard (approval_run v evs table)"
  shows "(\<forall>i e. map_of (pending g) i = Some e \<longrightarrow>
      (if pe_session e = Some s
       then map_of (pending (clear_session s g)) i = None \<and> wait i late (clear_session s g) = Some (Inl Cancelled)
       else map_of (pending (clear_session s g)) i = Some e \<and> channels (clear_session s g) i = channels g i)) \<and>
    (\<forall>k. \<not> in_session_cache s k (clear_session s g)) \<and> \<not> is_yolo s (clear_session s g) \<and>
    (\<forall>t k. t \<noteq> s \<longrightarrow> in_session_cache t k (clear_session s g) = in_session_cache t k g) \<and>
    (\<forall>t. storage_key t \<noteq> storage_key s \<longrightarrow> is_yolo t (clear_session s g) = is_yolo t g) \<and>
    always_cache (clear_session s g) = always_cache g"
proof -
  have w: "waiters g (calls (approval_run v evs table))" using tracked_run [OF assms(1)] assms(2) by (simp add: tracked_def)
  have d: "distinct (map fst (pending g))" using w by (simp add: waiters_def)
  let ?gone = "map fst (filter (\<lambda>(_, e). pe_session e = Some s) (pending g))"
  have pend: "pending (clear_session s g) = filter (\<lambda>(_, e). pe_session e \<noteq> Some s) (pending g)"
    and chs: "channels (clear_session s g) = fold drop_sender ?gone (channels g)"
    by (simp_all add: clear_session_def clear_yolo_def clear_grants_def clear_pending_def)
  have "if pe_session e = Some s
       then map_of (pending (clear_session s g)) i = None \<and> wait i late (clear_session s g) = Some (Inl Cancelled)
       else map_of (pending (clear_session s g)) i = Some e \<and> channels (clear_session s g) i = channels g i"
    if e: "map_of (pending g) i = Some e" for i e
  proof (cases "pe_session e = Some s")
    case True
    have "i \<in> set ?gone" using e d True by force
    moreover have "channels g i = Some Waiting" using w e unfolding waiters_def by blast
    ultimately have "channels (clear_session s g) i = Some SenderDropped" by (simp add: chs fold_drop_sender_mem)
    moreover have "i \<notin> fst ` set (pending (clear_session s g))"
      using e d True by (auto simp: pend dest: eq_key_imp_eq_value)
    ultimately show ?thesis using True by (simp add: wait_def map_of_eq_None_iff)
  next
    case False
    have "i \<notin> set ?gone" using e d False by (auto dest: eq_key_imp_eq_value)
    with False e d show ?thesis by (simp add: chs pend drop_senders_other map_of_filter_iff)
  qed
  moreover have "\<not> in_session_cache s k (clear_session s g)" for k
    by (simp add: clear_session_def clear_yolo_def clear_grants_def in_session_cache_def)
  moreover have "in_session_cache t k (clear_session s g) = in_session_cache t k g" if "t \<noteq> s" for t k
    using that by (simp add: clear_session_def clear_yolo_def clear_grants_def clear_pending_def in_session_cache_def)
  moreover have "\<not> is_yolo s (clear_session s g)" "always_cache (clear_session s g) = always_cache g"
    by (simp_all add: clear_session_def clear_yolo_def clear_grants_def clear_pending_def is_yolo_def)
  moreover have "is_yolo t (clear_session s g) = is_yolo t g" if "storage_key t \<noteq> storage_key s" for t
    using that by (simp add: clear_session_def clear_yolo_def clear_grants_def clear_pending_def is_yolo_def)
  ultimately show ?thesis by blast
qed

theorem clear_session_isolated_witness:
  "let s = session_key_new ''discord'' None ''c'' None ''u'';
       g = guard (approval_run \<lparr>env_parse_uuid = (\<lambda>_. None), env_show_uuid = dec, env_redact = Inr, env_decode = (\<lambda>_. None)\<rparr>
         [SetDispatcher, RequestBegin 7 s ''rm'' ''why'' ''k'' ScopeAlways 0] None)
   in wait 7 False (clear_session s g) = Some (Inl Cancelled)"
proof -
  let ?v = "\<lparr>env_parse_uuid = (\<lambda>_. None), env_show_uuid = dec, env_redact = Inr, env_decode = (\<lambda>_. None)\<rparr>"
  let ?s = "session_key_new ''discord'' None ''c'' None ''u''"
  let ?evs = "[SetDispatcher, RequestBegin 7 ?s ''rm'' ''why'' ''k'' ScopeAlways 0]"
  have "map_of (pending (guard (approval_run ?v ?evs None))) 7 = Some \<lparr>pe_session = Some ?s, pe_created_at = 0\<rparr>"
    by (simp add: approval_eval Let_def)
  with clear_session_isolated [of ?evs _ ?v None ?s False, OF _ refl] show ?thesis
    by (simp add: Let_def begin_ids_def del: map_of_eq_Some_iff)
qed

text \<open>A decision in flight survives the clearing of its session.  When \<^emph>\<open>session\<close> was
  clicked but the waiting call has not run yet, the call remembers the grant after
  \<open>clear_session\<close> is through, and the next request of the same kind is approved unasked.\<close>

theorem clear_session_misses_decided_call:
  "\<exists>v evs s k. let y = approval_run v (evs @ [ClearPending s, ClearGrants s, ClearYolo s]) None;
                   y' = settle (\<lambda>_. 0) (\<lambda>_. 0) None 7 (wait_done 7 False y) in
     \<not> in_session_cache s k (guard y) \<and> in_session_cache s k (guard y') \<and>
     results (request_begin dec Inr 8 s ''rm'' ''why'' k ScopeSession 5 y') =
       results y' @ [(8, \<lparr>rq_session = s, rq_key = k, rq_scope = ScopeSession, rq_phase = Delivering\<rparr>, Inr Session)]"
proof -
  let ?v = "\<lparr>env_parse_uuid = (\<lambda>_. Some 7), env_show_uuid = dec, env_redact = Inr, env_decode = (\<lambda>_. None)\<rparr>"
  let ?s = "session_key_new ''discord'' None ''c'' None ''u''"
  let ?evs = "[SetDispatcher, RequestBegin 7 ?s ''rm'' ''why'' ''k'' ScopeSession 0, DeliveryDone 7 True,
              Click ''omon:approval:7:session'']"
  have parse: "parse_custom_id (\<lambda>_. Some 7) ''omon:approval:7:session'' = Some (7, Session)" by code_simp
  show ?thesis
    by (intro exI [of _ ?v] exI [of _ ?evs] exI [of _ ?s] exI [of _ "''k''"])
      (simp add: approval_eval resolve_custom_id_def parse resolve_def send_def clear_pending_def clear_grants_def
        clear_yolo_def approve_session_def evict_fits Let_def)
qed

text \<open>The four buttons of a request are read back as its four decisions.\<close>

theorem approval_buttons_roundtrip:
  assumes "parse_uuid (show_uuid i) = Some i" and "CHR '':'' \<notin> set (show_uuid i)"
  shows "map (\<lambda>(custom_id, _). parse_custom_id parse_uuid custom_id) (approval_buttons show_uuid i) =
    [Some (i, Once), Some (i, Session), Some (i, Always), Some (i, Deny None)]"
proof -
  have "split_on (CHR '':'') (''omon:approval:'' @ show_uuid i @ CHR '':'' # a) =
      [''omon'', ''approval'', show_uuid i] @ split_on (CHR '':'') a" for a
    using split_on_append [OF assms(2), of a] by simp
  then show ?thesis using assms(1) by (simp add: approval_buttons_def parse_custom_id_def Let_def)
qed

theorem approval_buttons_roundtrip_witness:
  "map (\<lambda>(custom_id, _). parse_custom_id parse_u64 custom_id) (approval_buttons dec 42) =
    [Some (42, Once), Some (42, Session), Some (42, Always), Some (42, Deny None)]"
  using approval_buttons_roundtrip [of parse_u64 dec 42] parse_uint_dec [of 42 64]
    notin_dec [of "CHR '':''" 42] by (simp add: is_digit_def byte_val_def)
end
