(* ===== verification/Restart_Guard.thy ===== *)
theory Restart_Guard
  imports Gateway_Prelude
begin

section \<open>The restart-loop breaker\<close>

text \<open>
  \<open>src/multiplexer/restart_loop_guard.rs\<close>: a log of the boots that found interrupted sessions.
  When the boots of an unbroken chain, each at most five minutes after the one before, reach the
  limit, the gateway stops resuming sessions.  Instants are integers in milliseconds (the code
  keeps seconds with three decimals in an \<open>f64\<close>).  The log is the parsed content of its file,
  \<open>None\<close> when the file is missing or cannot be parsed; \<open>write_ok\<close> says whether writing it worked.
\<close>

record RestartLoopGuard =
  max_restarts :: nat
  window_seconds :: nat

abbreviation default_max_restarts :: nat where "default_max_restarts \<equiv> 3"
abbreviation default_window_seconds :: nat where "default_window_seconds \<equiv> 60"
abbreviation default_max_gap_seconds :: nat where "default_max_gap_seconds \<equiv> 300"

definition guard_default :: RestartLoopGuard where
  "guard_default = \<lparr>max_restarts = default_max_restarts, window_seconds = default_window_seconds\<rparr>"

definition max_gap :: "RestartLoopGuard \<Rightarrow> int" where
  "max_gap g = int (max (window_seconds g) default_max_gap_seconds) * 1000"

definition load_boots :: "int list option \<Rightarrow> int list" where
  "load_boots file = (case file of Some boots \<Rightarrow> boots | None \<Rightarrow> [])"

definition save_boots :: "bool \<Rightarrow> int list \<Rightarrow> int list option \<Rightarrow> int list option" where
  "save_boots write_ok boots file = (if write_ok then Some boots else file)"

text \<open>From the newest boot back, up to the first gap that is too wide.  A boot of the future
  neither breaks the chain nor moves it.\<close>

fun keep_chain :: "int \<Rightarrow> int \<Rightarrow> int \<Rightarrow> int list \<Rightarrow> int list" where
  "keep_chain gap now previous [] = []"
| "keep_chain gap now previous (boot # boots) =
     (if boot > now then boot # keep_chain gap now previous boots
      else if previous - boot > gap then []
      else boot # keep_chain gap now boot boots)"

definition boot_chain_at :: "RestartLoopGuard \<Rightarrow> int \<Rightarrow> int list option \<Rightarrow> int list" where
  "boot_chain_at g now file = rev (keep_chain (max_gap g) now now (rev (sort (load_boots file))))"

definition record_boot_at :: "bool \<Rightarrow> RestartLoopGuard \<Rightarrow> int \<Rightarrow> int list option \<Rightarrow> int list \<times> int list option" where
  "record_boot_at write_ok g now file =
     (let boots = boot_chain_at g now file @ [now];
          retained = max 50 (max_restarts g);
          boots = drop (length boots - retained) boots
      in (boots, save_boots write_ok boots file))"

definition is_tripped_at :: "RestartLoopGuard \<Rightarrow> int \<Rightarrow> int list option \<Rightarrow> bool" where
  "is_tripped_at g now file \<longleftrightarrow> max_restarts g > 0 \<and> length (boot_chain_at g now file) \<ge> max_restarts g"

definition check_and_record_at :: "bool \<Rightarrow> RestartLoopGuard \<Rightarrow> int \<Rightarrow> int list option \<Rightarrow> bool \<times> int list option" where
  "check_and_record_at write_ok g now file =
     (let (boots, file) = record_boot_at write_ok g now file
      in (if max_restarts g > 0 then length boots \<ge> max_restarts g else False, file))"

definition clear_log :: "int list option \<Rightarrow> int list option" where
  "clear_log file = None"

text \<open>The boots of a machine, one after the other.\<close>

fun boots_run :: "RestartLoopGuard \<Rightarrow> int list \<Rightarrow> int list option \<Rightarrow> bool list \<times> int list option" where
  "boots_run g [] file = ([], file)"
| "boots_run g (t # ts) file =
     (let (tripped, file) = check_and_record_at True g t file; (rest, file) = boots_run g ts file
      in (tripped # rest, file))"

subsection \<open>Chains\<close>

fun linked :: "int \<Rightarrow> int list \<Rightarrow> bool" where
  "linked gap [] \<longleftrightarrow> True"
| "linked gap [t] \<longleftrightarrow> True"
| "linked gap (s # t # ts) \<longleftrightarrow> s \<le> t \<and> t - s \<le> gap \<and> linked gap (t # ts)"

definition broken :: "int \<Rightarrow> int list \<Rightarrow> int \<Rightarrow> bool" where
  "broken gap us t \<longleftrightarrow> us = [] \<or> last us \<le> t \<and> t - last us > gap"

lemma linked_snoc: "linked gap (ts @ [t]) \<longleftrightarrow> ts = [] \<or> linked gap ts \<and> last ts \<le> t \<and> t - last ts \<le> gap"
  by (induction gap ts rule: linked.induct) auto

lemma linked_sorted: "linked gap ts \<Longrightarrow> sorted ts"
  by (induction gap ts rule: linked.induct) auto

lemma keep_chain_prefix: "\<exists>n. keep_chain gap now p bs = take n bs"
proof (induction gap now p bs rule: keep_chain.induct)
  case (2 gap now p b bs)
  then show ?case by (metis keep_chain.simps(2) take0 take_Suc_Cons)
qed simp

lemma keep_chain_linked:
  "linked gap (vs @ [p]) \<Longrightarrow> p \<le> now \<Longrightarrow> keep_chain gap now p (rev vs) = rev vs"
proof (induction vs arbitrary: p rule: rev_induct)
  case (snoc w ws)
  then have "linked gap (ws @ [w])" "w \<le> p" "p - w \<le> gap" using linked_snoc [of gap "ws @ [w]" p] by simp_all
  with snoc show ?case by simp
qed simp

lemma keep_chain_broken: "broken gap us t \<Longrightarrow> keep_chain gap t t (rev us) = []"
  by (cases us rule: rev_cases) (auto simp: broken_def)

lemma boot_chain_linked:
  assumes "linked (max_gap g) (vs @ [t])"
  shows "boot_chain_at g t (Some vs) = vs"
proof -
  have "sorted vs" using linked_sorted [OF assms] by (simp add: sorted_append)
  with keep_chain_linked [OF assms order.refl] show ?thesis
    by (simp add: boot_chain_at_def load_boots_def sorted_sort_id)
qed

lemma boot_chain_broken: "sorted us \<Longrightarrow> broken (max_gap g) us t \<Longrightarrow> boot_chain_at g t (Some us) = []"
  by (simp add: boot_chain_at_def load_boots_def sorted_sort_id keep_chain_broken)

subsection \<open>Runs\<close>

lemma boots_run_append:
  "boots_run g (ts @ us) f =
     (fst (boots_run g ts f) @ fst (boots_run g us (snd (boots_run g ts f))), snd (boots_run g us (snd (boots_run g ts f))))"
  by (induction ts arbitrary: f) (simp_all add: Let_def split_def)

lemma boots_run_nonempty: "ws \<noteq> [] \<Longrightarrow> fst (boots_run g ws f) \<noteq> []"
  by (cases ws) (simp_all add: Let_def split_def)

definition tail :: "RestartLoopGuard \<Rightarrow> int list \<Rightarrow> int list" where
  "tail g vs = drop (length vs - max 50 (max_restarts g)) vs"

lemma drop_snoc_drop: "drop (length (drop n vs) + 1 - R) (drop n vs @ [t]) = drop (length (vs @ [t]) - R) (vs @ [t])"
  if "n = length vs - R" "0 < R"
  using that by (cases "length vs \<le> R") (auto simp: Suc_diff_le)

lemma tail_snoc: "(let boots = tail g vs @ [t] in drop (length boots - max 50 (max_restarts g)) boots) = tail g (vs @ [t])"
  using drop_snoc_drop [of "length vs - max 50 (max_restarts g)" vs "max 50 (max_restarts g)" t] by (simp add: tail_def)

lemma linked_drop: "linked gap ts \<Longrightarrow> linked gap (drop n ts)"
proof (induction n arbitrary: ts)
  case (Suc n)
  then show ?case by (cases "(gap, ts)" rule: linked.cases) auto
qed simp

lemma linked_append_left: "linked gap (xs @ ys) \<Longrightarrow> linked gap xs"
proof (induction gap xs rule: linked.induct)
  case (2 gap t)
  then show ?case by simp
qed auto

lemma check_linked:
  assumes "linked (max_gap g) (vs @ [t])"
  shows "check_and_record_at True g t (Some (tail g vs)) =
    (0 < max_restarts g \<and> max_restarts g \<le> length (vs @ [t]), Some (tail g (vs @ [t])))"
proof -
  have "linked (max_gap g) (tail g vs @ [t])"
    using linked_drop [OF assms, of "length vs - max 50 (max_restarts g)"] by (simp add: tail_def)
  from boot_chain_linked [OF this] show ?thesis
    using tail_snoc [of g vs t] 
    by (auto simp: check_and_record_at_def record_boot_at_def save_boots_def Let_def tail_def)
qed

lemma boots_linked:
  assumes "linked (max_gap g) (vs @ ws)" and "ws \<noteq> []"
  shows "last (fst (boots_run g ws (Some (tail g vs)))) =
    (0 < max_restarts g \<and> max_restarts g \<le> length (vs @ ws))"
  using assms
proof (induction ws arbitrary: vs)
  case (Cons t ws)
  have "linked (max_gap g) (vs @ [t])" using Cons.prems(1) linked_append_left [of _ "vs @ [t]" ws] by simp
  from check_linked [OF this] Cons show ?case
    by (cases "ws = []") (auto simp: Let_def split_def boots_run_nonempty)
qed simp

lemma record_log:
  assumes "sorted us"
  shows "us = [] \<or> (\<exists>l. snd (boots_run g us None) = Some l \<and> sorted l \<and> l \<noteq> [] \<and> last l = last us \<and> set l \<subseteq> set us)"
  using assms
proof (induction us rule: rev_induct)
  case (snoc t us)
  define old where "old = (if us = [] then [] else load_boots (snd (boots_run g us None)))"
  have old: "set old \<subseteq> set us" "load_boots (snd (boots_run g us None)) = old"
    using snoc by (auto simp: old_def load_boots_def sorted_append)
  have chain: "set (boot_chain_at g t (snd (boots_run g us None))) \<subseteq> set us"
  proof -
    obtain n where "keep_chain (max_gap g) t t (rev (sort old)) = take n (rev (sort old))"
      using keep_chain_prefix by blast
    with old show ?thesis by (auto simp: boot_chain_at_def dest!: in_set_takeD)
  qed
  have "sorted (boot_chain_at g t (snd (boots_run g us None)))"
  proof -
    obtain n where "keep_chain (max_gap g) t t (rev (sort old)) = take n (rev (sort old))"
      using keep_chain_prefix by blast
    then show ?thesis using old(2) by (simp add: boot_chain_at_def rev_take sorted_wrt_drop)
  qed
  define boots where "boots = boot_chain_at g t (snd (boots_run g us None)) @ [t]"
  define k where "k = length boots - max 50 (max_restarts g)"
  have "sorted boots"
    using chain snoc.prems \<open>sorted (boot_chain_at g t (snd (boots_run g us None)))\<close>
    by (auto simp: boots_def sorted_append)
  then have "sorted (drop k boots)" by (rule sorted_wrt_drop)
  moreover have "snd (boots_run g (us @ [t]) None) = Some (drop k boots)"
    by (simp add: boots_run_append check_and_record_at_def record_boot_at_def save_boots_def boots_def k_def Let_def split_def)
  moreover have "k < length boots" by (simp add: boots_def k_def)
  moreover have "last boots = t" "set boots \<subseteq> set (us @ [t])" using chain by (auto simp: boots_def)
  moreover have "set (drop k boots) \<subseteq> set boots" by (rule set_drop_subset)
  ultimately show ?case by (intro disjI2 exI [of _ "drop k boots"]) auto
qed simp

text \<open>C39: the breaker trips exactly when the unbroken chain of boots that ends now has reached
  the limit.  Boots more than the allowed gap earlier do not count, however many there were, and
  bounding the stored log loses none that do.\<close>

theorem restart_guard_trips_iff:
  assumes "sorted us" and "vs \<noteq> []" and "linked (max_gap g) vs" and "broken (max_gap g) us (hd vs)"
  shows "last (fst (boots_run g (us @ vs) None)) \<longleftrightarrow> 0 < max_restarts g \<and> max_restarts g \<le> length vs"
proof -
  obtain t ws where vs: "vs = t # ws" using assms(2) by (cases vs) auto
  let ?f = "snd (boots_run g us None)"
  have chain: "boot_chain_at g t ?f = []"
  proof (cases "us = []")
    case True
    then show ?thesis by (simp add: boot_chain_at_def load_boots_def)
  next
    case False
    with record_log [OF assms(1), of g] obtain l where l: "?f = Some l" "sorted l" "l \<noteq> []" "last l = last us" by auto
    with assms(4) False vs show ?thesis by (auto simp: broken_def intro!: boot_chain_broken)
  qed
  have "boots_run g vs ?f =
      (let (rest, f) = boots_run g ws (Some (tail g [t])) in ((0 < max_restarts g \<and> max_restarts g \<le> 1) # rest, f))"
    by (auto simp: vs check_and_record_at_def record_boot_at_def chain save_boots_def tail_def Let_def split_def)
  moreover have "last (fst (boots_run g ws (Some (tail g [t])))) = (0 < max_restarts g \<and> max_restarts g \<le> length vs)"
    if "ws \<noteq> []" using boots_linked [of g "[t]" ws] assms(3) that vs by simp
  ultimately show ?thesis
    by (cases "ws = []") (simp_all add: boots_run_append boots_run_nonempty Let_def split_def vs)
qed

theorem restart_guard_trips_iff_witness:
  "last (fst (boots_run guard_default ([0, 30000] @ [331000, 400000, 550000]) None))"
proof -
  have "linked (max_gap guard_default) [331000, 400000, 550000]" "broken (max_gap guard_default) [0, 30000] 331000"
    by (simp_all add: max_gap_def guard_default_def broken_def)
  then show ?thesis
    using restart_guard_trips_iff [of "[0, 30000]" "[331000, 400000, 550000]" guard_default]
    by (simp add: guard_default_def)
qed

end
