(* ===== verification/Drain_Control.thy ===== *)
theory Drain_Control
  imports Gateway_Events
begin

section \<open>Drain requests\<close>

text \<open>
  \<open>src/drain_control.rs\<close>: an operator asks a running gateway to stop taking work by a marker file
  in its state directory; a watcher scans the file and publishes the answer.  The model keeps the
  marker file and the published flag.  An instant is in nanoseconds.  The JSON codec
  (\<open>from_json\<close>, \<open>to_json\<close>), chrono's parsers and printer and the outcomes of the file operations are
  arguments.
\<close>

record DrainRequest =
  dr_action :: string
  dr_requested_at :: "string option"
  dr_principal :: "string option"
  dr_epoch :: "string option"
  dr_suppress_notification :: bool

datatype Marker = Absent | Unreadable | Content string

record TimeParsers =
  tp_rfc3339 :: "string \<Rightarrow> int option"
  tp_naive :: "string \<Rightarrow> string \<Rightarrow> int option"
  tp_date :: "string \<Rightarrow> int option"

abbreviation drain_request_max_age :: int where
  "drain_request_max_age \<equiv> 3600 * 1000000000"

definition default_request :: "string \<Rightarrow> string \<Rightarrow> DrainRequest" where
  "default_request now_text epoch = \<lparr>dr_action = ''drain'', dr_requested_at = Some now_text,
     dr_principal = Some ''drain-control'', dr_epoch = Some epoch, dr_suppress_notification = False\<rparr>"

subsection \<open>The epoch of an instance\<close>

definition current_instantiation_epoch :: "string option \<Rightarrow> string option \<Rightarrow> string" where
  "current_instantiation_epoch boot_id_file pid1_stat =
     (let boot_id = (case boot_id_file of Some content \<Rightarrow> trim content | None \<Rightarrow> '''');
          pid1_start =
            (case pid1_stat of
               None \<Rightarrow> ''''
             | Some stat \<Rightarrow>
                 (case rsplit_once (CHR '')'') stat of
                    None \<Rightarrow> ''''
                  | Some (_, tail) \<Rightarrow>
                      let fields = split_whitespace tail in if length fields \<ge> 20 then fields ! 19 else ''''))
      in if boot_id \<noteq> '''' \<or> pid1_start \<noteq> '''' then boot_id @ '':'' @ pid1_start else '''')"

definition is_marker_epoch_stale :: "string option \<Rightarrow> string \<Rightarrow> bool" where
  "is_marker_epoch_stale marker_epoch current_epoch =
     (let current_trimmed = trim current_epoch in
      if current_trimmed = '''' then False
      else case map_option trim marker_epoch of
        None \<Rightarrow> False
      | Some m \<Rightarrow> if m = '''' then False else m \<noteq> current_trimmed)"

subsection \<open>Markers\<close>

definition parse_requested_at :: "TimeParsers \<Rightarrow> string \<Rightarrow> int option" where
  "parse_requested_at p raw =
     (case tp_rfc3339 p raw of
        Some t \<Rightarrow> Some t
      | None \<Rightarrow>
          (case tp_naive p ''%Y-%m-%dT%H:%M:%S%.f'' raw of
             Some t \<Rightarrow> Some t
           | None \<Rightarrow>
               (case tp_naive p ''%Y-%m-%d %H:%M:%S%.f'' raw of
                  Some t \<Rightarrow> Some t
                | None \<Rightarrow> tp_date p raw)))"

definition validate_marker_at ::
  "(string \<Rightarrow> DrainRequest option) \<Rightarrow> TimeParsers \<Rightarrow> DrainRequest \<Rightarrow> string \<Rightarrow> string \<Rightarrow> int \<Rightarrow> DrainRequest option" where
  "validate_marker_at from_json p dflt content current_epoch now =
     (let trimmed = trim content in
      if trimmed = '''' then Some dflt
      else case from_json trimmed of
        Some req \<Rightarrow>
          if dr_action req \<noteq> ''drain'' then None
          else if is_marker_epoch_stale (dr_epoch req) current_epoch then None
          else (case Option.bind (dr_requested_at req) (parse_requested_at p) of
                  Some requested_at \<Rightarrow> if now - requested_at > drain_request_max_age then None else Some req
                | None \<Rightarrow> Some req)
      | None \<Rightarrow> Some \<lparr>dr_action = ''drain'', dr_requested_at = None, dr_principal = Some ''malformed-marker'',
                     dr_epoch = None, dr_suppress_notification = False\<rparr>)"

definition check_drain_requested_at ::
  "(string \<Rightarrow> DrainRequest option) \<Rightarrow> TimeParsers \<Rightarrow> DrainRequest \<Rightarrow> Marker \<Rightarrow> string \<Rightarrow> int \<Rightarrow> DrainRequest option" where
  "check_drain_requested_at from_json p dflt marker current_epoch now =
     (case marker of
        Absent \<Rightarrow> None
      | Content content \<Rightarrow> validate_marker_at from_json p dflt content current_epoch now
      | Unreadable \<Rightarrow> Some \<lparr>dr_action = ''drain'', dr_requested_at = None, dr_principal = Some ''unreadable-marker'',
                         dr_epoch = None, dr_suppress_notification = False\<rparr>)"

text \<open>The file is written beside the marker and renamed over it.\<close>

definition write_drain_request ::
  "(DrainRequest \<Rightarrow> string + string) \<Rightarrow> (int \<Rightarrow> string) \<Rightarrow> string option \<Rightarrow> string option \<Rightarrow> int \<Rightarrow> string \<Rightarrow>
   string option \<Rightarrow> bool \<Rightarrow> Marker \<Rightarrow> OmonError + (Marker \<times> DrainRequest)" where
  "write_drain_request to_json to_rfc3339 write_error rename_error now epoch who suppress marker =
     (let req = \<lparr>dr_action = ''drain'', dr_requested_at = Some (to_rfc3339 now), dr_principal = who,
                 dr_epoch = Some epoch, dr_suppress_notification = suppress\<rparr> in
      case to_json req of
        Inl e \<Rightarrow> Inl (Config (''failed to serialize drain request: '' @ e))
      | Inr payload \<Rightarrow>
          (case write_error of
             Some e \<Rightarrow> Inl (Config (''failed to write drain request temp file: '' @ e))
           | None \<Rightarrow>
               (case rename_error of
                  Some e \<Rightarrow> Inl (Config (''failed to commit drain request marker: '' @ e))
                | None \<Rightarrow> Inr (Content payload, req))))"

definition clear_drain_request :: "string option \<Rightarrow> Marker \<Rightarrow> OmonError + (Marker \<times> bool)" where
  "clear_drain_request remove_error marker =
     (if marker \<noteq> Absent then
        (case remove_error of
           Some e \<Rightarrow> Inl (Config (''failed to remove drain request marker: '' @ e))
         | None \<Rightarrow> Inr (Absent, True))
      else Inr (marker, False))"

text \<open>One scan: the new flag, whether its watchers are woken, and the answer.\<close>

definition scan_at ::
  "(string \<Rightarrow> DrainRequest option) \<Rightarrow> TimeParsers \<Rightarrow> DrainRequest \<Rightarrow> Marker \<Rightarrow> string \<Rightarrow> int \<Rightarrow> bool \<Rightarrow> bool \<times> bool \<times> bool" where
  "scan_at from_json p dflt marker epoch now flag =
     (case check_drain_requested_at from_json p dflt marker epoch now of
        Some _ \<Rightarrow> (if \<not> flag then (True, True, True) else (flag, False, True))
      | None \<Rightarrow> (if flag then (False, True, False) else (flag, False, False)))"

subsection \<open>Properties\<close>

lemma scan_flag: "scan_at from_json p dflt marker epoch now flag = (d, w, r) \<Longrightarrow> d = r \<and> w = (flag \<noteq> d)"
  by (auto simp: scan_at_def split: option.splits if_splits)

lemma scan_fails_closed:
  assumes "scan_at from_json p dflt marker epoch now flag = (d, w, False)" and "marker \<noteq> Absent"
  obtains content req where "marker = Content content" "from_json (trim content) = Some req"
    "dr_action req \<noteq> ''drain'' \<or> is_marker_epoch_stale (dr_epoch req) epoch \<or>
     (\<exists>t. Option.bind (dr_requested_at req) (parse_requested_at p) = Some t \<and> now - t > drain_request_max_age)"
  using assms
  by (auto simp: scan_at_def check_drain_requested_at_def validate_marker_at_def Let_def
      split: option.splits if_splits Marker.splits)

text \<open>A drain request that was written is seen by every scan of the same instance for an hour
  and by no scan after that; the published flag is always the answer of the last scan; removing
  the marker ends the drain; and a marker that is unreadable, empty or malformed counts as a
  request, so that only a well-formed one can be ignored.\<close>

theorem drain_request_lifecycle:
  assumes codec: "\<And>r payload. to_json r = Inr payload \<Longrightarrow> from_json (trim payload) = Some r \<and> trim payload \<noteq> ''''"
    and clock: "tp_rfc3339 p (to_rfc3339 asked_at) = Some asked_at"
    and written: "write_drain_request to_json to_rfc3339 we re asked_at epoch who suppress marker = Inr (marker', req)"
  shows "(\<forall>now flag. scan_at from_json p dflt marker' epoch now flag =
      (let draining = (now - asked_at \<le> drain_request_max_age) in (draining, flag \<noteq> draining, draining))) \<and>
    clear_drain_request None marker' = Inr (Absent, True) \<and>
    (\<forall>now flag. scan_at from_json p dflt Absent epoch now flag = (False, flag, False)) \<and>
    (\<forall>any now flag. any \<noteq> Absent \<longrightarrow> snd (snd (scan_at from_json p dflt any epoch now flag)) = False \<longrightarrow>
       (\<exists>content r. any = Content content \<and> from_json (trim content) = Some r))"
proof -
  obtain payload where req: "to_json req = Inr payload" "marker' = Content payload"
      "dr_action req = ''drain''" "dr_requested_at req = Some (to_rfc3339 asked_at)" "dr_epoch req = Some epoch"
    using written by (auto simp: write_drain_request_def Let_def split: sum.splits option.splits)
  have "\<not> is_marker_epoch_stale (dr_epoch req) epoch" by (simp add: is_marker_epoch_stale_def req Let_def)
  moreover have "Option.bind (dr_requested_at req) (parse_requested_at p) = Some asked_at"
    using clock by (simp add: req parse_requested_at_def)
  ultimately have check: "check_drain_requested_at from_json p dflt marker' epoch now =
      (if now - asked_at > drain_request_max_age then None else Some req)" for now
    using codec [OF req(1)] req by (simp add: check_drain_requested_at_def validate_marker_at_def Let_def)
  have "scan_at from_json p dflt marker' epoch now flag =
      (let draining = (now - asked_at \<le> drain_request_max_age) in (draining, flag \<noteq> draining, draining))" for now flag
    by (auto simp: scan_at_def check Let_def)
  moreover have "clear_drain_request None marker' = Inr (Absent, True)"
    by (simp add: clear_drain_request_def req)
  moreover have "scan_at from_json p dflt Absent epoch now flag = (False, flag, False)" for now flag
    by (simp add: scan_at_def check_drain_requested_at_def)
  moreover have "\<exists>content r. any = Content content \<and> from_json (trim content) = Some r"
    if "any \<noteq> Absent" "snd (snd (scan_at from_json p dflt any epoch now flag)) = False" for any now flag
    using that scan_fails_closed [of from_json p dflt any epoch now flag] by (metis prod.collapse)
  ultimately show ?thesis by blast
qed

theorem drain_request_lifecycle_witness:
  "let req = \<lparr>dr_action = ''drain'', dr_requested_at = Some ''5'', dr_principal = Some ''operator'',
               dr_epoch = Some ''boot:1'', dr_suppress_notification = False\<rparr>;
       from_json = (\<lambda>s. if s = ''{}'' then Some req else None);
       p = \<lparr>tp_rfc3339 = (\<lambda>_. Some 5), tp_naive = (\<lambda>_ _. None), tp_date = (\<lambda>_. None)\<rparr>
   in snd (snd (scan_at from_json p req (Content ''{}'') ''boot:1'' (5 + drain_request_max_age) False)) \<and>
      \<not> snd (snd (scan_at from_json p req (Content ''{}'') ''boot:1'' (6 + drain_request_max_age) True))"
proof -
  let ?req = "\<lparr>dr_action = ''drain'', dr_requested_at = Some ''5'', dr_principal = Some ''operator'',
               dr_epoch = Some ''boot:1'', dr_suppress_notification = False\<rparr>"
  let ?from = "\<lambda>s. if s = ''{}'' then Some ?req else None"
  let ?to = "\<lambda>r. if r = ?req then Inr ''{}'' else Inl ''unsupported''"
  let ?p = "\<lparr>tp_rfc3339 = (\<lambda>_. Some 5), tp_naive = (\<lambda>_ _. None), tp_date = (\<lambda>_. None)\<rparr>"
  have t: "trim ''{}'' = ''{}''" by code_simp
  have codec: "?from (trim payload) = Some r \<and> trim payload \<noteq> ''''" if "?to r = Inr payload" for r payload
    using that t by (auto split: if_splits)
  have written: "write_drain_request ?to (\<lambda>_. ''5'') None None 5 ''boot:1'' (Some ''operator'') False Absent =
      Inr (Content ''{}'', ?req)"
    by (simp add: write_drain_request_def Let_def)
  have "scan_at ?from ?p ?req (Content ''{}'') ''boot:1'' now flag =
      (let draining = (now - 5 \<le> drain_request_max_age) in (draining, flag \<noteq> draining, draining))" for now flag
    using drain_request_lifecycle [of ?to ?from ?p "\<lambda>_. ''5''" 5, OF codec _ written, where dflt = ?req] by simp
  then show ?thesis unfolding Let_def by simp
qed

end
