(* ===== verification/Json_Value.thy ===== *)
theory Json_Value
  imports Gateway_Prelude "HOL-Library.AList"
begin

section \<open>Reading and updating JSON values\<close>

text \<open>
  The accessors of \<open>serde_json::Value\<close> the cron component uses: \<open>get\<close> of a member (nothing on a
  value that is not an object), the \<open>as_...\<close> views, and \<open>insert\<close> into an object.  A \<open>u64\<close> or
  \<open>i64\<close> view is empty outside its range.
\<close>

fun json_get :: "string \<Rightarrow> json \<Rightarrow> json option" where
  "json_get k (JObj m) = map_of m k"
| "json_get k _ = None"

fun as_str :: "json \<Rightarrow> string option" where
  "as_str (JStr s) = Some s"
| "as_str _ = None"

fun as_bool :: "json \<Rightarrow> bool option" where
  "as_bool (JBool b) = Some b"
| "as_bool _ = None"

fun as_array :: "json \<Rightarrow> json list option" where
  "as_array (JArr vs) = Some vs"
| "as_array _ = None"

fun as_object :: "json \<Rightarrow> (string \<times> json) list option" where
  "as_object (JObj m) = Some m"
| "as_object _ = None"

fun as_u64 :: "json \<Rightarrow> nat option" where
  "as_u64 (JNum n) = (if 0 \<le> n \<and> n < 2 ^ 64 then Some (nat n) else None)"
| "as_u64 _ = None"

fun as_i64 :: "json \<Rightarrow> int option" where
  "as_i64 (JNum n) = (if - (2 ^ 63) \<le> n \<and> n < 2 ^ 63 then Some n else None)"
| "as_i64 _ = None"

text \<open>\<open>Map::insert\<close>, and its use behind \<open>as_object_mut\<close>: nothing happens to another value.\<close>

fun json_insert :: "string \<Rightarrow> json \<Rightarrow> json \<Rightarrow> json" where
  "json_insert k v (JObj m) = JObj (AList.update k v m)"
| "json_insert k v j = j"

abbreviation get_str :: "string \<Rightarrow> json \<Rightarrow> string option" where
  "get_str k j \<equiv> Option.bind (json_get k j) as_str"

abbreviation get_u64 :: "string \<Rightarrow> json \<Rightarrow> nat option" where
  "get_u64 k j \<equiv> Option.bind (json_get k j) as_u64"

abbreviation get_bool :: "string \<Rightarrow> json \<Rightarrow> bool option" where
  "get_bool k j \<equiv> Option.bind (json_get k j) as_bool"

definition is_object :: "json \<Rightarrow> bool" where
  "is_object j \<longleftrightarrow> as_object j \<noteq> None"

lemma is_object_simps [simp]:
  "is_object (JObj m)" "\<not> is_object JNull" "\<not> is_object (JBool b)" "\<not> is_object (JNum n)"
  "\<not> is_object (JStr s)" "\<not> is_object (JArr vs)"
  by (simp_all add: is_object_def)

lemma is_objectE: "is_object j \<Longrightarrow> (\<And>m. j = JObj m \<Longrightarrow> P) \<Longrightarrow> P"
  by (cases j) auto

lemma json_get_None: "\<not> is_object j \<Longrightarrow> json_get k j = None"
  by (cases j) auto

lemma json_get_insert [simp]:
  "is_object j \<Longrightarrow> json_get k (json_insert k' v j) = (if k = k' then Some v else json_get k j)"
  by (cases j) (auto simp: update_conv')

lemma is_object_insert [simp]: "is_object (json_insert k v j) = is_object j"
  by (cases j) auto

lemma json_insert_not_object [simp]: "\<not> is_object j \<Longrightarrow> json_insert k v j = j"
  by (cases j) auto

lemma as_u64_bound: "as_u64 j = Some n \<Longrightarrow> n < 2 ^ 64"
  by (cases j) (auto split: if_splits)

lemma as_u64_num [simp]:
  assumes "n < 2 ^ 64"
  shows "as_u64 (JNum (int n)) = Some n"
proof -
  have "int n < int (2 ^ 64)" using assms by (simp only: of_nat_less_iff)
  then have "int n < 2 ^ 64" by (simp only: of_nat_power of_nat_numeral)
  then show ?thesis by simp
qed

end
