(* ===== verification/Cron_Schedule.thy ===== *)
theory Cron_Schedule
  imports Json_Value Gateway_Events
begin

section \<open>When a cron job runs\<close>

text \<open>
  The pure half of \<open>src/cron/scheduler.rs\<close>: the three kinds of schedule expression and the next
  instant of each, the back-off after failures, the counter of a limited job, and the texts a job
  leaves behind (silence markers, the wake gate, the output handed to a following job).

  An instant or a duration is a number of nanoseconds.  \<open>CronLib\<close> collects what the code takes from
  other crates: chrono's RFC 3339 parser, the \<open>cron\<close> crate's expressions with the first instant
  after one in a time zone, the names of the zone database, the JSON codec, the Unicode case tables
  and the compiled regular expressions; \<open>prompt_threats\<close> is the prompt scanner of \<open>security/scan.rs\<close>.  \<open>DateTime\<close> plus a
  duration panics past the last instant chrono can represent, so the results here are an error, a
  panic or a value.
\<close>

datatype CronFault = Fault OmonError | Panic

record CronLib =
  parse_from_rfc3339 :: "string \<Rightarrow> string + int"
  schedule_from_str :: "string \<Rightarrow> string + (string \<Rightarrow> int \<Rightarrow> int option)"
  tz_parse :: "string \<Rightarrow> string option"
  json_from_str :: "string \<Rightarrow> string + json"
  json_to_string :: "json \<Rightarrow> string"
  to_rfc3339 :: "int \<Rightarrow> string"
  str_to_lowercase :: "string \<Rightarrow> string"
  str_to_uppercase :: "string \<Rightarrow> string"
  lifecycle_patterns :: "(string \<times> (string \<Rightarrow> bool)) list"
  prompt_threats :: "string \<Rightarrow> string list"

text \<open>The zone \<open>UTC\<close>, the greatest \<open>DateTime<Utc>\<close> (the last nanosecond of the year 262142) and the
  greatest \<open>TimeDelta\<close>.\<close>

abbreviation utc :: string where "utc \<equiv> ''UTC''"

abbreviation second_ns :: int where "second_ns \<equiv> 1000000000"

abbreviation max_utc :: int where "max_utc \<equiv> 8210266876799999999999"

abbreviation max_time_delta :: int where "max_time_delta \<equiv> 9223372036854775807000000"

text \<open>Thirty minutes, two hours, two minutes.\<close>

abbreviation lease_duration :: int where "lease_duration \<equiv> 1800000000000"
abbreviation stale_lease_safety_net :: int where "stale_lease_safety_net \<equiv> 7200000000000"
abbreviation oneshot_grace_duration :: int where "oneshot_grace_duration \<equiv> 120000000000"

subsection \<open>Reclaiming an expired lease\<close>

definition should_reclaim_with :: "nat option \<Rightarrow> bool \<Rightarrow> int \<Rightarrow> (nat \<Rightarrow> bool) \<Rightarrow> bool" where
  "should_reclaim_with owner_pid lease_expired lease_age is_alive =
     (if \<not> lease_expired then False
      else if lease_age \<ge> stale_lease_safety_net then True
      else case owner_pid of None \<Rightarrow> True | Some pid \<Rightarrow> pid = 0 \<or> \<not> is_alive pid)"

subsection \<open>Expressions\<close>

definition u64_saturating_mul :: "nat \<Rightarrow> nat \<Rightarrow> nat" where
  "u64_saturating_mul a b = min (a * b) (2 ^ 64 - 1)"

definition interval_unit :: "nat \<Rightarrow> string \<Rightarrow> int option" where
  "interval_unit amount u =
     (let secs = (\<lambda>n. Some (int n * second_ns)) in
      if u = ''ms'' then Some (int amount * 1000000)
      else if u \<in> {''s'', ''sec'', ''secs''} then secs amount
      else if u \<in> {''m'', ''min'', ''mins''} then secs (u64_saturating_mul amount 60)
      else if u \<in> {''h'', ''hr'', ''hrs''} then secs (u64_saturating_mul amount 3600)
      else if u \<in> {''d'', ''day'', ''days''} then secs (u64_saturating_mul amount 86400)
      else None)"

definition parse_interval :: "string \<Rightarrow> OmonError + int option" where
  "parse_interval expression =
     (case or_else (strip_prefix ''interval:'' expression)
            (or_else (strip_prefix ''@every '' expression) (strip_prefix ''every '' expression)) of
        None \<Rightarrow> Inr None
      | Some raw \<Rightarrow>
          let v = trim raw; number = takeWhile is_digit v; unit = dropWhile is_digit v in
          case parse_u64 number of
            None \<Rightarrow> Inl (Config (''invalid interval expression `'' @ expression))
          | Some amount \<Rightarrow>
              if amount = 0 then Inl (Config ''cron interval must be greater than zero'')
              else case interval_unit amount (trim unit) of
                None \<Rightarrow> Inl (Config (''invalid interval unit in `'' @ expression @ ''`''))
              | Some d \<Rightarrow> Inr (Some d))"

definition normalize_cron_expression :: "string \<Rightarrow> string" where
  "normalize_cron_expression expression =
     (if length (split_whitespace expression) = 5 then ''0 '' @ expression else expression)"

text \<open>\<open>DateTime + TimeDelta\<close>.\<close>

definition add_time :: "int \<Rightarrow> int \<Rightarrow> CronFault + int" where
  "add_time t d = (if t + d > max_utc then Inl Panic else Inr (t + d))"

definition lift_err :: "OmonError + 'a \<Rightarrow> CronFault + 'a" where
  "lift_err r = (case r of Inl e \<Rightarrow> Inl (Fault e) | Inr a \<Rightarrow> Inr a)"

definition next_in_zone :: "CronLib \<Rightarrow> string \<Rightarrow> string \<Rightarrow> int \<Rightarrow> CronFault + int" where
  "next_in_zone L expression zone after =
     (case schedule_from_str L (normalize_cron_expression expression) of
        Inl error \<Rightarrow> Inl (Fault (Config (''invalid cron expression `'' @ expression @ ''`: '' @ error)))
      | Inr schedule \<Rightarrow>
          lift_err (ok_or (Config (''cron expression `'' @ expression @ ''` has no next run''))
            (schedule zone after)))"

definition next_run :: "CronLib \<Rightarrow> string \<Rightarrow> int \<Rightarrow> CronFault + int" where
  "next_run L expression after =
     (case strip_prefix ''once:'' expression of
        Some timestamp \<Rightarrow>
          (case parse_from_rfc3339 L timestamp of
             Inl error \<Rightarrow> Inl (Fault (Config (''invalid one-shot timestamp `'' @ timestamp @ ''`: '' @ error)))
           | Inr ts \<Rightarrow>
               if ts \<ge> after then Inr ts
               else if after - ts \<le> oneshot_grace_duration then Inr ts
               else Inl (Fault (Config (''one-shot timestamp `'' @ timestamp @
                      ''` is more than 120s in the past and cannot be scheduled''))))
      | None \<Rightarrow>
          and_then (lift_err (parse_interval expression)) (\<lambda>interval.
            case interval of
              Some d \<Rightarrow>
                if d > max_time_delta then Inl (Fault (Config ''cron interval is too large''))
                else add_time after d
            | None \<Rightarrow> next_in_zone L expression utc after))"

definition next_run_tz :: "CronLib \<Rightarrow> string \<Rightarrow> int \<Rightarrow> string option \<Rightarrow> CronFault + int" where
  "next_run_tz L expression after timezone =
     (case Option.bind timezone (\<lambda>name. if trim name = '''' then None else Some (trim name)) of
        None \<Rightarrow> next_run L expression after
      | Some tz_name \<Rightarrow>
          if starts_with ''once:'' expression then next_run L expression after
          else and_then (lift_err (parse_interval expression)) (\<lambda>interval.
            if interval \<noteq> None then next_run L expression after
            else case tz_parse L tz_name of
              None \<Rightarrow> Inl (Fault (Config (''invalid timezone `'' @ tz_name @ ''`'')))
            | Some tz \<Rightarrow> next_in_zone L expression tz after))"

subsection \<open>Back-off\<close>

definition failure_backoff_duration :: "nat \<Rightarrow> int" where
  "failure_backoff_duration consecutive_failures =
     (if consecutive_failures = 0 then 0
      else let exponent = min (consecutive_failures - 1) 10;
               multiplier = (if exponent < 64 then 2 ^ exponent mod 2 ^ 64 else 1024);
               seconds = max 10 (min 3600 (u64_saturating_mul 10 multiplier))
           in int seconds * second_ns)"

definition next_run_after_failure ::
  "CronLib \<Rightarrow> string \<Rightarrow> int \<Rightarrow> nat \<Rightarrow> CronFault + int option" where
  "next_run_after_failure L expression now consecutive_failures =
     (if starts_with ''once:'' expression then Inr None
      else and_then (next_run L expression now) (\<lambda>scheduled_next.
        and_then (add_time now (failure_backoff_duration consecutive_failures)) (\<lambda>backoff_next.
          Inr (Some (max scheduled_next backoff_next)))))"

subsection \<open>Limited jobs\<close>

definition should_disable_after :: "nat \<Rightarrow> nat option \<Rightarrow> bool" where
  "should_disable_after completed n_times =
     (case n_times of Some limit \<Rightarrow> if limit > 0 then completed \<ge> limit else False | None \<Rightarrow> False)"

definition unwrap_or :: "'a \<Rightarrow> 'a option \<Rightarrow> 'a" where
  "unwrap_or d x = (case x of Some a \<Rightarrow> a | None \<Rightarrow> d)"

definition extract_repeat_info :: "json \<Rightarrow> nat option \<times> nat" where
  "extract_repeat_info payload =
     (case json_get ''repeat'' payload of
        Some r \<Rightarrow> (get_u64 ''times'' r, unwrap_or 0 (get_u64 ''completed'' r))
      | None \<Rightarrow> (get_u64 ''times'' payload, unwrap_or 0 (get_u64 ''completed'' payload)))"

text \<open>The counter is a \<open>u64\<close>; the increment wraps.\<close>

definition succ_u64 :: "nat \<Rightarrow> nat" where
  "succ_u64 n = (n + 1) mod 2 ^ 64"

definition increment_repeat_completed :: "json \<Rightarrow> json \<times> nat option \<times> nat" where
  "increment_repeat_completed payload =
     (let top = (let n_times = get_u64 ''times'' payload;
                     completed = succ_u64 (unwrap_or 0 (get_u64 ''completed'' payload))
                 in (if n_times \<noteq> None
                     then json_insert ''completed'' (JNum (int completed)) payload
                     else json_insert ''repeat'' (JObj [(''completed'', JNum (int completed))]) payload,
                     n_times, completed))
      in case json_get ''repeat'' payload of
           Some r \<Rightarrow>
             if is_object r then
               let n_times = get_u64 ''times'' r; completed = succ_u64 (unwrap_or 0 (get_u64 ''completed'' r))
               in (json_insert ''repeat'' (json_insert ''completed'' (JNum (int completed)) r) payload,
                   n_times, completed)
             else top
         | None \<Rightarrow> top)"

subsection \<open>Texts of a job\<close>

definition is_valid_context_job_id :: "string \<Rightarrow> bool" where
  "is_valid_context_job_id job_id \<longleftrightarrow>
     job_id \<noteq> '''' \<and> \<not> contains ''..'' job_id \<and> CHR ''/'' \<notin> set job_id \<and> CHR 0x5C \<notin> set job_id"

definition parse_context_from_ids :: "json option \<Rightarrow> string list" where
  "parse_context_from_ids context_from =
     (case context_from of
        None \<Rightarrow> []
      | Some (JStr s) \<Rightarrow> if is_valid_context_job_id (trim s) then [trim s] else []
      | Some (JArr arr) \<Rightarrow> filter is_valid_context_job_id (map trim (List.map_filter as_str arr))
      | Some _ \<Rightarrow> [])"

abbreviation max_context_chars :: nat where "max_context_chars \<equiv> 8000"

definition truncate_context_output :: "string \<Rightarrow> nat \<Rightarrow> string" where
  "truncate_context_output output max_chars =
     (if length (chars output) > max_chars
      then concat (take max_chars (chars output)) @ [CHR 0x0A, CHR 0x0A] @ ''[... output truncated ...]''
      else output)"

definition format_context_from_block :: "string \<Rightarrow> string \<Rightarrow> string" where
  "format_context_from_block job_id output =
     ''## Output from job '' @ [CHR 0x27] @ job_id @ [CHR 0x27, CHR 0x0A] @
     ''The following is the most recent output from a preceding cron job. Use it as context for your analysis.'' @
     [CHR 0x0A, CHR 0x0A] @ ''```'' @ [CHR 0x0A] @ output @ [CHR 0x0A] @ ''```''"

definition parse_wake_gate :: "CronLib \<Rightarrow> string \<Rightarrow> bool" where
  "parse_wake_gate L stdout =
     (case rev (filter (\<lambda>l. l \<noteq> '''') (map trim (lines stdout))) of
        [] \<Rightarrow> True
      | last_line # _ \<Rightarrow>
          let plain =
            (let lower = to_ascii_lowercase last_line in
             \<not> (lower = ''wakeagent: false'' \<or> lower = ''wake_agent: false''
                \<or> lower = ''{\"wakeagent\": false}'' \<or> lower = ''{\"wakeagent\":false}''))
          in case json_from_str L last_line of
               Inr v \<Rightarrow>
                 (case Option.bind (or_else (json_get ''wakeAgent'' v) (json_get ''wake_agent'' v)) as_bool of
                    Some b \<Rightarrow> b
                  | None \<Rightarrow> plain)
             | Inl _ \<Rightarrow> plain)"

definition cron_silence_tokens :: "string list" where
  "cron_silence_tokens = [''[SILENT]'', ''SILENT'', ''NO_REPLY'', ''NO REPLY'']"

definition is_silence_token_line :: "CronLib \<Rightarrow> string \<Rightarrow> bool" where
  "is_silence_token_line L line \<longleftrightarrow>
     str_to_uppercase L (join '' '' (split_whitespace line)) \<in> set cron_silence_tokens"

definition is_cron_silence_response :: "CronLib \<Rightarrow> string \<Rightarrow> bool" where
  "is_cron_silence_response L text =
     (let stripped = trim text in
      if stripped = '''' then True
      else if is_silence_token_line L stripped then True
      else let ls = filter (\<lambda>l. l \<noteq> '''') (map trim (lines stripped)) in
        if ls \<noteq> [] \<and> is_silence_token_line L (hd ls) then True
        else if ls \<noteq> [] \<and> is_silence_token_line L (last ls) then True
        else starts_with ''[SILENT]'' (str_to_uppercase L stripped))"

section \<open>Properties of schedules\<close>

lemma lift_err_simps [simp]:
  "lift_err (Inl e) = Inl (Fault e)" "lift_err (Inr a) = Inr a"
  by (simp_all add: lift_err_def)

lemma unwrap_or_simps [simp]: "unwrap_or d None = d" "unwrap_or d (Some a) = a"
  by (simp_all add: unwrap_or_def)

lemma add_time_Inr_iff: "add_time t d = Inr u \<longleftrightarrow> u = t + d \<and> t + d \<le> max_utc"
  by (auto simp: add_time_def)

lemma interval_unit_pos:
  assumes "interval_unit amount u = Some d" and "amount > 0"
  shows "d > 0"
proof -
  have "u64_saturating_mul amount k > 0" if "k > 0" for k
    using assms(2) that by (simp add: u64_saturating_mul_def)
  from this [of 60] this [of 3600] this [of 86400] show ?thesis
    using assms by (auto simp: interval_unit_def Let_def split: if_splits)
qed

lemma parse_interval_pos: "parse_interval e = Inr (Some d) \<Longrightarrow> d > 0"
  by (auto simp: parse_interval_def Let_def interval_unit_pos split: option.splits if_splits)

text \<open>The contract of the \<open>cron\<close> crate: the next instant of a schedule is a later one.\<close>

definition schedules_forward :: "CronLib \<Rightarrow> bool" where
  "schedules_forward L \<longleftrightarrow>
     (\<forall>e s z t u. schedule_from_str L e = Inr s \<longrightarrow> s z t = Some u \<longrightarrow> u > t)"

lemma next_in_zone_later:
  "schedules_forward L \<Longrightarrow> next_in_zone L e z t = Inr u \<Longrightarrow> u > t"
  by (auto simp: next_in_zone_def schedules_forward_def ok_or_def lift_err_def split: sum.splits option.splits)

lemma next_run_later:
  assumes "schedules_forward L" and "next_run L e t = Inr u"
  shows "u \<ge> t - oneshot_grace_duration \<and> (\<not> starts_with ''once:'' e \<longrightarrow> u > t)"
proof (cases "strip_prefix ''once:'' e")
  case (Some ts)
  then show ?thesis
    using assms(2) by (auto simp: next_run_def strip_prefix_def split: sum.splits if_splits)
next
  case None
  with assms(2) obtain i where i: "parse_interval e = Inr i"
    by (cases "parse_interval e") (auto simp: next_run_def)
  with None assms(2) have u: "(case i of Some d \<Rightarrow>
       if d > max_time_delta then Inl (Fault (Config ''cron interval is too large'')) else add_time t d
     | None \<Rightarrow> next_in_zone L e utc t) = Inr u"
    by (simp add: next_run_def)
  have "u > t"
  proof (cases i)
    case None
    with u next_in_zone_later [OF assms(1)] show ?thesis by simp
  next
    case (Some d)
    with u have "u = t + d" by (auto simp: add_time_Inr_iff split: if_splits)
    with parse_interval_pos [of e d] i Some show ?thesis by simp
  qed
  then show ?thesis by simp
qed

text \<open>A computed run is never in the past of the clock, save a one-shot that is at most
  two minutes late; a repeating schedule gives a strictly later instant in every time zone.\<close>

theorem next_run_tz_later:
  assumes "schedules_forward L" and "next_run_tz L e t timezone = Inr u"
  shows "u \<ge> t - oneshot_grace_duration \<and> (\<not> starts_with ''once:'' e \<longrightarrow> u > t)"
proof (cases "next_run_tz L e t timezone = next_run L e t")
  case True
  with assms next_run_later show ?thesis by simp
next
  case False
  with assms(2) obtain z where "next_in_zone L e z t = Inr u"
    by (auto simp: next_run_tz_def and_then_Inr_iff split: option.splits if_splits)
  from next_in_zone_later [OF assms(1) this] show ?thesis by simp
qed

text \<open>A library in which every expression fires each minute in every zone, for the witnesses.\<close>

definition minutely :: CronLib where
  "minutely = \<lparr>parse_from_rfc3339 = (\<lambda>s. Inr 0), schedule_from_str = (\<lambda>e. Inr (\<lambda>z t. Some (t + 60000000000))),
     tz_parse = Some, json_from_str = (\<lambda>s. Inr (JObj [(''text'', JStr s)])), json_to_string = (\<lambda>j. ''json''),
     to_rfc3339 = (\<lambda>t. dec (nat t)), str_to_lowercase = to_ascii_lowercase, str_to_uppercase = id,
     lifecycle_patterns = [], prompt_threats = (\<lambda>s. [])\<rparr>"

lemma minutely_forward: "schedules_forward minutely"
  by (simp add: schedules_forward_def minutely_def)

theorem next_run_tz_later_witness:
  "next_run_tz minutely ''* * * * *'' 5 (Some ''Asia/Seoul'') = Inr 60000000005 \<and> (60000000005 :: int) > 5"
proof -
  have "next_run_tz minutely ''* * * * *'' 5 (Some ''Asia/Seoul'') = Inr 60000000005"
    by code_simp
  with next_run_tz_later [OF minutely_forward this] show ?thesis by simp
qed

subsection \<open>Intervals\<close>

lemma not_cont_digit: "is_digit c \<Longrightarrow> \<not> is_cont c \<and> \<not> is_whitespace [c]"
proof -
  assume "is_digit c"
  then have "of_char c \<in> {48, 49, 50, 51, 52, 53, 54, 55, 56, 57 :: nat}"
    by (simp add: is_digit_def byte_val_def) presburger
  moreover have "c = char_of (of_char c :: nat)" by simp
  ultimately have "c \<in> set ''0123456789''" by (elim insertE emptyE) (simp_all add: char_of_def bit_0)
  then show ?thesis
    by (auto simp: is_cont_def is_whitespace_def unicode_whitespace_def)
qed

lemma parse_minutes:
  assumes "n < 2 ^ 64"
  shows "parse_interval (''interval:'' @ dec n @ ''m'') =
    (if n = 0 then Inl (Config ''cron interval must be greater than zero'')
     else Inr (Some (int (u64_saturating_mul n 60) * second_ns)))"
proof -
  let ?v = "dec n @ ''m''"
  have digits: "list_all is_digit (dec n)" by (rule dec_digits)
  have m: "\<not> is_cont (CHR ''m'')" "\<not> is_whitespace ''m''" "\<not> is_digit (CHR ''m'')"
    by (simp_all add: is_cont_def is_whitespace_def unicode_whitespace_def is_digit_def byte_val_def)
  have "is_digit (hd (dec n))" using digits dec_nonempty [of n] by (cases "dec n") auto
  then have v: "trim ?v = ?v"
    using digits m by (intro trim_ascii) (auto simp: list_all_iff not_cont_digit hd_append)
  have split: "takeWhile is_digit ?v = dec n" "dropWhile is_digit ?v = ''m''"
    using digits m(3) by (auto simp: takeWhile_append dropWhile_append list_all_iff)
  have "trim ''m'' = ''m''"
    using m by (intro trim_ascii) simp_all
  moreover have "strip_prefix ''interval:'' (''interval:'' @ ?v) = Some ?v"
    by (simp add: strip_prefix_def)
  ultimately show ?thesis
    using v split parse_uint_dec [OF assms]
    by (simp add: parse_interval_def interval_unit_def Let_def)
qed

text \<open>Every outcome of scheduling an interval of minutes, the overflow ones included: zero
  is refused, the product saturates at the width of the counter, an interval longer than the
  duration type is refused, one that leads past the last representable instant panics, and every
  other one is exact.\<close>

theorem minute_interval_outcome:
  assumes "n < 2 ^ 64"
  shows "next_run L (''interval:'' @ dec n @ ''m'') t =
    (let d = int (min (n * 60) (2 ^ 64 - 1)) * second_ns in
     if n = 0 then Inl (Fault (Config ''cron interval must be greater than zero''))
     else if d > max_time_delta then Inl (Fault (Config ''cron interval is too large''))
     else if t + d > max_utc then Inl Panic
     else Inr (t + d))"
proof -
  have "strip_prefix ''once:'' (''interval:'' @ dec n @ ''m'') = None"
    by (simp add: strip_prefix_def)
  then show ?thesis
    unfolding next_run_def Let_def u64_saturating_mul_def [symmetric]
    by (simp only: option.case parse_minutes [OF assms]) (simp add: add_time_def)
qed

theorem minute_interval_outcome_witness:
  "next_run minutely ''interval:5m'' 7 = Inr 300000000007 \<and>
   next_run minutely ''interval:150000000000m'' 7 = Inl Panic"
proof -
  have "dec 5 = ''5''" "dec 150000000000 = ''150000000000''"
    by (simp_all add: dec.simps digit_char_def char_of_def bit_0)
  then show ?thesis
    using minute_interval_outcome [of 5 minutely 7] minute_interval_outcome [of 150000000000 minutely 7]
    by (simp add: Let_def)
qed

subsection \<open>Back-off\<close>

lemma backoff_reference:
  "failure_backoff_duration n = (if n = 0 then 0 else min 3600 (10 * 2 ^ (n - 1)) * second_ns)"
proof (cases "n - 1 < 10")
  case True
  then have "n \<in> {0, 1, 2, 3, 4, 5, 6, 7, 8, 9, 10}" by simp presburger
  then show ?thesis
    by (elim insertE emptyE) (simp_all add: failure_backoff_duration_def u64_saturating_mul_def)
next
  case False
  then have "(2::int) ^ 10 \<le> 2 ^ (n - 1)" by (intro power_increasing) simp_all
  with False show ?thesis
    by (simp add: failure_backoff_duration_def u64_saturating_mul_def min_def)
qed

text \<open>After \<open>n\<close> failures in a row the next attempt waits at least ten seconds doubled for
  each failure before, an hour at most, and is otherwise the scheduled one; a one-shot is not
  attempted again.\<close>

theorem retry_after_backoff:
  assumes "n > 0" and "next_run_after_failure L e t n = Inr r"
  shows "(starts_with ''once:'' e \<and> r = None) \<or>
    (\<exists>s. next_run L e t = Inr s \<and> r = Some (max s (t + min 3600 (10 * 2 ^ (n - 1)) * second_ns)))"
  using assms
  by (auto simp: next_run_after_failure_def and_then_Inr_iff add_time_Inr_iff backoff_reference split: if_splits)

theorem retry_after_backoff_witness:
  "next_run_after_failure minutely ''* * * * *'' 0 4 = Inr (Some 80000000000)"
proof -
  have n: "next_run minutely ''* * * * *'' 0 = Inr 60000000000" by code_simp
  then have "next_run_after_failure minutely ''* * * * *'' 0 4 = Inr (Some (max 60000000000 80000000000))"
    by (simp add: next_run_after_failure_def backoff_reference add_time_def)
  with retry_after_backoff [OF _ this] n show ?thesis by simp
qed

subsection \<open>The counter of a limited job\<close>

lemma succ_u64_id: "n < 2 ^ 64 - 1 \<Longrightarrow> succ_u64 n = Suc n"
  by (simp add: succ_u64_def)

lemma succ_u64_bound: "succ_u64 n < 2 ^ 64"
  by (simp add: succ_u64_def)

lemma succ_u64_fits [simp]: "succ_u64 n < 18446744073709551616"
  using succ_u64_bound [of n] by simp

lemma as_u64_succ [simp]: "as_u64 (JNum (int (succ_u64 n))) = Some (succ_u64 n)"
  by (rule as_u64_num [OF succ_u64_bound])

lemma extract_completed_bound: "snd (extract_repeat_info p) < 2 ^ 64"
  by (auto simp: extract_repeat_info_def unwrap_or_def bind_eq_Some_conv dest!: as_u64_bound
      split: option.splits)

text \<open>Whether the counter is kept in a \<open>repeat\<close> object or on the top level, and whichever of the two
  functions reads it.\<close>

definition repeat_readable :: "json \<Rightarrow> bool" where
  "repeat_readable p \<longleftrightarrow>
     is_object p \<and> (case json_get ''repeat'' p of Some r \<Rightarrow> is_object r | None \<Rightarrow> True)"

lemma increment_readable:
  assumes "repeat_readable p" and "increment_repeat_completed p = (p', n_times, c)"
  shows "repeat_readable p'"
  using assms
  by (auto simp: repeat_readable_def increment_repeat_completed_def Let_def split: option.splits if_splits)

lemma increment_counts:
  assumes "repeat_readable p" and "increment_repeat_completed p = (p', n_times, c)"
  shows "extract_repeat_info p' = (n_times, c) \<and> extract_repeat_info p = (n_times, snd (extract_repeat_info p)) \<and>
    c = succ_u64 (snd (extract_repeat_info p)) \<and>
    (\<forall>k. k \<noteq> ''repeat'' \<and> k \<noteq> ''completed'' \<longrightarrow> json_get k p' = json_get k p)"
proof (cases "json_get ''repeat'' p")
  case (Some r)
  with assms have "is_object p" "is_object r" by (simp_all add: repeat_readable_def)
  with Some assms(2) show ?thesis
    by (auto simp: increment_repeat_completed_def extract_repeat_info_def Let_def)
next
  case None
  with assms have p: "is_object p" by (simp add: repeat_readable_def)
  with None assms(2) show ?thesis
    by (auto simp: increment_repeat_completed_def extract_repeat_info_def Let_def split: if_splits)
qed

text \<open>Counting a run is seen by the next reader of the payload: the limit is the same, the
  count is one more (as a 64-bit number), and every member other than the counter is untouched.\<close>

theorem increment_repeat_counts:
  assumes "repeat_readable p" and "increment_repeat_completed p = (p', n_times, c)"
  shows "extract_repeat_info p' = (n_times, c) \<and> extract_repeat_info p = (n_times, snd (extract_repeat_info p)) \<and>
    c = succ_u64 (snd (extract_repeat_info p)) \<and>
    (\<forall>k. k \<noteq> ''repeat'' \<and> k \<noteq> ''completed'' \<longrightarrow> json_get k p' = json_get k p)"
  using assms by (rule increment_counts)

theorem increment_repeat_counts_witness:
  "let p = JObj [(''repeat'', JObj [(''times'', JNum 3), (''completed'', JNum 2)]), (''x'', JNull)];
       (p', n_times, c) = increment_repeat_completed p
   in c = 3 \<and> n_times = Some 3 \<and> should_disable_after c n_times \<and> json_get ''x'' p' = Some JNull"
proof -
  let ?p = "JObj [(''repeat'', JObj [(''times'', JNum 3), (''completed'', JNum 2)]), (''x'', JNull)]"
  define q where "q = increment_repeat_completed ?p"
  obtain p' n_times c where q: "q = (p', n_times, c)"
    by (rule prod_cases3)
  with q_def have i: "increment_repeat_completed ?p = (p', n_times, c)" by simp
  have r: "repeat_readable ?p" and e: "extract_repeat_info ?p = (Some 3, 2)"
    by (simp_all add: repeat_readable_def extract_repeat_info_def)
  note counts = increment_repeat_counts [OF r i]
  have "n_times = Some 3" using counts [THEN conjunct2, THEN conjunct1] e by simp
  moreover have "c = 3" using counts [THEN conjunct2, THEN conjunct2, THEN conjunct1] e by (simp add: succ_u64_def)
  moreover have "json_get ''x'' p' = Some JNull"
    using counts [THEN conjunct2, THEN conjunct2, THEN conjunct2, THEN spec, of "''x''"] by simp
  ultimately show ?thesis
    unfolding Let_def i by (simp add: should_disable_after_def)
qed

text \<open>The two functions read different places when \<open>repeat\<close> is present and not an object: the reader
  sees no limit, so the job is claimed again and again, although the top level has one.\<close>

lemma repeat_readers_disagree:
  "let p = JObj [(''repeat'', JBool True), (''times'', JNum 1), (''completed'', JNum 1)]
   in extract_repeat_info p = (None, 0) \<and> (case increment_repeat_completed p of (_, n, c) \<Rightarrow> n = Some 1 \<and> c = 2)"
  by (simp add: extract_repeat_info_def increment_repeat_completed_def Let_def succ_u64_def)

text \<open>The time zone of a job is used after a success and not after a failure: with a library in
  which the zone matters, the two schedules differ.\<close>

lemma failure_schedule_ignores_zone:
  "let L = minutely\<lparr>schedule_from_str := (\<lambda>e. Inr (\<lambda>z t. Some (t + (if z = utc then 60 else 30) * second_ns)))\<rparr>
   in next_run_tz L ''0 9 * * *'' 0 (Some ''Asia/Seoul'') = Inr 30000000000 \<and>
      next_run_after_failure L ''0 9 * * *'' 0 1 = Inr (Some 60000000000)"
proof -
  let ?L = "minutely\<lparr>schedule_from_str := (\<lambda>e. Inr (\<lambda>z t. Some (t + (if z = utc then 60 else 30) * second_ns)))\<rparr>"
  have "next_run_tz ?L ''0 9 * * *'' 0 (Some ''Asia/Seoul'') = Inr 30000000000" by code_simp
  moreover have "next_run ?L ''0 9 * * *'' 0 = Inr 60000000000" by code_simp
  ultimately show ?thesis
    by (simp add: next_run_after_failure_def backoff_reference add_time_def)
qed

end
