(* ===== verification/Cron_Runs.thy ===== *)
theory Cron_Runs
  imports Cron_Schedule Delivery_Ledger "HOL-Library.List_Lexorder" "HOL-Library.Char_ord"
begin

section \<open>Jobs, runs and leases\<close>

text \<open>
  \<open>src/cron/scheduler.rs\<close> and the table functions of \<open>src/cron/store.rs\<close> on \<open>cron_jobs\<close>,
  \<open>cron_runs\<close>, \<open>cron_outputs\<close>, \<open>cron_incidents\<close> and \<open>cron_notepads\<close>.  A job is claimed by
  inserting a run in state \<open>running\<close> with a lease; the run is completed under its claim token; a run
  whose lease expired may be reclaimed.

  Each statement, and each transaction, is one function on the tables.  An operation of the
  scheduler is their composition, returning the tables with its result, since what was written
  before an error stays written.  Instants are nanoseconds (see \<open>Delivery_Ledger\<close>); the clock, the
  fresh identifiers, the process number and the liveness probe are arguments.  The foreign key of a
  run deletes it with its job, and the foreign key of a job's session refuses an unknown one.
\<close>

subsection \<open>Tables\<close>

datatype CronAuthority = HermesMirror | CutoverPending | OmonOwned

fun authority_str :: "CronAuthority \<Rightarrow> string" where
  "authority_str HermesMirror = ''hermes_mirror''"
| "authority_str CutoverPending = ''cutover_pending''"
| "authority_str OmonOwned = ''omon_owned''"

definition authority_from_str :: "string \<Rightarrow> OmonError + CronAuthority" where
  "authority_from_str s =
     (if s = ''hermes_mirror'' then Inr HermesMirror
      else if s = ''cutover_pending'' then Inr CutoverPending
      else if s = ''omon_owned'' then Inr OmonOwned
      else Inl (Config (''unknown cron authority: '' @ s)))"

record CronJobSpec =
  sp_expression :: string
  sp_payload :: json
  sp_session_key :: "string option"

record CronJob =
  cj_id :: string
  cj_session_key :: "string option"
  cj_expression :: string
  cj_payload_json :: string
  cj_enabled :: bool
  cj_next_run_at :: "int option"
  cj_created_at :: int
  cj_updated_at :: int
  cj_authority :: string

record CronRun =
  cr_run_id :: string
  cr_job_id :: string
  cr_claim_token :: string
  cr_lease_expires_at :: int
  cr_started_at :: int
  cr_completed_at :: "int option"
  cr_status :: string
  cr_attempt :: nat
  cr_error :: "string option"
  cr_owner_pid :: "int option"

record CronOutput =
  co_profile :: string
  co_job_id :: string
  co_run_id :: string
  co_output :: string
  co_created_at :: string

record CronIncident =
  ci_job_id :: string
  ci_error_signature :: string
  ci_acknowledged :: bool
  ci_created_at :: string
  ci_updated_at :: string

record CronNotepad =
  cn_profile :: string
  cn_job_id :: string
  cn_key :: string
  cn_value :: string
  cn_created_at :: string
  cn_updated_at :: string

record CronDb =
  cd_sessions :: "string list"
  cd_jobs :: "CronJob list"
  cd_runs :: "CronRun list"
  cd_outputs :: "CronOutput list"
  cd_incidents :: "CronIncident list"
  cd_notepads :: "CronNotepad list"
  cd_receipts :: "string list option"

record CronClaim =
  cc_run_id :: string
  cc_claim_token :: string
  cc_job :: CronJob
  cc_advance_schedule :: bool

subsection \<open>Views of a job\<close>

definition job_authority :: "CronJob \<Rightarrow> CronAuthority" where
  "job_authority j =
     (if cj_authority j = '''' then OmonOwned
      else case authority_from_str (cj_authority j) of Inr a \<Rightarrow> a | Inl _ \<Rightarrow> OmonOwned)"

definition job_payload :: "CronLib \<Rightarrow> CronJob \<Rightarrow> OmonError + json" where
  "job_payload L j =
     (case json_from_str L (cj_payload_json j) of
        Inl error \<Rightarrow> Inl (Config (''invalid cron payload: '' @ error))
      | Inr v \<Rightarrow> Inr v)"

definition payload_str :: "CronLib \<Rightarrow> string \<Rightarrow> CronJob \<Rightarrow> string option" where
  "payload_str L k j = (case job_payload L j of Inr p \<Rightarrow> get_str k p | Inl _ \<Rightarrow> None)"

definition job_profile :: "CronLib \<Rightarrow> CronJob \<Rightarrow> string" where
  "job_profile L j =
     (case payload_str L ''profile'' j of
        Some (c # cs) \<Rightarrow> c # cs
      | _ \<Rightarrow>
          (case cj_session_key j of
             None \<Rightarrow> ''''
           | Some key \<Rightarrow>
               (case split_on (CHR '':'') key of
                  p0 # p1 # _ \<Rightarrow> if p1 \<noteq> '''' \<and> p0 = ''discord'' then p1 else ''''
                | _ \<Rightarrow> '''')))"

definition job_is_missed :: "CronLib \<Rightarrow> CronJob \<Rightarrow> bool" where
  "job_is_missed L j \<longleftrightarrow> payload_str L ''last_status'' j = Some ''missed''"

subsection \<open>Registration\<close>

definition check_gateway_lifecycle :: "CronLib \<Rightarrow> string \<Rightarrow> string + unit" where
  "check_gateway_lifecycle L spec =
     (if trim spec = '''' then Inr ()
      else case List.find (\<lambda>(text, is_match). is_match spec) (lifecycle_patterns L) of
        Some (text, _) \<Rightarrow>
          Inl (''gateway lifecycle guard: command/prompt matches forbidden self-restart pattern `'' @ text @ ''`'')
      | None \<Rightarrow> Inr ())"

definition lifecycle_member :: "CronLib \<Rightarrow> string \<Rightarrow> json \<Rightarrow> OmonError + unit" where
  "lifecycle_member L k payload =
     (case get_str k payload of
        None \<Rightarrow> Inr ()
      | Some text \<Rightarrow>
          (case check_gateway_lifecycle L text of
             Inl err \<Rightarrow> Inl (Config (''gateway lifecycle violation in '' @ k @ '': '' @ err))
           | Inr _ \<Rightarrow> Inr ()))"

definition validate_cron_payload_lifecycle :: "CronLib \<Rightarrow> json \<Rightarrow> OmonError + unit" where
  "validate_cron_payload_lifecycle L payload =
     and_then (lifecycle_member L ''prompt'' payload) (\<lambda>_.
     and_then (case get_str ''prompt'' payload of
                 Some prompt \<Rightarrow>
                   if prompt_threats L prompt \<noteq> []
                   then Inl (Config (''cron prompt injection detected: '' @ join ''; '' (prompt_threats L prompt)))
                   else Inr ()
               | None \<Rightarrow> Inr ()) (\<lambda>_.
     and_then (lifecycle_member L ''script'' payload) (\<lambda>_.
     and_then (lifecycle_member L ''command'' payload) (\<lambda>_.
       lifecycle_member L ''ack_command'' payload))))"

definition fk_error :: CronFault where
  "fk_error = Fault (Database ''error returned from database: (code: 787) FOREIGN KEY constraint failed'')"

definition pk_error :: "string \<Rightarrow> CronFault" where
  "pk_error col = Fault (Database (''error returned from database: (code: 1555) UNIQUE constraint failed: '' @ col))"

definition unique_error :: "string \<Rightarrow> CronFault" where
  "unique_error col = Fault (Database (''error returned from database: (code: 2067) UNIQUE constraint failed: '' @ col))"

definition job_row :: "CronLib \<Rightarrow> string \<Rightarrow> CronJobSpec \<Rightarrow> int \<Rightarrow> int \<Rightarrow> CronJob" where
  "job_row L i spec next now =
     \<lparr>cj_id = i, cj_session_key = sp_session_key spec, cj_expression = sp_expression spec,
      cj_payload_json = json_to_string L (sp_payload spec), cj_enabled = True, cj_next_run_at = Some next,
      cj_created_at = now, cj_updated_at = now, cj_authority = ''omon_owned''\<rparr>"

definition rewrite_job :: "CronJob \<Rightarrow> CronJob \<Rightarrow> CronJob" where
  "rewrite_job new r = r\<lparr>cj_session_key := cj_session_key new, cj_expression := cj_expression new,
     cj_payload_json := cj_payload_json new, cj_next_run_at := cj_next_run_at new,
     cj_updated_at := cj_updated_at new\<rparr>"

definition known_session :: "CronDb \<Rightarrow> string option \<Rightarrow> bool" where
  "known_session db k \<longleftrightarrow> (case k of None \<Rightarrow> True | Some s \<Rightarrow> s \<in> set (cd_sessions db))"

definition job_get :: "string \<Rightarrow> CronDb \<Rightarrow> CronJob option" where
  "job_get i db = sql_get cj_id i (cd_jobs db)"

definition upsert_job :: "CronJob \<Rightarrow> CronDb \<Rightarrow> CronFault + CronDb" where
  "upsert_job new db =
     (if known_session db (cj_session_key new)
      then Inr (db\<lparr>cd_jobs := fst (sql_upsert cj_id (\<lambda>_. True) (rewrite_job new) new (cd_jobs db))\<rparr>)
      else Inl fk_error)"

definition insert_job :: "CronJob \<Rightarrow> CronDb \<Rightarrow> CronFault + CronDb" where
  "insert_job new db =
     (if job_get (cj_id new) db \<noteq> None then Inl (pk_error ''cron_jobs.id'')
      else if known_session db (cj_session_key new) then Inr (db\<lparr>cd_jobs := cd_jobs db @ [new]\<rparr>)
      else Inl fk_error)"

definition registered :: "string \<Rightarrow> CronDb \<Rightarrow> CronFault + CronDb \<times> CronJob" where
  "registered i db =
     (case job_get i db of
        Some j \<Rightarrow> Inr (db, j)
      | None \<Rightarrow> Inl (Fault (Database ''registered cron job disappeared'')))"

definition register_with_id ::
  "CronLib \<Rightarrow> int \<Rightarrow> string \<Rightarrow> CronJobSpec \<Rightarrow> CronDb \<Rightarrow> CronFault + CronDb \<times> CronJob" where
  "register_with_id L now i spec db =
     and_then (lift_err (validate_cron_payload_lifecycle L (sp_payload spec))) (\<lambda>_.
     and_then (next_run L (sp_expression spec) now) (\<lambda>next.
     and_then (upsert_job (job_row L i spec next now) db) (\<lambda>db'. registered i db')))"

definition register_job ::
  "CronLib \<Rightarrow> int \<Rightarrow> string \<Rightarrow> CronJobSpec \<Rightarrow> CronDb \<Rightarrow> CronFault + CronDb \<times> CronJob" where
  "register_job L now uuid spec db =
     and_then (lift_err (validate_cron_payload_lifecycle L (sp_payload spec))) (\<lambda>_.
     and_then (next_run L (sp_expression spec) now) (\<lambda>next.
     and_then (insert_job (job_row L uuid spec next now) db) (\<lambda>db'. registered uuid db')))"

subsection \<open>Operations on one job\<close>

definition null_first :: "int option \<Rightarrow> int \<times> int" where
  "null_first t = (case t of None \<Rightarrow> (0, 0) | Some x \<Rightarrow> (1, x))"

text \<open>\<open>ORDER BY next_run_at, id\<close>: \<open>NULL\<close> is the smallest value, texts compare by bytes.\<close>

definition by_next_run :: "CronJob list \<Rightarrow> CronJob list" where
  "by_next_run js =
     sort_key (\<lambda>j. fst (null_first (cj_next_run_at j)))
       (sort_key (\<lambda>j. snd (null_first (cj_next_run_at j))) (sort_key cj_id js))"

definition list_active :: "CronDb \<Rightarrow> CronJob list" where
  "list_active db = by_next_run (filter cj_enabled (cd_jobs db))"

definition pause_row :: "int \<Rightarrow> CronJob \<Rightarrow> CronJob" where
  "pause_row now j = j\<lparr>cj_enabled := False, cj_next_run_at := None, cj_updated_at := now\<rparr>"

definition on_jobs :: "(CronJob \<Rightarrow> bool) \<Rightarrow> (CronJob \<Rightarrow> CronJob) \<Rightarrow> CronDb \<Rightarrow> CronDb \<times> nat" where
  "on_jobs p f db = (let (js, n) = sql_update p f (cd_jobs db) in (db\<lparr>cd_jobs := js\<rparr>, n))"

definition on_runs :: "(CronRun \<Rightarrow> bool) \<Rightarrow> (CronRun \<Rightarrow> CronRun) \<Rightarrow> CronDb \<Rightarrow> CronDb \<times> nat" where
  "on_runs p f db = (let (rs, n) = sql_update p f (cd_runs db) in (db\<lparr>cd_runs := rs\<rparr>, n))"

definition pause :: "int \<Rightarrow> string \<Rightarrow> CronDb \<Rightarrow> CronDb \<times> bool" where
  "pause now i db =
     (let (db', n) = on_jobs (\<lambda>j. cj_id j = i) (pause_row now) db in (db', n \<noteq> 0))"

definition resume_row :: "int \<Rightarrow> int \<Rightarrow> CronJob \<Rightarrow> CronJob" where
  "resume_row next now j = j\<lparr>cj_enabled := True, cj_next_run_at := Some next, cj_updated_at := now\<rparr>"

definition resume :: "CronLib \<Rightarrow> int \<Rightarrow> string \<Rightarrow> CronDb \<Rightarrow> CronFault + CronDb \<times> bool" where
  "resume L now i db =
     (case job_get i db of
        None \<Rightarrow> Inr (db, False)
      | Some job \<Rightarrow>
          and_then (next_run L (cj_expression job) now) (\<lambda>next.
            Inr (fst (on_jobs (\<lambda>j. cj_id j = i) (resume_row next now) db), True)))"

definition delete_rows :: "(CronJob \<Rightarrow> bool) \<Rightarrow> CronDb \<Rightarrow> CronDb \<times> nat" where
  "delete_rows p db =
     (let (js, n) = sql_delete p (cd_jobs db); gone = map cj_id (filter p (cd_jobs db))
      in (db\<lparr>cd_jobs := js, cd_runs := fst (sql_delete (\<lambda>r. cr_job_id r \<in> set gone) (cd_runs db))\<rparr>, n))"

definition delete_job :: "string \<Rightarrow> CronDb \<Rightarrow> CronDb \<times> bool" where
  "delete_job i db = (let (db', n) = delete_rows (\<lambda>j. cj_id j = i) db in (db', n \<noteq> 0))"

definition authority_row :: "int \<Rightarrow> CronAuthority \<Rightarrow> CronJob \<Rightarrow> CronJob" where
  "authority_row now a j = j\<lparr>cj_authority := authority_str a, cj_updated_at := now\<rparr>"

definition update_cron_authority :: "int \<Rightarrow> string \<Rightarrow> CronAuthority \<Rightarrow> CronDb \<Rightarrow> CronDb \<times> bool" where
  "update_cron_authority now i a db =
     (let (db', n) = on_jobs (\<lambda>j. cj_id j = i) (authority_row now a) db in (db', n > 0))"

definition get_cron_authority :: "string \<Rightarrow> CronDb \<Rightarrow> OmonError + CronAuthority option" where
  "get_cron_authority i db =
     (case job_get i db of
        None \<Rightarrow> Inr None
      | Some j \<Rightarrow> (case authority_from_str (cj_authority j) of Inl e \<Rightarrow> Inl e | Inr a \<Rightarrow> Inr (Some a)))"

definition has_pending_cutover_receipt :: "CronDb \<Rightarrow> bool" where
  "has_pending_cutover_receipt db =
     (case cd_receipts db of None \<Rightarrow> False | Some sts \<Rightarrow> ''pending'' \<in> set sts)"

subsection \<open>Claiming a job\<close>

definition running :: "CronRun \<Rightarrow> bool" where
  "running r \<longleftrightarrow> cr_status r = ''running''"

definition has_running :: "string \<Rightarrow> CronDb \<Rightarrow> bool" where
  "has_running i db \<longleftrightarrow> list_ex (\<lambda>r. cr_job_id r = i \<and> running r) (cd_runs db)"

definition candidate_runs :: "int \<Rightarrow> string \<Rightarrow> CronDb \<Rightarrow> CronRun list" where
  "candidate_runs now i db =
     filter (\<lambda>r. cr_job_id r = i \<and> running r \<and> cr_lease_expires_at r \<le> now) (cd_runs db)"

definition lease_lost :: "int \<Rightarrow> (nat \<Rightarrow> bool) \<Rightarrow> CronRun \<Rightarrow> bool" where
  "lease_lost now probe r =
     (let owner_pid = Option.bind (cr_owner_pid r) (\<lambda>p. if p > 0 then Some (nat (p mod 2 ^ 32)) else None)
      in should_reclaim_with owner_pid True (now - cr_lease_expires_at r) (is_process_alive probe))"

definition expire_row :: "int \<Rightarrow> CronRun \<Rightarrow> CronRun" where
  "expire_row now r = r\<lparr>cr_status := ''failed'', cr_completed_at := Some now,
     cr_error := Some (case cr_error r of Some e \<Rightarrow> e | None \<Rightarrow> ''lease expired before completion'')\<rparr>"

definition reclaim_run :: "int \<Rightarrow> string \<Rightarrow> CronDb \<Rightarrow> CronDb" where
  "reclaim_run now run_id db = fst (on_runs (\<lambda>r. cr_run_id r = run_id \<and> running r) (expire_row now) db)"

definition reclaim_expired :: "int \<Rightarrow> (nat \<Rightarrow> bool) \<Rightarrow> string \<Rightarrow> CronDb \<Rightarrow> CronDb" where
  "reclaim_expired now probe i db =
     fold (\<lambda>r d. if lease_lost now probe r then reclaim_run now (cr_run_id r) d else d)
       (candidate_runs now i db) db"

definition set_members :: "(string \<times> json) list \<Rightarrow> json \<Rightarrow> json" where
  "set_members kvs payload = fold (\<lambda>(k, v) p. json_insert k v p) kvs payload"

definition missed_payload :: "CronLib \<Rightarrow> int \<Rightarrow> json \<Rightarrow> json" where
  "missed_payload L now payload =
     set_members [(''last_status'', JStr ''missed''), (''last_run_at'', JStr (to_rfc3339 L now)),
       (''last_error'', JStr ''missed: overdue unclaimed one-shot past grace''),
       (''last_delivery_error'', JNull)] payload"

definition retire_row :: "int \<Rightarrow> string \<Rightarrow> CronJob \<Rightarrow> CronJob" where
  "retire_row now payload j =
     j\<lparr>cj_enabled := False, cj_next_run_at := None, cj_payload_json := payload, cj_updated_at := now\<rparr>"

text \<open>\<open>retire_overdue_oneshot\<close>: the row is rewritten when it still is what was observed.\<close>

definition retire_stmt ::
  "int \<Rightarrow> string \<Rightarrow> string \<Rightarrow> int \<Rightarrow> string \<Rightarrow> string \<Rightarrow> CronDb \<Rightarrow> CronDb \<times> nat" where
  "retire_stmt now i expression next observed payload db =
     on_jobs (\<lambda>j. cj_id j = i \<and> cj_enabled j \<and> cj_expression j = expression \<and>
         cj_next_run_at j = Some next \<and> cj_payload_json j = observed \<and> \<not> has_running i db)
       (retire_row now payload) db"

definition retire_overdue_oneshot ::
  "CronLib \<Rightarrow> int \<Rightarrow> string \<Rightarrow> string \<Rightarrow> int \<Rightarrow> string \<Rightarrow> CronDb \<Rightarrow> CronDb \<times> (CronFault + bool)" where
  "retire_overdue_oneshot L now i expression next observed db =
     (case json_from_str L observed of
        Inl error \<Rightarrow> (db, Inl (Fault (Config (''invalid cron payload: '' @ error))))
      | Inr payload \<Rightarrow>
          let (db', n) = retire_stmt now i expression next observed
                (json_to_string L (missed_payload L now payload)) db
          in (db', Inr (n > 0)))"

definition next_attempt :: "string \<Rightarrow> CronDb \<Rightarrow> nat" where
  "next_attempt i db =
     (case map cr_attempt (filter (\<lambda>r. cr_job_id r = i) (cd_runs db)) of
        [] \<Rightarrow> 1
      | a # as \<Rightarrow> fold max as a + 1)"

definition due :: "int \<Rightarrow> CronJob \<Rightarrow> bool" where
  "due now j \<longleftrightarrow> cj_enabled j \<and> (case cj_next_run_at j of Some t \<Rightarrow> t \<le> now | None \<Rightarrow> False)"

definition insertable :: "int \<Rightarrow> string \<Rightarrow> bool \<Rightarrow> CronDb \<Rightarrow> bool" where
  "insertable now i require_due db \<longleftrightarrow>
     list_ex (\<lambda>j. cj_id j = i \<and> (require_due \<longrightarrow> due now j) \<and> cj_authority j \<noteq> ''cutover_pending'') (cd_jobs db)
     \<and> \<not> has_running i db"

definition run_row :: "int \<Rightarrow> int \<Rightarrow> string \<Rightarrow> string \<Rightarrow> string \<Rightarrow> CronDb \<Rightarrow> CronRun" where
  "run_row now pid i run_id token db =
     \<lparr>cr_run_id = run_id, cr_job_id = i, cr_claim_token = token, cr_lease_expires_at = now + lease_duration,
      cr_started_at = now, cr_completed_at = None, cr_status = ''running'',
      cr_attempt = next_attempt i db, cr_error = None, cr_owner_pid = Some pid\<rparr>"

text \<open>The guarded insert of a run, the one statement that takes a lease.\<close>

definition insert_run ::
  "int \<Rightarrow> int \<Rightarrow> string \<Rightarrow> string \<Rightarrow> string \<Rightarrow> bool \<Rightarrow> CronDb \<Rightarrow> CronFault + CronDb \<times> nat" where
  "insert_run now pid i run_id token require_due db =
     (if \<not> insertable now i require_due db then Inr (db, 0)
      else if sql_get cr_run_id run_id (cd_runs db) \<noteq> None then Inl (pk_error ''cron_runs.run_id'')
      else if sql_get cr_claim_token token (cd_runs db) \<noteq> None then Inl (unique_error ''cron_runs.claim_token'')
      else Inr (db\<lparr>cd_runs := cd_runs db @ [run_row now pid i run_id token db]\<rparr>, 1))"

record ClaimEnv =
  ce_now :: int
  ce_pid :: int
  ce_probe :: "nat \<Rightarrow> bool"
  ce_run_id :: string
  ce_claim_token :: string

definition limit_reached :: "CronLib \<Rightarrow> string \<Rightarrow> bool" where
  "limit_reached L payload_json =
     (let parsed = (case json_from_str L payload_json of Inr v \<Rightarrow> v | Inl _ \<Rightarrow> JNull);
          (n_times, c) = extract_repeat_info parsed
      in should_disable_after c n_times)"

definition take_lease :: "ClaimEnv \<Rightarrow> string \<Rightarrow> bool \<Rightarrow> bool \<Rightarrow> CronDb \<Rightarrow> CronDb \<times> (CronFault + CronClaim option)" where
  "take_lease E i require_due advance db =
     (case insert_run (ce_now E) (ce_pid E) i (ce_run_id E) (ce_claim_token E) require_due db of
        Inl e \<Rightarrow> (db, Inl e)
      | Inr (db', n) \<Rightarrow>
          if n = 0 then (db', Inr None)
          else case job_get i db' of
            None \<Rightarrow> (db', Inl (Fault (Database (''claimed cron job '' @ i @ '' disappeared''))))
          | Some job \<Rightarrow>
              (db', Inr (Some \<lparr>cc_run_id = ce_run_id E, cc_claim_token = ce_claim_token E, cc_job = job,
                               cc_advance_schedule = advance\<rparr>)))"

definition claim_job ::
  "CronLib \<Rightarrow> ClaimEnv \<Rightarrow> string \<Rightarrow> bool \<Rightarrow> bool \<Rightarrow> CronDb \<Rightarrow> CronDb \<times> (CronFault + CronClaim option)" where
  "claim_job L E i require_due advance db0 =
     (if has_pending_cutover_receipt db0 then (db0, Inr None)
      else
        let now = ce_now E; db = reclaim_expired now (ce_probe E) i db0 in
        case List.find (\<lambda>j. cj_id j = i \<and> cj_authority j \<noteq> ''cutover_pending'') (cd_jobs db) of
          None \<Rightarrow> (db, Inr None)
        | Some job \<Rightarrow>
            if limit_reached L (cj_payload_json job) then (db, Inr None)
            else if require_due then
              if \<not> cj_enabled job then (db, Inr None)
              else case cj_next_run_at job of
                None \<Rightarrow> (db, Inr None)
              | Some next \<Rightarrow>
                  if starts_with ''once:'' (cj_expression job) \<and> now - next > oneshot_grace_duration
                  then case retire_overdue_oneshot L now i (cj_expression job) next (cj_payload_json job) db of
                         (db', Inl e) \<Rightarrow> (db', Inl e)
                       | (db', Inr _) \<Rightarrow> (db', Inr None)
                  else take_lease E i require_due advance db
            else take_lease E i require_due advance db)"

definition trigger :: "CronLib \<Rightarrow> ClaimEnv \<Rightarrow> string \<Rightarrow> CronDb \<Rightarrow> CronDb \<times> (CronFault + CronClaim option)" where
  "trigger L E i db =
     (if job_get i db = None then (db, Inr None) else claim_job L E i False False db)"

definition due_ids :: "int \<Rightarrow> CronDb \<Rightarrow> string list" where
  "due_ids now db =
     map cj_id (by_next_run (filter (\<lambda>j. due now j \<and> cj_authority j \<noteq> ''cutover_pending'') (cd_jobs db)))"

text \<open>The poll: an error of one claim ends the round.  The claims made before it are spawned.\<close>

fun claim_each ::
  "CronLib \<Rightarrow> (nat \<Rightarrow> ClaimEnv) \<Rightarrow> nat \<Rightarrow> string list \<Rightarrow> CronDb \<Rightarrow> CronDb \<times> CronClaim list \<times> CronFault option" where
  "claim_each L env n [] db = (db, [], None)"
| "claim_each L env n (i # is) db =
     (case claim_job L (env n) i True True db of
        (db', Inl e) \<Rightarrow> (db', [], Some e)
      | (db', Inr c) \<Rightarrow>
          let (db'', cs, e) = claim_each L env (Suc n) is db'
          in (db'', (case c of Some claim \<Rightarrow> claim # cs | None \<Rightarrow> cs), e))"

definition run_due_jobs ::
  "CronLib \<Rightarrow> int \<Rightarrow> (nat \<Rightarrow> ClaimEnv) \<Rightarrow> CronDb \<Rightarrow> CronDb \<times> CronClaim list \<times> CronFault option" where
  "run_due_jobs L now env db =
     (if has_pending_cutover_receipt db then (db, [], None)
      else claim_each L env 0 (due_ids now db) db)"

subsection \<open>Keeping and completing a lease\<close>

definition refresh_row :: "int \<Rightarrow> CronRun \<Rightarrow> CronRun" where
  "refresh_row now r = r\<lparr>cr_lease_expires_at := now + lease_duration\<rparr>"

definition refresh_lease :: "int \<Rightarrow> string \<Rightarrow> CronDb \<Rightarrow> CronDb" where
  "refresh_lease now token db = fst (on_runs (\<lambda>r. cr_claim_token r = token \<and> running r) (refresh_row now) db)"

definition finish_row :: "int \<Rightarrow> string \<Rightarrow> string option \<Rightarrow> CronRun \<Rightarrow> CronRun" where
  "finish_row now status err r = r\<lparr>cr_status := status, cr_completed_at := Some now,
     cr_lease_expires_at := now, cr_error := err\<rparr>"

definition finish_run :: "int \<Rightarrow> string \<Rightarrow> string option \<Rightarrow> CronClaim \<Rightarrow> CronDb \<Rightarrow> CronDb \<times> nat" where
  "finish_run now status err claim db =
     on_runs (\<lambda>r. cr_run_id r = cc_run_id claim \<and> cr_claim_token r = cc_claim_token claim \<and> running r)
       (finish_row now status err) db"

text \<open>What the completion answers when its claim is not the running one.\<close>

definition stale_completion :: "CronClaim \<Rightarrow> CronDb \<Rightarrow> CronFault + unit" where
  "stale_completion claim db =
     (case sql_get cr_run_id (cc_run_id claim) (cd_runs db) of
        Some r \<Rightarrow>
          if cr_status r \<in> {''succeeded'', ''failed'', ''abandoned''} then Inr ()
          else Inl (Fault (Database (''cron claim '' @ cc_claim_token claim @ '' for run '' @ cc_run_id claim @
                 '' is no longer active (status: '' @ cr_status r @ '')'')))
      | None \<Rightarrow> Inl (Fault (Database (''cron claim '' @ cc_claim_token claim @ '' for run '' @ cc_run_id claim @
                 '' not found''))))"

definition unchanged :: "CronClaim \<Rightarrow> CronJob \<Rightarrow> bool" where
  "unchanged claim j \<longleftrightarrow> cj_id j = cj_id (cc_job claim) \<and>
     cj_expression j = cj_expression (cc_job claim) \<and> cj_payload_json j = cj_payload_json (cc_job claim)"

definition advance_row :: "int \<Rightarrow> int \<Rightarrow> string \<Rightarrow> CronJob \<Rightarrow> CronJob" where
  "advance_row next now payload j =
     j\<lparr>cj_next_run_at := Some next, cj_payload_json := payload, cj_updated_at := now\<rparr>"

definition payload_row :: "int \<Rightarrow> string \<Rightarrow> CronJob \<Rightarrow> CronJob" where
  "payload_row now payload j = j\<lparr>cj_payload_json := payload, cj_updated_at := now\<rparr>"

definition output_row :: "CronLib \<Rightarrow> int \<Rightarrow> CronClaim \<Rightarrow> string \<Rightarrow> CronOutput" where
  "output_row L now claim out =
     \<lparr>co_profile = job_profile L (cc_job claim), co_job_id = cj_id (cc_job claim),
      co_run_id = cc_run_id claim, co_output = out, co_created_at = to_rfc3339 L now\<rparr>"

definition output_key :: "CronOutput \<Rightarrow> string \<times> string \<times> string" where
  "output_key o' = (co_profile o', co_job_id o', co_run_id o')"

definition rewrite_output :: "CronOutput \<Rightarrow> CronOutput \<Rightarrow> CronOutput" where
  "rewrite_output new r = r\<lparr>co_output := co_output new, co_created_at := co_created_at new\<rparr>"

definition record_output :: "CronOutput option \<Rightarrow> CronDb \<Rightarrow> CronDb" where
  "record_output out db =
     (case out of
        None \<Rightarrow> db
      | Some new \<Rightarrow> db\<lparr>cd_outputs := fst (sql_upsert output_key (\<lambda>_. True) (rewrite_output new) new (cd_outputs db))\<rparr>)"

definition claim_payload :: "CronLib \<Rightarrow> CronClaim \<Rightarrow> json" where
  "claim_payload L claim =
     (case json_from_str L (cj_payload_json (cc_job claim)) of Inr v \<Rightarrow> v | Inl _ \<Rightarrow> JObj [])"

definition one_shot :: "CronClaim \<Rightarrow> bool" where
  "one_shot claim \<longleftrightarrow> starts_with ''once:'' (cj_expression (cc_job claim))"

definition succeeded_payload :: "CronLib \<Rightarrow> int \<Rightarrow> CronClaim \<Rightarrow> json \<times> nat option \<times> nat" where
  "succeeded_payload L now claim =
     (let (p, n_times, c) = increment_repeat_completed (claim_payload L claim)
      in (set_members [(''last_status'', JStr ''succeeded''), (''last_run_at'', JStr (to_rfc3339 L now)),
            (''last_error'', JNull), (''last_delivery_error'', JNull)] p, n_times, c))"

definition complete_success ::
  "CronLib \<Rightarrow> int \<Rightarrow> CronClaim \<Rightarrow> string option \<Rightarrow> CronDb \<Rightarrow> CronDb \<times> (CronFault + unit)" where
  "complete_success L now claim out db =
     (let (db1, n) = finish_run now ''succeeded'' None claim db in
      if n = 0 then (db, stale_completion claim db)
      else
        let (payload, n_times, c) = succeeded_payload L now claim;
            text = json_to_string L payload;
            commit = (\<lambda>d. (record_output (map_option (output_row L now claim) out) d, Inr ()))
        in if cc_advance_schedule claim then
             if one_shot claim \<or> should_disable_after c n_times
             then commit (fst (on_jobs (unchanged claim) (retire_row now text) db1))
             else case next_run_tz L (cj_expression (cc_job claim)) now
                         (Option.bind (json_get ''schedule'' payload) (get_str ''timezone'')) of
                    Inl e \<Rightarrow> (db, Inl e)
                  | Inr next \<Rightarrow>
                      commit (fst (on_jobs (\<lambda>j. unchanged claim j \<and> cj_enabled j) (advance_row next now text) db1))
           else commit (fst (on_jobs (unchanged claim) (payload_row now text) db1)))"

definition failed_payload :: "CronLib \<Rightarrow> int \<Rightarrow> CronClaim \<Rightarrow> string \<Rightarrow> json \<times> nat option \<times> nat" where
  "failed_payload L now claim err_str =
     increment_repeat_completed
       (set_members [(''last_status'', JStr ''failed''), (''last_run_at'', JStr (to_rfc3339 L now)),
          (''last_error'', JStr err_str),
          (''last_delivery_error'',
             if contains ''deliver'' (str_to_lowercase L err_str) \<or> contains ''discord'' (str_to_lowercase L err_str)
             then JStr err_str else JNull)] (claim_payload L claim))"

text \<open>\<open>ORDER BY started_at DESC, run_id DESC LIMIT 50\<close>, and the failures at its head.\<close>

definition recent_runs :: "string \<Rightarrow> CronDb \<Rightarrow> CronRun list" where
  "recent_runs i db =
     take 50 (rev (sort_key cr_started_at (sort_key cr_run_id (filter (\<lambda>r. cr_job_id r = i) (cd_runs db)))))"

definition consecutive_failures :: "string \<Rightarrow> CronDb \<Rightarrow> nat" where
  "consecutive_failures i db = length (takeWhile (\<lambda>r. cr_status r = ''failed'') (recent_runs i db))"

definition complete_failure ::
  "CronLib \<Rightarrow> int \<Rightarrow> CronClaim \<Rightarrow> OmonError \<Rightarrow> CronDb \<Rightarrow> CronDb \<times> (CronFault + unit)" where
  "complete_failure L now claim err db =
     (let (db1, n) = finish_run now ''failed'' (Some (error_to_string err)) claim db in
      if n = 0 then (db, stale_completion claim db)
      else
        let (payload, n_times, c) = failed_payload L now claim (error_to_string err);
            text = json_to_string L payload;
            disable = fst (on_jobs (unchanged claim) (retire_row now text) db1)
        in if cc_advance_schedule claim then
             if one_shot claim \<or> should_disable_after c n_times then (disable, Inr ())
             else case next_run_after_failure L (cj_expression (cc_job claim)) now
                         (consecutive_failures (cj_id (cc_job claim)) db1) of
                    Inr (Some next) \<Rightarrow>
                      (fst (on_jobs (\<lambda>j. unchanged claim j \<and> cj_enabled j) (advance_row next now text) db1), Inr ())
                  | Inr None \<Rightarrow> (disable, Inr ())
                  | Inl (Fault calc_err) \<Rightarrow> (disable, Inr ())
                  | Inl Panic \<Rightarrow> (db, Inl Panic)
           else (fst (on_jobs (unchanged claim) (payload_row now text) db1), Inr ()))"

subsection \<open>Retention, incidents and notepads\<close>

abbreviation day_ns :: int where "day_ns \<equiv> 86400000000000"

abbreviation min_utc :: int where "min_utc \<equiv> -8334601228800000000000"

definition prune_terminal_cron_runs :: "int \<Rightarrow> int \<Rightarrow> CronDb \<Rightarrow> CronFault + CronDb \<times> nat" where
  "prune_terminal_cron_runs retention_days now db =
     (if retention_days < 0 then Inl (Fault (Config ''cron run retention days must be non-negative''))
      else if retention_days * day_ns > max_time_delta then Inl Panic
      else
        let cutoff = now - retention_days * day_ns in
        if cutoff < min_utc then Inl Panic
        else
          let (rs, n) = sql_delete (\<lambda>r. (cr_status r = ''succeeded'' \<or> cr_status r = ''failed'') \<and>
                 (case cr_completed_at r of Some t \<Rightarrow> t | None \<Rightarrow> cr_started_at r) < cutoff) (cd_runs db)
          in Inr (db\<lparr>cd_runs := rs\<rparr>, n))"

definition acknowledge_incident :: "string \<Rightarrow> string \<Rightarrow> string option \<Rightarrow> CronDb \<Rightarrow> CronDb \<times> bool" where
  "acknowledge_incident now job_id signature db =
     (let (is, n) = sql_update (\<lambda>i. ci_job_id i = job_id \<and>
            (case signature of Some sig \<Rightarrow> ci_error_signature i = sig | None \<Rightarrow> True))
          (\<lambda>i. i\<lparr>ci_acknowledged := True, ci_updated_at := now\<rparr>) (cd_incidents db)
      in (db\<lparr>cd_incidents := is\<rparr>, n > 0))"

definition cron_script_timeout_secs_from :: "string option \<Rightarrow> nat" where
  "cron_script_timeout_secs_from raw =
     (case Option.bind raw (\<lambda>r. parse_u64 (trim r)) of
        Some secs \<Rightarrow> if secs > 0 then secs else 1800
      | None \<Rightarrow> 1800)"

definition resolve_cron_script_timeout :: "nat option \<Rightarrow> nat \<Rightarrow> nat" where
  "resolve_cron_script_timeout job_override global_default =
     (case job_override of
        Some secs \<Rightarrow> if secs > 0 then secs else if global_default > 0 then global_default else 1800
      | None \<Rightarrow> if global_default > 0 then global_default else 1800)"

section \<open>Every reachable table\<close>

subsection \<open>Statements as events\<close>

text \<open>Schedulers of several processes work on the same tables.  Their interleavings are sequences of
  the statements and transactions below; \<open>claim_job\<close> is three kinds of statement (reclaim, retire,
  insert), whose arguments were read before and may be out of date.\<close>

datatype CronEvent =
    Register int string CronJobSpec
  | RegisterNew int string CronJobSpec
  | Pause int string
  | Resume int string
  | Delete string
  | SetAuthority int string CronAuthority
  | Reclaim int string
  | Retire int string string int string string
  | InsertRun int int string string string bool
  | Refresh int string
  | Succeed int CronClaim "string option"
  | Fail int CronClaim OmonError
  | Prune int int
  | Acknowledge string string "string option"

definition keep_db :: "CronDb \<Rightarrow> CronFault + CronDb \<times> 'a \<Rightarrow> CronDb" where
  "keep_db db r = (case r of Inl _ \<Rightarrow> db | Inr (db', _) \<Rightarrow> db')"

fun cron_step :: "CronLib \<Rightarrow> CronEvent \<Rightarrow> CronDb \<Rightarrow> CronDb" where
  "cron_step L (Register now i spec) db = keep_db db (register_with_id L now i spec db)"
| "cron_step L (RegisterNew now i spec) db = keep_db db (register_job L now i spec db)"
| "cron_step L (Pause now i) db = fst (pause now i db)"
| "cron_step L (Resume now i) db = keep_db db (resume L now i db)"
| "cron_step L (Delete i) db = fst (delete_job i db)"
| "cron_step L (SetAuthority now i a) db = fst (update_cron_authority now i a db)"
| "cron_step L (Reclaim now run_id) db = reclaim_run now run_id db"
| "cron_step L (Retire now i expression next observed payload) db =
     fst (retire_stmt now i expression next observed payload db)"
| "cron_step L (InsertRun now pid i run_id token require_due) db =
     keep_db db (insert_run now pid i run_id token require_due db)"
| "cron_step L (Refresh now token) db = refresh_lease now token db"
| "cron_step L (Succeed now claim out) db = fst (complete_success L now claim out db)"
| "cron_step L (Fail now claim err) db = fst (complete_failure L now claim err db)"
| "cron_step L (Prune days now) db = keep_db db (prune_terminal_cron_runs days now db)"
| "cron_step L (Acknowledge now i signature) db = fst (acknowledge_incident now i signature db)"

subsection \<open>The invariant\<close>

definition job_typed :: "string list \<Rightarrow> CronJob \<Rightarrow> bool" where
  "job_typed sessions j \<longleftrightarrow>
     cj_authority j \<in> {''hermes_mirror'', ''cutover_pending'', ''omon_owned''} \<and>
     (case cj_session_key j of None \<Rightarrow> True | Some s \<Rightarrow> s \<in> set sessions)"

definition run_typed :: "CronRun \<Rightarrow> bool" where
  "run_typed r \<longleftrightarrow> cr_status r \<in> {''running'', ''succeeded'', ''failed''} \<and> cr_attempt r > 0 \<and>
     (cr_completed_at r = None \<longleftrightarrow> running r)"

definition one_running :: "CronRun list \<Rightarrow> bool" where
  "one_running rs \<longleftrightarrow> distinct (map cr_job_id (filter running rs))"

definition jobs_ok :: "CronDb \<Rightarrow> bool" where
  "jobs_ok db \<longleftrightarrow> distinct (map cj_id (cd_jobs db)) \<and> list_all (job_typed (cd_sessions db)) (cd_jobs db)"

definition runs_ok :: "CronRun list \<Rightarrow> bool" where
  "runs_ok rs \<longleftrightarrow> distinct (map cr_run_id rs) \<and> distinct (map cr_claim_token rs) \<and>
     distinct (map (\<lambda>r. (cr_job_id r, cr_attempt r)) rs) \<and> list_all run_typed rs \<and> one_running rs"

definition cron_inv :: "CronDb \<Rightarrow> bool" where
  "cron_inv db \<longleftrightarrow> jobs_ok db \<and> runs_ok (cd_runs db) \<and> cr_job_id ` set (cd_runs db) \<subseteq> cj_id ` set (cd_jobs db)"

abbreviation upd :: "(CronRun \<Rightarrow> bool) \<Rightarrow> (CronRun \<Rightarrow> CronRun) \<Rightarrow> CronRun list \<Rightarrow> CronRun list" where
  "upd p f rs \<equiv> fst (sql_update p f rs)"

lemma upd_Cons: "upd p f (r # rs) = (if p r then f r else r) # upd p f rs"
  by (simp add: sql_update_def)

text \<open>The contract of an update of runs: it never starts one, keeps the identifiers and the attempt,
  and leaves a typed row.\<close>

locale quiet_update =
  fixes p :: "CronRun \<Rightarrow> bool" and f :: "CronRun \<Rightarrow> CronRun"
  assumes same: "cr_run_id (f r) = cr_run_id r" "cr_job_id (f r) = cr_job_id r"
      "cr_claim_token (f r) = cr_claim_token r" "cr_attempt (f r) = cr_attempt r"
    and typed: "p r \<Longrightarrow> run_typed r \<Longrightarrow> run_typed (f r)"
    and no_start: "p r \<Longrightarrow> running (f r) \<Longrightarrow> running r"
begin

lemma keys:
  "map cr_run_id (upd p f rs) = map cr_run_id rs" "map cr_claim_token (upd p f rs) = map cr_claim_token rs"
  "map cr_job_id (upd p f rs) = map cr_job_id rs"
  "map (\<lambda>r. (cr_job_id r, cr_attempt r)) (upd p f rs) = map (\<lambda>r. (cr_job_id r, cr_attempt r)) rs"
  by (simp_all add: sql_update_def same)

lemma running_jobs:
  "set (map cr_job_id (filter running (upd p f rs))) \<subseteq> set (map cr_job_id (filter running rs))"
  by (auto simp: sql_update_def same split: if_splits dest: no_start)

lemma one_running_upd: "one_running rs \<Longrightarrow> one_running (upd p f rs)"
proof (induction rs)
  case (Cons r rs)
  have *: "cr_job_id (if p r then f r else r) = cr_job_id r"
    "running (if p r then f r else r) \<Longrightarrow> running r"
    by (auto simp: same split: if_splits dest: no_start)
  have "distinct (map cr_job_id (filter running (upd p f rs)))"
    using Cons by (auto simp: one_running_def split: if_splits)
  moreover have "cr_job_id r \<notin> set (map cr_job_id (filter running (upd p f rs)))" if "running r"
    using that Cons.prems running_jobs [of rs] by (auto simp: one_running_def)
  ultimately show ?case
    using * by (auto simp: one_running_def upd_Cons)
qed (simp add: one_running_def sql_update_def)

lemma runs_ok_upd: "runs_ok rs \<Longrightarrow> runs_ok (upd p f rs)"
proof -
  assume ok: "runs_ok rs"
  then have "list_all run_typed (upd p f rs)"
    by (intro list_all_update) (auto simp: runs_ok_def intro: typed)
  then show ?thesis
    using ok keys one_running_upd by (simp add: runs_ok_def)
qed

lemma inv_upd: "cron_inv db \<Longrightarrow> cron_inv (fst (on_runs p f db))"
proof -
  assume inv: "cron_inv db"
  have "cr_job_id ` set (upd p f (cd_runs db)) = cr_job_id ` set (cd_runs db)"
    using arg_cong [OF keys(3) [of "cd_runs db"], of set] by simp
  with inv runs_ok_upd show ?thesis
    by (simp add: cron_inv_def on_runs_def jobs_ok_def case_prod_beta Let_def)
qed

end

interpretation expired: quiet_update "\<lambda>r. cr_run_id r = i \<and> running r" "expire_row now" for i now
  by unfold_locales (auto simp: expire_row_def run_typed_def running_def)

interpretation refreshed: quiet_update "\<lambda>r. cr_claim_token r = t \<and> running r" "refresh_row now" for t now
  by unfold_locales (auto simp: refresh_row_def run_typed_def running_def)

interpretation succeeded:
  quiet_update "\<lambda>r. cr_run_id r = i \<and> cr_claim_token r = t \<and> running r" "finish_row now ''succeeded'' e" for i t now e
  by unfold_locales (auto simp: finish_row_def run_typed_def running_def)

interpretation failed:
  quiet_update "\<lambda>r. cr_run_id r = i \<and> cr_claim_token r = t \<and> running r" "finish_row now ''failed'' e" for i t now e
  by unfold_locales (auto simp: finish_row_def run_typed_def running_def)

text \<open>The contract of an update of jobs.\<close>

locale job_update = keyed_update cj_id g for g :: "CronJob \<Rightarrow> CronJob" +
  assumes typed_job: "job_typed ss j \<Longrightarrow> job_typed ss (g j)"
begin

lemma inv_on_jobs: "cron_inv db \<Longrightarrow> cron_inv (fst (on_jobs q g db))"
proof -
  assume inv: "cron_inv db"
  have "cj_id ` set (fst (sql_update q g (cd_jobs db))) = cj_id ` set (cd_jobs db)"
    using arg_cong [OF keys_update [of q "cd_jobs db"], of set] by simp
  moreover have "list_all (job_typed (cd_sessions db)) (fst (sql_update q g (cd_jobs db)))"
    using inv by (intro list_all_update) (auto simp: cron_inv_def jobs_ok_def intro: typed_job)
  ultimately show ?thesis
    using inv distinct_update by (simp add: cron_inv_def jobs_ok_def on_jobs_def case_prod_beta Let_def)
qed

lemma runs_on_jobs: "cd_runs (fst (on_jobs q g db)) = cd_runs db"
  by (simp add: on_jobs_def case_prod_beta Let_def)

end

interpretation paused: job_update "pause_row now" for now
  by unfold_locales (auto simp: pause_row_def job_typed_def)

interpretation resumed: job_update "resume_row next now" for "next" now
  by unfold_locales (auto simp: resume_row_def job_typed_def)

interpretation entrusted: job_update "authority_row now a" for now a
  by (unfold_locales; cases a) (auto simp: authority_row_def job_typed_def)

interpretation retired: job_update "retire_row now pj" for now pj
  by unfold_locales (auto simp: retire_row_def job_typed_def)

interpretation advanced: job_update "advance_row next now pj" for "next" now pj
  by unfold_locales (auto simp: advance_row_def job_typed_def)

interpretation repayloaded: job_update "payload_row now pj" for now pj
  by unfold_locales (auto simp: payload_row_def job_typed_def)

lemma delete_runs_ok: "runs_ok rs \<Longrightarrow> runs_ok (fst (sql_delete p rs))"
proof -
  assume ok: "runs_ok rs"
  have "filter running (filter (\<lambda>r. \<not> p r) rs) = filter (\<lambda>r. \<not> p r) (filter running rs)"
    by (simp add: conj_commute)
  with ok show ?thesis
    by (auto simp: runs_ok_def one_running_def sql_delete_def list_all_iff
        simp del: filter_filter intro: distinct_map_filter)
qed

subsection \<open>Each statement keeps the invariant\<close>

lemma fold_max_ge: "x \<in> set (a # as) \<Longrightarrow> x \<le> fold max as (a :: nat)"
  by (metis List.finite_set Max.set_eq_fold Max_ge)

lemma next_attempt_greater:
  assumes "r \<in> set (cd_runs db)" and "cr_job_id r = i"
  shows "cr_attempt r < next_attempt i db"
proof -
  have "cr_attempt r \<in> set (map cr_attempt (filter (\<lambda>r. cr_job_id r = i) (cd_runs db)))"
    using assms by auto
  then show ?thesis
    unfolding next_attempt_def
    by (cases "map cr_attempt (filter (\<lambda>r. cr_job_id r = i) (cd_runs db))")
      (simp_all add: less_Suc_eq_le fold_max_ge del: map_eq_Cons_conv Cons_eq_map_conv)
qed

lemma next_attempt_pos: "next_attempt i db > 0"
  by (simp add: next_attempt_def split: list.split)

lemma runs_ok_snoc:
  assumes "runs_ok rs" and "sql_get cr_run_id (cr_run_id r) rs = None"
    and "sql_get cr_claim_token (cr_claim_token r) rs = None"
    and "\<And>r'. r' \<in> set rs \<Longrightarrow> cr_job_id r' = cr_job_id r \<Longrightarrow> cr_attempt r' < cr_attempt r \<and> \<not> running r'"
    and "run_typed r"
  shows "runs_ok (rs @ [r])"
proof -
  have "cr_run_id r \<notin> cr_run_id ` set rs" "cr_claim_token r \<notin> cr_claim_token ` set rs"
    using assms(2,3) by (simp_all add: sql_get_None_iff)
  moreover have "(cr_job_id r, cr_attempt r) \<notin> (\<lambda>r. (cr_job_id r, cr_attempt r)) ` set rs"
    using assms(4) by fastforce
  moreover have "one_running (rs @ [r])"
    using assms(1,4) by (auto simp: runs_ok_def one_running_def)
  ultimately show ?thesis using assms(1,5) by (simp add: runs_ok_def)
qed

lemma insert_run_inv:
  assumes "cron_inv db"
  shows "cron_inv (keep_db db (insert_run now pid i run_id token rd db))"
proof (cases "insertable now i rd db \<and> sql_get cr_run_id run_id (cd_runs db) = None \<and>
    sql_get cr_claim_token token (cd_runs db) = None")
  case True
  let ?r = "run_row now pid i run_id token db"
  have i: "i \<in> cj_id ` set (cd_jobs db)" "\<not> has_running i db"
    using True by (auto simp: insertable_def list_ex_iff)
  have "runs_ok (cd_runs db @ [?r])"
    using assms True i next_attempt_greater next_attempt_pos
    by (intro runs_ok_snoc)
      (auto simp: cron_inv_def run_row_def has_running_def list_ex_iff run_typed_def running_def)
  then show ?thesis
    using assms True i(1)
    by (simp add: insert_run_def keep_db_def cron_inv_def jobs_ok_def run_row_def)
next
  case False
  then show ?thesis using assms by (auto simp: insert_run_def keep_db_def)
qed

lemma cron_inv_jobs:
  assumes "cron_inv db" and "distinct (map cj_id js)" and "list_all (job_typed (cd_sessions db)) js"
    and "cj_id ` set (cd_jobs db) \<subseteq> cj_id ` set js"
  shows "cron_inv (db\<lparr>cd_jobs := js\<rparr>)"
  using assms order_trans [OF _ assms(4)] by (simp add: cron_inv_def jobs_ok_def)

lemma upsert_job_inv:
  assumes "cron_inv db" and "upsert_job new db = Inr db'"
    and "cj_authority new = ''omon_owned''"
  shows "cron_inv db'"
proof -
  have new: "job_typed (cd_sessions db) new"
    using assms(2,3) by (auto simp: upsert_job_def job_typed_def known_session_def split: if_splits)
  have key: "keyed_update cj_id (rewrite_job new)"
    by unfold_locales (simp add: rewrite_job_def)
  have db': "db' = db\<lparr>cd_jobs := fst (sql_upsert cj_id (\<lambda>_. True) (rewrite_job new) new (cd_jobs db))\<rparr>"
    using assms(2) by (auto simp: upsert_job_def split: if_splits)
  show ?thesis
    unfolding db' using assms(1) new keyed_update.distinct_upsert [OF key] keyed_update.keys_upsert [OF key]
    by (intro cron_inv_jobs list_all_upsert)
      (auto simp: cron_inv_def jobs_ok_def job_typed_def rewrite_job_def)
qed

lemma insert_job_inv:
  assumes "cron_inv db" and "insert_job new db = Inr db'" and "cj_authority new = ''omon_owned''"
  shows "cron_inv db'"
proof -
  have new: "cj_id new \<notin> cj_id ` set (cd_jobs db)" "job_typed (cd_sessions db) new"
    and db': "db' = db\<lparr>cd_jobs := cd_jobs db @ [new]\<rparr>"
    using assms(2,3) by (auto simp: insert_job_def job_get_def sql_get_None_iff job_typed_def known_session_def
        split: if_splits)
  show ?thesis
    unfolding db' using assms(1) new by (intro cron_inv_jobs) (auto simp: cron_inv_def jobs_ok_def)
qed

lemma delete_rows_inv: "cron_inv db \<Longrightarrow> cron_inv (fst (delete_rows p db))"
proof -
  assume inv: "cron_inv db"
  let ?rs = "fst (sql_delete (\<lambda>r. cr_job_id r \<in> set (map cj_id (filter p (cd_jobs db)))) (cd_runs db))"
  have "runs_ok ?rs"
    using inv delete_runs_ok by (simp add: cron_inv_def)
  moreover have "cr_job_id ` set ?rs \<subseteq> cj_id ` set (fst (sql_delete p (cd_jobs db)))"
  proof
    fix x assume "x \<in> cr_job_id ` set ?rs"
    then have "x \<in> cr_job_id ` set (cd_runs db)" and x: "x \<notin> cj_id ` {j \<in> set (cd_jobs db). p j}"
      by (auto simp: sql_delete_def)
    with inv obtain j where "j \<in> set (cd_jobs db)" "x = cj_id j" by (auto simp: cron_inv_def)
    with x show "x \<in> cj_id ` set (fst (sql_delete p (cd_jobs db)))" by (auto simp: sql_delete_def)
  qed
  moreover have "list_all (job_typed (cd_sessions db)) (fst (sql_delete p (cd_jobs db)))"
    using inv by (simp add: cron_inv_def jobs_ok_def list_all_delete)
  ultimately show ?thesis
    using inv distinct_sql_delete [of cj_id "cd_jobs db" p]
    by (simp add: delete_rows_def cron_inv_def jobs_ok_def case_prod_beta Let_def)
qed

lemma inv_record_output [simp]: "cron_inv (record_output out db) = cron_inv db"
  by (simp add: record_output_def cron_inv_def jobs_ok_def split: option.split)

lemma finish_run_inv:
  "cron_inv db \<Longrightarrow> cron_inv (fst (finish_run now ''succeeded'' e claim db))"
  "cron_inv db \<Longrightarrow> cron_inv (fst (finish_run now ''failed'' e claim db))"
  unfolding finish_run_def by (rule succeeded.inv_upd, assumption) (rule failed.inv_upd, assumption)

lemmas job_rows_inv =
  paused.inv_on_jobs resumed.inv_on_jobs entrusted.inv_on_jobs retired.inv_on_jobs
  advanced.inv_on_jobs repayloaded.inv_on_jobs

text \<open>What a completion does to the tables: nothing, or the finished run with an update of jobs.\<close>

lemmas job_rows = retired.job_update_axioms advanced.job_update_axioms repayloaded.job_update_axioms

inductive completion :: "CronDb \<Rightarrow> CronDb \<Rightarrow> nat \<Rightarrow> CronDb \<Rightarrow> bool" for db d n where
  same: "completion db d n db"
| finished: "job_update g \<Longrightarrow> n \<noteq> 0 \<Longrightarrow> completion db d n (record_output o' (fst (on_jobs q g d)))"

lemma record_output_None [simp]: "record_output None db = db"
  by (simp add: record_output_def)

lemmas completion_intros = completion.same
  completion.finished completion.finished [where o' = None, unfolded record_output_None]

lemma complete_success_shape:
  "completion db (fst (finish_run now ''succeeded'' None claim db))
     (snd (finish_run now ''succeeded'' None claim db)) (fst (complete_success L now claim out db))"
  by (auto simp: complete_success_def Let_def case_prod_beta split: sum.split intro: completion_intros job_rows)

lemma complete_failure_shape:
  "completion db (fst (finish_run now ''failed'' (Some (error_to_string err)) claim db))
     (snd (finish_run now ''failed'' (Some (error_to_string err)) claim db)) (fst (complete_failure L now claim err db))"
  by (auto simp: complete_failure_def Let_def case_prod_beta split: sum.split option.split CronFault.split
      intro: completion_intros job_rows)

lemma completion_inv: "completion db d n db' \<Longrightarrow> cron_inv db \<Longrightarrow> cron_inv d \<Longrightarrow> cron_inv db'"
  by (induction rule: completion.induct) (simp_all add: job_update.inv_on_jobs)

lemma complete_success_inv: "cron_inv db \<Longrightarrow> cron_inv (fst (complete_success L now claim out db))"
  by (rule completion_inv [OF complete_success_shape]) (simp_all add: finish_run_inv)

lemma complete_failure_inv: "cron_inv db \<Longrightarrow> cron_inv (fst (complete_failure L now claim err db))"
  by (rule completion_inv [OF complete_failure_shape]) (simp_all add: finish_run_inv)

lemma prune_inv: "cron_inv db \<Longrightarrow> cron_inv (keep_db db (prune_terminal_cron_runs days now db))"
proof -
  assume inv: "cron_inv db"
  have "cron_inv (db\<lparr>cd_runs := fst (sql_delete p (cd_runs db))\<rparr>)" for p
    using inv delete_runs_ok [of "cd_runs db" p]
    by (auto simp: cron_inv_def jobs_ok_def sql_delete_def)
  with inv show ?thesis
    by (simp add: prune_terminal_cron_runs_def keep_db_def Let_def case_prod_beta)
qed

lemma register_inv:
  assumes "cron_inv db"
  shows "cron_inv (keep_db db (register_with_id L now i spec db))" "cron_inv (keep_db db (register_job L now i spec db))"
proof -
  have reg: "keep_db db (registered i db') = (if job_get i db' = None then db else db')" for db'
    by (simp add: registered_def keep_db_def split: option.split)
  have row: "cj_authority (job_row L i spec next now) = ''omon_owned''" for "next"
    by (simp add: job_row_def)
  show "cron_inv (keep_db db (register_with_id L now i spec db))"
    using assms upsert_job_inv [OF assms _ row] reg
    by (auto simp: register_with_id_def and_then_def keep_db_def registered_def split: sum.splits option.splits)
  show "cron_inv (keep_db db (register_job L now i spec db))"
    using assms insert_job_inv [OF assms _ row] reg
    by (auto simp: register_job_def and_then_def keep_db_def registered_def split: sum.splits option.splits)
qed

lemma cron_step_inv: "cron_inv db \<Longrightarrow> cron_inv (cron_step L e db)"
proof (cases e)
  case (Resume now i)
  then show "cron_inv db \<Longrightarrow> ?thesis"
    by (auto simp: resume_def keep_db_def and_then_def job_rows_inv split: option.splits sum.splits)
next
  case (Acknowledge now i signature)
  then show "cron_inv db \<Longrightarrow> ?thesis"
    by (simp add: acknowledge_incident_def case_prod_beta Let_def cron_inv_def jobs_ok_def)
qed (simp_all add: register_inv pause_def delete_job_def update_cron_authority_def case_prod_beta Let_def
    job_rows_inv delete_rows_inv reclaim_run_def expired.inv_upd retire_stmt_def insert_run_inv
    refresh_lease_def refreshed.inv_upd complete_success_inv complete_failure_inv prune_inv)

interpretation cron: run_invariant "cron_step L" "\<lambda>_. True" cron_inv for L
  by unfold_locales (rule cron_step_inv)

definition cron_init :: "string list \<Rightarrow> CronDb" where
  "cron_init sessions = \<lparr>cd_sessions = sessions, cd_jobs = [], cd_runs = [], cd_outputs = [],
     cd_incidents = [], cd_notepads = [], cd_receipts = None\<rparr>"

lemma cron_init_inv: "cron_inv (cron_init sessions)"
  by (simp add: cron_init_def cron_inv_def jobs_ok_def runs_ok_def one_running_def)

lemma cron_run_inv: "cron_inv (fold (cron_step L) es (cron_init sessions))"
  using cron.run [OF cron_init_inv] by (simp add: list_all_iff)

subsection \<open>A claim is a sequence of statements\<close>

definition reclaim_events :: "int \<Rightarrow> (nat \<Rightarrow> bool) \<Rightarrow> CronRun list \<Rightarrow> CronEvent list" where
  "reclaim_events now probe rs = map (\<lambda>r. Reclaim now (cr_run_id r)) (filter (lease_lost now probe) rs)"

lemma fold_reclaim:
  "fold (\<lambda>r d. if lease_lost now probe r then reclaim_run now (cr_run_id r) d else d) rs db =
     fold (cron_step L) (reclaim_events now probe rs) db"
  by (induction rs arbitrary: db) (simp_all add: reclaim_events_def)

lemma reclaim_expired_events:
  "reclaim_expired now probe i db = fold (cron_step L) (reclaim_events now probe (candidate_runs now i db)) db"
  unfolding reclaim_expired_def by (rule fold_reclaim)

lemma take_lease_event:
  "fst (take_lease E i rd adv db) =
     cron_step L (InsertRun (ce_now E) (ce_pid E) i (ce_run_id E) (ce_claim_token E) rd) db"
  by (auto simp: take_lease_def keep_db_def case_prod_beta split: sum.splits option.split)

lemma retire_event:
  "fst (retire_overdue_oneshot L now i x t p db) = db \<or>
   (\<exists>p'. fst (retire_overdue_oneshot L now i x t p db) = cron_step L (Retire now i x t p p') db)"
  by (auto simp: retire_overdue_oneshot_def case_prod_beta Let_def split: sum.split)

lemma claim_job_events: "\<exists>es. fst (claim_job L E i rd adv db) = fold (cron_step L) es db"
proof (cases "has_pending_cutover_receipt db")
  case True
  then show ?thesis by (intro exI [of _ "[]"]) (simp add: claim_job_def)
next
  case False
  let ?es = "reclaim_events (ce_now E) (ce_probe E) (candidate_runs (ce_now E) i db)"
  let ?d = "reclaim_expired (ce_now E) (ce_probe E) i db"
  have d: "?d = fold (cron_step L) ?es db" by (rule reclaim_expired_events)
  have "fst (claim_job L E i rd adv db) = ?d \<or> fst (claim_job L E i rd adv db) = fst (take_lease E i rd adv ?d) \<or>
      (\<exists>x t p. fst (claim_job L E i rd adv db) = fst (retire_overdue_oneshot L (ce_now E) i x t p ?d))"
    using False by (auto simp: claim_job_def Let_def case_prod_beta split: option.split sum.split)
  then have "fst (claim_job L E i rd adv db) = ?d \<or> (\<exists>e. fst (claim_job L E i rd adv db) = cron_step L e ?d)"
    using retire_event [of L "ce_now E" i _ _ _ ?d] take_lease_event [of E i rd adv ?d L] by metis
  then show ?thesis
  proof (elim disjE exE)
    assume "fst (claim_job L E i rd adv db) = ?d"
    with d show ?thesis by auto
  next
    fix e assume "fst (claim_job L E i rd adv db) = cron_step L e ?d"
    with d have "fst (claim_job L E i rd adv db) = fold (cron_step L) (?es @ [e]) db" by simp
    then show ?thesis by blast
  qed
qed

lemma claim_job_inv: "cron_inv db \<Longrightarrow> cron_inv (fst (claim_job L E i rd adv db))"
  using claim_job_events [of L E i rd adv db] cron.run [of db _ L] by (auto simp: list_all_iff)

lemma claim_each_inv: "cron_inv db \<Longrightarrow> cron_inv (fst (claim_each L env n is db))"
proof (induction "is" arbitrary: n db)
  case (Cons i "is")
  from claim_job_inv [OF Cons.prems, of L "env n" i True True] Cons.IH show ?case
    by (auto simp: case_prod_beta Let_def split: prod.splits sum.splits)
qed simp

end
