(* ===== verification/Cron_Leases.thy ===== *)
theory Cron_Leases
  imports Cron_Runs
begin

section \<open>What the leases of cron jobs guarantee\<close>

text \<open>
  The properties of the tables of \<open>Cron_Runs\<close>: their constraints in every interleaving, the lease
  specification they refine, fencing of a scheduler that lost its lease, when a claim is refused and
  when it is granted, and the effect of a completion on the job.
\<close>

subsection \<open>Constraints\<close>

text \<open>C34: after any interleaving of statements, every row satisfies the checks the tables declare
  (statuses, authorities, positive attempts, known sessions, a run's job exists), a run has a
  completion time exactly when it is not running, and run identifiers, claim tokens, job identifiers
  and the attempts of a job do not repeat.\<close>

theorem cron_tables_typed:
  "let db = fold (cron_step L) es (cron_init sessions) in
     list_all (job_typed (cd_sessions db)) (cd_jobs db) \<and> list_all run_typed (cd_runs db) \<and>
     cr_job_id ` set (cd_runs db) \<subseteq> cj_id ` set (cd_jobs db) \<and>
     distinct (map cj_id (cd_jobs db)) \<and> distinct (map cr_run_id (cd_runs db)) \<and>
     distinct (map cr_claim_token (cd_runs db)) \<and>
     distinct (map (\<lambda>r. (cr_job_id r, cr_attempt r)) (cd_runs db))"
  using cron_run_inv [of L es sessions] by (simp add: Let_def cron_inv_def jobs_ok_def runs_ok_def)

lemma one_running_unique:
  "one_running rs \<Longrightarrow> r \<in> set rs \<Longrightarrow> r' \<in> set rs \<Longrightarrow> running r \<Longrightarrow> running r' \<Longrightarrow>
     cr_job_id r = cr_job_id r' \<Longrightarrow> r = r'"
  using row_by_key [of cr_job_id "filter running rs" r r'] by (simp add: one_running_def)

text \<open>Two schedulers work on a job \<open>j\<close>: one claims it, the other is refused, the first one's lease is
  reclaimed, the second one claims it.\<close>

definition sample_spec :: CronJobSpec where
  "sample_spec = \<lparr>sp_expression = ''* * * * *'', sp_payload = JObj [], sp_session_key = None\<rparr>"

definition sample_events :: "CronEvent list" where
  "sample_events = [Register 0 ''j'' sample_spec, InsertRun 60000000000 7 ''j'' ''r1'' ''t1'' True,
     InsertRun 60000000001 8 ''j'' ''r2'' ''t2'' True]"

lemma sample_tables:
  "cd_runs (fold (cron_step minutely) sample_events (cron_init [])) =
    [\<lparr>cr_run_id = ''r1'', cr_job_id = ''j'', cr_claim_token = ''t1'', cr_lease_expires_at = 1860000000000,
      cr_started_at = 60000000000, cr_completed_at = None, cr_status = ''running'', cr_attempt = 1,
      cr_error = None, cr_owner_pid = Some 7\<rparr>]"
  by code_simp



subsection \<open>Fencing\<close>

definition no_running :: "string \<Rightarrow> CronDb \<Rightarrow> bool" where
  "no_running run_id db \<longleftrightarrow> list_all (\<lambda>r. cr_run_id r = run_id \<longrightarrow> \<not> running r) (cd_runs db)"

fun starts_run :: "string \<Rightarrow> CronEvent \<Rightarrow> bool" where
  "starts_run run_id (InsertRun now pid i run_id' token rd) = (run_id = run_id')"
| "starts_run run_id _ = False"

context quiet_update
begin

lemma no_running_upd: "no_running i db \<Longrightarrow> no_running i (fst (on_runs p f db))"
  by (auto simp: no_running_def on_runs_def Let_def case_prod_beta list_all_iff set_sql_update same
      dest: no_start split: if_splits)

end

lemma no_running_runs: "cd_runs db' = cd_runs db \<Longrightarrow> no_running i db' = no_running i db"
  by (simp add: no_running_def)

lemma run_rows_on_jobs [simp]: "cd_runs (fst (on_jobs q g db)) = cd_runs db"
  by (simp add: on_jobs_def case_prod_beta Let_def)

lemma runs_record_output [simp]: "cd_runs (record_output out db) = cd_runs db"
  by (simp add: record_output_def split: option.split)

lemma no_running_completion:
  "completion db d n db' \<Longrightarrow> no_running i db \<Longrightarrow> no_running i d \<Longrightarrow> no_running i db'"
  by (induction rule: completion.induct) (simp_all add: no_running_def)

lemma finish_run_quiet:
  "no_running i db \<Longrightarrow> no_running i (fst (finish_run now ''succeeded'' e claim db))"
  "no_running i db \<Longrightarrow> no_running i (fst (finish_run now ''failed'' e claim db))"
  unfolding finish_run_def by (rule succeeded.no_running_upd, assumption) (rule failed.no_running_upd, assumption)

lemma runs_register:
  "cd_runs (keep_db db (register_with_id L now i spec db)) = cd_runs db"
  "cd_runs (keep_db db (register_job L now i spec db)) = cd_runs db"
  by (auto simp: register_with_id_def register_job_def and_then_def keep_db_def registered_def upsert_job_def
      insert_job_def split: sum.splits option.splits if_splits)

lemma no_running_step:
  assumes "no_running i db" and "\<not> starts_run i e"
  shows "no_running i (cron_step L e db)"
proof (cases e)
  case (Register now j spec)
  then show ?thesis using assms(1) runs_register(1) [of db L now j spec] by (simp add: no_running_def)
next
  case (RegisterNew now j spec)
  then show ?thesis using assms(1) runs_register(2) [of db L now j spec] by (simp add: no_running_def)
next
  case (Resume now j)
  with assms(1) show ?thesis
    by (auto simp: resume_def keep_db_def and_then_def no_running_def split: option.splits sum.splits)
next
  case (Delete j)
  with assms(1) show ?thesis
    by (auto simp: delete_job_def delete_rows_def case_prod_beta Let_def no_running_def list_all_iff sql_delete_def)
next
  case (Reclaim now j)
  with assms(1) show ?thesis by (simp add: reclaim_run_def expired.no_running_upd)
next
  case (InsertRun now pid j run_id token rd)
  with assms show ?thesis
    by (auto simp: insert_run_def keep_db_def no_running_def run_row_def)
next
  case (Refresh now t)
  with assms(1) show ?thesis by (simp add: refresh_lease_def refreshed.no_running_upd)
next
  case (Succeed now claim out)
  with assms(1) show ?thesis
    by (auto intro: no_running_completion [OF complete_success_shape] finish_run_quiet)
next
  case (Fail now claim err)
  with assms(1) show ?thesis
    by (auto intro: no_running_completion [OF complete_failure_shape] finish_run_quiet)
next
  case (Prune days now)
  with assms(1) show ?thesis
    by (simp add: prune_terminal_cron_runs_def keep_db_def Let_def case_prod_beta no_running_def)
      (simp add: list_all_delete)
next
  case (Acknowledge now j signature)
  with assms(1) show ?thesis
    by (simp add: acknowledge_incident_def case_prod_beta Let_def no_running_def)
qed (use assms(1) in \<open>simp_all add: pause_def update_cron_authority_def case_prod_beta Let_def retire_stmt_def no_running_def\<close>)

lemma no_running_run:
  "no_running i db \<Longrightarrow> list_all (\<lambda>e. \<not> starts_run i e) es \<Longrightarrow> no_running i (fold (cron_step L) es db)"
  by (induction es arbitrary: db) (simp_all add: no_running_step)

lemma not_running_expired [simp]: "\<not> running (expire_row now r)"
  by (simp add: expire_row_def running_def)

lemma no_running_reclaimed: "no_running i (reclaim_run now i db)"
proof -
  have "list_all (\<lambda>r. cr_run_id r = i \<longrightarrow> \<not> running r) (upd (\<lambda>r. cr_run_id r = i \<and> running r) (expire_row now) rs)" for rs
    by (induction rs) (simp_all add: upd_Cons, simp add: sql_update_def)
  then show ?thesis
    by (simp add: reclaim_run_def no_running_def on_runs_def case_prod_beta Let_def)
qed

lemma fenced:
  assumes "no_running (cc_run_id claim) db"
  shows "fst (complete_success L now claim out db) = db" "fst (complete_failure L now claim err db) = db"
proof -
  have "snd (finish_run now st e claim db) = 0" for st e
    using assms by (auto simp: finish_run_def on_runs_def sql_update_def no_running_def list_all_iff filter_empty_conv)
  then show "fst (complete_success L now claim out db) = db" "fst (complete_failure L now claim err db) = db"
    by (simp_all add: complete_success_def complete_failure_def case_prod_beta Let_def)
qed

text \<open>C24: once the lease of a run was reclaimed, the scheduler that held it can no longer write:
  whatever others do in between, its completion leaves every table as it is, the schedule of the job
  included.\<close>

theorem reclaimed_run_is_fenced:
  assumes "list_all (\<lambda>e. \<not> starts_run (cc_run_id claim) e) es"
  shows "let db' = fold (cron_step L) es (reclaim_run t (cc_run_id claim) db) in
    fst (complete_success L now claim out db') = db' \<and> fst (complete_failure L now claim err db') = db'"
  using fenced [OF no_running_run [OF no_running_reclaimed assms]] by (simp add: Let_def)

definition sample_claim :: CronClaim where
  "sample_claim = \<lparr>cc_run_id = ''r1'', cc_claim_token = ''t1'', cc_job = job_row minutely ''j'' sample_spec 60000000000 0,
     cc_advance_schedule = True\<rparr>"

theorem reclaimed_run_is_fenced_witness:
  "let db = fold (cron_step minutely) sample_events (cron_init []);
       db' = fold (cron_step minutely) [InsertRun 9000000000000 8 ''j'' ''r2'' ''t2'' True] (reclaim_run 9000000000000 ''r1'' db)
   in has_running ''j'' db' \<and> fst (complete_success minutely 9000000000001 sample_claim (Some ''late'') db') = db'"
proof -
  let ?db = "fold (cron_step minutely) sample_events (cron_init [])"
  let ?db' = "fold (cron_step minutely) [InsertRun 9000000000000 8 ''j'' ''r2'' ''t2'' True] (reclaim_run 9000000000000 ''r1'' ?db)"
  have "list_all (\<lambda>e. \<not> starts_run (cc_run_id sample_claim) e) [InsertRun 9000000000000 8 ''j'' ''r2'' ''t2'' True]"
    by (simp add: sample_claim_def)
  from reclaimed_run_is_fenced [OF this, of minutely 9000000000000 ?db 9000000000001 "Some ''late''"]
  have "fst (complete_success minutely 9000000000001 sample_claim (Some ''late'') ?db') = ?db'"
    by (simp add: Let_def sample_claim_def)
  moreover have "has_running ''j'' ?db'" by code_simp
  ultimately show ?thesis by (simp only: Let_def)
qed

subsection \<open>The lease specification\<close>

text \<open>The abstract state: who holds the lease of each job, by claim token.\<close>

type_synonym Leases = "string \<Rightarrow> string option"

definition holders :: "CronDb \<Rightarrow> Leases" where
  "holders db i = map_option cr_claim_token (List.find (\<lambda>r. cr_job_id r = i \<and> running r) (cd_runs db))"

text \<open>What each operation may do to it: only a claim takes a lease, and only a free one under a token
  nobody holds; a completion gives back the lease of its own token; a reclaim frees one; deleting a
  job frees that job's.  Everything else leaves the leases alone.\<close>

fun lease_spec :: "CronEvent \<Rightarrow> Leases \<Rightarrow> Leases \<Rightarrow> bool" where
  "lease_spec (InsertRun now pid i run_id t rd) h h' \<longleftrightarrow>
     h' = h \<or> (h i = None \<and> t \<notin> ran h \<and> h' = h(i \<mapsto> t))"
| "lease_spec (Succeed now claim out) h h' \<longleftrightarrow>
     h' = h \<or> (\<exists>i. h i = Some (cc_claim_token claim) \<and> h' = h(i := None))"
| "lease_spec (Fail now claim err) h h' \<longleftrightarrow>
     h' = h \<or> (\<exists>i. h i = Some (cc_claim_token claim) \<and> h' = h(i := None))"
| "lease_spec (Reclaim now run_id) h h' \<longleftrightarrow> h' = h \<or> (\<exists>i. h i \<noteq> None \<and> h' = h(i := None))"
| "lease_spec (Delete i) h h' \<longleftrightarrow> h' = h(i := None)"
| "lease_spec _ h h' \<longleftrightarrow> h' = h"

lemma holders_iff:
  assumes "runs_ok (cd_runs db)"
  shows "holders db i = Some t \<longleftrightarrow>
    (\<exists>r \<in> set (cd_runs db). cr_job_id r = i \<and> running r \<and> cr_claim_token r = t)"
proof
  assume "holders db i = Some t"
  then show "\<exists>r \<in> set (cd_runs db). cr_job_id r = i \<and> running r \<and> cr_claim_token r = t"
    by (auto simp: holders_def find_Some_iff)
next
  assume "\<exists>r \<in> set (cd_runs db). cr_job_id r = i \<and> running r \<and> cr_claim_token r = t"
  then obtain r where r: "r \<in> set (cd_runs db)" "cr_job_id r = i" "running r" "cr_claim_token r = t" by blast
  then obtain r' where r': "List.find (\<lambda>r. cr_job_id r = i \<and> running r) (cd_runs db) = Some r'"
    by (cases "List.find (\<lambda>r. cr_job_id r = i \<and> running r) (cd_runs db)") (auto simp: find_None_iff)
  then have "r' \<in> set (cd_runs db)" "cr_job_id r' = i" "running r'" by (auto simp: find_Some_iff)
  with r assms one_running_unique [of "cd_runs db" r' r] have "r' = r" by (simp add: runs_ok_def)
  with r r' show "holders db i = Some t" by (simp add: holders_def)
qed

lemma holders_None_iff: "holders db i = None \<longleftrightarrow> \<not> has_running i db"
  by (auto simp: holders_def has_running_def find_None_iff list_ex_iff)

lemma leases_eqI: "(\<And>i t. h i = Some t \<longleftrightarrow> h' i = Some t) \<Longrightarrow> h = (h' :: Leases)"
  by (rule ext) (metis option.exhaust)

lemma holders_runs: "cd_runs db' = cd_runs db \<Longrightarrow> holders db' = holders db"
  by (rule ext) (simp add: holders_def)

lemma holders_frames [simp]:
  "holders (fst (on_jobs q g db)) = holders db" "holders (db\<lparr>cd_incidents := x\<rparr>) = holders db"
  "holders (record_output out db) = holders db"
  by (rule holders_runs, simp)+

text \<open>An update that ends one run.\<close>

locale releasing_update = quiet_update +
  assumes was_running: "p r \<Longrightarrow> running r" and stops: "p r \<Longrightarrow> \<not> running (f r)"
    and one_run: "p r \<Longrightarrow> p r' \<Longrightarrow> cr_run_id r = cr_run_id r'"
begin

lemma holders_left:
  assumes "runs_ok (cd_runs db)"
  shows "holders (fst (on_runs p f db)) i = Some t \<longleftrightarrow>
    (\<exists>r \<in> set (cd_runs db). \<not> p r \<and> cr_job_id r = i \<and> running r \<and> cr_claim_token r = t)"
proof -
  have "runs_ok (cd_runs (fst (on_runs p f db)))"
    using runs_ok_upd [OF assms] by (simp add: on_runs_def case_prod_beta Let_def)
  then show ?thesis
    using stops
    by (auto simp: holders_iff on_runs_def case_prod_beta Let_def set_sql_update same image_iff split: if_splits)
qed

lemma holders_released_at:
  assumes "runs_ok (cd_runs db)" and r: "r \<in> set (cd_runs db)" "p r"
  shows "holders (fst (on_runs p f db)) = (holders db)(cr_job_id r := None)"
proof -
  have only: "p r' \<longleftrightarrow> r' = r" if "r' \<in> set (cd_runs db)" for r'
    using r that one_run [of r r'] row_by_key [of cr_run_id "cd_runs db" r r'] assms(1)
    by (auto simp: runs_ok_def)
  have other: "cr_job_id r' \<noteq> cr_job_id r" if "r' \<in> set (cd_runs db)" "running r'" "r' \<noteq> r" for r'
    using that r was_running assms(1) one_running_unique [of "cd_runs db" r r'] by (auto simp: runs_ok_def)
  show ?thesis
    using only other assms(1) by (intro leases_eqI) (auto simp: holders_left holders_iff)
qed

lemma holders_released:
  assumes "runs_ok (cd_runs db)"
  shows "holders (fst (on_runs p f db)) = holders db \<or>
    (\<exists>r \<in> set (cd_runs db). p r \<and> holders db (cr_job_id r) = Some (cr_claim_token r) \<and>
       holders (fst (on_runs p f db)) = (holders db)(cr_job_id r := None))"
proof (cases "\<exists>r \<in> set (cd_runs db). p r")
  case True
  then obtain r where r: "r \<in> set (cd_runs db)" "p r" by blast
  moreover have "holders db (cr_job_id r) = Some (cr_claim_token r)"
    using r was_running assms by (auto simp: holders_iff)
  ultimately show ?thesis using holders_released_at [OF assms r] by blast
next
  case False
  then have "holders (fst (on_runs p f db)) = holders db"
    using assms by (intro leases_eqI) (auto simp: holders_left holders_iff)
  then show ?thesis ..
qed

end

interpretation expired_lease: releasing_update "\<lambda>r. cr_run_id r = i \<and> running r" "expire_row now" for i now
  by unfold_locales simp_all

interpretation succeeded_lease:
  releasing_update "\<lambda>r. cr_run_id r = i \<and> cr_claim_token r = t \<and> running r" "finish_row now ''succeeded'' e" for i t now e
  by unfold_locales (simp_all add: finish_row_def running_def)

interpretation failed_lease:
  releasing_update "\<lambda>r. cr_run_id r = i \<and> cr_claim_token r = t \<and> running r" "finish_row now ''failed'' e" for i t now e
  by unfold_locales (simp_all add: finish_row_def running_def)

lemma holders_refreshed: "holders (refresh_lease now t db) = holders db"
proof -
  have "map_option cr_claim_token (List.find q (upd p (refresh_row now) rs)) = map_option cr_claim_token (List.find q rs)"
    if "\<And>r. q (refresh_row now r) = q r" for p q rs
    using that by (induction rs) (simp_all add: upd_Cons, simp_all add: sql_update_def refresh_row_def)
  then show ?thesis
    by (intro ext) (simp add: holders_def refresh_lease_def on_runs_def case_prod_beta Let_def refresh_row_def running_def)
qed

lemma holders_completion:
  assumes "completion db d n db'" and "holders d = holders db \<or> (\<exists>i. holders db i = Some t \<and> holders d = (holders db)(i := None))"
  shows "holders db' = holders db \<or> (\<exists>i. holders db i = Some t \<and> holders db' = (holders db)(i := None))"
  using assms(1)
proof cases
  case (finished g o' q)
  then have "holders db' = holders d" by (intro holders_runs) simp
  with assms(2) show ?thesis by simp
qed simp

lemma holders_finish:
  assumes "runs_ok (cd_runs db)"
  shows "holders (fst (finish_run now ''succeeded'' e claim db)) = holders db \<or>
      (\<exists>i. holders db i = Some (cc_claim_token claim) \<and>
        holders (fst (finish_run now ''succeeded'' e claim db)) = (holders db)(i := None))"
    and "holders (fst (finish_run now ''failed'' e claim db)) = holders db \<or>
      (\<exists>i. holders db i = Some (cc_claim_token claim) \<and>
        holders (fst (finish_run now ''failed'' e claim db)) = (holders db)(i := None))"
  using succeeded_lease.holders_released [OF assms, of "cc_run_id claim" "cc_claim_token claim" now e]
    failed_lease.holders_released [OF assms, of "cc_run_id claim" "cc_claim_token claim" now e]
  unfolding finish_run_def by auto

lemma find_append: "List.find P (xs @ ys) = (case List.find P xs of None \<Rightarrow> List.find P ys | Some x \<Rightarrow> Some x)"
  by (induction xs) auto

lemma holders_snoc:
  assumes "holders db i = None"
  shows "holders (db\<lparr>cd_runs := cd_runs db @ [run_row now pid i run_id t db']\<rparr>) = (holders db)(i \<mapsto> t)"
proof
  fix j show "holders (db\<lparr>cd_runs := cd_runs db @ [run_row now pid i run_id t db']\<rparr>) j = ((holders db)(i \<mapsto> t)) j"
    using assms
    by (cases "List.find (\<lambda>r. cr_job_id r = j \<and> running r) (cd_runs db)")
      (auto simp: holders_def run_row_def running_def find_append)
qed

lemma holders_insert:
  assumes "cron_inv db"
  shows "lease_spec (InsertRun now pid i run_id t rd) (holders db)
    (holders (keep_db db (insert_run now pid i run_id t rd db)))"
proof (cases "insertable now i rd db \<and> sql_get cr_run_id run_id (cd_runs db) = None \<and>
    sql_get cr_claim_token t (cd_runs db) = None")
  case True
  have rs: "runs_ok (cd_runs db)" using assms by (simp add: cron_inv_def)
  have free: "holders db i = None" using True by (simp add: holders_None_iff insertable_def)
  moreover have "t \<notin> ran (holders db)"
    using True holders_iff [OF rs] by (auto simp: ran_def sql_get_None_iff)
  moreover note holders_snoc [OF free, of now pid run_id t db]
  ultimately show ?thesis using True by (simp add: insert_run_def keep_db_def)
next
  case False
  then show ?thesis by (auto simp: insert_run_def keep_db_def)
qed

lemma holders_deleted:
  assumes "cron_inv db"
  shows "holders (fst (delete_job i db)) = (holders db)(i := None)"
proof -
  have rs: "runs_ok (cd_runs db)" and rs': "runs_ok (cd_runs (fst (delete_job i db)))"
    using assms delete_rows_inv [OF assms] by (simp_all add: cron_inv_def delete_job_def case_prod_beta Let_def)
  have runs: "cd_runs (fst (delete_job i db)) =
      filter (\<lambda>r. cr_job_id r \<notin> cj_id ` {j \<in> set (cd_jobs db). cj_id j = i}) (cd_runs db)"
    by (simp add: delete_job_def delete_rows_def case_prod_beta Let_def sql_delete_def)
  have fk: "cr_job_id r \<in> cj_id ` set (cd_jobs db)" if "r \<in> set (cd_runs db)" for r
    using assms that by (auto simp: cron_inv_def)
  have "r \<in> set (cd_runs (fst (delete_job i db))) \<longleftrightarrow> r \<in> set (cd_runs db) \<and> cr_job_id r \<noteq> i" for r
    unfolding runs using fk [of r] by auto
  then show ?thesis
    by (intro leases_eqI) (auto simp: holders_iff [OF rs] holders_iff [OF rs'])
qed

lemma holders_delete_stopped:
  assumes "\<And>r. p r \<Longrightarrow> \<not> running r"
  shows "holders (db\<lparr>cd_runs := fst (sql_delete p (cd_runs db))\<rparr>) = holders db"
proof
  fix i
  have "List.find (\<lambda>r. cr_job_id r = i \<and> running r) (filter (\<lambda>r. \<not> p r) rs) =
      List.find (\<lambda>r. cr_job_id r = i \<and> running r) rs" for rs
    using assms by (induction rs) auto
  then show "holders (db\<lparr>cd_runs := fst (sql_delete p (cd_runs db))\<rparr>) i = holders db i"
    by (simp add: holders_def sql_delete_def)
qed

lemma holders_pruned: "holders (keep_db db (prune_terminal_cron_runs days now db)) = holders db"
  unfolding prune_terminal_cron_runs_def keep_db_def Let_def case_prod_beta
  by (simp, intro impI, rule holders_delete_stopped) (auto simp: running_def)

lemma cron_step_refines:
  assumes "cron_inv db"
  shows "lease_spec e (holders db) (holders (cron_step L e db))"
proof -
  have rs: "runs_ok (cd_runs db)" using assms by (simp add: cron_inv_def)
  show ?thesis
  proof (cases e)
    case (Register now j spec)
    then show ?thesis using holders_runs [OF runs_register(1) [of db L now j spec]] by simp
  next
    case (RegisterNew now j spec)
    then show ?thesis using holders_runs [OF runs_register(2) [of db L now j spec]] by simp
  next
    case (Resume now j)
    then show ?thesis
      by (auto simp: resume_def keep_db_def and_then_def split: option.splits sum.splits)
  next
    case (Reclaim now j)
    then show ?thesis
      using expired_lease.holders_released [OF rs, of j now] by (auto simp: reclaim_run_def)
  next
    case (Succeed now claim out)
    then show ?thesis
      using holders_completion [OF complete_success_shape holders_finish(1) [OF rs]] by simp
  next
    case (Fail now claim err)
    then show ?thesis
      using holders_completion [OF complete_failure_shape holders_finish(2) [OF rs]] by simp
  next
    case (Acknowledge now j signature)
    then show ?thesis by (simp add: acknowledge_incident_def case_prod_beta Let_def)
  next
    case (InsertRun now pid j run_id t rd)
    with holders_insert [OF assms, of now pid j run_id t rd] show ?thesis by simp
  qed (use assms in \<open>simp_all add: pause_def update_cron_authority_def case_prod_beta Let_def retire_stmt_def
      holders_refreshed holders_deleted holders_pruned\<close>)
qed

text \<open>C6: the tables implement the lease specification: in every reachable state, each statement
  of the scheduler is a step of it.  In particular a held lease is never taken by another claim, and
  a completion releases no lease but that of its own token.\<close>

theorem cron_refines_leases:
  "let db = fold (cron_step L) es (cron_init sessions)
   in lease_spec e (holders db) (holders (cron_step L e db))"
  using cron_step_refines [OF cron_run_inv] by (simp add: Let_def)

subsection \<open>When a claim is refused and when it is granted\<close>

lemma filter_key:
  assumes "distinct (map key t)"
  shows "filter (\<lambda>r. key r = k \<and> w r) t =
    (case sql_get key k t of Some r \<Rightarrow> if w r then [r] else [] | None \<Rightarrow> [])"
  using assms
proof (induction t)
  case (Cons a t)
  moreover have "filter (\<lambda>r. key r = k \<and> w r) t = []" if "key a = k"
    using Cons.prems that by (auto simp: filter_empty_conv image_iff)
  ultimately show ?case by (auto split: option.splits)
qed simp

text \<open>A job has one running run or none, and the sweep before a claim ends it or leaves it.\<close>

lemma candidate_runs_one:
  assumes "cron_inv db" and "r \<in> set (cd_runs db)" and "cr_job_id r = i" and "running r"
  shows "candidate_runs now i db = (if cr_lease_expires_at r \<le> now then [r] else [])"
proof -
  let ?rs = "filter running (cd_runs db)"
  have d: "distinct (map cr_job_id ?rs)"
    using assms(1) by (simp add: cron_inv_def runs_ok_def one_running_def)
  have "candidate_runs now i db = filter (\<lambda>r. cr_job_id r = i \<and> cr_lease_expires_at r \<le> now) ?rs"
    by (auto simp: candidate_runs_def intro: filter_cong)
  with filter_key [OF d, of i] sql_get_mem [OF d, of r] assms(2,3,4) show ?thesis by simp
qed

lemma candidate_runs_none: "\<not> has_running i db \<Longrightarrow> candidate_runs now i db = []"
  by (auto simp: candidate_runs_def has_running_def list_ex_iff filter_empty_conv)

lemma reclaim_expired_one:
  assumes "cron_inv db" and "r \<in> set (cd_runs db)" and "cr_job_id r = i" and "running r"
  shows "reclaim_expired now probe i db =
    (if cr_lease_expires_at r \<le> now \<and> lease_lost now probe r then reclaim_run now (cr_run_id r) db else db)"
  using candidate_runs_one [OF assms] by (simp add: reclaim_expired_def)

lemma on_jobs_none: "(\<And>j. \<not> p j) \<Longrightarrow> on_jobs p f db = (db, 0)"
  by (simp add: on_jobs_def sql_update_def)

lemma retire_held: "has_running i db \<Longrightarrow> fst (retire_overdue_oneshot L now i x t p db) = db"
  by (simp add: retire_overdue_oneshot_def retire_stmt_def on_jobs_none split: sum.split)

lemma take_lease_held: "has_running i db \<Longrightarrow> take_lease E i rd adv db = (db, Inr None)"
  by (simp add: take_lease_def insert_run_def insertable_def)

text \<open>While a lease is live, nobody else gets the job: a claim changes nothing and returns no
  claim when the lease has not expired, and also when it expired less than two hours ago and the
  process that holds it is still alive.\<close>

theorem live_lease_excludes:
  assumes "cron_inv db" and "r \<in> set (cd_runs db)" and "cr_job_id r = i" and "running r"
    and "ce_now E < cr_lease_expires_at r \<or>
      (ce_now E - cr_lease_expires_at r < stale_lease_safety_net \<and>
       (\<exists>p. cr_owner_pid r = Some p \<and> p > 0 \<and> is_process_alive (ce_probe E) (nat (p mod 2 ^ 32))))"
  shows "fst (claim_job L E i rd adv db) = db \<and> (\<forall>c. snd (claim_job L E i rd adv db) \<noteq> Inr (Some c))"
proof -
  have held: "has_running i db" using assms(2-4) by (auto simp: has_running_def list_ex_iff)
  have "\<not> (cr_lease_expires_at r \<le> ce_now E \<and> lease_lost (ce_now E) (ce_probe E) r)"
    using assms(5) by (auto simp: lease_lost_def should_reclaim_with_def is_process_alive_def)
  then have "reclaim_expired (ce_now E) (ce_probe E) i db = db"
    using reclaim_expired_one [OF assms(1-4)] by (simp only: if_False)
  then show ?thesis
    using take_lease_held [OF held, of E rd adv] retire_held [OF held, of L "ce_now E"]
    by (auto simp: claim_job_def Let_def case_prod_beta split: option.split sum.split)
qed

definition sample_env :: "int \<Rightarrow> string \<Rightarrow> string \<Rightarrow> ClaimEnv" where
  "sample_env now run_id token =
     \<lparr>ce_now = now, ce_pid = 8, ce_probe = (\<lambda>p. p = 7), ce_run_id = run_id, ce_claim_token = token\<rparr>"

theorem live_lease_excludes_witness:
  "let db = fold (cron_step minutely) sample_events (cron_init [])
   in fst (claim_job minutely (sample_env 1860000000000 ''r2'' ''t2'') ''j'' True True db) = db"
proof -
  let ?db = "fold (cron_step minutely) sample_events (cron_init [])"
  let ?r = "hd (cd_runs ?db)"
  have "?r \<in> set (cd_runs ?db)" "cr_job_id ?r = ''j''" "running ?r"
    unfolding sample_tables by (simp_all add: running_def)
  moreover have "ce_now (sample_env 1860000000000 ''r2'' ''t2'') < cr_lease_expires_at ?r \<or>
      (ce_now (sample_env 1860000000000 ''r2'' ''t2'') - cr_lease_expires_at ?r < stale_lease_safety_net \<and>
       (\<exists>p. cr_owner_pid ?r = Some p \<and> p > 0 \<and>
         is_process_alive (ce_probe (sample_env 1860000000000 ''r2'' ''t2'')) (nat (p mod 2 ^ 32))))"
    unfolding sample_tables by (simp add: sample_env_def is_process_alive_def)
  ultimately show ?thesis
    using live_lease_excludes [OF cron_run_inv, of ?r minutely sample_events "[]" "''j''"] by (simp add: Let_def)
qed

text \<open>The sweep when every lease of the job is lost.\<close>

definition lost_leases :: "int \<Rightarrow> (nat \<Rightarrow> bool) \<Rightarrow> string \<Rightarrow> CronDb \<Rightarrow> bool" where
  "lost_leases now probe i db \<longleftrightarrow> list_all (\<lambda>r. cr_job_id r = i \<and> running r \<longrightarrow>
     cr_lease_expires_at r \<le> now \<and> lease_lost now probe r) (cd_runs db)"

lemma reclaim_run_frame:
  "cd_jobs (reclaim_run now k db) = cd_jobs db" "cd_receipts (reclaim_run now k db) = cd_receipts db"
  "map cr_run_id (cd_runs (reclaim_run now k db)) = map cr_run_id (cd_runs db)"
  "map cr_claim_token (cd_runs (reclaim_run now k db)) = map cr_claim_token (cd_runs db)"
  "map (\<lambda>r. (cr_job_id r, cr_attempt r)) (cd_runs (reclaim_run now k db)) = map (\<lambda>r. (cr_job_id r, cr_attempt r)) (cd_runs db)"
  using expired.keys [of k now "cd_runs db"]
  by (simp_all add: reclaim_run_def on_runs_def case_prod_beta Let_def)

lemma sql_get_None_keys: "map key t = map key u \<Longrightarrow> sql_get key k t = None \<longleftrightarrow> sql_get key k u = None"
proof -
  assume "map key t = map key u"
  then have "key ` set t = key ` set u" by (metis set_map)
  then show ?thesis by (simp add: sql_get_None_iff)
qed

lemma find_by_key:
  "distinct (map key t) \<Longrightarrow> sql_get key k t = Some r \<Longrightarrow> w r \<Longrightarrow> List.find (\<lambda>r. key r = k \<and> w r) t = Some r"
  by (induction t) (auto split: if_splits)

lemma reclaim_lost:
  assumes "cron_inv db" and "lost_leases now probe i db"
  defines "d \<equiv> reclaim_expired now probe i db"
  shows "cron_inv d" "cd_jobs d = cd_jobs db" "holders d = (holders db)(i := None)"
    "map cr_run_id (cd_runs d) = map cr_run_id (cd_runs db)"
    "map cr_claim_token (cd_runs d) = map cr_claim_token (cd_runs db)"
    "map (\<lambda>r. (cr_job_id r, cr_attempt r)) (cd_runs d) = map (\<lambda>r. (cr_job_id r, cr_attempt r)) (cd_runs db)"
proof -
  have "cron_inv d \<and> cd_jobs d = cd_jobs db \<and> holders d = (holders db)(i := None) \<and>
    map cr_run_id (cd_runs d) = map cr_run_id (cd_runs db) \<and>
    map cr_claim_token (cd_runs d) = map cr_claim_token (cd_runs db) \<and>
    map (\<lambda>r. (cr_job_id r, cr_attempt r)) (cd_runs d) = map (\<lambda>r. (cr_job_id r, cr_attempt r)) (cd_runs db)"
  proof (cases "has_running i db")
    case True
    then obtain r where r: "r \<in> set (cd_runs db)" "cr_job_id r = i" "running r"
      by (auto simp: has_running_def list_ex_iff)
    with assms(2) have "cr_lease_expires_at r \<le> now \<and> lease_lost now probe r"
      by (auto simp: lost_leases_def list_all_iff)
    then have d: "d = reclaim_run now (cr_run_id r) db"
      unfolding d_def using reclaim_expired_one [OF assms(1) r] by simp
    have rs: "runs_ok (cd_runs db)" using assms(1) by (simp add: cron_inv_def)
    have "holders d = (holders db)(i := None)"
      unfolding d reclaim_run_def using expired_lease.holders_released_at [OF rs r(1)] r by simp
    then show ?thesis
      using cron_step_inv [OF assms(1), of undefined "Reclaim now (cr_run_id r)"] reclaim_run_frame
      unfolding d by simp
  next
    case False
    then have "d = db" by (simp add: d_def reclaim_expired_def candidate_runs_none)
    moreover have "holders db = (holders db)(i := None)"
      using False by (simp add: fun_upd_idem holders_None_iff)
    ultimately show ?thesis using assms(1) by simp
  qed
  then show "cron_inv d" "cd_jobs d = cd_jobs db" "holders d = (holders db)(i := None)"
    "map cr_run_id (cd_runs d) = map cr_run_id (cd_runs db)"
    "map cr_claim_token (cd_runs d) = map cr_claim_token (cd_runs db)"
    "map (\<lambda>r. (cr_job_id r, cr_attempt r)) (cd_runs d) = map (\<lambda>r. (cr_job_id r, cr_attempt r)) (cd_runs db)" by blast+
qed

lemma take_lease_granted:
  assumes "cron_inv d" and "job_get i d = Some job" and "cj_authority job \<noteq> ''cutover_pending''"
    and "rd \<longrightarrow> due (ce_now E) job" and "holders d i = None"
    and "sql_get cr_run_id (ce_run_id E) (cd_runs d) = None"
    and "sql_get cr_claim_token (ce_claim_token E) (cd_runs d) = None"
  shows "take_lease E i rd adv d =
    (d\<lparr>cd_runs := cd_runs d @ [run_row (ce_now E) (ce_pid E) i (ce_run_id E) (ce_claim_token E) d]\<rparr>,
     Inr (Some \<lparr>cc_run_id = ce_run_id E, cc_claim_token = ce_claim_token E, cc_job = job, cc_advance_schedule = adv\<rparr>))"
proof -
  have job: "job \<in> set (cd_jobs d)" "cj_id job = i"
    using assms(2) sql_get_SomeD [of cj_id i "cd_jobs d" job] by (simp_all add: job_get_def)
  have "insertable (ce_now E) i rd d"
    using job assms(3-5) by (auto simp: insertable_def list_ex_iff holders_None_iff)
  with assms(2,6,7) show ?thesis
    by (simp add: take_lease_def insert_run_def job_get_def)
qed

text \<open>A job that is due (or triggered by hand), not handed over, below its repeat limit and
  whose earlier leases are lost is claimed: the claim names it, the scheduler holds its lease for
  thirty minutes from now as the next attempt, and no other lease changes.\<close>

theorem claim_granted:
  assumes "cron_inv db" and "\<not> has_pending_cutover_receipt db" and "job_get i db = Some job"
    and "cj_authority job \<noteq> ''cutover_pending''" and "\<not> limit_reached L (cj_payload_json job)"
    and "rd \<longrightarrow> due (ce_now E) job \<and> (starts_with ''once:'' (cj_expression job) \<longrightarrow>
      ce_now E - the (cj_next_run_at job) \<le> oneshot_grace_duration)"
    and "lost_leases (ce_now E) (ce_probe E) i db"
    and "sql_get cr_run_id (ce_run_id E) (cd_runs db) = None"
    and "sql_get cr_claim_token (ce_claim_token E) (cd_runs db) = None"
  shows "snd (claim_job L E i rd adv db) = Inr (Some \<lparr>cc_run_id = ce_run_id E,
      cc_claim_token = ce_claim_token E, cc_job = job, cc_advance_schedule = adv\<rparr>) \<and>
    holders (fst (claim_job L E i rd adv db)) = (holders db)(i \<mapsto> ce_claim_token E) \<and>
    (\<exists>r. last (cd_runs (fst (claim_job L E i rd adv db))) = r \<and> cr_run_id r = ce_run_id E \<and>
      cr_lease_expires_at r = ce_now E + lease_duration \<and>
      (\<forall>r' \<in> set (cd_runs db). cr_job_id r' = i \<longrightarrow> cr_attempt r' < cr_attempt r))"
proof -
  let ?d = "reclaim_expired (ce_now E) (ce_probe E) i db"
  note d = reclaim_lost [OF assms(1,7)]
  have d_fresh: "sql_get cr_run_id (ce_run_id E) (cd_runs ?d) = None"
      "sql_get cr_claim_token (ce_claim_token E) (cd_runs ?d) = None"
    using assms(8,9) sql_get_None_keys [OF d(4), of "ce_run_id E"] sql_get_None_keys [OF d(5), of "ce_claim_token E"]
    by simp_all
  have job_d: "job_get i ?d = Some job" using assms(3) d(2) by (simp add: job_get_def)
  have "List.find (\<lambda>j. cj_id j = i \<and> cj_authority j \<noteq> ''cutover_pending'') (cd_jobs ?d) = Some job"
    unfolding d(2) using assms(1,3,4)
    by (intro find_by_key) (simp_all add: cron_inv_def jobs_ok_def job_get_def)
  then have claim: "claim_job L E i rd adv db = take_lease E i rd adv ?d"
    using assms(2,5,6) by (auto simp: claim_job_def Let_def due_def split: option.splits)
  note granted = take_lease_granted [OF d(1) job_d assms(4) _ _ d_fresh, of rd]
  let ?r = "run_row (ce_now E) (ce_pid E) i (ce_run_id E) (ce_claim_token E) ?d"
  have t: "take_lease E i rd adv ?d = (?d\<lparr>cd_runs := cd_runs ?d @ [?r]\<rparr>, Inr (Some \<lparr>cc_run_id = ce_run_id E,
      cc_claim_token = ce_claim_token E, cc_job = job, cc_advance_schedule = adv\<rparr>))"
    using granted [of adv] assms(6) d(3) by auto
  have "cr_attempt r' < next_attempt i ?d" if "r' \<in> set (cd_runs db)" "cr_job_id r' = i" for r'
  proof -
    have "(i, cr_attempt r') \<in> set (map (\<lambda>r. (cr_job_id r, cr_attempt r)) (cd_runs ?d))"
      unfolding d(6) using that by force
    then show ?thesis using next_attempt_greater [of _ ?d i] by auto
  qed
  then show ?thesis
    unfolding claim t using holders_snoc [of ?d i "ce_now E" "ce_pid E" "ce_run_id E" "ce_claim_token E" ?d] d(3)
    by (simp add: run_row_def)
qed

theorem claim_granted_witness:
  "let db = fold (cron_step minutely) [Register 0 ''j'' sample_spec] (cron_init []);
       E = sample_env 60000000000 ''r1'' ''t1''
   in holders (fst (claim_job minutely E ''j'' True True db)) ''j'' = Some ''t1''"
proof -
  let ?db = "fold (cron_step minutely) [Register 0 ''j'' sample_spec] (cron_init [])"
  let ?E = "sample_env 60000000000 ''r1'' ''t1''"
  let ?job = "job_row minutely ''j'' sample_spec 60000000000 0"
  have db: "\<not> has_pending_cutover_receipt ?db" "cd_runs ?db = []" "job_get ''j'' ?db = Some ?job"
    by code_simp+
  have job: "cj_authority ?job \<noteq> ''cutover_pending''" "\<not> limit_reached minutely (cj_payload_json ?job)"
    "due (ce_now ?E) ?job" "\<not> starts_with ''once:'' (cj_expression ?job)"
    by code_simp+
  have "lost_leases (ce_now ?E) (ce_probe ?E) ''j'' ?db" "sql_get cr_run_id (ce_run_id ?E) (cd_runs ?db) = None"
    "sql_get cr_claim_token (ce_claim_token ?E) (cd_runs ?db) = None"
    unfolding db(2) lost_leases_def by simp_all
  with claim_granted [OF cron_run_inv db(1,3) job(1,2), where rd = True and E = ?E and adv = True] job(3,4)
  show ?thesis by (simp add: Let_def sample_env_def)
qed

subsection \<open>Completion\<close>

lemma finish_run_counts:
  assumes "cron_inv db" and "r \<in> set (cd_runs db)" and "running r"
    and "cr_run_id r = cc_run_id claim" and "cr_claim_token r = cc_claim_token claim"
  shows "snd (finish_run now st e claim db) = 1"
proof -
  have d: "distinct (map cr_run_id (cd_runs db))" using assms(1) by (simp add: cron_inv_def runs_ok_def)
  have "sql_get cr_run_id (cc_run_id claim) (cd_runs db) = Some r"
    using sql_get_mem [OF d assms(2)] assms(4) by simp
  with filter_key [OF d, of "cc_run_id claim" "\<lambda>r. cr_claim_token r = cc_claim_token claim \<and> running r"] assms(3,5)
  show ?thesis by (simp add: finish_run_def on_runs_def sql_update_def)
qed

lemma finish_run_jobs [simp]: "cd_jobs (fst (finish_run now st e claim db)) = cd_jobs db"
  by (simp add: finish_run_def on_runs_def case_prod_beta Let_def)

lemma job_get_record_output [simp]: "job_get i (record_output out db) = job_get i db"
  by (simp add: record_output_def job_get_def split: option.split)

lemma job_get_on_jobs:
  assumes "job_update g"
  shows "job_get i (fst (on_jobs q g db)) = map_option (\<lambda>j. if q j then g j else j) (job_get i db)"
proof -
  have "keyed_update cj_id g" using assms by (simp add: job_update_def)
  from keyed_update.get_update [OF this, of i q "cd_jobs db"] show ?thesis
    by (simp add: job_get_def on_jobs_def case_prod_beta Let_def)
qed

lemma set_members_get:
  assumes "is_object p"
  shows "is_object (set_members kvs p)"
    and "k \<notin> fst ` set kvs \<Longrightarrow> json_get k (set_members kvs p) = json_get k p"
  using assms by (induction kvs arbitrary: p) (auto simp: set_members_def split: prod.splits)

text \<open>The row of the job after the completion of a claim that still holds its lease.\<close>

definition completed_job :: "CronLib \<Rightarrow> int \<Rightarrow> CronClaim \<Rightarrow> int \<Rightarrow> CronJob \<Rightarrow> CronJob" where
  "completed_job L now claim next j =
     (let (payload, n_times, c) = succeeded_payload L now claim; pj = json_to_string L payload in
      if \<not> unchanged claim j then j
      else if \<not> cc_advance_schedule claim then payload_row now pj j
      else if one_shot claim \<or> should_disable_after c n_times then retire_row now pj j
      else if cj_enabled j then advance_row next now pj j
      else j)"

definition repeats :: "CronLib \<Rightarrow> int \<Rightarrow> CronClaim \<Rightarrow> bool" where
  "repeats L now claim \<longleftrightarrow> cc_advance_schedule claim \<and> \<not> one_shot claim \<and>
     (case succeeded_payload L now claim of (_, n_times, c) \<Rightarrow> \<not> should_disable_after c n_times)"

definition claim_zone :: "CronLib \<Rightarrow> int \<Rightarrow> CronClaim \<Rightarrow> string option" where
  "claim_zone L now claim =
     Option.bind (json_get ''schedule'' (fst (succeeded_payload L now claim))) (get_str ''timezone'')"

lemma complete_success_spec:
  assumes "cron_inv db" and "r \<in> set (cd_runs db)" and "running r"
    and "cr_run_id r = cc_run_id claim" and "cr_claim_token r = cc_claim_token claim"
    and "repeats L now claim \<longrightarrow>
      next_run_tz L (cj_expression (cc_job claim)) now (claim_zone L now claim) = Inr next"
  shows "snd (complete_success L now claim out db) = Inr () \<and>
    holders (fst (complete_success L now claim out db)) = (holders db)(cr_job_id r := None) \<and>
    job_get i (fst (complete_success L now claim out db)) =
      map_option (completed_job L now claim next) (job_get i db)"
proof -
  let ?d = "fst (finish_run now ''succeeded'' None claim db)"
  have n: "snd (finish_run now ''succeeded'' None claim db) = 1"
    by (rule finish_run_counts [OF assms(1-5)])
  have rs: "runs_ok (cd_runs db)" using assms(1) by (simp add: cron_inv_def)
  have "holders ?d = (holders db)(cr_job_id r := None)"
    unfolding finish_run_def using succeeded_lease.holders_released_at [OF rs assms(2)] assms(3-5) by simp
  moreover have "job_get i ?d = job_get i db" by (simp add: job_get_def)
  ultimately show ?thesis
    using assms(6) n
    by (cases "job_get i db")
      (auto simp: complete_success_def completed_job_def claim_zone_def repeats_def Let_def case_prod_beta
        job_get_on_jobs job_rows)
qed


text \<open>The completion of a claim that holds its lease, for every kind of job: the lease is
  given back and the job's row is the one specified: its payload counts the run, a one-shot or a job
  at its limit is disabled, another one gets its next run in its time zone, a run by hand leaves the
  schedule alone, and a row that was edited meanwhile is not overwritten.\<close>

theorem complete_success_effect:
  assumes "cron_inv db" and "r \<in> set (cd_runs db)" and "running r"
    and "cr_run_id r = cc_run_id claim" and "cr_claim_token r = cc_claim_token claim"
    and "repeats L now claim \<longrightarrow>
      next_run_tz L (cj_expression (cc_job claim)) now (claim_zone L now claim) = Inr next"
  shows "snd (complete_success L now claim out db) = Inr () \<and>
    holders (fst (complete_success L now claim out db)) = (holders db)(cr_job_id r := None) \<and>
    job_get i (fst (complete_success L now claim out db)) =
      map_option (completed_job L now claim next) (job_get i db)"
  using assms by (rule complete_success_spec)

text \<open>When the next run cannot be computed, the transaction is rolled back: the lease is kept though
  the heartbeat has stopped, the output is lost, and the job runs again when the lease has expired.\<close>

lemma complete_success_uncomputable:
  assumes "repeats L now claim"
    and "next_run_tz L (cj_expression (cc_job claim)) now (claim_zone L now claim) = Inl e"
  shows "fst (complete_success L now claim out db) = db"
  using assms by (simp add: complete_success_def repeats_def claim_zone_def Let_def case_prod_beta)

theorem complete_success_effect_witness:
  "let db = fold (cron_step minutely) sample_events (cron_init [])
   in job_get ''j'' (fst (complete_success minutely 65000000000 sample_claim None db)) =
        Some (advance_row 125000000000 65000000000 ''json'' (cc_job sample_claim)) \<and>
      holders (fst (complete_success minutely 65000000000 sample_claim None db)) ''j'' = None"
proof -
  let ?db = "fold (cron_step minutely) sample_events (cron_init [])"
  let ?r = "hd (cd_runs ?db)"
  have r: "?r \<in> set (cd_runs ?db)" "running ?r" "cr_run_id ?r = cc_run_id sample_claim"
    "cr_claim_token ?r = cc_claim_token sample_claim" "cr_job_id ?r = ''j''"
    unfolding sample_tables by (simp_all add: running_def sample_claim_def)
  have p: "succeeded_payload minutely 65000000000 sample_claim =
      (fst (succeeded_payload minutely 65000000000 sample_claim), None, 1)"
    by (simp add: succeeded_payload_def claim_payload_def minutely_def increment_repeat_completed_def Let_def succ_u64_def)
  have z: "claim_zone minutely 65000000000 sample_claim = None"
    by (simp add: claim_zone_def succeeded_payload_def claim_payload_def minutely_def
        increment_repeat_completed_def Let_def set_members_def)
  have "next_run_tz minutely (cj_expression (cc_job sample_claim)) 65000000000 None = Inr 125000000000"
    and j: "job_get ''j'' ?db = Some (cc_job sample_claim)"
    by code_simp+
  with z complete_success_effect [OF cron_run_inv r(1-4), of minutely 65000000000 125000000000 None "''j''"]
  have "job_get ''j'' (fst (complete_success minutely 65000000000 sample_claim None ?db)) =
      Some (completed_job minutely 65000000000 sample_claim 125000000000 (cc_job sample_claim))"
    "holders (fst (complete_success minutely 65000000000 sample_claim None ?db)) ''j'' = None"
    using r(5) by simp_all
  moreover have "completed_job minutely 65000000000 sample_claim 125000000000 (cc_job sample_claim) =
      advance_row 125000000000 65000000000 ''json'' (cc_job sample_claim)"
    by (subst completed_job_def, subst p)
      (simp add: unchanged_def sample_claim_def one_shot_def job_row_def sample_spec_def should_disable_after_def minutely_def)
  ultimately show ?thesis by (simp only: Let_def)
qed

subsection \<open>Limited jobs\<close>

lemma extract_repeat_cong:
  "json_get ''repeat'' p = json_get ''repeat'' q \<Longrightarrow> json_get ''times'' p = json_get ''times'' q \<Longrightarrow>
     json_get ''completed'' p = json_get ''completed'' q \<Longrightarrow> extract_repeat_info p = extract_repeat_info q"
  by (simp add: extract_repeat_info_def split: option.split)

lemma succeeded_payload_counts:
  assumes "json_from_str L (cj_payload_json (cc_job claim)) = Inr p" and "repeat_readable p"
    and "extract_repeat_info p = (n_times, c)"
  obtains q where "succeeded_payload L now claim = (q, n_times, succ_u64 c)"
    and "extract_repeat_info q = (n_times, succ_u64 c)"
proof -
  obtain p' m k where i: "increment_repeat_completed p = (p', m, k)" by (rule prod_cases3)
  have o: "is_object p'"
    using increment_readable [OF assms(2) i] by (simp add: repeat_readable_def)
  have "m = n_times" "k = succ_u64 c" and e: "extract_repeat_info p' = (m, k)"
    using increment_counts [OF assms(2) i] assms(3) by auto
  moreover define q where "q = set_members [(''last_status'', JStr ''succeeded''),
    (''last_run_at'', JStr (to_rfc3339 L now)), (''last_error'', JNull), (''last_delivery_error'', JNull)] p'"
  moreover have "extract_repeat_info q = extract_repeat_info p'"
    unfolding q_def using o by (intro extract_repeat_cong set_members_get(2)) simp_all
  ultimately show ?thesis
    using that [of q] i assms(1) by (simp add: succeeded_payload_def claim_payload_def)
qed

lemma reclaim_expired_jobs [simp]: "cd_jobs (reclaim_expired now probe i db) = cd_jobs db"
proof -
  have "cd_jobs (fold (\<lambda>r d. if lease_lost now probe r then reclaim_run now (cr_run_id r) d else d) rs db) = cd_jobs db" for rs
    by (induction rs arbitrary: db) (simp_all add: reclaim_run_frame)
  then show ?thesis by (simp add: reclaim_expired_def)
qed

lemma claim_refused_at_limit:
  assumes "cron_inv db" and "job_get i db = Some job" and "limit_reached L (cj_payload_json job)"
  shows "snd (claim_job L E i rd adv db) = Inr None"
proof -
  have "j = job" if "List.find (\<lambda>j. cj_id j = i \<and> cj_authority j \<noteq> ''cutover_pending'') (cd_jobs db) = Some j" for j
  proof -
    from that have "j \<in> set (cd_jobs db)" "cj_id j = i" by (auto simp: find_Some_iff)
    with assms(1,2) sql_get_mem [of cj_id "cd_jobs db" j] show ?thesis
      by (simp add: cron_inv_def jobs_ok_def job_get_def)
  qed
  with assms(3) show ?thesis
    by (auto simp: claim_job_def Let_def split: option.split)
qed

text \<open>A job with a repeat limit stops there: the completion that reaches the limit disables it,
  and from then on neither the poll nor a trigger by hand gets a claim.\<close>

theorem limited_job_ends:
  assumes "cron_inv db" and "r \<in> set (cd_runs db)" and "running r"
    and "cr_run_id r = cc_run_id claim" and "cr_claim_token r = cc_claim_token claim"
    and "cc_advance_schedule claim" and "job_get i db = Some (cc_job claim)"
    and "json_from_str L (cj_payload_json (cc_job claim)) = Inr p" and "repeat_readable p"
    and "extract_repeat_info p = (Some n, c)" and "0 < n" and "n \<le> c + 1" and "c < 2 ^ 64 - 1"
    and "json_from_str L (json_to_string L (fst (succeeded_payload L now claim))) = Inr (fst (succeeded_payload L now claim))"
  shows "(\<exists>j. job_get i (fst (complete_success L now claim out db)) = Some j \<and> \<not> cj_enabled j \<and> cj_next_run_at j = None) \<and>
    (\<forall>E rd adv. snd (claim_job L E i rd adv (fst (complete_success L now claim out db))) = Inr None)"
proof -
  obtain q where q: "succeeded_payload L now claim = (q, Some n, succ_u64 c)"
    "extract_repeat_info q = (Some n, succ_u64 c)"
    by (rule succeeded_payload_counts [OF assms(8-10), of now])
  have limit: "should_disable_after (succ_u64 c) (Some n)"
    using assms(11-13) by (simp add: succ_u64_id should_disable_after_def)
  have codec: "json_from_str L (json_to_string L q) = Inr q" using assms(14) q(1) by simp
  have id: "cj_id (cc_job claim) = i"
    using assms(7) sql_get_SomeD [of cj_id i "cd_jobs db"] by (auto simp: job_get_def)
  let ?db = "fst (complete_success L now claim out db)" let ?j = "retire_row now (json_to_string L q) (cc_job claim)"
  have "\<not> repeats L now claim" using q(1) limit by (simp add: repeats_def)
  then have "job_get i ?db = map_option (completed_job L now claim 0) (job_get i db)"
    using complete_success_spec [OF assms(1-5), of L now 0 out i] by simp
  moreover have "completed_job L now claim 0 (cc_job claim) = ?j"
    using assms(6) limit by (simp add: completed_job_def q(1) unchanged_def)
  ultimately have j: "job_get i ?db = Some ?j" using assms(7) by simp
  moreover have "limit_reached L (cj_payload_json ?j)"
    using codec q(2) limit by (simp add: limit_reached_def retire_row_def)
  ultimately show ?thesis
    using claim_refused_at_limit [OF complete_success_inv [OF assms(1)] j] by (auto simp: retire_row_def)
qed

text \<open>A job limited to one run, with the two texts its payload has before and after it.\<close>

definition once_payload :: json where
  "once_payload = JObj [(''repeat'', JObj [(''times'', JNum 1)])]"

definition done_payload :: json where
  "done_payload = JObj [(''repeat'', JObj [(''times'', JNum 1), (''completed'', JNum 1)]),
     (''last_status'', JStr ''succeeded''), (''last_run_at'', JStr ''now''), (''last_error'', JNull),
     (''last_delivery_error'', JNull)]"

definition once_lib :: CronLib where
  "once_lib = minutely\<lparr>json_from_str := (\<lambda>s. if s = ''before'' then Inr once_payload else Inr done_payload),
     json_to_string := (\<lambda>j. if j = done_payload then ''after'' else ''before''), to_rfc3339 := (\<lambda>t. ''now'')\<rparr>"

definition once_events :: "CronEvent list" where
  "once_events = [Register 0 ''j'' \<lparr>sp_expression = ''* * * * *'', sp_payload = once_payload, sp_session_key = None\<rparr>,
     InsertRun 60000000000 7 ''j'' ''r1'' ''t1'' True]"

definition once_job :: CronJob where
  "once_job = \<lparr>cj_id = ''j'', cj_session_key = None, cj_expression = ''* * * * *'', cj_payload_json = ''before'',
     cj_enabled = True, cj_next_run_at = Some 60000000000, cj_created_at = 0, cj_updated_at = 0,
     cj_authority = ''omon_owned''\<rparr>"

definition once_claim :: CronClaim where
  "once_claim = \<lparr>cc_run_id = ''r1'', cc_claim_token = ''t1'', cc_job = once_job, cc_advance_schedule = True\<rparr>"

theorem limited_job_ends_witness:
  "let db = fold (cron_step once_lib) once_events (cron_init [])
   in snd (claim_job once_lib (sample_env 125000000000 ''r2'' ''t2'') ''j'' False False
        (fst (complete_success once_lib 65000000000 once_claim None db))) = Inr None"
proof -
  let ?db = "fold (cron_step once_lib) once_events (cron_init [])"
  let ?r = "hd (cd_runs ?db)"
  have db: "length (cd_runs ?db) = 1" "running ?r" "cr_run_id ?r = ''r1''" "cr_claim_token ?r = ''t1''"
    "job_get ''j'' ?db = Some once_job"
    by code_simp+
  have r: "?r \<in> set (cd_runs ?db)" using db(1) by (cases "cd_runs ?db") simp_all
  have ids: "cr_run_id ?r = cc_run_id once_claim" "cr_claim_token ?r = cc_claim_token once_claim"
    using db(3,4) by (simp_all add: once_claim_def)
  have job: "cc_advance_schedule once_claim" "job_get ''j'' ?db = Some (cc_job once_claim)"
    "json_from_str once_lib (cj_payload_json (cc_job once_claim)) = Inr once_payload"
    using db(5) by (simp_all add: once_claim_def once_job_def once_lib_def minutely_def)
  have p: "repeat_readable once_payload" "extract_repeat_info once_payload = (Some 1, 0)"
    by (simp_all add: once_payload_def repeat_readable_def extract_repeat_info_def)
  have "fst (succeeded_payload once_lib 65000000000 once_claim) = done_payload"
    using job(3)
    by (simp add: succeeded_payload_def claim_payload_def once_payload_def increment_repeat_completed_def
        set_members_def succ_u64_def done_payload_def once_lib_def)
  then have codec: "json_from_str once_lib (json_to_string once_lib (fst (succeeded_payload once_lib 65000000000 once_claim))) =
      Inr (fst (succeeded_payload once_lib 65000000000 once_claim))"
    by (simp add: once_lib_def)
  from limited_job_ends [OF cron_run_inv r db(2) ids job p _ _ _ codec, THEN conjunct2] show ?thesis
    by (simp add: Let_def)
qed

subsection \<open>Failure\<close>

definition failed_job :: "CronLib \<Rightarrow> int \<Rightarrow> CronClaim \<Rightarrow> OmonError \<Rightarrow> nat \<Rightarrow> CronJob \<Rightarrow> CronJob" where
  "failed_job L now claim err k j =
     (let (payload, n_times, c) = failed_payload L now claim (error_to_string err); pj = json_to_string L payload in
      if \<not> unchanged claim j then j
      else if \<not> cc_advance_schedule claim then payload_row now pj j
      else if one_shot claim \<or> should_disable_after c n_times then retire_row now pj j
      else case next_run_after_failure L (cj_expression (cc_job claim)) now k of
        Inr (Some next) \<Rightarrow> if cj_enabled j then advance_row next now pj j else j
      | _ \<Rightarrow> retire_row now pj j)"

text \<open>A failed run always gives its lease back and is recorded with its error; the job is
  rescheduled after the back-off for its failures in a row, disabled when it was a one-shot, has
  reached its limit or has no next run, and left alone when it was edited meanwhile.  Nothing but the
  panic of the clock arithmetic prevents it.\<close>

theorem complete_failure_effect:
  assumes "cron_inv db" and "r \<in> set (cd_runs db)" and "running r"
    and "cr_run_id r = cc_run_id claim" and "cr_claim_token r = cc_claim_token claim"
    and "k = consecutive_failures (cj_id (cc_job claim))
          (fst (finish_run now ''failed'' (Some (error_to_string err)) claim db))"
    and "next_run_after_failure L (cj_expression (cc_job claim)) now k \<noteq> Inl Panic"
  shows "snd (complete_failure L now claim err db) = Inr () \<and>
    holders (fst (complete_failure L now claim err db)) = (holders db)(cr_job_id r := None) \<and>
    sql_get cr_run_id (cr_run_id r) (cd_runs (fst (complete_failure L now claim err db))) =
      Some (finish_row now ''failed'' (Some (error_to_string err)) r) \<and>
    job_get i (fst (complete_failure L now claim err db)) =
      map_option (failed_job L now claim err k) (job_get i db)"
proof -
  let ?d = "fst (finish_run now ''failed'' (Some (error_to_string err)) claim db)"
  have n: "snd (finish_run now ''failed'' (Some (error_to_string err)) claim db) = 1"
    by (rule finish_run_counts [OF assms(1-5)])
  have rs: "runs_ok (cd_runs db)" using assms(1) by (simp add: cron_inv_def)
  have "keyed_update cr_run_id (finish_row now ''failed'' (Some (error_to_string err)))"
    by unfold_locales (simp add: finish_row_def)
  from keyed_update.get_update [OF this, of "cr_run_id r" _ "cd_runs db"]
  have "sql_get cr_run_id (cr_run_id r) (cd_runs ?d) = Some (finish_row now ''failed'' (Some (error_to_string err)) r)"
    using sql_get_mem [of cr_run_id "cd_runs db" r] assms(2-5) rs
    by (simp add: finish_run_def on_runs_def case_prod_beta Let_def runs_ok_def)
  moreover have "holders ?d = (holders db)(cr_job_id r := None)"
    unfolding finish_run_def using failed_lease.holders_released_at [OF rs assms(2)] assms(3-5) by simp
  moreover have "job_get i ?d = job_get i db" by (simp add: job_get_def)
  ultimately show ?thesis
    using assms(6,7) n
    by (cases "job_get i db")
      (auto simp: complete_failure_def failed_job_def Let_def case_prod_beta job_get_on_jobs job_rows
        split: sum.splits option.splits CronFault.splits)
qed

theorem complete_failure_effect_witness:
  "let db = fold (cron_step once_lib) once_events (cron_init [])
   in snd (complete_failure once_lib 65000000000 once_claim (ToolExecution ''x'') db) = Inr () \<and>
      holders (fst (complete_failure once_lib 65000000000 once_claim (ToolExecution ''x'') db)) ''j'' = None"
proof -
  let ?db = "fold (cron_step once_lib) once_events (cron_init [])"
  let ?r = "hd (cd_runs ?db)"
  have db: "length (cd_runs ?db) = 1" "running ?r" "cr_run_id ?r = cc_run_id once_claim"
    "cr_claim_token ?r = cc_claim_token once_claim" "cr_job_id ?r = ''j''"
    by code_simp+
  have r: "?r \<in> set (cd_runs ?db)" using db(1) by (cases "cd_runs ?db") simp_all
  have "next_run once_lib (cj_expression (cc_job once_claim)) 65000000000 = Inr 125000000000"
    by code_simp
  moreover have "min 3600 (10 * 2 ^ (k - 1)) * second_ns \<le> 3600 * second_ns" for k :: nat by simp
  ultimately have "next_run_after_failure once_lib (cj_expression (cc_job once_claim)) 65000000000 k \<noteq> Inl Panic" for k
    by (auto simp: next_run_after_failure_def backoff_reference add_time_def)
  from complete_failure_effect [OF cron_run_inv r db(2-4) refl this] db(5) show ?thesis
    by (simp add: Let_def)
qed

end
