(* ===== verification/Cron_Notepad.thy ===== *)
theory Cron_Notepad
  imports Cron_Runs "HOL-Library.Multiset"
begin

section \<open>Notepads of cron jobs\<close>

text \<open>
  The last part of \<open>src/cron/store.rs\<close>: a job keeps small texts from run to run in
  \<open>cron_notepads\<close>, at most 16 KiB each and 64 KiB together.  A size is a number of bytes.
\<close>

abbreviation max_notepad_value_bytes :: nat where "max_notepad_value_bytes \<equiv> 16384"
abbreviation max_notepad_total_bytes :: nat where "max_notepad_total_bytes \<equiv> 65536"

definition notepads_of :: "string \<Rightarrow> string \<Rightarrow> CronNotepad list \<Rightarrow> CronNotepad list" where
  "notepads_of profile job_id ns = filter (\<lambda>n. cn_profile n = profile \<and> cn_job_id n = job_id) ns"

definition get_cron_notepads :: "string \<Rightarrow> string \<Rightarrow> CronDb \<Rightarrow> (string \<times> string) list" where
  "get_cron_notepads profile job_id db =
     map (\<lambda>n. (cn_key n, cn_value n)) (sort_key cn_key (notepads_of profile job_id (cd_notepads db)))"

definition notepad_key :: "CronNotepad \<Rightarrow> string \<times> string \<times> string" where
  "notepad_key n = (cn_profile n, cn_job_id n, cn_key n)"

definition rewrite_notepad :: "CronNotepad \<Rightarrow> CronNotepad \<Rightarrow> CronNotepad" where
  "rewrite_notepad new n = n\<lparr>cn_value := cn_value new, cn_updated_at := cn_updated_at new\<rparr>"

definition set_cron_notepad ::
  "string \<Rightarrow> string \<Rightarrow> string \<Rightarrow> string \<Rightarrow> string \<Rightarrow> CronDb \<Rightarrow> OmonError + CronDb" where
  "set_cron_notepad now profile job_id key value db =
     (if length value > max_notepad_value_bytes
      then Inl (Config (''notepad value size '' @ dec (length value) @ '' bytes exceeds maximum allowed 16 KiB''))
      else
        let total_size = sum_list (map (length \<circ> snd)
              (filter (\<lambda>(k, _). k \<noteq> key) (get_cron_notepads profile job_id db))) + length value
        in if total_size > max_notepad_total_bytes
           then Inl (Config (''total notepad size '' @ dec total_size @
                  '' bytes exceeds maximum allowed 64 KiB for job '' @ job_id))
           else
             let new = \<lparr>cn_profile = profile, cn_job_id = job_id, cn_key = key, cn_value = value,
                        cn_created_at = now, cn_updated_at = now\<rparr>
             in Inr (db\<lparr>cd_notepads :=
                  fst (sql_upsert notepad_key (\<lambda>_. True) (rewrite_notepad new) new (cd_notepads db))\<rparr>))"

definition delete_cron_notepad :: "string \<Rightarrow> string \<Rightarrow> string option \<Rightarrow> CronDb \<Rightarrow> CronDb \<times> nat" where
  "delete_cron_notepad profile job_id key db =
     (let (ns, n) = sql_delete (\<lambda>r. cn_profile r = profile \<and> cn_job_id r = job_id \<and>
            (case key of Some k \<Rightarrow> cn_key r = k | None \<Rightarrow> True)) (cd_notepads db)
      in (db\<lparr>cd_notepads := ns\<rparr>, n))"

subsection \<open>The budget\<close>

datatype NotepadEvent =
    SetNotepad string string string string string
  | DeleteNotepad string string "string option"

fun notepad_step :: "NotepadEvent \<Rightarrow> CronDb \<Rightarrow> CronDb" where
  "notepad_step (SetNotepad now profile job_id key value) db =
     (case set_cron_notepad now profile job_id key value db of Inl _ \<Rightarrow> db | Inr db' \<Rightarrow> db')"
| "notepad_step (DeleteNotepad profile job_id key) db = fst (delete_cron_notepad profile job_id key db)"

definition notepad_bytes :: "string \<Rightarrow> string \<Rightarrow> CronNotepad list \<Rightarrow> nat" where
  "notepad_bytes profile job_id ns = sum_list (map (length \<circ> cn_value) (notepads_of profile job_id ns))"

definition notepads_ok :: "CronDb \<Rightarrow> bool" where
  "notepads_ok db \<longleftrightarrow> distinct (map notepad_key (cd_notepads db)) \<and>
     list_all (\<lambda>n. length (cn_value n) \<le> max_notepad_value_bytes) (cd_notepads db) \<and>
     (\<forall>profile job_id. notepad_bytes profile job_id (cd_notepads db) \<le> max_notepad_total_bytes)"

interpretation pad: keyed_update notepad_key "rewrite_notepad n" for n
  by unfold_locales (simp add: notepad_key_def rewrite_notepad_def)

lemma sum_list_sort_key: "sum_list (map f (sort_key k xs)) = sum_list (map (f :: 'a \<Rightarrow> nat) xs)"
proof -
  have "mset (map f (sort_key k xs)) = mset (map f xs)" by simp
  then show ?thesis by (metis sum_mset_sum_list)
qed

text \<open>The size the code computes: the other texts of the job and the new one.\<close>

lemma other_bytes:
  "sum_list (map (length \<circ> snd) (filter (\<lambda>(k, _). k \<noteq> key) (get_cron_notepads p j db))) =
   sum_list (map (length \<circ> cn_value) (filter (\<lambda>n. cn_key n \<noteq> key) (notepads_of p j (cd_notepads db))))"
proof -
  let ?ns = "sort_key cn_key (notepads_of p j (cd_notepads db))"
  have "sum_list (map (length \<circ> snd) (filter (\<lambda>(k, _). k \<noteq> key) (map (\<lambda>n. (cn_key n, cn_value n)) ns))) =
      sum_list (map (length \<circ> cn_value) (filter (\<lambda>n. cn_key n \<noteq> key) ns))" for ns :: "CronNotepad list"
    by (induction ns) auto
  moreover have "filter (\<lambda>n. cn_key n \<noteq> key) ?ns =
      sort_key cn_key (filter (\<lambda>n. cn_key n \<noteq> key) (notepads_of p j (cd_notepads db)))"
    by (rule filter_sort)
  ultimately show ?thesis
    unfolding get_cron_notepads_def by (simp only: sum_list_sort_key)
qed

definition elsewhere :: "string \<times> string \<times> string \<Rightarrow> string \<Rightarrow> string \<Rightarrow> CronNotepad list \<Rightarrow> nat" where
  "elsewhere k p j ns =
     sum_list (map (length \<circ> cn_value) (filter (\<lambda>n. notepad_key n \<noteq> k) (notepads_of p j ns)))"

lemma notepad_bytes_simps [simp]:
  "notepad_bytes p j [] = 0"
  "notepad_bytes p j (n # ns) =
     (if cn_profile n = p \<and> cn_job_id n = j then length (cn_value n) else 0) + notepad_bytes p j ns"
  "elsewhere k p j [] = 0"
  "elsewhere k p j (n # ns) =
     (if cn_profile n = p \<and> cn_job_id n = j \<and> notepad_key n \<noteq> k then length (cn_value n) else 0) + elsewhere k p j ns"
  by (simp_all add: notepad_bytes_def notepads_of_def elsewhere_def)

lemma elsewhere_absent: "k \<notin> notepad_key ` set ns \<Longrightarrow> elsewhere k p j ns = notepad_bytes p j ns"
  by (induction ns) auto

lemma elsewhere_le: "elsewhere k p j ns \<le> notepad_bytes p j ns"
  by (induction ns) auto

lemma bytes_snoc: "notepad_bytes p j (ns @ [n]) =
    notepad_bytes p j ns + (if cn_profile n = p \<and> cn_job_id n = j then length (cn_value n) else 0)"
  by (induction ns) auto

lemma bytes_rewrite:
  assumes "distinct (map notepad_key ns)"
  shows "notepad_bytes p j (map (\<lambda>r. if notepad_key r = notepad_key n then rewrite_notepad n r else r) ns) =
    elsewhere (notepad_key n) p j ns +
    (if notepad_key n \<in> notepad_key ` set ns \<and> cn_profile n = p \<and> cn_job_id n = j then length (cn_value n) else 0)"
  using assms
proof (induction ns)
  case (Cons r ns)
  show ?case
  proof (cases "notepad_key r = notepad_key n")
    case True
    then have "cn_profile r = cn_profile n" "cn_job_id r = cn_job_id n" by (simp_all add: notepad_key_def)
    moreover have "notepad_key n \<notin> notepad_key ` set ns" using Cons.prems True by auto
    ultimately show ?thesis using True Cons by (simp add: rewrite_notepad_def elsewhere_absent)
  next
    case False
    with Cons show ?thesis by auto
  qed
qed simp

lemma bytes_upsert:
  assumes "distinct (map notepad_key ns)"
  shows "notepad_bytes p j (fst (sql_upsert notepad_key (\<lambda>_. True) (rewrite_notepad n) n ns)) =
    elsewhere (notepad_key n) p j ns + (if cn_profile n = p \<and> cn_job_id n = j then length (cn_value n) else 0)"
proof (cases "notepad_key n \<in> notepad_key ` set ns")
  case True
  then have "list_ex (\<lambda>r. notepad_key r = notepad_key n) ns" by (auto simp: list_ex_iff)
  then show ?thesis
    using bytes_rewrite [OF assms, of p j n] True by (simp add: sql_upsert_def sql_update_def)
next
  case False
  then have "\<not> list_ex (\<lambda>r. notepad_key r = notepad_key n) ns" by (simp add: list_ex_key_iff sql_get_None_iff)
  then show ?thesis using False by (simp add: sql_upsert_def bytes_snoc elsewhere_absent)
qed

lemma elsewhere_other_bytes:
  "elsewhere (p, j, key) p j (cd_notepads db) =
   sum_list (map (length \<circ> snd) (filter (\<lambda>(k, _). k \<noteq> key) (get_cron_notepads p j db)))"
proof -
  have "filter (\<lambda>n. notepad_key n \<noteq> (p, j, key)) (notepads_of p j ns) =
      filter (\<lambda>n. cn_key n \<noteq> key) (notepads_of p j ns)" for ns
    by (rule filter_cong) (auto simp: notepads_of_def notepad_key_def)
  then show ?thesis by (simp add: elsewhere_def other_bytes)
qed

lemma set_notepad_ok:
  assumes "notepads_ok db" and "set_cron_notepad now p j key v db = Inr db'"
  shows "notepads_ok db'"
proof -
  define n where "n = \<lparr>cn_profile = p, cn_job_id = j, cn_key = key, cn_value = v, cn_created_at = now, cn_updated_at = now\<rparr>"
  have v: "length v \<le> max_notepad_value_bytes"
    and total: "elsewhere (p, j, key) p j (cd_notepads db) + length v \<le> max_notepad_total_bytes"
    and db': "db' = db\<lparr>cd_notepads := fst (sql_upsert notepad_key (\<lambda>_. True) (rewrite_notepad n) n (cd_notepads db))\<rparr>"
    using assms(2) by (simp_all add: set_cron_notepad_def n_def elsewhere_other_bytes Let_def split: if_splits)
  have k: "notepad_key n = (p, j, key)" "cn_profile n = p" "cn_job_id n = j" "cn_value n = v"
    by (simp_all add: n_def notepad_key_def)
  have d: "distinct (map notepad_key (cd_notepads db))" using assms(1) by (simp add: notepads_ok_def)
  have "notepad_bytes p' j' (cd_notepads db') \<le> max_notepad_total_bytes" for p' j'
    using assms(1) total bytes_upsert [OF d, of p' j' n] k
      elsewhere_le [of "(p, j, key)" p' j' "cd_notepads db"]
    by (auto simp: db' notepads_ok_def intro: le_trans)
  moreover have "list_all (\<lambda>n. length (cn_value n) \<le> max_notepad_value_bytes) (cd_notepads db')"
    using assms(1) v k by (auto simp: db' notepads_ok_def rewrite_notepad_def intro!: list_all_upsert)
  ultimately show ?thesis
    using pad.distinct_upsert [OF d] by (simp add: notepads_ok_def db')
qed

lemma bytes_delete_le: "notepad_bytes p j (fst (sql_delete q ns)) \<le> notepad_bytes p j ns"
  by (induction ns) (auto simp: sql_delete_def)

lemma notepad_step_ok: "notepads_ok db \<Longrightarrow> notepads_ok (notepad_step e db)"
proof (cases e)
  case (SetNotepad now p j key v)
  then show "notepads_ok db \<Longrightarrow> ?thesis"
    using set_notepad_ok by (auto split: sum.splits)
next
  case (DeleteNotepad p j key)
  have "notepads_ok (db\<lparr>cd_notepads := fst (sql_delete q (cd_notepads db))\<rparr>)" if "notepads_ok db" for q
    using that distinct_sql_delete [of notepad_key "cd_notepads db" q] bytes_delete_le
    by (simp add: notepads_ok_def list_all_delete) (meson le_trans)
  with DeleteNotepad show "notepads_ok db \<Longrightarrow> ?thesis"
    by (simp add: delete_cron_notepad_def case_prod_beta Let_def)
qed

interpretation pads: run_invariant notepad_step "\<lambda>_. True" notepads_ok
  by unfold_locales (rule notepad_step_ok)

text \<open>Whatever texts are set and deleted, no text is longer than 16 KiB and the texts of one job
  of one profile never exceed 64 KiB together.\<close>

theorem notepad_budget:
  "let ns = cd_notepads (fold notepad_step es (cron_init sessions)) in
     list_all (\<lambda>n. length (cn_value n) \<le> max_notepad_value_bytes) ns \<and>
     notepad_bytes profile job_id ns \<le> max_notepad_total_bytes"
proof -
  have "notepads_ok (cron_init sessions)" by (simp add: notepads_ok_def cron_init_def)
  from pads.run [OF this, of es] show ?thesis by (simp add: notepads_ok_def Let_def list_all_iff)
qed

text \<open>What is set is read back, in the order of the keys, beside the texts that were there.\<close>

lemma set_get_notepad:
  assumes "distinct (map notepad_key (cd_notepads db))" and "set_cron_notepad now p j key v db = Inr db'"
  shows "sql_get notepad_key k (cd_notepads db') =
    (if k = (p, j, key)
     then Some (case sql_get notepad_key k (cd_notepads db) of
         None \<Rightarrow> \<lparr>cn_profile = p, cn_job_id = j, cn_key = key, cn_value = v, cn_created_at = now, cn_updated_at = now\<rparr>
       | Some n \<Rightarrow> n\<lparr>cn_value := v, cn_updated_at := now\<rparr>)
     else sql_get notepad_key k (cd_notepads db))"
  using assms(2)
  by (auto simp: set_cron_notepad_def Let_def pad.get_upsert notepad_key_def rewrite_notepad_def split: if_splits option.splits)

end
