(* ===== verification/Hermes_Job.thy ===== *)
theory Hermes_Job
  imports Cron_Runs
begin

section \<open>Imported jobs and their destinations\<close>

text \<open>
  The job documents of \<open>src/cron/store.rs\<close>: their fields as \<open>serde\<close> reads them from a JSON value
  (a missing field has its default, a field of the wrong type fails the document, what is left over
  goes to \<open>extra\<close>), the schedule expression, and the list of Discord destinations a job delivers to.
  A byte range of a text that ends inside a character panics, so the destinations are a \<open>CronFault\<close> or
  a list.
\<close>

subsection \<open>Documents\<close>

record HermesSchedule =
  hs_kind :: string
  hs_expr :: "string option"
  hs_minutes :: "nat option"
  hs_run_at :: "string option"
  hs_display :: "string option"
  hs_timezone :: "string option"
  hs_extra :: "(string \<times> json) list"

record HermesOrigin =
  ho_platform :: string
  ho_chat_id :: string
  ho_thread_id :: "string option"
  ho_user_id :: "string option"
  ho_chat_name :: "string option"
  ho_bot_id :: "string option"
  ho_extra :: "(string \<times> json) list"

record HermesRepeat =
  hr_times :: "nat option"
  hr_completed :: nat

record HermesJob =
  hj_id :: string
  hj_name :: string
  hj_prompt :: string
  hj_skills :: "string list"
  hj_skill :: "string option"
  hj_model :: "string option"
  hj_provider :: "string option"
  hj_base_url :: "string option"
  hj_script :: "string option"
  hj_no_agent :: bool
  hj_ack_command :: "string option"
  hj_context_from :: "json option"
  hj_schedule :: HermesSchedule
  hj_schedule_display :: string
  hj_repeat :: HermesRepeat
  hj_enabled :: bool
  hj_state :: string
  hj_created_at :: "string option"
  hj_next_run_at :: "string option"
  hj_last_run_at :: "string option"
  hj_last_status :: "string option"
  hj_last_error :: "string option"
  hj_last_delivery_error :: "string option"
  hj_deliver :: "string list option"
  hj_failure_deliver :: "string list option"
  hj_origin :: "HermesOrigin option"
  hj_enabled_toolsets :: "string list option"
  hj_workdir :: "string option"
  hj_attach_to_session :: "bool option"
  hj_timeout_secs :: "nat option"
  hj_monitor_script :: "string option"
  hj_monitor_url :: "string option"
  hj_monitor_state :: "string option"
  hj_extra :: "(string \<times> json) list"

subsection \<open>Reading fields\<close>

text \<open>A field reader gives nothing when the document is refused.\<close>

definition required :: "(json \<Rightarrow> 'a option) \<Rightarrow> string \<Rightarrow> json \<Rightarrow> 'a option" where
  "required view k j = Option.bind (json_get k j) view"

definition defaulted :: "'a \<Rightarrow> (json \<Rightarrow> 'a option) \<Rightarrow> string \<Rightarrow> json \<Rightarrow> 'a option" where
  "defaulted d view k j = (case json_get k j of None \<Rightarrow> Some d | Some v \<Rightarrow> view v)"

definition optional :: "(json \<Rightarrow> 'a option) \<Rightarrow> string \<Rightarrow> json \<Rightarrow> 'a option option" where
  "optional view = defaulted None (\<lambda>v. if v = JNull then Some None else map_option Some (view v))"

fun all_views :: "('a \<Rightarrow> 'b option) \<Rightarrow> 'a list \<Rightarrow> 'b list option" where
  "all_views view [] = Some []"
| "all_views view (v # vs) =
     (case (view v, all_views view vs) of (Some a, Some as) \<Rightarrow> Some (a # as) | _ \<Rightarrow> None)"

fun as_strings :: "json \<Rightarrow> string list option" where
  "as_strings (JArr vs) = all_views as_str vs"
| "as_strings _ = None"

definition left_over :: "string list \<Rightarrow> json \<Rightarrow> (string \<times> json) list" where
  "left_over names j = (case j of JObj m \<Rightarrow> filter (\<lambda>(k, _). k \<notin> set names) m | _ \<Rightarrow> [])"

definition deliver_parts :: "string \<Rightarrow> string list" where
  "deliver_parts s = filter (\<lambda>p. p \<noteq> '''') (map trim (split_on (CHR '','') s))"

definition non_empty :: "'a list \<Rightarrow> 'a list option" where
  "non_empty xs = (if xs = [] then None else Some xs)"

fun deserialize_deliver :: "json \<Rightarrow> string list option option" where
  "deserialize_deliver JNull = Some None"
| "deserialize_deliver (JStr s) = Some (non_empty (deliver_parts s))"
| "deserialize_deliver (JArr vs) =
     map_option (\<lambda>ss. non_empty (concat (map deliver_parts ss))) (all_views as_str vs)"
| "deserialize_deliver _ = None"

definition schedule_fields :: "string list" where
  "schedule_fields = [''kind'', ''expr'', ''minutes'', ''run_at'', ''display'', ''timezone'']"

definition schedule_from_json :: "json \<Rightarrow> HermesSchedule option" where
  "schedule_from_json j =
     (if \<not> is_object j then None else
      Option.bind (required as_str ''kind'' j) (\<lambda>kind.
      Option.bind (optional as_str ''expr'' j) (\<lambda>expr.
      Option.bind (optional as_u64 ''minutes'' j) (\<lambda>minutes.
      Option.bind (optional as_str ''run_at'' j) (\<lambda>run_at.
      Option.bind (optional as_str ''display'' j) (\<lambda>display.
      Option.bind (optional as_str ''timezone'' j) (\<lambda>timezone.
        Some \<lparr>hs_kind = kind, hs_expr = expr, hs_minutes = minutes, hs_run_at = run_at,
              hs_display = display, hs_timezone = timezone, hs_extra = left_over schedule_fields j\<rparr>)))))))"

definition origin_fields :: "string list" where
  "origin_fields = [''platform'', ''chat_id'', ''thread_id'', ''user_id'', ''chat_name'', ''bot_id'']"

definition origin_from_json :: "json \<Rightarrow> HermesOrigin option" where
  "origin_from_json j =
     (if \<not> is_object j then None else
      Option.bind (required as_str ''platform'' j) (\<lambda>platform.
      Option.bind (required as_str ''chat_id'' j) (\<lambda>chat_id.
      Option.bind (optional as_str ''thread_id'' j) (\<lambda>thread_id.
      Option.bind (optional as_str ''user_id'' j) (\<lambda>user_id.
      Option.bind (optional as_str ''chat_name'' j) (\<lambda>chat_name.
      Option.bind (optional as_str ''bot_id'' j) (\<lambda>bot_id.
        Some \<lparr>ho_platform = platform, ho_chat_id = chat_id, ho_thread_id = thread_id, ho_user_id = user_id,
              ho_chat_name = chat_name, ho_bot_id = bot_id, ho_extra = left_over origin_fields j\<rparr>)))))))"

text \<open>A struct without left-over fields may also be an array of its fields in order.\<close>

fun opt_u64 :: "json \<Rightarrow> nat option option" where
  "opt_u64 JNull = Some None"
| "opt_u64 v = map_option Some (as_u64 v)"

fun repeat_from_json :: "json \<Rightarrow> HermesRepeat option" where
  "repeat_from_json (JObj m) =
     Option.bind (optional as_u64 ''times'' (JObj m)) (\<lambda>n.
     Option.bind (defaulted 0 as_u64 ''completed'' (JObj m)) (\<lambda>c. Some \<lparr>hr_times = n, hr_completed = c\<rparr>))"
| "repeat_from_json (JArr []) = Some \<lparr>hr_times = None, hr_completed = 0\<rparr>"
| "repeat_from_json (JArr [t]) = map_option (\<lambda>n. \<lparr>hr_times = n, hr_completed = 0\<rparr>) (opt_u64 t)"
| "repeat_from_json (JArr [t, c]) =
     Option.bind (opt_u64 t) (\<lambda>n. map_option (\<lambda>k. \<lparr>hr_times = n, hr_completed = k\<rparr>) (as_u64 c))"
| "repeat_from_json _ = None"

text \<open>\<open>timeout_secs\<close> has four aliases; two of the names in one document are a duplicate field.\<close>

definition timeout_names :: "string list" where
  "timeout_names = [''timeout_secs'', ''timeout'', ''timeout_seconds'', ''script_timeout'', ''script_timeout_seconds'']"

definition timeout_field :: "json \<Rightarrow> nat option option" where
  "timeout_field j =
     (case filter (\<lambda>k. json_get k j \<noteq> None) timeout_names of
        [] \<Rightarrow> Some None
      | [k] \<Rightarrow> optional as_u64 k j
      | _ \<Rightarrow> None)"

definition job_fields :: "string list" where
  "job_fields = [''id'', ''name'', ''prompt'', ''skills'', ''skill'', ''model'', ''provider'', ''base_url'',
     ''script'', ''no_agent'', ''ack_command'', ''context_from'', ''schedule'', ''schedule_display'', ''repeat'',
     ''enabled'', ''state'', ''created_at'', ''next_run_at'', ''last_run_at'', ''last_status'', ''last_error'',
     ''last_delivery_error'', ''deliver'', ''failure_deliver'', ''origin'', ''enabled_toolsets'', ''workdir'',
     ''attach_to_session'', ''monitor_script'', ''monitor_url'', ''monitor_state''] @ timeout_names"

definition hermes_from_json :: "json \<Rightarrow> HermesJob option" where
  "hermes_from_json j =
     (if \<not> is_object j then None else
      Option.bind (required as_str ''id'' j) (\<lambda>i.
      Option.bind (defaulted '''' as_str ''name'' j) (\<lambda>name.
      Option.bind (defaulted '''' as_str ''prompt'' j) (\<lambda>prompt.
      Option.bind (defaulted [] as_strings ''skills'' j) (\<lambda>skills.
      Option.bind (optional as_str ''skill'' j) (\<lambda>skill.
      Option.bind (optional as_str ''model'' j) (\<lambda>model.
      Option.bind (optional as_str ''provider'' j) (\<lambda>provider.
      Option.bind (optional as_str ''base_url'' j) (\<lambda>base_url.
      Option.bind (optional as_str ''script'' j) (\<lambda>script.
      Option.bind (defaulted False as_bool ''no_agent'' j) (\<lambda>no_agent.
      Option.bind (optional as_str ''ack_command'' j) (\<lambda>ack_command.
      Option.bind (optional Some ''context_from'' j) (\<lambda>context_from.
      Option.bind (required schedule_from_json ''schedule'' j) (\<lambda>schedule.
      Option.bind (defaulted '''' as_str ''schedule_display'' j) (\<lambda>schedule_display.
      Option.bind (defaulted \<lparr>hr_times = None, hr_completed = 0\<rparr> repeat_from_json ''repeat'' j) (\<lambda>rep.
      Option.bind (defaulted True as_bool ''enabled'' j) (\<lambda>enabled.
      Option.bind (defaulted '''' as_str ''state'' j) (\<lambda>st.
      Option.bind (optional as_str ''created_at'' j) (\<lambda>created_at.
      Option.bind (optional as_str ''next_run_at'' j) (\<lambda>next_run_at.
      Option.bind (optional as_str ''last_run_at'' j) (\<lambda>last_run_at.
      Option.bind (optional as_str ''last_status'' j) (\<lambda>last_status.
      Option.bind (optional as_str ''last_error'' j) (\<lambda>last_error.
      Option.bind (optional as_str ''last_delivery_error'' j) (\<lambda>last_delivery_error.
      Option.bind (defaulted None deserialize_deliver ''deliver'' j) (\<lambda>deliver.
      Option.bind (defaulted None deserialize_deliver ''failure_deliver'' j) (\<lambda>failure_deliver.
      Option.bind (optional origin_from_json ''origin'' j) (\<lambda>origin.
      Option.bind (optional as_strings ''enabled_toolsets'' j) (\<lambda>enabled_toolsets.
      Option.bind (optional as_str ''workdir'' j) (\<lambda>workdir.
      Option.bind (optional as_bool ''attach_to_session'' j) (\<lambda>attach_to_session.
      Option.bind (timeout_field j) (\<lambda>timeout_secs.
      Option.bind (optional as_str ''monitor_script'' j) (\<lambda>monitor_script.
      Option.bind (optional as_str ''monitor_url'' j) (\<lambda>monitor_url.
      Option.bind (optional as_str ''monitor_state'' j) (\<lambda>monitor_state.
        Some \<lparr>hj_id = i, hj_name = name, hj_prompt = prompt, hj_skills = skills, hj_skill = skill,
          hj_model = model, hj_provider = provider, hj_base_url = base_url, hj_script = script,
          hj_no_agent = no_agent, hj_ack_command = ack_command, hj_context_from = context_from,
          hj_schedule = schedule, hj_schedule_display = schedule_display, hj_repeat = rep,
          hj_enabled = enabled, hj_state = st, hj_created_at = created_at, hj_next_run_at = next_run_at,
          hj_last_run_at = last_run_at, hj_last_status = last_status, hj_last_error = last_error,
          hj_last_delivery_error = last_delivery_error, hj_deliver = deliver,
          hj_failure_deliver = failure_deliver, hj_origin = origin, hj_enabled_toolsets = enabled_toolsets,
          hj_workdir = workdir, hj_attach_to_session = attach_to_session, hj_timeout_secs = timeout_secs,
          hj_monitor_script = monitor_script, hj_monitor_url = monitor_url, hj_monitor_state = monitor_state,
          hj_extra = left_over job_fields j\<rparr>))))))))))))))))))))))))))))))))))"

subsection \<open>Schedules\<close>

definition hermes_expression :: "HermesJob \<Rightarrow> OmonError + string" where
  "hermes_expression job =
     (let s = hj_schedule job; kind = hs_kind s;
          incomplete = Config (''Hermes job '' @ hj_id job @ '' has an incomplete schedule'') in
      if kind = ''cron'' then
        ok_or incomplete (Option.bind (hs_expr s) (\<lambda>v. if trim v \<noteq> '''' then Some v else None))
      else if kind = ''interval'' then
        ok_or incomplete (map_option (\<lambda>m. ''interval:'' @ dec m @ ''m'') (hs_minutes s))
      else if kind = ''once'' then
        ok_or incomplete (map_option (\<lambda>v. ''once:'' @ v) (hs_run_at s))
      else Inl (Config (''unsupported Hermes schedule kind `'' @ kind @ ''` for job '' @ hj_id job)))"

record ValidatedHermesJob =
  vh_expression :: string
  vh_effective_timezone :: "string option"
  vh_computed_next :: "int option"

definition guarded :: "CronLib \<Rightarrow> string \<Rightarrow> string option \<Rightarrow> string + unit" where
  "guarded L what spec =
     (case spec of
        None \<Rightarrow> Inr ()
      | Some s \<Rightarrow>
          (case check_gateway_lifecycle L s of
             Inl err \<Rightarrow> Inl (what @ '': '' @ err)
           | Inr _ \<Rightarrow> Inr ()))"

text \<open>\<open>validate\<close>; \<open>read_script home script\<close> is the content of the script file, when it can be read.  A
  panic of the schedule arithmetic is the fault \<open>Panic\<close>; every other refusal has a reason.\<close>

datatype Refusal = Reason string | Panicked

definition lift_reason :: "string + 'a \<Rightarrow> Refusal + 'a" where
  "lift_reason r = (case r of Inl e \<Rightarrow> Inl (Reason e) | Inr a \<Rightarrow> Inr a)"

definition computed_next ::
  "CronLib \<Rightarrow> HermesJob \<Rightarrow> string \<Rightarrow> string option \<Rightarrow> int \<Rightarrow> Refusal + int option" where
  "computed_next L job expression timezone now =
     (case next_run_tz L expression now timezone of
        Inr next \<Rightarrow> Inr (Some next)
      | Inl Panic \<Rightarrow> Inl Panicked
      | Inl (Fault e) \<Rightarrow>
          if starts_with ''once:'' expression then Inr None
          else Inl (Reason (''uncomputable schedule `'' @ expression @ ''` for job '' @ hj_id job @ '': '' @ error_to_string e)))"

definition validate ::
  "CronLib \<Rightarrow> (string \<Rightarrow> string \<Rightarrow> string option) \<Rightarrow> HermesJob \<Rightarrow> string option \<Rightarrow> int \<Rightarrow> Refusal + ValidatedHermesJob" where
  "validate L read_script job default_timezone now =
     (if trim (hj_id job) = '''' then Inl (Reason ''Hermes job has an empty id'')
      else
        and_then (lift_reason (guarded L ''gateway lifecycle violation'' (Some (hj_prompt job)))) (\<lambda>_.
        if prompt_threats L (hj_prompt job) \<noteq> []
        then Inl (Reason (''cron prompt injection detected: '' @ join ''; '' (prompt_threats L (hj_prompt job))))
        else
        and_then (lift_reason (guarded L ''gateway lifecycle violation in script'' (hj_script job))) (\<lambda>_.
        and_then (lift_reason (guarded L ''gateway lifecycle violation in script body''
            (Option.bind (hj_script job) (\<lambda>script.
             Option.bind (Option.bind (map_of (hj_extra job) ''_omon_hermes_home'') as_str) (\<lambda>home.
               read_script home script))))) (\<lambda>_.
        if hj_monitor_script job \<noteq> None \<and> hj_monitor_url job \<noteq> None
        then Inl (Reason ''conflicting monitor modes: both monitor_script and monitor_url are set'')
        else
        and_then (lift_reason (guarded L ''gateway lifecycle violation in monitor_script'' (hj_monitor_script job))) (\<lambda>_.
        and_then (lift_reason (guarded L ''gateway lifecycle violation in ack_command'' (hj_ack_command job))) (\<lambda>_.
        case hermes_expression job of
          Inl e \<Rightarrow> Inl (Reason (error_to_string e))
        | Inr expression \<Rightarrow>
            if (case strip_prefix ''once:'' expression of
                  Some ts \<Rightarrow> (case parse_from_rfc3339 L ts of Inl _ \<Rightarrow> True | Inr _ \<Rightarrow> False)
                | None \<Rightarrow> False)
            then Inl (Reason (''malformed one-shot timestamp `'' @ drop 5 expression @ ''` for job '' @ hj_id job))
            else
              let effective_timezone = or_else (hs_timezone (hj_schedule job)) default_timezone in
              and_then (computed_next L job expression effective_timezone now) (\<lambda>computed.
                Inr \<lparr>vh_expression = expression, vh_effective_timezone = effective_timezone,
                     vh_computed_next = computed\<rparr>)))))))"

subsection \<open>Destinations\<close>

definition val_to_str :: "json \<Rightarrow> string option" where
  "val_to_str v =
     (case as_str v of
        Some s \<Rightarrow> if trim s \<noteq> '''' then Some (trim s) else None
      | None \<Rightarrow>
          or_else (map_option dec (as_u64 v))
            (map_option (\<lambda>n. if n < 0 then ''-'' @ dec (nat (- n)) else dec (nat n)) (as_i64 v)))"

fun first_of :: "(string \<times> json) list \<Rightarrow> string list \<Rightarrow> json option" where
  "first_of m [] = None"
| "first_of m (k # ks) = or_else (map_of m k) (first_of m ks)"

definition configured_discord_home :: "HermesJob \<Rightarrow> (string \<times> string option) option" where
  "configured_discord_home job =
     (let x = hj_extra job;
          channel = Option.bind (first_of x [''home_channel'', ''discord_home_channel'',
            ''_omon_discord_home_channel'', ''home'', ''channel_id'']) val_to_str;
          thread = Option.bind (first_of x [''thread_id'', ''discord_thread_id'', ''_omon_discord_home_thread'']) val_to_str
      in case channel of
           Some ch \<Rightarrow> Some (ch, thread)
         | None \<Rightarrow>
             (case Option.bind (map_of x ''discord'') as_object of
                None \<Rightarrow> None
              | Some d \<Rightarrow>
                  map_option (\<lambda>ch. (ch, Option.bind (map_of d ''thread_id'') val_to_str))
                    (Option.bind (first_of d [''channel'', ''home_channel'', ''channel_id'']) val_to_str)))"

definition hermes_profile :: "HermesJob \<Rightarrow> string" where
  "hermes_profile job =
     (let from_origin =
        (case hj_origin job of
           None \<Rightarrow> ''default''
         | Some o' \<Rightarrow>
             let platform = (if ho_platform o' \<noteq> '''' then ho_platform o' else ''default'') in
             (case ho_bot_id o' of Some bid \<Rightarrow> if bid \<noteq> '''' then bid else platform | None \<Rightarrow> platform))
      in case Option.bind (map_of (hj_extra job) ''profile'') as_str of
           Some p \<Rightarrow> if p \<noteq> '''' then p else from_origin
         | None \<Rightarrow> from_origin)"

text \<open>\<open>trimmed.len() >= 8 && trimmed[..8].eq_ignore_ascii_case("discord:")\<close>.\<close>

definition discord_prefixed :: "string \<Rightarrow> CronFault + bool" where
  "discord_prefixed t =
     (if length t < 8 then Inr False
      else if \<not> is_char_boundary t 8 then Inl Panic
      else Inr (eq_ignore_ascii_case (take 8 t) ''discord:''))"

fun check_targets :: "string list \<Rightarrow> CronFault + bool" where
  "check_targets [] = Inr False"
| "check_targets (t # ts) =
     and_then (discord_prefixed (trim t)) (\<lambda>p.
       if p \<and> trim (drop 8 (trim t)) \<noteq> '''' then Inr True else check_targets ts)"

definition has_explicit_discord_destination :: "HermesJob \<Rightarrow> CronFault + bool" where
  "has_explicit_discord_destination job =
     and_then (check_targets (unwrap_or [] (hj_deliver job))) (\<lambda>b.
       if b then Inr True else check_targets (unwrap_or [] (hj_failure_deliver job)))"

definition discord_origin :: "string option \<Rightarrow> string \<Rightarrow> string option \<Rightarrow> HermesOrigin" where
  "discord_origin bid chat thread =
     \<lparr>ho_platform = ''discord'', ho_chat_id = chat, ho_thread_id = thread, ho_user_id = None,
      ho_chat_name = None, ho_bot_id = bid, ho_extra = []\<rparr>"

definition discord_chat :: "HermesOrigin \<Rightarrow> bool" where
  "discord_chat o' \<longleftrightarrow> eq_ignore_ascii_case (ho_platform o') ''discord'' \<and> ho_chat_id o' \<noteq> ''''"

definition job_bot_id :: "HermesJob \<Rightarrow> string option" where
  "job_bot_id job =
     or_else (Option.bind (hj_origin job) ho_bot_id) (Option.bind (map_of (hj_extra job) ''bot_id'') as_str)"

definition origin_or_home :: "HermesJob \<Rightarrow> HermesOrigin option" where
  "origin_or_home job =
     (let home = map_option (\<lambda>(ch, th). discord_origin (job_bot_id job) ch th) (configured_discord_home job)
      in case hj_origin job of
           Some o' \<Rightarrow> if discord_chat o' then Some o' else home
         | None \<Rightarrow> home)"

definition hash_trim :: "string \<Rightarrow> string" where
  "hash_trim s = trim_start_matches (CHR ''#'') s"

definition explicit_target :: "HermesJob \<Rightarrow> string \<Rightarrow> HermesOrigin option" where
  "explicit_target job rest =
     (let (chat, thread) =
        (case split_once (CHR '':'') rest of
           Some (c, t) \<Rightarrow> (hash_trim (trim c), if hash_trim (trim t) = '''' then None else Some (hash_trim (trim t)))
         | None \<Rightarrow> (hash_trim rest, None))
      in if chat \<noteq> '''' then Some (discord_origin (job_bot_id job) chat thread) else None)"

definition pair_target :: "HermesJob \<Rightarrow> string \<Rightarrow> HermesOrigin option" where
  "pair_target job t =
     (case split_once (CHR '':'') t of
        None \<Rightarrow> None
      | Some (l, r) \<Rightarrow>
          let left = hash_trim (trim l); right = hash_trim (trim r) in
          if list_all is_digit left \<and> list_all is_digit right
          then Some (discord_origin (job_bot_id job) left (if right = '''' then None else Some right))
          else None)"

definition channel_target :: "HermesJob \<Rightarrow> string \<Rightarrow> HermesOrigin option" where
  "channel_target job t =
     (let chat = trim (hash_trim t) in
      if chat \<noteq> '''' \<and> list_all is_digit chat then Some (discord_origin (job_bot_id job) chat None) else None)"

text \<open>The destination one target stands for, if any.\<close>

definition target_origin :: "HermesJob \<Rightarrow> string \<Rightarrow> CronFault + HermesOrigin option" where
  "target_origin job part =
     (let t = trim part in
      if t = '''' \<or> eq_ignore_ascii_case t ''local'' then Inr None
      else and_then (discord_prefixed t) (\<lambda>prefixed.
        if prefixed then
          Inr (let rest = trim (drop 8 t) in if rest \<noteq> '''' then explicit_target job rest else origin_or_home job)
        else if eq_ignore_ascii_case t ''origin'' \<or> eq_ignore_ascii_case t ''all'' \<or> eq_ignore_ascii_case t ''discord''
        then Inr (origin_or_home job)
        else if CHR '':'' \<in> set t then Inr (pair_target job t)
        else Inr (channel_target job t)))"

definition dest_key :: "HermesOrigin \<Rightarrow> string \<times> string option" where
  "dest_key o' = (ho_chat_id o', ho_thread_id o')"

definition push_dest :: "HermesOrigin option \<Rightarrow> HermesOrigin list \<Rightarrow> HermesOrigin list" where
  "push_dest d ds =
     (case d of
        None \<Rightarrow> ds
      | Some o' \<Rightarrow> if dest_key o' \<in> set (map dest_key ds) then ds else ds @ [o'])"

fun collect :: "HermesJob \<Rightarrow> string list \<Rightarrow> HermesOrigin list \<Rightarrow> CronFault + HermesOrigin list" where
  "collect job [] ds = Inr ds"
| "collect job (t # ts) ds = and_then (target_origin job t) (\<lambda>d. collect job ts (push_dest d ds))"

definition discord_destinations :: "HermesJob \<Rightarrow> CronFault + HermesOrigin list" where
  "discord_destinations job =
     collect job (case hj_deliver job of Some (t # ts) \<Rightarrow> t # ts | _ \<Rightarrow> [''origin'']) []"

definition failure_destinations :: "HermesJob \<Rightarrow> CronFault + HermesOrigin list" where
  "failure_destinations job =
     (case hj_failure_deliver job of
        Some f \<Rightarrow> discord_destinations (job\<lparr>hj_deliver := Some f\<rparr>)
      | None \<Rightarrow> discord_destinations job)"

text \<open>\<open>delivery_destinations\<close> of the scheduler: a payload with a schedule is a document, any other one
  names a channel and a list of targets.  The text of \<open>serde\<close>'s own error is left out.\<close>

definition plain_target :: "json \<Rightarrow> string \<Rightarrow> HermesOrigin option" where
  "plain_target payload part =
     (let t = trim part; channel = (\<lambda>c. if c = '''' then None else Some (discord_origin None c None)) in
      if t = '''' \<or> t = ''local'' then None
      else if t \<in> {''origin'', ''all'', ''discord''} then
        Option.bind (Option.bind (json_get ''origin'' payload) origin_from_json)
          (\<lambda>o'. if discord_chat o' then Some o' else None)
      else case strip_prefix ''discord:'' t of
        Some ch \<Rightarrow> channel (trim (hash_trim ch))
      | None \<Rightarrow> if CHR '':'' \<in> set t then None else channel (trim (hash_trim t)))"

definition payload_channel :: "json \<Rightarrow> HermesOrigin option" where
  "payload_channel payload =
     Option.bind (Option.bind (json_get ''channel_id'' payload) (\<lambda>v. or_else (map_option dec (as_u64 v)) (as_str v)))
       (\<lambda>c. if trim c = '''' then None else Some (discord_origin None (trim c) None))"

definition deliver_text :: "json \<Rightarrow> string option" where
  "deliver_text payload =
     (case json_get ''deliver'' payload of
        Some (JStr s) \<Rightarrow> Some s
      | Some (JArr vs) \<Rightarrow> Some (join '','' (List.map_filter as_str vs))
      | _ \<Rightarrow> None)"

definition delivery_destinations :: "json \<Rightarrow> CronFault + HermesOrigin list" where
  "delivery_destinations payload =
     (if json_get ''schedule'' payload \<noteq> None then
        case hermes_from_json payload of
          None \<Rightarrow> Inl (Fault (Config ''invalid Hermes cron payload''))
        | Some job \<Rightarrow> discord_destinations job
      else
        Inr (fold (\<lambda>p. push_dest (plain_target payload p))
          (case deliver_text payload of Some d \<Rightarrow> split_on (CHR '','') d | None \<Rightarrow> [])
          (push_dest (payload_channel payload) [])))"

section \<open>Properties of destinations\<close>

lemma push_dest_distinct: "distinct (map dest_key ds) \<Longrightarrow> distinct (map dest_key (push_dest d ds))"
  by (simp add: push_dest_def split: option.split)

lemma push_dest_all: "list_all P ds \<Longrightarrow> (\<And>o'. d = Some o' \<Longrightarrow> P o') \<Longrightarrow> list_all P (push_dest d ds)"
  by (simp add: push_dest_def split: option.split)

abbreviation on_discord :: "HermesOrigin \<Rightarrow> bool" where
  "on_discord o' \<equiv> eq_ignore_ascii_case (ho_platform o') ''discord''"

lemma discord_origin_platform [simp]: "on_discord (discord_origin b c t)"
  by (simp add: discord_origin_def eq_ignore_ascii_case_def)

lemma origin_or_home_discord: "origin_or_home job = Some o' \<Longrightarrow> on_discord o'"
  by (auto simp: origin_or_home_def discord_chat_def Let_def split: option.splits if_splits)

lemma target_origin_discord: "target_origin job t = Inr (Some o') \<Longrightarrow> on_discord o'"
  by (auto simp: target_origin_def and_then_def explicit_target_def pair_target_def channel_target_def Let_def
      dest: origin_or_home_discord split: if_splits sum.splits option.splits)

lemma plain_target_discord: "plain_target payload p = Some o' \<Longrightarrow> on_discord o'"
  by (auto simp: plain_target_def discord_chat_def Let_def bind_eq_Some_conv split: if_splits option.splits)

lemma payload_channel_discord: "payload_channel payload = Some o' \<Longrightarrow> on_discord o'"
  by (auto simp: payload_channel_def bind_eq_Some_conv split: if_splits)

lemma collect_ok:
  assumes "collect job ts ds = Inr ds'" and "distinct (map dest_key ds)" and "list_all on_discord ds"
  shows "distinct (map dest_key ds') \<and> list_all on_discord ds'"
  using assms
proof (induction ts arbitrary: ds)
  case (Cons t ts)
  then obtain d where d: "target_origin job t = Inr d" and c: "collect job ts (push_dest d ds) = Inr ds'"
    by (auto simp: and_then_Inr_iff)
  have "list_all on_discord (push_dest d ds)"
    using Cons.prems(3) d target_origin_discord by (intro push_dest_all) auto
  with Cons.IH [OF c] push_dest_distinct [OF Cons.prems(2)] show ?case by blast
qed simp

lemma fold_push_ok:
  assumes "distinct (map dest_key ds)" and "list_all on_discord ds"
  shows "distinct (map dest_key (fold (\<lambda>p. push_dest (plain_target payload p)) ps ds)) \<and>
    list_all on_discord (fold (\<lambda>p. push_dest (plain_target payload p)) ps ds)"
  using assms
proof (induction ps arbitrary: ds)
  case (Cons p ps)
  then show ?case
    using push_dest_distinct push_dest_all [OF Cons.prems(2), of "plain_target payload p"] plain_target_discord
    by simp
qed simp

text \<open>A job's output is sent to Discord only, and once to each channel and thread, whatever its
  payload lists.\<close>

theorem destinations_distinct:
  assumes "delivery_destinations payload = Inr ds"
  shows "distinct (map dest_key ds) \<and> list_all on_discord ds"
proof (cases "json_get ''schedule'' payload")
  case None
  have "distinct (map dest_key (push_dest (payload_channel payload) []))"
    "list_all on_discord (push_dest (payload_channel payload) [])"
    using payload_channel_discord by (auto simp: push_dest_def split: option.split)
  with None assms fold_push_ok show ?thesis by (auto simp: delivery_destinations_def)
next
  case (Some s)
  with assms obtain job where "discord_destinations job = Inr ds"
    by (auto simp: delivery_destinations_def split: option.splits)
  then show ?thesis unfolding discord_destinations_def by (rule collect_ok) simp_all
qed

definition sample_payload :: json where
  "sample_payload = JObj [(''channel_id'', JNum 42), (''deliver'', JStr ''discord:42, 7, telegram:1, #7'')]"

theorem destinations_distinct_witness:
  "\<exists>ds. delivery_destinations sample_payload = Inr ds \<and> map ho_chat_id ds = [''42'', ''7''] \<and> distinct (map dest_key ds)"
proof -
  have d: "delivery_destinations sample_payload =
      Inr [discord_origin None ''42'' None, discord_origin None ''7'' None]"
    by code_simp
  from destinations_distinct [OF d] d show ?thesis by (auto simp: discord_origin_def)
qed

subsection \<open>Panics\<close>

definition splits_character :: "string \<Rightarrow> bool" where
  "splits_character t \<longleftrightarrow> length (trim t) \<ge> 8 \<and> \<not> is_char_boundary (trim t) 8"

lemma local_short: "eq_ignore_ascii_case t ''local'' \<Longrightarrow> length t = 5"
  by (auto simp: eq_ignore_ascii_case_def to_ascii_lowercase_def dest: arg_cong [of _ _ length])

lemma target_origin_panics:
  "target_origin job t = Inl e \<longleftrightarrow> e = Panic \<and> splits_character t"
  using local_short [of "trim t"]
  by (auto simp: target_origin_def splits_character_def discord_prefixed_def and_then_def Let_def
      split: sum.splits if_splits)

lemma collect_panics: "collect job ts ds = Inl e \<longleftrightarrow> e = Panic \<and> list_ex splits_character ts"
proof (induction ts arbitrary: ds)
  case (Cons t ts)
  show ?case
  proof (cases "target_origin job t")
    case (Inl a)
    then show ?thesis using target_origin_panics [of job t a] by auto
  next
    case (Inr d)
    then have "\<not> splits_character t" using target_origin_panics [of job t Panic] by auto
    with Inr Cons show ?thesis by simp
  qed
qed simp

text \<open>Reading the targets of a document has no error but one: it panics exactly when the eighth
  byte of a trimmed target of at least eight bytes is inside a character.  (The code cuts the text
  there to look for the prefix of an explicit target.)\<close>

theorem discord_destinations_panic_iff:
  "discord_destinations job = Inl e \<longleftrightarrow>
     e = Panic \<and> (\<exists>ts t. hj_deliver job = Some ts \<and> t \<in> set ts \<and> splits_character t)"
proof -
  have "\<not> splits_character ''origin''" by code_simp
  then show ?thesis
    by (cases "hj_deliver job")
      (auto simp: discord_destinations_def collect_panics list_ex_iff simp del: collect.simps split: list.split)
qed

text \<open>Such a target is the name of a channel of four Hangul syllables, for one.\<close>

lemma korean_target_panics:
  "target_origin job [CHR 0xEA, CHR 0xB0, CHR 0x80, CHR 0xEB, CHR 0x82, CHR 0x98, CHR 0xEB, CHR 0x8B, CHR 0xA4,
     CHR 0xEB, CHR 0x9D, CHR 0xBC] = Inl Panic"
  unfolding target_origin_panics by code_simp

text \<open>A target that is a colon with a number has a destination without a channel, which no delivery
  can reach: the test for digits accepts the empty text.\<close>

lemma colon_target_has_no_channel:
  "target_origin job '':5'' = Inr (Some (discord_origin (job_bot_id job) '''' (Some ''5'')))"
proof -
  have "trim '':5'' = '':5''" "split_once (CHR '':'') '':5'' = Some ('''', ''5'')" "hash_trim (trim ''5'') = ''5''"
    "hash_trim (trim '''') = ''''" "list_all is_digit ''5''"
    "\<not> eq_ignore_ascii_case '':5'' ''local''" "\<not> eq_ignore_ascii_case '':5'' ''origin''"
    "\<not> eq_ignore_ascii_case '':5'' ''all''" "\<not> eq_ignore_ascii_case '':5'' ''discord''"
    by code_simp+
  then show ?thesis by (simp add: target_origin_def discord_prefixed_def pair_target_def Let_def)
qed

end
