(* ===== verification/Cron_Delivery.thy ===== *)
theory Cron_Delivery
  imports Hermes_Job
begin

section \<open>Running a cron job and delivering its output\<close>

text \<open>
  \<open>execute_job\<close> and \<open>deliver\<close> of \<open>src/cron/scheduler.rs\<close>, on the cron tables and the delivery
  ledger.  The executor's result and the dispatcher's answer are arguments.  What goes out is logged
  in order: broadcast notifications, dispatched messages, the call that mirrors a delivery into a
  transcript (\<open>mirror.rs\<close>) and the acknowledgement command.  The service reads the clock at each step
  of a delivery; those instants are one argument per delivery.
\<close>

datatype CronEffect =
    Notified string nat string int
  | Dispatched SessionKey string
  | Mirrored string "string option" HermesOrigin string
  | RanAck string

record Outbox =
  ou_db :: Db
  ou_log :: "CronEffect list"

record DeliverEnv =
  de_triggered_at :: int
  de_clock :: int
  de_ledger_now :: int
  de_pid :: int
  de_started :: string
  de_dispatch :: "(SessionKey \<Rightarrow> string \<Rightarrow> OmonError option) option"

subsection \<open>Delivery\<close>

definition same_place :: "HermesOrigin \<Rightarrow> SessionKey \<Rightarrow> bool" where
  "same_place d k \<longleftrightarrow> channel_id k = ho_chat_id d \<and> thread_id k = ho_thread_id d \<and>
     (ho_bot_id d = None \<or> bot_id k = ho_bot_id d)"

definition delivery_session :: "CronLib \<Rightarrow> CronJob \<Rightarrow> HermesOrigin \<Rightarrow> SessionKey" where
  "delivery_session L job d =
     (let built =
        (let s = session_key_new ''discord'' None (ho_chat_id d) (ho_thread_id d)
               (unwrap_or (''cron:'' @ cj_id job) (ho_user_id d))
         in case ho_bot_id d of Some b \<Rightarrow> with_bot_id s b | None \<Rightarrow> s);
          session =
        (case Option.bind (cj_session_key job) (\<lambda>key. case from_storage_key key of Inr k \<Rightarrow> Some k | Inl _ \<Rightarrow> None) of
           Some k \<Rightarrow> if same_place d k then k else built
         | None \<Rightarrow> built)
      in if bot_id session = None \<and> job_profile L job \<noteq> '''' then with_bot_id session (job_profile L job) else session)"

definition int_text :: "int \<Rightarrow> string" where
  "int_text n = (if n < 0 then ''-'' @ dec (nat (- n)) else dec (nat n))"

definition obligation_id :: "CronJob \<Rightarrow> int \<Rightarrow> string" where
  "obligation_id job clock = ''obl:cron:'' @ cj_id job @ '':'' @ int_text (clock div 1000000)"

definition lift_db :: "string + Db \<Rightarrow> CronFault + Db" where
  "lift_db r = (case r of Inl e \<Rightarrow> Inl (Fault (Database e)) | Inr db \<Rightarrow> Inr db)"

definition log :: "CronEffect \<Rightarrow> Outbox \<Rightarrow> Outbox" where
  "log e w = w\<lparr>ou_log := ou_log w @ [e]\<rparr>"

definition with_ledger :: "(Db \<Rightarrow> CronFault + Db) \<Rightarrow> Outbox \<Rightarrow> (CronFault + unit \<Rightarrow> Outbox \<times> (CronFault + unit)) \<Rightarrow>
    (Outbox \<Rightarrow> Outbox \<times> (CronFault + unit)) \<Rightarrow> Outbox \<times> (CronFault + unit)" where
  "with_ledger f w fail k =
     (case f (ou_db w) of Inl e \<Rightarrow> fail (Inl e) | Inr db \<Rightarrow> k (w\<lparr>ou_db := db\<rparr>))"

definition attach_to_session :: "CronLib \<Rightarrow> CronJob \<Rightarrow> bool" where
  "attach_to_session L job =
     (case job_payload L job of Inl _ \<Rightarrow> True | Inr p \<Rightarrow> unwrap_or True (get_bool ''attach_to_session'' p))"

definition finish_delivery ::
  "CronLib \<Rightarrow> DeliverEnv \<Rightarrow> CronJob \<Rightarrow> HermesOrigin \<Rightarrow> string \<Rightarrow> string \<Rightarrow> OmonError option \<Rightarrow> Outbox \<Rightarrow>
     Outbox \<times> (CronFault + unit)" where
  "finish_delivery L E job d content i answer w =
     (let now = de_ledger_now E; fail = (\<lambda>r. (w, r)) in
      case answer of
        Some e \<Rightarrow>
          with_ledger (\<lambda>db. lift_db (mark_obligation_failed now i (error_to_string e) db)) w fail
            (\<lambda>w. (w, Inl (Fault e)))
      | None \<Rightarrow>
          with_ledger (\<lambda>db. lift_db (mark_obligation_delivered now i db)) w fail
            (\<lambda>w. (if attach_to_session L job then log (Mirrored (cj_id job) (cj_session_key job) d content) w else w,
                  Inr ())))"

definition deliver ::
  "CronLib \<Rightarrow> DeliverEnv \<Rightarrow> CronJob \<Rightarrow> HermesOrigin \<Rightarrow> string \<Rightarrow> Outbox \<Rightarrow> Outbox \<times> (CronFault + unit)" where
  "deliver L E job d content w0 =
     (case parse_u64 (ho_chat_id d) of
        None \<Rightarrow> (w0, Inl (Fault (Config (''invalid Discord channel ID: '' @ ho_chat_id d))))
      | Some channel \<Rightarrow>
          let w1 = log (Notified (cj_id job) channel content (de_triggered_at E)) w0;
              session = delivery_session L job d;
              i = obligation_id job (de_clock E);
              w2 = w1\<lparr>ou_db := record_obligation (de_pid E) (de_started E) (de_ledger_now E) i session content (ou_db w1)\<rparr>
          in with_ledger (\<lambda>db. lift_db (mark_obligation_attempting (de_ledger_now E) i db)) w2 (\<lambda>r. (w2, r))
               (\<lambda>w3. case de_dispatch E of
                  Some dispatch \<Rightarrow>
                    finish_delivery L E job d content i (dispatch session content) (log (Dispatched session content) w3)
                | None \<Rightarrow> finish_delivery L E job d content i None w3))"

subsection \<open>Execution\<close>

fun deliver_all ::
  "CronLib \<Rightarrow> (nat \<Rightarrow> DeliverEnv) \<Rightarrow> nat \<Rightarrow> CronJob \<Rightarrow> string \<Rightarrow> HermesOrigin list \<Rightarrow> Outbox \<Rightarrow> Outbox \<times> CronFault list" where
  "deliver_all L env n job content [] w = (w, [])"
| "deliver_all L env n job content (d # ds) w =
     (let (w1, r) = deliver L (env n) job d content w;
          (w2, errs) = deliver_all L env (Suc n) job content ds w1
      in (w2, (case r of Inl e \<Rightarrow> e # errs | Inr _ \<Rightarrow> errs)))"

definition fault_text :: "CronFault \<Rightarrow> string" where
  "fault_text f = (case f of Fault e \<Rightarrow> error_to_string e | Panic \<Rightarrow> '''')"

definition ack_command :: "CronLib \<Rightarrow> CronJob \<Rightarrow> string option" where
  "ack_command L job =
     Option.bind (payload_str L ''ack_command'' job) (\<lambda>c. if trim c = '''' then None else Some c)"

definition deliver_output ::
  "CronLib \<Rightarrow> (nat \<Rightarrow> DeliverEnv) \<Rightarrow> CronJob \<Rightarrow> HermesOrigin list \<Rightarrow> string option \<Rightarrow> Outbox \<Rightarrow> Outbox \<times> (CronFault + unit)" where
  "deliver_output L env job ds content w =
     (case content of
        None \<Rightarrow> (w, Inr ())
      | Some text \<Rightarrow>
          if ds = [] \<or> trim text = '''' \<or> is_cron_silence_response L text then (w, Inr ())
          else
            let (w', errs) = deliver_all L env 0 job text ds w in
            case errs of
              e # _ \<Rightarrow> (w', Inl (Fault (Config (''delivery failed for '' @ dec (length errs) @ '' of '' @
                         dec (length ds) @ '' destinations: '' @ fault_text e))))
            | [] \<Rightarrow> (case ack_command L job of Some c \<Rightarrow> log (RanAck c) w' | None \<Rightarrow> w', Inr ()))"

definition incident_row :: "string \<Rightarrow> string \<Rightarrow> string \<Rightarrow> CronIncident" where
  "incident_row now job_id signature =
     \<lparr>ci_job_id = job_id, ci_error_signature = signature, ci_acknowledged = False, ci_created_at = now, ci_updated_at = now\<rparr>"

definition incident_key :: "CronIncident \<Rightarrow> string \<times> string" where
  "incident_key i = (ci_job_id i, ci_error_signature i)"

definition record_incident :: "string \<Rightarrow> string \<Rightarrow> string \<Rightarrow> CronDb \<Rightarrow> CronDb" where
  "record_incident now job_id signature db =
     db\<lparr>cd_incidents := fst (sql_upsert incident_key (\<lambda>_. True) (\<lambda>i. i\<lparr>ci_updated_at := now\<rparr>)
        (incident_row now job_id signature) (cd_incidents db))\<rparr>"

definition is_acknowledged :: "string \<Rightarrow> string \<Rightarrow> CronDb \<Rightarrow> bool" where
  "is_acknowledged job_id signature db =
     (case sql_get incident_key (job_id, signature) (cd_incidents db) of
        Some i \<Rightarrow> ci_acknowledged i
      | None \<Rightarrow> False)"

definition clear_incidents :: "string \<Rightarrow> CronDb \<Rightarrow> CronDb" where
  "clear_incidents job_id db = db\<lparr>cd_incidents := fst (sql_delete (\<lambda>i. ci_job_id i = job_id) (cd_incidents db))\<rparr>"

text \<open>The destinations of a failure notice; an error of \<open>failure_destinations\<close> cannot occur, a panic ends
  the task.\<close>

definition alert_destinations :: "json \<Rightarrow> HermesOrigin list \<Rightarrow> CronFault + HermesOrigin list" where
  "alert_destinations payload ds =
     (case hermes_from_json payload of
        Some h \<Rightarrow> (case failure_destinations h of Inl Panic \<Rightarrow> Inl Panic | Inl _ \<Rightarrow> Inr [] | Inr fs \<Rightarrow> Inr fs)
      | None \<Rightarrow> Inr ds)"

record ExecEnv =
  ee_deliver :: "nat \<Rightarrow> DeliverEnv"
  ee_has_dispatcher :: bool
  ee_now :: string
  ee_execute :: "CronJob \<Rightarrow> OmonError + string option"

type_synonym ExecState = "CronDb \<times> Outbox"

definition unconfigured :: "ExecEnv \<Rightarrow> json \<Rightarrow> CronFault + bool" where
  "unconfigured E payload =
     (if ee_has_dispatcher E then Inr False
      else case hermes_from_json payload of
        Some h \<Rightarrow> has_explicit_discord_destination h
      | None \<Rightarrow> Inr False)"

definition alert :: "CronLib \<Rightarrow> ExecEnv \<Rightarrow> CronJob \<Rightarrow> json \<Rightarrow> HermesOrigin list \<Rightarrow> OmonError \<Rightarrow> ExecState \<Rightarrow>
    ExecState \<times> (CronFault + string option)" where
  "alert L E job payload ds e s =
     (case s of (db, w) \<Rightarrow>
        if is_acknowledged (cj_id job) (error_to_string e) db then (s, Inl (Fault e))
        else
          let db' = record_incident (ee_now E) (cj_id job) (error_to_string e) db in
          case alert_destinations payload ds of
            Inl f \<Rightarrow> ((db', w), Inl f)
          | Inr fs \<Rightarrow>
              ((db', fst (deliver_all L (ee_deliver E) 0 job
                  (''Cron job '' @ cj_id job @ '' failed: '' @ error_to_string e) fs w)), Inl (Fault e)))"

definition execute_job ::
  "CronLib \<Rightarrow> ExecEnv \<Rightarrow> CronJob \<Rightarrow> ExecState \<Rightarrow> ExecState \<times> (CronFault + string option)" where
  "execute_job L E job s =
     (case job_payload L job of
        Inl e \<Rightarrow> (s, Inl (Fault e))
      | Inr payload \<Rightarrow>
      (case delivery_destinations payload of
        Inl f \<Rightarrow> (s, Inl f)
      | Inr ds \<Rightarrow>
      (case unconfigured E payload of
        Inl f \<Rightarrow> (s, Inl f)
      | Inr True \<Rightarrow>
          (s, Inl (Fault (Config (''unconfigured delivery transport: discord for job '' @ cj_id job))))
      | Inr False \<Rightarrow>
      (case ee_execute E job of
        Inl e \<Rightarrow> alert L E job payload ds e s
      | Inr result \<Rightarrow>
          let content = or_else result (or_else (get_str ''notification'' payload) (get_str ''content'' payload));
              (w', r) = deliver_output L (ee_deliver E) job ds content (snd s)
          in case r of
               Inl f \<Rightarrow> ((fst s, w'), Inl f)
             | Inr _ \<Rightarrow> ((clear_incidents (cj_id job) (fst s), w'), Inr content)))))"

section \<open>What a delivery leaves behind\<close>

lemma get_obligation_recorded:
  "get_obligation i (record_obligation pid started now i k content db) =
     Some (case get_obligation i db of
         None \<Rightarrow> obligation_row pid started now i k content
       | Some r \<Rightarrow> restamp (obligation_row pid started now i k content) r)"
  by (simp add: get_obligation_def record_obligation_def Let_def ensure_session_def restamp.get_upsert
      obligation_row_def split: option.split)

definition moved :: "int \<Rightarrow> string \<Rightarrow> DeliveryObligationState \<Rightarrow> string option \<Rightarrow> Db \<Rightarrow> Db" where
  "moved now i st err db =
     db\<lparr>db_obligations := fst (sql_update (\<lambda>r. ob_id r = i) (obligation_to now st err) (db_obligations db))\<rparr>"

lemma obligation_moves:
  assumes "get_obligation i db = Some r"
  shows "update_obligation_state now i st err db = Inr (moved now i st err db)"
    and "get_obligation i (moved now i st err db) = Some (obligation_to now st err r)"
  using assms get_obligation_id [OF assms] update_obligation_state_ok [of i db now st err]
  by (simp_all add: moved_def get_obligation_def obligation_to.get_update)

text \<open>The dispatcher's answer to a delivery, and what the delivery sends.\<close>

definition answer :: "CronLib \<Rightarrow> DeliverEnv \<Rightarrow> CronJob \<Rightarrow> HermesOrigin \<Rightarrow> string \<Rightarrow> OmonError option" where
  "answer L E job d content =
     (case de_dispatch E of Some f \<Rightarrow> f (delivery_session L job d) content | None \<Rightarrow> None)"

definition delivery_effects :: "CronLib \<Rightarrow> DeliverEnv \<Rightarrow> CronJob \<Rightarrow> HermesOrigin \<Rightarrow> string \<Rightarrow> CronEffect list" where
  "delivery_effects L E job d content =
     (case parse_u64 (ho_chat_id d) of
        None \<Rightarrow> []
      | Some channel \<Rightarrow>
          [Notified (cj_id job) channel content (de_triggered_at E)] @
          (if de_dispatch E \<noteq> None then [Dispatched (delivery_session L job d) content] else []) @
          (if answer L E job d content = None \<and> attach_to_session L job
           then [Mirrored (cj_id job) (cj_session_key job) d content] else []))"

definition delivery_result :: "CronLib \<Rightarrow> DeliverEnv \<Rightarrow> CronJob \<Rightarrow> HermesOrigin \<Rightarrow> string \<Rightarrow> CronFault + unit" where
  "delivery_result L E job d content =
     (case parse_u64 (ho_chat_id d) of
        None \<Rightarrow> Inl (Fault (Config (''invalid Discord channel ID: '' @ ho_chat_id d)))
      | Some _ \<Rightarrow> (case answer L E job d content of Some e \<Rightarrow> Inl (Fault e) | None \<Rightarrow> Inr ()))"

lemma finish_delivery_spec:
  assumes "get_obligation i (ou_db w) = Some r"
  shows "snd (finish_delivery L E job d content i a w) = (case a of Some e \<Rightarrow> Inl (Fault e) | None \<Rightarrow> Inr ())"
    and "ou_log (fst (finish_delivery L E job d content i a w)) = ou_log w @
      (if a = None \<and> attach_to_session L job then [Mirrored (cj_id job) (cj_session_key job) d content] else [])"
    and "get_obligation i (ou_db (fst (finish_delivery L E job d content i a w))) =
      Some (case a of Some e \<Rightarrow> obligation_to (de_ledger_now E) OFailed (Some (error_to_string e)) r
            | None \<Rightarrow> obligation_to (de_ledger_now E) ODelivered None r)"
proof -
  note f = obligation_moves [OF assms]
  note defs = finish_delivery_def with_ledger_def lift_db_def log_def mark_obligation_failed_def
    mark_obligation_delivered_def
  show "snd (finish_delivery L E job d content i a w) = (case a of Some e \<Rightarrow> Inl (Fault e) | None \<Rightarrow> Inr ())"
    "ou_log (fst (finish_delivery L E job d content i a w)) = ou_log w @
      (if a = None \<and> attach_to_session L job then [Mirrored (cj_id job) (cj_session_key job) d content] else [])"
    "get_obligation i (ou_db (fst (finish_delivery L E job d content i a w))) =
      Some (case a of Some e \<Rightarrow> obligation_to (de_ledger_now E) OFailed (Some (error_to_string e)) r
            | None \<Rightarrow> obligation_to (de_ledger_now E) ODelivered None r)"
    by (cases a; simp add: defs f Let_def)+
qed

lemma deliver_spec:
  assumes "w' = fst (deliver L E job d content w)"
  shows "snd (deliver L E job d content w) = delivery_result L E job d content"
    and "ou_log w' = ou_log w @ delivery_effects L E job d content"
    and "parse_u64 (ho_chat_id d) = Some c \<Longrightarrow> \<exists>r. get_obligation (obligation_id job (de_clock E)) (ou_db w') =
       Some (case answer L E job d content of
           Some e \<Rightarrow> obligation_to (de_ledger_now E) OFailed (Some (error_to_string e)) r
         | None \<Rightarrow> obligation_to (de_ledger_now E) ODelivered None r) \<and> ob_content r = content"
proof -
  let ?i = "obligation_id job (de_clock E)" let ?s = "delivery_session L job d"
  let ?w2 = "(log (Notified (cj_id job) (the (parse_u64 (ho_chat_id d))) content (de_triggered_at E)) w)
    \<lparr>ou_db := record_obligation (de_pid E) (de_started E) (de_ledger_now E) ?i ?s content (ou_db w)\<rparr>"
  obtain r where r: "get_obligation ?i (ou_db ?w2) = Some r" "ob_content r = content"
    by (auto simp: get_obligation_recorded restamp_def obligation_row_def split: option.split)
  let ?w3 = "?w2\<lparr>ou_db := moved (de_ledger_now E) ?i OAttempting None (ou_db ?w2)\<rparr>"
  let ?w4 = "if de_dispatch E = None then ?w3 else log (Dispatched ?s content) ?w3"
  have r3: "get_obligation ?i (ou_db ?w4) = Some (obligation_to (de_ledger_now E) OAttempting None r)"
    using obligation_moves(2) [OF r(1)] by (simp add: log_def)
  have deliver: "deliver L E job d content w = finish_delivery L E job d content ?i (answer L E job d content) ?w4"
    if "parse_u64 (ho_chat_id d) = Some c" for c
    using that obligation_moves(1) [OF r(1)]
    by (simp add: deliver_def with_ledger_def lift_db_def mark_obligation_attempting_def answer_def log_def Let_def
        split: option.split)
  note fin = finish_delivery_spec [OF r3, of L E job d content "answer L E job d content"]
  show "snd (deliver L E job d content w) = delivery_result L E job d content"
    using deliver fin(1) by (cases "parse_u64 (ho_chat_id d)") (simp_all add: delivery_result_def deliver_def)
  show "ou_log w' = ou_log w @ delivery_effects L E job d content"
    using deliver fin(2) assms
    by (cases "parse_u64 (ho_chat_id d)") (simp_all add: delivery_effects_def deliver_def log_def)
  show "\<exists>r. get_obligation ?i (ou_db w') =
       Some (case answer L E job d content of
           Some e \<Rightarrow> obligation_to (de_ledger_now E) OFailed (Some (error_to_string e)) r
         | None \<Rightarrow> obligation_to (de_ledger_now E) ODelivered None r) \<and> ob_content r = content"
    if "parse_u64 (ho_chat_id d) = Some c"
    using deliver [OF that] fin(3) assms r(2)
    by (intro exI [of _ "obligation_to (de_ledger_now E) OAttempting None r"]) (simp add: obligation_to_def)
qed

text \<open>A delivery ends in the ledger with its outcome: delivered when the dispatcher took it,
  failed with the dispatcher's error otherwise, and the caller gets the same answer.\<close>

theorem delivery_outcome_recorded:
  assumes "parse_u64 (ho_chat_id d) = Some c"
  shows "\<exists>r. get_obligation (obligation_id job (de_clock E)) (ou_db (fst (deliver L E job d content w))) = Some r \<and>
    ob_content r = content \<and>
    (case answer L E job d content of
       None \<Rightarrow> ob_state r = ''delivered'' \<and> snd (deliver L E job d content w) = Inr ()
     | Some e \<Rightarrow> ob_state r = ''failed'' \<and> ob_last_error r = Some (error_to_string e) \<and>
                 snd (deliver L E job d content w) = Inl (Fault e))"
  using deliver_spec(1) [OF refl, of L E job d content w] deliver_spec(3) [OF refl assms, of job E L content w] assms
  by (auto simp: delivery_result_def obligation_to_def split: option.splits)

definition sample_job :: CronJob where
  "sample_job = \<lparr>cj_id = ''j'', cj_session_key = None, cj_expression = ''* * * * *'', cj_payload_json = ''p'',
     cj_enabled = True, cj_next_run_at = None, cj_created_at = 0, cj_updated_at = 0, cj_authority = ''omon_owned''\<rparr>"

definition sample_outbox :: Outbox where
  "sample_outbox = \<lparr>ou_db = \<lparr>db_sessions = [], db_ledger = [], db_constituents = [], db_obligations = []\<rparr>, ou_log = []\<rparr>"

text \<open>The channel \<open>1\<close> refuses, every other one accepts.\<close>

definition sample_deliver :: DeliverEnv where
  "sample_deliver = \<lparr>de_triggered_at = 0, de_clock = 5000000, de_ledger_now = 0, de_pid = 1, de_started = ''s'',
     de_dispatch = Some (\<lambda>k c. if channel_id k = ''1'' then Some (Config ''refused'') else None)\<rparr>"

theorem delivery_outcome_recorded_witness:
  "\<exists>r. get_obligation ''obl:cron:j:5'' (ou_db (fst (deliver minutely sample_deliver sample_job
       (discord_origin None ''1'' None) ''hi'' sample_outbox))) = Some r \<and> ob_state r = ''failed''"
proof -
  have p: "parse_u64 (ho_chat_id (discord_origin None ''1'' None)) = Some 1"
    by (simp add: discord_origin_def parse_uint_def is_digit_def byte_val_def digits_val_def digit_val_def)
  have "obligation_id sample_job (de_clock sample_deliver) = ''obl:cron:j:5''"
    "answer minutely sample_deliver sample_job (discord_origin None ''1'' None) ''hi'' = Some (Config ''refused'')"
    by code_simp+
  with delivery_outcome_recorded [OF p, of sample_job sample_deliver minutely "''hi''" sample_outbox]
  show ?thesis by auto
qed

text \<open>The identifier of an obligation has the job and the millisecond only.  When two destinations of
  one job are served within a millisecond, the second delivery overwrites the record of the first:
  here the first one failed, and nothing is left in the ledger that would try it again.\<close>

lemma same_millisecond_loses_failure:
  "let (w1, r1) = deliver minutely sample_deliver sample_job (discord_origin None ''1'' None) ''hi'' sample_outbox;
       (w2, r2) = deliver minutely sample_deliver sample_job (discord_origin None ''2'' None) ''hi'' w1
   in r1 = Inl (Fault (Config ''refused'')) \<and> map ob_state (db_obligations (ou_db w1)) = [''failed''] \<and>
      r2 = Inr () \<and> map ob_state (db_obligations (ou_db w2)) = [''delivered''] \<and>
      map ob_channel_id (db_obligations (ou_db w2)) = [''1'']"
proof -
  have p: "parse_u64 ''1'' = Some 1" "parse_u64 ''2'' = Some 2"
    by (simp_all add: parse_uint_def is_digit_def byte_val_def digits_val_def digit_val_def)
  have s: "channel_id (delivery_session minutely sample_job (discord_origin None c None)) = c" for c
    by (simp add: delivery_session_def discord_origin_def sample_job_def session_key_new_def job_profile_def
        payload_str_def job_payload_def minutely_def Let_def)
  have i: "obligation_id sample_job 5000000 = ''obl:cron:j:5''" by code_simp
  note defs = deliver_def with_ledger_def lift_db_def log_def record_obligation_def ensure_session_def
    obligation_row_def restamp_def mark_obligation_attempting_def mark_obligation_failed_def
    mark_obligation_delivered_def update_obligation_state_def obligation_to_def sql_upsert_def sql_update_def
    finish_delivery_def
  show ?thesis
    by (simp add: defs p s i sample_deliver_def sample_outbox_def Let_def attach_to_session_def
        discord_origin_def [of None] s [unfolded discord_origin_def])
qed

subsection \<open>All destinations\<close>

definition sent_all :: "CronLib \<Rightarrow> (nat \<Rightarrow> DeliverEnv) \<Rightarrow> nat \<Rightarrow> CronJob \<Rightarrow> string \<Rightarrow> HermesOrigin list \<Rightarrow> CronEffect list" where
  "sent_all L env n job content ds = concat (map (\<lambda>(k, d). delivery_effects L (env k) job d content) (List.enumerate n ds))"

definition all_delivered :: "CronLib \<Rightarrow> (nat \<Rightarrow> DeliverEnv) \<Rightarrow> nat \<Rightarrow> CronJob \<Rightarrow> string \<Rightarrow> HermesOrigin list \<Rightarrow> bool" where
  "all_delivered L env n job content ds \<longleftrightarrow>
     list_all (\<lambda>(k, d). delivery_result L (env k) job d content = Inr ()) (List.enumerate n ds)"

lemma deliver_all_spec:
  "ou_log (fst (deliver_all L env n job content ds w)) = ou_log w @ sent_all L env n job content ds"
  "snd (deliver_all L env n job content ds w) = [] \<longleftrightarrow> all_delivered L env n job content ds"
proof (induction ds arbitrary: n w)
  case (Cons d ds)
  {
    case 1
    show ?case using deliver_spec(2) [OF refl, of L "env n" job d content w] Cons.IH(1) by (simp add: case_prod_beta Let_def sent_all_def)
  next
    case 2
    show ?case using deliver_spec(1) [OF refl, of L "env n" job d content w] Cons.IH(2) by (simp add: case_prod_beta Let_def all_delivered_def split: sum.split)
  }
qed (simp_all add: sent_all_def all_delivered_def)

text \<open>When a job succeeds with a text to deliver, the text is sent to every destination in the
  order listed, also after one of them failed; the run counts as failed when a delivery did; and the
  acknowledgement command runs after the last message, only if all of them were taken.\<close>

theorem execute_delivers_everywhere:
  assumes "job_payload L job = Inr payload" and "delivery_destinations payload = Inr ds" and "ds \<noteq> []"
    and "unconfigured E payload = Inr False" and "ee_execute E job = Inr (Some content)"
    and "trim content \<noteq> ''''" and "\<not> is_cron_silence_response L content"
  shows "ou_log (snd (fst (execute_job L E job s))) = ou_log (snd s) @
      sent_all L (ee_deliver E) 0 job content ds @
      (if all_delivered L (ee_deliver E) 0 job content ds
       then (case ack_command L job of Some c \<Rightarrow> [RanAck c] | None \<Rightarrow> []) else []) \<and>
    (snd (execute_job L E job s) = Inr (Some content) \<longleftrightarrow> all_delivered L (ee_deliver E) 0 job content ds)"
proof -
  let ?r = "deliver_all L (ee_deliver E) 0 job content ds (snd s)"
  note all = deliver_all_spec [of L "ee_deliver E" 0 job content ds "snd s"]
  have "deliver_output L (ee_deliver E) job ds (Some content) (snd s) =
      (case snd ?r of e # _ \<Rightarrow> (fst ?r, Inl (Fault (Config (''delivery failed for '' @ dec (length (snd ?r)) @ '' of '' @
           dec (length ds) @ '' destinations: '' @ fault_text e))))
       | [] \<Rightarrow> (case ack_command L job of Some c \<Rightarrow> log (RanAck c) (fst ?r) | None \<Rightarrow> fst ?r, Inr ()))"
    using assms(3,6,7) by (simp add: deliver_output_def case_prod_beta Let_def)
  then show ?thesis
    using assms(1,2,4,5) all
    by (cases "snd ?r")
      (auto simp: execute_job_def case_prod_beta Let_def log_def split: option.split)
qed

definition exec_env :: "(CronJob \<Rightarrow> OmonError + string option) \<Rightarrow> ExecEnv" where
  "exec_env f = \<lparr>ee_deliver = (\<lambda>n. sample_deliver), ee_has_dispatcher = True, ee_now = ''now'', ee_execute = f\<rparr>"

definition two_lib :: CronLib where
  "two_lib = minutely\<lparr>json_from_str := (\<lambda>s. Inr (JObj [(''deliver'', JStr ''1,2''), (''ack_command'', JStr ''ack'')]))\<rparr>"

theorem execute_delivers_everywhere_witness:
  "let r = execute_job two_lib (exec_env (\<lambda>j. Inr (Some ''hi''))) sample_job (cron_init [], sample_outbox)
   in \<not> all_delivered two_lib (\<lambda>n. sample_deliver) 0 sample_job ''hi''
        [discord_origin None ''1'' None, discord_origin None ''2'' None] \<and>
      Dispatched (delivery_session two_lib sample_job (discord_origin None ''2'' None)) ''hi'' \<in> set (ou_log (snd (fst r)))"
proof -
  let ?E = "exec_env (\<lambda>j. Inr (Some ''hi''))"
  let ?p = "JObj [(''deliver'', JStr ''1,2''), (''ack_command'', JStr ''ack'')]"
  let ?ds = "[discord_origin None ''1'' None, discord_origin None ''2'' None]"
  have h: "job_payload two_lib sample_job = Inr ?p" "delivery_destinations ?p = Inr ?ds" "?ds \<noteq> []"
    "unconfigured ?E ?p = Inr False" "ee_execute ?E sample_job = Inr (Some ''hi'')" "trim ''hi'' \<noteq> ''''"
    "\<not> is_cron_silence_response two_lib ''hi''"
    by code_simp+
  have p: "parse_u64 ''1'' = Some 1" "parse_u64 ''2'' = Some 2"
    by (simp_all add: parse_uint_def is_digit_def byte_val_def digits_val_def digit_val_def)
  have a: "answer two_lib sample_deliver sample_job (discord_origin None ''1'' None) ''hi'' = Some (Config ''refused'')"
    by code_simp
  have c: "ho_chat_id (discord_origin None x None) = x" for x by (simp add: discord_origin_def)
  have "\<not> all_delivered two_lib (\<lambda>n. sample_deliver) 0 sample_job ''hi'' ?ds"
    using a by (simp add: all_delivered_def delivery_result_def p c)
  moreover have "Dispatched (delivery_session two_lib sample_job (discord_origin None ''2'' None)) ''hi'' \<in>
      set (sent_all two_lib (\<lambda>n. sample_deliver) 0 sample_job ''hi'' ?ds)"
    by (simp add: sent_all_def delivery_effects_def p c) (simp add: sample_deliver_def)
  moreover have "ee_deliver ?E = (\<lambda>n. sample_deliver)" by (simp add: exec_env_def)
  ultimately show ?thesis
    using execute_delivers_everywhere [OF h, THEN conjunct1, of "(cron_init [], sample_outbox)"] by (simp add: Let_def)
qed

subsection \<open>Incidents\<close>

interpretation incident: keyed_update incident_key "\<lambda>i. i\<lparr>ci_updated_at := now\<rparr>" for now
  by unfold_locales (simp add: incident_key_def)

interpretation acknowledged: keyed_update incident_key "\<lambda>i. i\<lparr>ci_acknowledged := True, ci_updated_at := now\<rparr>" for now
  by unfold_locales (simp add: incident_key_def)

lemma incident_recorded:
  "sql_get incident_key (job_id, sig) (cd_incidents (record_incident now job_id sig db)) \<noteq> None"
  by (simp add: record_incident_def incident.get_upsert incident_row_def incident_key_def)

lemma acknowledge_recorded:
  assumes "sql_get incident_key (job_id, sig) (cd_incidents db) \<noteq> None"
  shows "is_acknowledged job_id sig (fst (acknowledge_incident now job_id None db))"
proof -
  obtain i where i: "sql_get incident_key (job_id, sig) (cd_incidents db) = Some i" using assms by blast
  then have "ci_job_id i = job_id"
    using sql_get_SomeD [of incident_key "(job_id, sig)" "cd_incidents db" i] by (simp add: incident_key_def)
  with i show ?thesis
    by (simp add: is_acknowledged_def acknowledge_incident_def case_prod_beta Let_def acknowledged.get_update)
qed

text \<open>A failure is announced once a person has not acknowledged it, and never after: when the
  job fails, is acknowledged, and fails with the same error again, the second failure changes no table
  and sends nothing; it is still reported as a failure of the run.\<close>

theorem acknowledged_failure_is_silent:
  assumes "job_payload L job = Inr payload" and "delivery_destinations payload = Inr ds"
    and "unconfigured E payload = Inr False" and "ee_execute E job = Inl e"
    and "db = fst (acknowledge_incident now (cj_id job) None (fst (fst (execute_job L E job s))))"
  shows "execute_job L E job (db, w) = ((db, w), Inl (Fault e))"
proof -
  have exec: "execute_job L E job s' = alert L E job payload ds e s'" for s'
    using assms(1-4) by (simp add: execute_job_def)
  have "sql_get incident_key (cj_id job, error_to_string e) (cd_incidents (fst (fst (execute_job L E job s)))) \<noteq> None"
    using incident_recorded [of "cj_id job" "error_to_string e" "ee_now E" "fst s"]
    by (cases "is_acknowledged (cj_id job) (error_to_string e) (fst s)")
      (auto simp: exec alert_def is_acknowledged_def case_prod_beta Let_def split: sum.split option.splits)
  from acknowledge_recorded [OF this, of now] show ?thesis
    by (simp add: exec alert_def assms(5))
qed

theorem acknowledged_failure_is_silent_witness:
  "let E = exec_env (\<lambda>j. Inl (ToolExecution ''boom''));
       db = fst (acknowledge_incident ''later'' ''j'' None
              (fst (fst (execute_job two_lib E sample_job (cron_init [], sample_outbox)))))
   in execute_job two_lib E sample_job (db, sample_outbox) = ((db, sample_outbox), Inl (Fault (ToolExecution ''boom'')))"
proof -
  let ?E = "exec_env (\<lambda>j. Inl (ToolExecution ''boom''))"
  let ?p = "JObj [(''deliver'', JStr ''1,2''), (''ack_command'', JStr ''ack'')]"
  have h: "job_payload two_lib sample_job = Inr ?p"
    "delivery_destinations ?p = Inr [discord_origin None ''1'' None, discord_origin None ''2'' None]"
    "unconfigured ?E ?p = Inr False" "ee_execute ?E sample_job = Inl (ToolExecution ''boom'')" "cj_id sample_job = ''j''"
    by code_simp+
  from acknowledged_failure_is_silent [OF h(1-4) refl, of "''later''" "(cron_init [], sample_outbox)" sample_outbox]
  show ?thesis by (simp add: h(5) Let_def)
qed

end
