(* ===== verification/Shell_Words.thy ===== *)
theory Shell_Words
  imports Gateway_Prelude
begin

text \<open>The shell scanners of \<open>security/normalize.rs\<close>: limits, normalisation of a command before it is
  classified, segments, command positions, words, tokens and the removal of quoting.  The scanners
  walk over bytes with an index; here they recurse on the rest of the text and count the index, or
  on the index itself where they jump.  The regular expressions of the module are replacements and
  tests of the regex crate and come as a record of functions; so do the environment variables.\<close>

section \<open>Characters\<close>

abbreviation backslash :: char where "backslash \<equiv> CHR 0x5C"
abbreviation squote :: char where "squote \<equiv> CHR 0x27"
abbreviation dquote :: char where "dquote \<equiv> CHR 0x22"
abbreviation backtick :: char where "backtick \<equiv> CHR 0x60"
abbreviation newline :: char where "newline \<equiv> CHR 0x0A"

text \<open>The code point of a character, from its UTF-8 bytes, and \<open>byte as char\<close>, which reads one byte
  as the character with that number.\<close>

fun scalar :: "string \<Rightarrow> nat" where
  "scalar [a] = byte_val a"
| "scalar [a, b] = (byte_val a mod 32) * 64 + byte_val b mod 64"
| "scalar [a, b, c] = (byte_val a mod 16) * 4096 + (byte_val b mod 64) * 64 + byte_val c mod 64"
| "scalar [a, b, c, d] = (byte_val a mod 8) * 262144 + (byte_val b mod 64) * 4096 + (byte_val c mod 64) * 64 + byte_val d mod 64"
| "scalar _ = 0"

definition byte_as_char :: "char \<Rightarrow> string" where
  "byte_as_char b =
     (if byte_val b < 128 then [b] else [char_of (192 + byte_val b div 64), char_of (128 + byte_val b mod 64)])"

definition slice :: "'a list \<Rightarrow> nat \<Rightarrow> nat \<Rightarrow> 'a list" where
  "slice s a b = drop a (take b s)"

fun find_str :: "string \<Rightarrow> string \<Rightarrow> nat option" where
  "find_str p s =
     (if prefix p s then Some 0
      else case s of [] \<Rightarrow> None | _ # t \<Rightarrow> map_option Suc (find_str p t))"

declare find_str.simps [simp del]

text \<open>\<open>str::replace\<close> with a pattern that is not empty.\<close>

function str_replace :: "string \<Rightarrow> string \<Rightarrow> string \<Rightarrow> string" where
  "str_replace p r s =
     (case s of
        [] \<Rightarrow> []
      | c # t \<Rightarrow> if p \<noteq> [] \<and> prefix p s then r @ str_replace p r (drop (length p) s) else c # str_replace p r t)"
  by pat_completeness auto
termination by (relation "measure (\<lambda>(_, _, s). length s)") auto

declare str_replace.simps [simp del]

definition trim_end_matches :: "char \<Rightarrow> string \<Rightarrow> string" where
  "trim_end_matches c s = rev (dropWhile (\<lambda>x. x = c) (rev s))"

text \<open>\<open>Path::file_name\<close> on a Unix path.\<close>

definition file_name :: "string \<Rightarrow> string option" where
  "file_name s =
     (let cs = filter (\<lambda>c. c \<noteq> [] \<and> c \<noteq> ''.'') (split_on (CHR ''/'') s)
      in if cs = [] \<or> last cs = ''..'' then None else Some (last cs))"

section \<open>Normalisation\<close>

record ShellLib =
  re_ansi :: "string \<Rightarrow> string"
  re_line_continuation :: "string \<Rightarrow> string"
  re_backslash_escape :: "string \<Rightarrow> string"
  re_empty_quotes :: "string \<Rightarrow> string"
  re_ifs_expansion :: "string \<Rightarrow> string"
  re_simple_shell_literal :: "string \<Rightarrow> bool"
  re_param_replacement :: "string \<Rightarrow> string"
  re_param_default :: "string \<Rightarrow> string"
  re_env_assignment :: "string \<Rightarrow> bool"
  env_home :: "string option"
  env_userprofile :: "string option"

abbreviation max_detection_command_chars :: nat where "max_detection_command_chars \<equiv> 128000"
abbreviation max_separator_free_command_chars :: nat where "max_separator_free_command_chars \<equiv> 4096"
abbreviation max_detection_segments :: nat where "max_detection_segments \<equiv> 25000"

definition is_separator :: "string \<Rightarrow> bool" where
  "is_separator ch \<longleftrightarrow> ch \<in> {'';'', ''&'', ''|'', [newline]}"

fun too_many_segments :: "nat \<Rightarrow> string list \<Rightarrow> bool" where
  "too_many_segments separators [] = False"
| "too_many_segments separators (ch # chs) =
     (if is_separator ch
      then separators + 1 \<ge> max_detection_segments \<or> too_many_segments (separators + 1) chs
      else too_many_segments separators chs)"

definition command_parser_limit_exceeded :: "string \<Rightarrow> bool" where
  "command_parser_limit_exceeded command \<longleftrightarrow>
     length command > max_detection_command_chars \<or>
     (length command > max_separator_free_command_chars \<and> \<not> list_ex is_separator (chars command)) \<or>
     too_many_segments 0 (chars command)"

definition nfkc_char :: "string \<Rightarrow> string" where
  "nfkc_char ch =
     (if scalar ch = 0x3000 then '' ''
      else if 0xFF01 \<le> scalar ch \<and> scalar ch \<le> 0xFF5E then [char_of (scalar ch - 0xFF00 + 0x20)]
      else ch)"

definition normalize_unicode_nfkc :: "string \<Rightarrow> string" where
  "normalize_unicode_nfkc input = concat (map nfkc_char (chars input))"

definition home_candidates :: "ShellLib \<Rightarrow> string list" where
  "home_candidates L =
     sort_key (\<lambda>b. - int (length b))
       ((case env_home L of Some h \<Rightarrow> if trim h \<noteq> '''' \<and> trim h \<noteq> ''/'' then [trim h] else [] | None \<Rightarrow> []) @
        (case env_userprofile L of Some u \<Rightarrow> if trim u \<noteq> '''' then [trim u] else [] | None \<Rightarrow> []))"

definition rewrite_home :: "string \<Rightarrow> string \<Rightarrow> string" where
  "rewrite_home home command =
     (let home_trimmed = trim_end_matches (CHR ''/'') (str_replace [backslash] ''/'' home) in
      if home_trimmed = '''' \<or> home_trimmed = ''/'' then command
      else fold (\<lambda>pat cmd. if contains pat cmd then str_replace pat ''~/'' cmd else cmd)
             [home_trimmed @ ''/'', trim_end_matches backslash home @ ''/''] command)"

definition rewrite_home_prefixes :: "ShellLib \<Rightarrow> string \<Rightarrow> string" where
  "rewrite_home_prefixes L command = fold rewrite_home (home_candidates L) command"

definition normalize_command_for_detection :: "ShellLib \<Rightarrow> string \<Rightarrow> string" where
  "normalize_command_for_detection L command =
     (let stripped = re_ansi L command;
          no_nulls = str_replace [CHR 0x00] '''' stripped;
          normalized_unicode = normalize_unicode_nfkc no_nulls;
          collapsed_lines = re_line_continuation L normalized_unicode;
          rewritten_home = rewrite_home_prefixes L collapsed_lines;
          stripped_escapes = re_backslash_escape L rewritten_home;
          stripped_quotes = re_empty_quotes L stripped_escapes
      in re_ifs_expansion L stripped_quotes)"

section \<open>Segments and command positions\<close>

text \<open>\<open>iter_top_level_shell_segments\<close>: \<open>cur\<close> is \<open>chars[start..index]\<close>.\<close>

fun segments_loop :: "string list \<Rightarrow> string option \<Rightarrow> bool \<Rightarrow> string list \<Rightarrow> string list" where
  "segments_loop cur quote escaped [] = (if cur \<noteq> [] then [concat cur] else [])"
| "segments_loop cur quote escaped (ch # chs) =
     (if escaped then segments_loop (cur @ [ch]) quote False chs
      else if ch = [backslash] \<and> quote \<noteq> Some [squote] then segments_loop (cur @ [ch]) quote True chs
      else case quote of
        Some q \<Rightarrow> segments_loop (cur @ [ch]) (if ch = q then None else Some q) False chs
      | None \<Rightarrow>
          if ch = [squote] \<or> ch = [dquote] then segments_loop (cur @ [ch]) (Some ch) False chs
          else if is_separator ch then
            (if cur \<noteq> [] then [concat cur] else []) @
            segments_loop [] None False
              (if (ch = ''&'' \<or> ch = ''|'') \<and> chs \<noteq> [] \<and> hd chs = ch then tl chs else chs)
          else segments_loop (cur @ [ch]) None False chs)"

definition iter_top_level_shell_segments :: "string \<Rightarrow> string list" where
  "iter_top_level_shell_segments command = segments_loop [] None False (chars command)"

abbreviation next_is :: "char \<Rightarrow> string \<Rightarrow> bool" where
  "next_is c cs \<equiv> cs \<noteq> [] \<and> hd cs = c"

fun starts_loop :: "char option \<Rightarrow> nat \<Rightarrow> string \<Rightarrow> nat list" where
  "starts_loop quote i [] = []"
| "starts_loop quote i (ch # cs) =
     (if quote = Some squote then starts_loop (if ch = squote then None else quote) (i + 1) cs
      else if quote = Some dquote then
        (if ch = backslash \<and> cs \<noteq> [] then starts_loop quote (i + 2) (tl cs)
         else if ch = dquote then starts_loop None (i + 1) cs
         else if ch = CHR ''$'' \<and> next_is (CHR ''('') cs then (i + 2) # starts_loop quote (i + 2) (tl cs)
         else starts_loop quote (i + 1) cs)
      else if ch = squote \<or> ch = dquote then starts_loop (Some ch) (i + 1) cs
      else if ch = backslash \<and> cs \<noteq> [] then starts_loop quote (i + 2) (tl cs)
      else if ch = CHR ''$'' \<and> next_is (CHR ''('') cs then (i + 2) # starts_loop quote (i + 2) (tl cs)
      else if ch \<in> {CHR ''('', CHR ''{'', CHR '';''} then (i + 1) # starts_loop quote (i + 1) cs
      else if ch = CHR ''&'' then
        (if next_is (CHR ''&'') cs then (i + 2) # starts_loop quote (i + 2) (tl cs)
         else (i + 1) # starts_loop quote (i + 1) cs)
      else if ch = CHR ''|'' then
        (if next_is (CHR ''|'') cs then (i + 2) # starts_loop quote (i + 2) (tl cs)
         else (i + 1) # starts_loop quote (i + 1) cs)
      else if ch = newline then (i + 1) # starts_loop quote (i + 1) cs
      else starts_loop quote (i + 1) cs)"

definition skip_space :: "string \<Rightarrow> nat \<Rightarrow> nat" where
  "skip_space command pos = pos + length (takeWhile is_ascii_whitespace (drop pos command))"

fun fresh_starts :: "string \<Rightarrow> nat set \<Rightarrow> nat list \<Rightarrow> nat list" where
  "fresh_starts command seen [] = []"
| "fresh_starts command seen (start # starts) =
     (let pos = skip_space command start in
      if pos < length command \<and> pos \<notin> seen
      then pos # fresh_starts command (insert pos seen) starts
      else fresh_starts command seen starts)"

definition iter_shell_command_starts :: "string \<Rightarrow> nat list" where
  "iter_shell_command_starts command = fresh_starts command {} (0 # starts_loop None 0 command)"

fun mark_parts :: "string \<Rightarrow> nat \<Rightarrow> nat list \<Rightarrow> string" where
  "mark_parts command prev [] = (if prev < length command then drop prev command else [])"
| "mark_parts command prev (offset # offsets) =
     (if offset > prev \<and> offset \<le> length command
      then slice command prev offset @ [newline] @ mark_parts command offset offsets
      else mark_parts command prev offsets)"

definition mark_command_starts :: "string \<Rightarrow> string" where
  "mark_command_starts command =
     (let offsets = filter (\<lambda>p. p > 0) (iter_shell_command_starts command)
      in if offsets = [] then command else mark_parts command 0 (sort offsets))"

section \<open>Words\<close>

fun paren_loop :: "nat \<Rightarrow> char option \<Rightarrow> nat \<Rightarrow> string \<Rightarrow> nat option" where
  "paren_loop depth quote i [] = None"
| "paren_loop depth quote i (ch # cs) =
     (case quote of
        Some q \<Rightarrow>
          if ch = backslash \<and> q = dquote \<and> cs \<noteq> [] then paren_loop depth quote (i + 2) (tl cs)
          else paren_loop depth (if ch = q then None else quote) (i + 1) cs
      | None \<Rightarrow>
          if ch = squote \<or> ch = dquote then paren_loop depth (Some ch) (i + 1) cs
          else if ch = backslash \<and> cs \<noteq> [] then paren_loop depth None (i + 2) (tl cs)
          else if ch = CHR ''$'' \<and> next_is (CHR ''('') cs then paren_loop (depth + 1) None (i + 2) (tl cs)
          else if ch = CHR '')'' then
            (if depth - 1 = 0 then Some (i + 1) else paren_loop (depth - 1) None (i + 1) cs)
          else paren_loop depth None (i + 1) cs)"

definition scan_dollar_paren_end :: "string \<Rightarrow> nat \<Rightarrow> nat option" where
  "scan_dollar_paren_end command start = paren_loop 1 None (start + 2) (drop (start + 2) command)"

fun backtick_loop :: "nat \<Rightarrow> string \<Rightarrow> nat option" where
  "backtick_loop i [] = None"
| "backtick_loop i (ch # cs) =
     (if ch = backslash \<and> cs \<noteq> [] then backtick_loop (i + 2) (tl cs)
      else if ch = backtick then Some (i + 1)
      else backtick_loop (i + 1) cs)"

definition scan_backtick_end :: "string \<Rightarrow> nat \<Rightarrow> nat option" where
  "scan_backtick_end command start = backtick_loop (start + 1) (drop (start + 1) command)"

lemma paren_loop_bounds: "paren_loop depth quote i s = Some e \<Longrightarrow> i < e \<and> e \<le> i + length s"
proof (induction "length s" arbitrary: depth quote i s rule: less_induct)
  case less
  show ?case
  proof (cases s)
    case (Cons ch cs)
    have step: "paren_loop d q (i + 1) cs = Some e \<Longrightarrow> i < e \<and> e \<le> i + length s" for d q
      using less.hyps [of cs d q "i + 1"] Cons by auto
    have skip: "cs \<noteq> [] \<Longrightarrow> paren_loop d q (i + 2) (tl cs) = Some e \<Longrightarrow> i < e \<and> e \<le> i + length s" for d q
      using less.hyps [of "tl cs" d q "i + 2"] Cons by (cases cs) auto
    show ?thesis
      using less.prems Cons step skip
      by (simp only: paren_loop.simps split: option.splits if_splits) auto
  qed (use less.prems in simp)
qed

lemma backtick_loop_bounds: "backtick_loop i s = Some e \<Longrightarrow> i < e \<and> e \<le> i + length s"
proof (induction i s rule: backtick_loop.induct)
  case (2 i ch cs)
  then show ?case by (cases cs) (auto split: if_splits)
qed simp

lemma scan_bounds:
  "scan_dollar_paren_end s i = Some e \<Longrightarrow> i + 2 < e \<and> e \<le> length s"
  "scan_backtick_end s i = Some e \<Longrightarrow> i + 1 < e \<and> e \<le> length s"
proof -
  assume "scan_dollar_paren_end s i = Some e"
  then show "i + 2 < e \<and> e \<le> length s"
    unfolding scan_dollar_paren_end_def by (cases "length s \<le> i + 2") (auto dest: paren_loop_bounds)
next
  assume "scan_backtick_end s i = Some e"
  then show "i + 1 < e \<and> e \<le> length s"
    unfolding scan_backtick_end_def by (cases "length s \<le> i + 1") (auto dest: backtick_loop_bounds)
qed

text \<open>The loop of \<open>read_shell_word\<close>: where the word that is read at \<open>i\<close> ends.\<close>

function word_end :: "string \<Rightarrow> char option \<Rightarrow> nat \<Rightarrow> nat" where
  "word_end command quote i =
     (if i \<ge> length command then i
      else
        let ch = command ! i; more = (i + 1 < length command); follows = (\<lambda>c. more \<and> command ! (i + 1) = c) in
        case quote of
          Some q \<Rightarrow>
            if ch = backslash \<and> q = dquote \<and> more then word_end command quote (i + 2)
            else word_end command (if ch = q then None else quote) (i + 1)
        | None \<Rightarrow>
            if ch = squote \<or> ch = dquote then word_end command (Some ch) (i + 1)
            else if ch = backslash \<and> more then word_end command None (i + 2)
            else if ch = CHR ''$'' \<and> follows (CHR ''('') then
              (case scan_dollar_paren_end command i of
                 Some end_pos \<Rightarrow> word_end command None end_pos
               | None \<Rightarrow> word_end command None (i + 2))
            else if ch = CHR ''$'' \<and> follows (CHR ''{'') then
              (case find_char (CHR ''}'') (drop (i + 2) command) of
                 Some n \<Rightarrow> word_end command None (i + 2 + n + 1)
               | None \<Rightarrow> word_end command None (i + 2))
            else if ch = backtick then
              (case scan_backtick_end command i of
                 Some end_pos \<Rightarrow> word_end command None end_pos
               | None \<Rightarrow> word_end command None (i + 1))
            else if is_ascii_whitespace ch \<or> ch \<in> {CHR '';'', CHR ''&'', CHR ''|''} then i
            else word_end command None (i + 1))"
  by pat_completeness auto
termination
  by (relation "measure (\<lambda>(command, _, i). length command - i)") (auto dest!: scan_bounds)

declare word_end.simps [simp del]

text \<open>\<open>String::from_utf8_lossy\<close> gives the bytes back: a word of a valid text begins and ends at
  character boundaries.\<close>

definition read_shell_word :: "string \<Rightarrow> nat \<Rightarrow> nat \<times> nat \<times> string" where
  "read_shell_word command pos =
     (let start = skip_space command pos; i = word_end command None start
      in (start, i, slice command start i))"

definition literal_command_substitution_output :: "ShellLib \<Rightarrow> string \<Rightarrow> string option" where
  "literal_command_substitution_output L script =
     (case split_whitespace script of
        [] \<Rightarrow> None
      | cmd # args \<Rightarrow>
          let cmd = to_ascii_lowercase cmd; literal = re_simple_shell_literal L in
          if cmd = ''echo'' then
            (case dropWhile (\<lambda>a. starts_with ''-n'' a) args of
               [a] \<Rightarrow> if literal a then Some a else None
             | _ \<Rightarrow> None)
          else if cmd = ''printf'' then
            (case args of
               [a] \<Rightarrow> if literal a then Some a else None
             | [a, b] \<Rightarrow> if a = ''%s'' \<and> literal b then Some b else None
             | _ \<Rightarrow> None)
          else None)"

definition substitution_at :: "ShellLib \<Rightarrow> string \<Rightarrow> nat \<Rightarrow> (nat \<times> string) option" where
  "substitution_at L word i =
     or_else
       (if starts_with ''$('' (drop i word) then
          Option.bind (scan_dollar_paren_end word i) (\<lambda>e.
            map_option (\<lambda>rep. (e, rep)) (literal_command_substitution_output L (slice word (i + 2) (e - 1))))
        else None)
       (if word ! i = backtick then
          Option.bind (scan_backtick_end word i) (\<lambda>e.
            map_option (\<lambda>rep. (e, rep)) (literal_command_substitution_output L (slice word (i + 1) (e - 1))))
        else None)"

lemma substitution_at_bounds: "substitution_at L word i = Some (e, rep) \<Longrightarrow> i < e \<and> e \<le> length word"
  by (auto simp: substitution_at_def or_else_Some_iff bind_eq_Some_conv dest: scan_bounds split: if_splits)

function substitute_from :: "ShellLib \<Rightarrow> string \<Rightarrow> nat \<Rightarrow> string" where
  "substitute_from L word i =
     (if i \<ge> length word then []
      else case substitution_at L word i of
        Some (e, rep) \<Rightarrow> rep @ substitute_from L word e
      | None \<Rightarrow>
          let ch = hd (chars (drop i word)) in ch @ substitute_from L word (i + length ch))"
  by pat_completeness auto
termination
proof (relation "measure (\<lambda>(_, word, i). length word - i)", goal_cases)
  case (2 L word i ch)
  then have "ch \<in> set (chars (drop i word))" by (simp add: hd_in_set)
  then have "length ch > 0" using chars_nonempty by simp
  with 2(1) show ?case by (simp del: length_greater_0_conv)
next
  case 3
  then show ?case by (auto dest: substitution_at_bounds)
qed simp

declare substitute_from.simps [simp del]

definition replace_simple_command_substitutions :: "ShellLib \<Rightarrow> string \<Rightarrow> string" where
  "replace_simple_command_substitutions L word = substitute_from L word 0"

definition replace_simple_shell_expansions :: "ShellLib \<Rightarrow> string \<Rightarrow> string" where
  "replace_simple_shell_expansions L word =
     re_param_default L (re_param_replacement L (replace_simple_command_substitutions L word))"

fun strip_loop :: "char option \<Rightarrow> string \<Rightarrow> string" where
  "strip_loop quote [] = []"
| "strip_loop quote (ch # cs) =
     (case quote of
        Some q \<Rightarrow>
          if ch = backslash \<and> q = dquote \<and> cs \<noteq> [] then byte_as_char (hd cs) @ strip_loop quote (tl cs)
          else if ch = q then strip_loop None cs
          else byte_as_char ch @ strip_loop quote cs
      | None \<Rightarrow>
          if ch = squote \<or> ch = dquote then strip_loop (Some ch) cs
          else if ch = backslash \<and> cs \<noteq> [] then byte_as_char (hd cs) @ strip_loop None (tl cs)
          else byte_as_char ch @ strip_loop None cs)"

definition strip_shell_word_syntax :: "string \<Rightarrow> string" where
  "strip_shell_word_syntax word = strip_loop None word"

text \<open>Two rounds, and only one when the first changes nothing.\<close>

definition deobfuscate_round :: "ShellLib \<Rightarrow> string \<Rightarrow> string" where
  "deobfuscate_round L word = strip_shell_word_syntax (replace_simple_shell_expansions L word)"

definition deobfuscate_shell_word_for_detection :: "ShellLib \<Rightarrow> string \<Rightarrow> string" where
  "deobfuscate_shell_word_for_detection L word =
     (let once = deobfuscate_round L word in if once = word then once else deobfuscate_round L once)"

definition wrapper_words :: "string list" where
  "wrapper_words = [''sudo'', ''env'', ''exec'', ''nohup'', ''setsid'', ''time'', ''command'', ''builtin'']"

definition sudo_opts :: "string list" where
  "sudo_opts = [''-c'', ''--close-from'', ''-g'', ''--group'', ''-h'', ''--host'', ''-p'', ''--prompt'', ''-u'', ''--user'']"

text \<open>The words at one command position: the wrappers and assignments before the executable, and the
  executable; at most \<open>n\<close> (twelve) words are read.\<close>

fun span_loop :: "ShellLib \<Rightarrow> string \<Rightarrow> nat \<Rightarrow> nat \<Rightarrow> bool \<Rightarrow> bool \<Rightarrow> (nat \<times> nat \<times> string) list" where
  "span_loop L command 0 pos skip_wrapper_options skip_next_wrapper_arg = []"
| "span_loop L command (Suc n) pos skip_wrapper_options skip_next_wrapper_arg =
     (case read_shell_word command pos of (ws, we, word) \<Rightarrow>
        if ws = we then []
        else
          let deobfuscated = deobfuscate_shell_word_for_detection L word;
              lower_word = to_ascii_lowercase deobfuscated in
          if skip_next_wrapper_arg then span_loop L command n we skip_wrapper_options False
          else if skip_wrapper_options \<and> starts_with ''-'' lower_word then
            let opt_name = hd (split_on (CHR ''='') lower_word) in
            span_loop L command n we skip_wrapper_options
              (CHR ''='' \<notin> set lower_word \<and> opt_name \<in> set sudo_opts)
          else
            (ws, we, word) #
            (if lower_word \<in> set wrapper_words then
               span_loop L command n we (lower_word = ''sudo'' \<or> lower_word = ''env'') False
             else if re_env_assignment L deobfuscated then span_loop L command n we False False
             else []))"

definition iter_shell_command_word_spans :: "ShellLib \<Rightarrow> string \<Rightarrow> (nat \<times> nat \<times> string) list" where
  "iter_shell_command_word_spans L command =
     concat (map (\<lambda>start. span_loop L command 12 start False False) (iter_shell_command_starts command))"

section \<open>Tokens\<close>

record ShellToken =
  st_value :: string
  st_start :: nat
  st_end :: nat
  st_inert_single_quoted :: bool

text \<open>One token: its value, where it ends and the quote that is still open there.\<close>

fun token_scan :: "char option \<Rightarrow> string \<Rightarrow> nat \<Rightarrow> string \<Rightarrow> (string \<times> nat \<times> char option) option" where
  "token_scan quote val i [] = Some (val, i, quote)"
| "token_scan quote val i (ch # cs) =
     (if quote = None \<and> is_ascii_whitespace ch then Some (val, i, quote)
      else case quote of
        Some q \<Rightarrow>
          if ch = q then token_scan None val (i + 1) cs
          else if ch = backslash \<and> q = dquote \<and> cs \<noteq> []
          then token_scan quote (val @ byte_as_char (hd cs)) (i + 2) (tl cs)
          else token_scan quote (val @ byte_as_char ch) (i + 1) cs
      | None \<Rightarrow>
          if ch = squote \<or> ch = dquote then token_scan (Some ch) val (i + 1) cs
          else if ch = backslash then
            (if cs = [] then None else token_scan None (val @ byte_as_char (hd cs)) (i + 2) (tl cs))
          else token_scan None (val @ byte_as_char ch) (i + 1) cs)"

lemma token_scan_bounds: "token_scan quote val i s = Some (v, e, q) \<Longrightarrow> i \<le> e \<and> e \<le> i + length s"
proof (induction quote val i s rule: token_scan.induct)
  case (2 quote val i ch cs)
  then show ?case by (cases cs) (auto split: if_splits option.splits)
qed simp

lemma token_scan_progress:
  "token_scan None val i (ch # cs) = Some (v, e, q) \<Longrightarrow> \<not> is_ascii_whitespace ch \<Longrightarrow> i < e"
  by (cases cs) (auto dest!: token_scan_bounds split: if_splits)

lemma skip_space_stop:
  "skip_space s i < length s \<Longrightarrow>
   \<exists>ch cs. drop (skip_space s i) s = ch # cs \<and> \<not> is_ascii_whitespace ch"
proof -
  assume a: "skip_space s i < length s"
  have "drop (skip_space s i) s = dropWhile is_ascii_whitespace (drop i s)"
    by (simp add: skip_space_def dropWhile_eq_drop add.commute)
  moreover have "drop (skip_space s i) s \<noteq> []" using a by simp
  ultimately show ?thesis by (metis hd_dropWhile list.collapse)
qed

lemma skip_space_le: "i \<le> skip_space s i"
  by (simp add: skip_space_def)

definition inert_raw :: "string \<Rightarrow> bool" where
  "inert_raw raw \<longleftrightarrow>
     (starts_with [squote] raw \<and> suffix [squote] raw) \<or> (contains [CHR ''='', squote] raw \<and> suffix [squote] raw)"

function shell_tokens_with_spans :: "string \<Rightarrow> nat \<Rightarrow> ShellToken list option" where
  "shell_tokens_with_spans segment start =
     (let i = skip_space segment start in
      if i \<ge> length segment then Some []
      else case token_scan None [] i (drop i segment) of
        None \<Rightarrow> None
      | Some (v, e, q) \<Rightarrow>
          if q \<noteq> None then None
          else map_option (\<lambda>ts. \<lparr>st_value = v, st_start = i, st_end = e,
                 st_inert_single_quoted = inert_raw (slice segment i e)\<rparr> # ts)
               (shell_tokens_with_spans segment e))"
  by pat_completeness auto
termination
proof (relation "measure (\<lambda>(segment, start). length segment - start)", goal_cases)
  case (2 segment start i x v y e q)
  then have l: "skip_space segment start < length segment" by simp
  then obtain ch cs where d: "drop (skip_space segment start) segment = ch # cs" "\<not> is_ascii_whitespace ch"
    using skip_space_stop by blast
  have "token_scan None [] (skip_space segment start) (ch # cs) = Some (v, e, q)"
    using 2 by (simp add: d(1) [symmetric] del: token_scan.simps)
  then have "skip_space segment start < e" using d(2) by (rule token_scan_progress)
  with l skip_space_le [of start segment] show ?case by simp
qed simp

declare shell_tokens_with_spans.simps [simp del]
end
