(* ===== verification/Wildcard_Match.thy ===== *)
theory Wildcard_Match
  imports Gateway_Prelude
begin

text \<open>The wildcard matcher of the deny rules (\<open>wildcard_match\<close> of \<open>security/hardline.rs\<close>): a table of
  prefixes of pattern and text filled by two loops, and its equivalence with the meaning of a
  pattern, the ways to cut the text into one piece per pattern character.\<close>

section \<open>The matcher\<close>

definition dp_set :: "bool list list \<Rightarrow> nat \<Rightarrow> nat \<Rightarrow> bool \<Rightarrow> bool list list" where
  "dp_set dp i j v = dp[i := (dp ! i)[j := v]]"

text \<open>The first column: a leading run of stars matches the empty text.  The loop breaks at the first
  other character.\<close>

fun star_column :: "string list \<Rightarrow> nat list \<Rightarrow> bool list list \<Rightarrow> bool list list" where
  "star_column p [] dp = dp"
| "star_column p (i # is) dp =
     (if p ! (i - 1) = ''*'' then star_column p is (dp_set dp i 0 (dp ! (i - 1) ! 0)) else dp)"

definition dp_cell :: "string list \<Rightarrow> string list \<Rightarrow> nat \<Rightarrow> nat \<Rightarrow> bool list list \<Rightarrow> bool list list" where
  "dp_cell p t i j dp =
     (if p ! (i - 1) = ''*'' then dp_set dp i j (dp ! (i - 1) ! j \<or> dp ! i ! (j - 1))
      else if p ! (i - 1) = ''?'' \<or> p ! (i - 1) = t ! (j - 1) then dp_set dp i j (dp ! (i - 1) ! (j - 1))
      else dp)"

definition dp_fill :: "string list \<Rightarrow> string list \<Rightarrow> bool list list \<Rightarrow> bool list list" where
  "dp_fill p t dp = fold (\<lambda>i. fold (dp_cell p t i) [1..<Suc (length t)]) [1..<Suc (length p)] dp"

definition wildcard_match :: "string \<Rightarrow> string \<Rightarrow> bool" where
  "wildcard_match pattern txt =
     (let p = chars (to_ascii_lowercase pattern); t = chars (to_ascii_lowercase txt);
          dp = replicate (length p + 1) (replicate (length t + 1) False);
          dp = dp_set dp 0 0 True;
          dp = star_column p [1..<Suc (length p)] dp;
          dp = dp_fill p t dp
      in dp ! length p ! length t)"

section \<open>The meaning of a pattern\<close>

definition piece :: "string \<Rightarrow> string list \<Rightarrow> bool" where
  "piece c u \<longleftrightarrow> c = ''*'' \<or> (\<exists>x. u = [x] \<and> (c = ''?'' \<or> c = x))"

definition matches :: "string list \<Rightarrow> string list \<Rightarrow> bool" where
  "matches p t \<longleftrightarrow> (\<exists>us. concat us = t \<and> list_all2 piece p us)"

lemma matches_Nil [simp]: "matches [] t \<longleftrightarrow> t = []"
  by (auto simp: matches_def)

lemma matches_snoc: "matches (p @ [c]) t \<longleftrightarrow> (\<exists>u v. t = u @ v \<and> matches p u \<and> piece c v)"
proof
  assume "matches (p @ [c]) t"
  then obtain us v where "concat us @ v = t" "list_all2 piece p us" "piece c v"
    by (auto simp: matches_def list_all2_append1 list_all2_Cons1)
  then show "\<exists>u v. t = u @ v \<and> matches p u \<and> piece c v" unfolding matches_def by blast
next
  assume "\<exists>u v. t = u @ v \<and> matches p u \<and> piece c v"
  then obtain us v where t: "t = concat us @ v" "list_all2 piece p us" "piece c v"
    unfolding matches_def by blast
  then show "matches (p @ [c]) t"
    unfolding matches_def by (intro exI [of _ "us @ [v]"]) (simp add: list_all2_appendI)
qed

lemma matches_star_empty: "matches (p @ [''*'']) [] \<longleftrightarrow> matches p []"
  by (auto simp: matches_snoc piece_def)

lemma matches_star_iff: "matches (p @ [''*'']) t \<longleftrightarrow> (\<exists>u. prefix u t \<and> matches p u)"
  by (auto simp: matches_snoc piece_def prefix_def)

lemma matches_star: "matches (p @ [''*'']) (t @ [x]) \<longleftrightarrow> matches p (t @ [x]) \<or> matches (p @ [''*'']) t"
  unfolding matches_star_iff by auto

lemma matches_other_empty: "c \<noteq> ''*'' \<Longrightarrow> \<not> matches (p @ [c]) []"
  by (auto simp: matches_snoc piece_def)

lemma matches_other:
  "c \<noteq> ''*'' \<Longrightarrow> matches (p @ [c]) (t @ [x]) \<longleftrightarrow> (c = ''?'' \<or> c = x) \<and> matches p t"
  by (auto simp: matches_snoc piece_def)

lemma matches_empty: "matches p [] \<longleftrightarrow> list_all (\<lambda>c. c = ''*'') p"
proof (induction p rule: rev_induct)
  case (snoc c p)
  then show ?case by (cases "c = ''*''") (auto simp: matches_star_empty matches_other_empty)
qed simp

section \<open>The table\<close>

definition table :: "string list \<Rightarrow> string list \<Rightarrow> (nat \<Rightarrow> nat \<Rightarrow> bool) \<Rightarrow> bool list list \<Rightarrow> bool" where
  "table p t filled dp \<longleftrightarrow>
     length dp = Suc (length p) \<and> (\<forall>i \<le> length p. length (dp ! i) = Suc (length t)) \<and>
     (\<forall>i \<le> length p. \<forall>j \<le> length t. dp ! i ! j = (filled i j \<and> matches (take i p) (take j t)))"

lemma dp_set_nth:
  assumes "length dp = Suc m" and "\<forall>i \<le> m. length (dp ! i) = Suc n" and "i \<le> m" and "j \<le> n" and "i' \<le> m" and "j' \<le> n"
  shows "dp_set dp i j v ! i' ! j' = (if i' = i \<and> j' = j then v else dp ! i' ! j')"
    and "length (dp_set dp i j v) = Suc m" and "length (dp_set dp i j v ! i') = Suc n"
  using assms by (auto simp: dp_set_def nth_list_update)

lemma table_set:
  assumes "table p t filled dp" and "i \<le> length p" and "j \<le> length t"
    and "v = matches (take i p) (take j t)"
    and "\<And>i' j'. i' \<le> length p \<Longrightarrow> j' \<le> length t \<Longrightarrow> matches (take i' p) (take j' t) \<Longrightarrow>
      filled' i' j' \<longleftrightarrow> filled i' j' \<or> (i' = i \<and> j' = j)"
  shows "table p t filled' (dp_set dp i j v)"
  using assms unfolding table_def by (auto simp: dp_set_nth [of _ "length p" "length t"])

lemma table_cong:
  assumes "table p t filled dp"
    and "\<And>i j. i \<le> length p \<Longrightarrow> j \<le> length t \<Longrightarrow> matches (take i p) (take j t) \<Longrightarrow> filled' i j \<longleftrightarrow> filled i j"
  shows "table p t filled' dp"
  using assms unfolding table_def by auto

abbreviation first_rows :: "nat \<Rightarrow> nat \<Rightarrow> nat \<Rightarrow> bool" where
  "first_rows k \<equiv> (\<lambda>i j. j = 0 \<and> i < k)"

abbreviation upto_cell :: "nat \<Rightarrow> nat \<Rightarrow> nat \<Rightarrow> nat \<Rightarrow> bool" where
  "upto_cell a b \<equiv> (\<lambda>i j. j = 0 \<or> i < a \<or> i = a \<and> j \<le> b)"

lemma table_init:
  "table p t (first_rows (Suc 0)) (dp_set (replicate (length p + 1) (replicate (length t + 1) False)) 0 0 True)"
  by (auto simp: table_def dp_set_def nth_list_update nth_Cons' simp del: replicate_Suc)

lemma star_column_table:
  "table p t (first_rows (Suc k)) dp \<Longrightarrow> k \<le> length p \<Longrightarrow>
   table p t (first_rows (Suc (length p))) (star_column p [Suc k..<Suc (length p)] dp)"
proof (induction "length p - k" arbitrary: k dp)
  case 0
  then show ?case by simp
next
  case (Suc d)
  then have k: "k < length p" by simp
  then have u: "[Suc k..<Suc (length p)] = Suc k # [Suc (Suc k)..<Suc (length p)]" by (simp add: upt_rec)
  have tk: "take (Suc k) p = take k p @ [p ! k]" using k by (simp add: take_Suc_conv_app_nth)
  show ?case
  proof (cases "p ! k = ''*''")
    case True
    have "dp ! k ! 0 = matches (take (Suc k) p) (take 0 t)"
      using Suc.prems k tk True by (simp add: table_def matches_star_empty)
    then have "table p t (first_rows (Suc (Suc k))) (dp_set dp (Suc k) 0 (dp ! k ! 0))"
      using k by (intro table_set [OF Suc.prems(1)]) auto
    with Suc.hyps True k u show ?thesis by simp
  next
    case False
    have "\<not> matches (take i p) []" if "i > k" "i \<le> length p" for i
    proof
      assume "matches (take i p) []"
      then have "\<forall>c \<in> set (take i p). c = ''*''" by (simp add: matches_empty list_all_iff)
      moreover have "p ! k \<in> set (take i p)" using that k by (auto simp: in_set_conv_nth)
      ultimately show False using False by blast
    qed
    then have "table p t (first_rows (Suc (length p))) dp"
      by (intro table_cong [OF Suc.prems(1)]) (auto, meson not_less_eq)
    with u False show ?thesis by simp
  qed
qed

lemma dp_cell_table:
  assumes T: "table p t (upto_cell (Suc i) j) dp" and i: "i < length p" and j: "j < length t"
  shows "table p t (upto_cell (Suc i) (Suc j)) (dp_cell p t (Suc i) (Suc j) dp)"
proof -
  have tp: "take (Suc i) p = take i p @ [p ! i]" and tt: "take (Suc j) t = take j t @ [t ! j]"
    using i j by (simp_all add: take_Suc_conv_app_nth)
  have cells: "dp ! i ! Suc j = matches (take i p) (take j t @ [t ! j])"
    "dp ! i ! j = matches (take i p) (take j t)" "dp ! Suc i ! j = matches (take i p @ [p ! i]) (take j t)"
    using T i j by (simp_all add: table_def tp [symmetric] tt [symmetric])
  have set: "table p t (upto_cell (Suc i) (Suc j)) (dp_set dp (Suc i) (Suc j) v)"
    if "v = matches (take i p @ [p ! i]) (take j t @ [t ! j])" for v
    using i j that by (intro table_set [OF T]) (auto simp: tp tt)
  have keep: "table p t (upto_cell (Suc i) (Suc j)) dp"
    if "\<not> matches (take i p @ [p ! i]) (take j t @ [t ! j])"
    using that by (intro table_cong [OF T]) (auto simp: le_Suc_eq tp tt)
  show ?thesis
    unfolding dp_cell_def using set keep by (auto simp: cells matches_star matches_other)
qed

lemma fold_upt_Suc: "a \<le> b \<Longrightarrow> fold f [a..<Suc b] x = f b (fold f [a..<b] x)"
  by simp

lemma dp_row_table:
  assumes "table p t (upto_cell (Suc i) 0) dp" and "i < length p" and "k \<le> length t"
  shows "table p t (upto_cell (Suc i) k) (fold (dp_cell p t (Suc i)) [1..<Suc k] dp)"
  using assms(3)
proof (induction k)
  case (Suc k)
  then show ?case using dp_cell_table [OF _ assms(2)] by (subst fold_upt_Suc) auto
qed (use assms in simp)

lemma dp_fill_table:
  assumes "table p t (upto_cell 0 0) dp" and "k \<le> length p"
  shows "table p t (upto_cell k (length t)) (fold (\<lambda>i. fold (dp_cell p t i) [1..<Suc (length t)]) [1..<Suc k] dp)"
  using assms(2)
proof (induction k)
  case 0
  have "table p t (upto_cell 0 (length t)) dp"
    by (rule table_cong [OF assms(1)]) auto
  then show ?case by simp
next
  case (Suc k)
  let ?dp = "fold (\<lambda>i. fold (dp_cell p t i) [1..<Suc (length t)]) [1..<Suc k] dp"
  have k: "k < length p" using Suc.prems by simp
  then have "table p t (upto_cell k (length t)) ?dp" by (intro Suc.IH) simp
  then have "table p t (upto_cell (Suc k) 0) ?dp" by (rule table_cong) auto
  from dp_row_table [OF this k order_refl] show ?case by (subst fold_upt_Suc) simp_all
qed

lemma table_last: "table p t (upto_cell (length p) (length t)) dp \<Longrightarrow> dp ! length p ! length t = matches p t"
  by (simp add: table_def)

text \<open>C21: the deny rules' matcher, which fills a table of prefixes, accepts a text exactly when it can
  be cut into one piece for every character of the pattern, in order: any piece for a star, one
  character for a question mark, the same character (up to ASCII case) for any other.\<close>

theorem wildcard_match_iff:
  "wildcard_match pattern txt \<longleftrightarrow>
     (\<exists>us. concat us = chars (to_ascii_lowercase txt) \<and> list_all2 piece (chars (to_ascii_lowercase pattern)) us)"
proof -
  let ?p = "chars (to_ascii_lowercase pattern)" and ?t = "chars (to_ascii_lowercase txt)"
  let ?dp0 = "dp_set (replicate (length ?p + 1) (replicate (length ?t + 1) False)) 0 0 True"
  have "table ?p ?t (first_rows (Suc (length ?p))) (star_column ?p [Suc 0..<Suc (length ?p)] ?dp0)"
    by (rule star_column_table [OF table_init]) (rule le0)
  then have "table ?p ?t (upto_cell 0 0) (star_column ?p [Suc 0..<Suc (length ?p)] ?dp0)"
    by (rule table_cong) auto
  from table_last [OF dp_fill_table [OF this order_refl]] show ?thesis
    unfolding wildcard_match_def Let_def dp_fill_def matches_def One_nat_def .
qed
end
