(* ===== verification/Shell_Detection.thy ===== *)
theory Shell_Detection
  imports Shell_Words Wildcard_Match
begin

text \<open>Classification of commands: patterns of \<open>grep\<close> and arguments of \<open>echo\<close> that are blanked out,
  payloads of interpreters, the detection variants (\<open>security/normalize.rs\<close>), the unconditional
  block list and the deny rules (\<open>security/hardline.rs\<close>), the dangerous commands
  (\<open>security/dangerous.rs\<close>) and the scan of cron prompts (\<open>security/scan.rs\<close>).  The tables of regular
  expressions of the three modules come as numbered tests of the regex crate.\<close>

section \<open>Blanking inert arguments\<close>

definition grep_opts_with_arg :: "string list" where
  "grep_opts_with_arg = [''--after-context'', ''--before-context'', ''--binary-files'', ''--context'',
     ''--directories'', ''--devices'', ''--exclude'', ''--exclude-dir'', ''--exclude-from'', ''--include'',
     ''--label'', ''--max-count'', ''--regexp'', ''--file'']"

definition grep_short_opts_with_arg :: "string list" where
  "grep_short_opts_with_arg = [''A'', ''B'', ''C'', ''D'', ''d'', ''e'', ''f'', ''m'']"

text \<open>A cluster of short options at index \<open>i\<close> of \<open>n\<close> arguments: whether a pattern was given, the
  indexes of patterns, and whether the next argument belongs to it; \<open>None\<close> when it is missing.\<close>

fun short_options :: "nat \<Rightarrow> nat \<Rightarrow> bool \<Rightarrow> string list \<Rightarrow> (bool \<times> nat list \<times> bool) option" where
  "short_options i n explicit [] = Some (explicit, [], False)"
| "short_options i n explicit (c # cs) =
     (let explicit' = (explicit \<or> c = ''e'' \<or> c = ''f'') in
      if c \<in> set grep_short_opts_with_arg then
        (if cs \<noteq> [] then Some (explicit', if c = ''e'' then [i] else [], False)
         else if i + 1 \<ge> n then None
         else Some (explicit', if c = ''e'' then [i + 1] else [], True))
      else short_options i n explicit' cs)"

function grep_arguments ::
  "string list \<Rightarrow> nat \<Rightarrow> bool \<Rightarrow> bool \<Rightarrow> nat option \<Rightarrow> nat list \<Rightarrow> nat list option" where
  "grep_arguments args i options explicit operand pats =
     (if i \<ge> length args then
        Some (pats @ (if explicit then [] else case operand of Some k \<Rightarrow> [k] | None \<Rightarrow> []))
      else
        let token = args ! i in
        if options \<and> token = ''--'' then grep_arguments args (i + 1) False explicit operand pats
        else if options \<and> starts_with ''--'' token then
          (case (case split_once (CHR ''='') token of Some (a, b) \<Rightarrow> (a, True) | None \<Rightarrow> (token, False)) of (opt, has_value) \<Rightarrow>
             let explicit' = (explicit \<or> opt = ''--regexp'' \<or> opt = ''--file'') in
             if opt \<in> set grep_opts_with_arg \<and> \<not> has_value then
               (if i + 1 \<ge> length args then None
                else grep_arguments args (i + 2) options explicit' operand
                       (pats @ (if opt = ''--regexp'' then [i + 1] else [])))
             else grep_arguments args (i + 1) options explicit' operand
                    (pats @ (if opt = ''--regexp'' \<and> has_value then [i] else [])))
        else if options \<and> starts_with ''-'' token \<and> token \<noteq> ''-'' then
          (case short_options i (length args) explicit (chars (drop 1 token)) of
             None \<Rightarrow> None
           | Some (explicit', ps, takes_next) \<Rightarrow>
               grep_arguments args (if takes_next then i + 2 else i + 1) options explicit' operand (pats @ ps))
        else grep_arguments args (i + 1) options explicit (if operand = None then Some i else operand) pats)"
  by pat_completeness auto
termination by (relation "measure (\<lambda>(args, i, _). length args - i)") auto

declare grep_arguments.simps [simp del]

definition base_name :: "string \<Rightarrow> string" where
  "base_name s = (case file_name s of Some n \<Rightarrow> n | None \<Rightarrow> s)"

text \<open>The spans one command word contributes; \<open>None\<close> when its arguments cannot be read.\<close>

definition token_span :: "nat \<Rightarrow> ShellToken \<Rightarrow> nat \<times> nat" where
  "token_span segment_at tok = (segment_at + st_start tok, segment_at + st_end tok)"

definition word_pattern_spans :: "ShellLib \<Rightarrow> string \<Rightarrow> nat \<Rightarrow> nat \<times> nat \<times> string \<Rightarrow> (nat \<times> nat) list option" where
  "word_pattern_spans L segment segment_at w =
     (case w of (start, _, word) \<Rightarrow>
        let name = base_name (to_ascii_lowercase (deobfuscate_shell_word_for_detection L word));
            is_grep = (name \<in> {''grep'', ''egrep'', ''rg''});
            is_echo_or_printf = (name \<in> {''echo'', ''printf''}) in
        if \<not> is_grep \<and> \<not> is_echo_or_printf then Some []
        else if is_echo_or_printf \<and> (CHR ''|'' \<in> set segment \<or> CHR ''>'' \<in> set segment) then Some []
        else case shell_tokens_with_spans segment start of
          None \<Rightarrow> None
        | Some [] \<Rightarrow> Some []
        | Some (_ # args) \<Rightarrow>
            if is_echo_or_printf
            then Some (map (token_span segment_at) (filter (\<lambda>tok. \<not> starts_with ''-'' (st_value tok)) args))
            else map_option (\<lambda>ps. map (\<lambda>k. token_span segment_at (args ! k)) (filter (\<lambda>k. k < length args) ps))
              (grep_arguments (map st_value args) 0 True False None []))"

fun all_spans :: "('a \<Rightarrow> 'b list option) \<Rightarrow> 'a list \<Rightarrow> 'b list option" where
  "all_spans f [] = Some []"
| "all_spans f (x # xs) =
     (case f x of None \<Rightarrow> None | Some ys \<Rightarrow> map_option (\<lambda>zs. ys @ zs) (all_spans f xs))"

fun segment_pattern_spans :: "ShellLib \<Rightarrow> string \<Rightarrow> nat \<Rightarrow> string list \<Rightarrow> (nat \<times> nat) list option" where
  "segment_pattern_spans L command offset [] = Some []"
| "segment_pattern_spans L command offset (segment # segments) =
     (case find_str segment (drop offset command) of
        None \<Rightarrow> segment_pattern_spans L command (offset + length segment) segments
      | Some idx \<Rightarrow>
          (case all_spans (word_pattern_spans L segment (offset + idx)) (iter_shell_command_word_spans L segment) of
             None \<Rightarrow> None
           | Some spans \<Rightarrow>
               map_option (\<lambda>more. spans @ more)
                 (segment_pattern_spans L command (offset + idx + length segment) segments)))"

definition quoted_grep_pattern_spans :: "ShellLib \<Rightarrow> string \<Rightarrow> (nat \<times> nat) list \<times> bool" where
  "quoted_grep_pattern_spans L command =
     (case segment_pattern_spans L command 0 (iter_top_level_shell_segments command) of
        None \<Rightarrow> ([], True)
      | Some spans \<Rightarrow> (spans, False))"

fun blank_spans :: "string \<Rightarrow> nat \<Rightarrow> (nat \<times> nat) list \<Rightarrow> string" where
  "blank_spans command prev [] = (if prev < length command then drop prev command else [])"
| "blank_spans command prev ((start, stop) # spans) =
     (if start \<ge> prev \<and> start \<le> length command \<and> stop \<le> length command
      then slice command prev start @ replicate (stop - start) (CHR '' '') @ blank_spans command stop spans
      else blank_spans command prev spans)"

definition grep_safe_detection_variant :: "ShellLib \<Rightarrow> string \<Rightarrow> string \<times> bool" where
  "grep_safe_detection_variant L command =
     (case quoted_grep_pattern_spans L command of (spans, malformed) \<Rightarrow>
        if malformed \<or> spans = [] then (command, malformed) else (blank_spans command 0 spans, False))"

section \<open>Payloads of interpreters\<close>

datatype family = Python | Node | Perl | Ruby | Php | Powershell

definition interpreter_family :: "string \<Rightarrow> family option" where
  "interpreter_family executable =
     (let name = base_name (to_ascii_lowercase executable) in
      if starts_with ''python'' name \<or> starts_with ''py'' name then Some Python
      else if starts_with ''node'' name then Some Node
      else if starts_with ''perl'' name then Some Perl
      else if starts_with ''ruby'' name then Some Ruby
      else if starts_with ''php'' name then Some Php
      else if starts_with ''powershell'' name \<or> starts_with ''pwsh'' name then Some Powershell
      else None)"

type_synonym ExecFinding = "string \<times> string option"

definition flag_finding :: "string option \<Rightarrow> ExecFinding" where
  "flag_finding payload = (''script execution via -e/-c flag'', payload)"

definition first_arg :: "string list \<Rightarrow> string option" where
  "first_arg args = (case args of a # _ \<Rightarrow> Some a | [] \<Rightarrow> None)"

fun python_flags :: "string list \<Rightarrow> ExecFinding list" where
  "python_flags [] = []"
| "python_flags (a # args) =
     (if a = ''--'' \<or> \<not> starts_with ''-'' a then []
      else if starts_with ''-c'' a then [flag_finding (if a = ''-c'' then first_arg args else Some (drop 2 a))]
      else python_flags args)"

fun node_flags :: "string list \<Rightarrow> ExecFinding list" where
  "node_flags [] = []"
| "node_flags (a # args) =
     (if a = ''--'' \<or> \<not> starts_with ''-'' a then []
      else case or_else (strip_prefix ''--eval='' a) (strip_prefix ''--print='' a) of
        Some payload \<Rightarrow> [flag_finding (Some payload)]
      | None \<Rightarrow>
          if a \<in> {''-e'', ''--eval'', ''-p'', ''--print''} then [flag_finding (first_arg args)]
          else node_flags args)"

fun perl_flags :: "string list \<Rightarrow> ExecFinding list" where
  "perl_flags [] = []"
| "perl_flags (a # args) =
     (if a = ''-e'' \<or> a = ''--eval'' \<or> starts_with ''-e'' a
      then [flag_finding (if a = ''-e'' \<or> a = ''--eval'' then first_arg args else Some (drop 2 a))]
      else perl_flags args)"

fun php_flags :: "string list \<Rightarrow> ExecFinding list" where
  "php_flags [] = []"
| "php_flags (a # args) = (if a = ''-r'' then [flag_finding (first_arg args)] else php_flags args)"

fun powershell_flags :: "string list \<Rightarrow> ExecFinding list" where
  "powershell_flags [] = []"
| "powershell_flags (a # args) =
     (if to_ascii_lowercase a \<in> {''-command'', ''-c''} then [flag_finding (first_arg args)] else powershell_flags args)"

fun family_flags :: "family \<Rightarrow> string list \<Rightarrow> ExecFinding list" where
  "family_flags Python args = python_flags args"
| "family_flags Node args = node_flags args"
| "family_flags Perl args = perl_flags args"
| "family_flags Ruby args = perl_flags args"
| "family_flags Php args = php_flags args"
| "family_flags Powershell args = powershell_flags args"

definition ripgrep_findings :: "string list \<Rightarrow> ExecFinding list" where
  "ripgrep_findings args =
     (if list_ex (\<lambda>a. a = ''--pre'' \<or> starts_with ''--pre='' a) (takeWhile (\<lambda>a. a \<noteq> ''--'') args)
      then [(''ripgrep preprocessor execution'', None)] else [])"

fun shell_flags :: "string list \<Rightarrow> ExecFinding list" where
  "shell_flags [] = []"
| "shell_flags (a # args) =
     (if a = ''--'' \<or> \<not> starts_with ''-'' a then []
      else if \<not> starts_with ''--'' a \<and> CHR ''c'' \<in> set a
      then [(''shell command via -c/-lc flag'', first_arg args)]
      else shell_flags args)"

definition word_findings :: "ShellLib \<Rightarrow> string \<Rightarrow> nat \<times> nat \<times> string \<Rightarrow> ExecFinding list" where
  "word_findings L segment w =
     (case w of (start, _, word) \<Rightarrow>
        let name = base_name (to_ascii_lowercase (deobfuscate_shell_word_for_detection L word));
            family = interpreter_family name in
        case shell_tokens_with_spans segment start of
          None \<Rightarrow>
            if family \<noteq> None \<or> name \<in> {''sort'', ''rg'', ''ag'', ''man''}
            then [(''command parser limit or malformed executable payload'', None)] else []
        | Some [] \<Rightarrow> []
        | Some (_ # toks) \<Rightarrow>
            let args = map st_value toks;
                shell = (if name \<in> {''bash'', ''sh'', ''zsh'', ''ksh''} then shell_flags args else []);
                others = (if name = ''rg'' then ripgrep_findings args else []) @ shell in
            case family of
              None \<Rightarrow> others
            | Some fam \<Rightarrow>
                if list_ex (\<lambda>a. starts_with ''<<'' a) args then [(''script execution via heredoc'', None)]
                else family_flags fam args @ others)"

definition execution_flag_findings :: "ShellLib \<Rightarrow> string \<Rightarrow> ExecFinding list" where
  "execution_flag_findings L command =
     concat (map (\<lambda>segment. concat (map (word_findings L segment) (iter_shell_command_word_spans L segment)))
       (iter_top_level_shell_segments command))"

section \<open>Detection variants\<close>

abbreviation max_detection_variants :: nat where "max_detection_variants \<equiv> 512"
abbreviation max_detection_variant_bytes :: nat where "max_detection_variant_bytes \<equiv> 4 * 1024 * 1024"

record Variants =
  va_variants :: "string list"
  va_seen :: "string set"
  va_retained :: nat

text \<open>\<open>push_variant!\<close>; \<open>Inl\<close> is the early return.\<close>

definition push_variant :: "string \<Rightarrow> Variants \<Rightarrow> Variants + Variants" where
  "push_variant v st =
     (if length (va_variants st) \<ge> max_detection_variants \<or> va_retained st + length v > max_detection_variant_bytes
      then Inl st
      else Inr (st\<lparr>va_variants := va_variants st @ [v], va_retained := va_retained st + length v\<rparr>))"

definition see :: "string \<Rightarrow> Variants \<Rightarrow> Variants" where
  "see v st = st\<lparr>va_seen := insert v (va_seen st)\<rparr>"

definition push_new :: "string \<Rightarrow> Variants \<Rightarrow> Variants + Variants" where
  "push_new v st = (if v \<in> va_seen st then Inr st else push_variant v (see v st))"

text \<open>\<open>pending\<close> is a stack, its top first.\<close>

fun push_payloads :: "ExecFinding list \<Rightarrow> string list \<Rightarrow> Variants \<Rightarrow> Variants + (Variants \<times> string list)" where
  "push_payloads [] pending st = Inr (st, pending)"
| "push_payloads ((_, payload) # findings) pending st =
     (case payload of
        None \<Rightarrow> push_payloads findings pending st
      | Some p \<Rightarrow>
          if p \<in> va_seen st then push_payloads findings pending st
          else and_then (push_variant p (see p st)) (\<lambda>st.
               and_then (if mark_command_starts p \<noteq> p then push_new (mark_command_starts p) st else Inr st) (\<lambda>st.
                 push_payloads findings (p # pending) st)))"

lemma push_variant_length:
  "push_variant v st = Inr st' \<Longrightarrow> length (va_variants st') = Suc (length (va_variants st)) \<and> length (va_variants st') \<le> max_detection_variants"
  by (auto simp: push_variant_def split: if_splits)

lemma push_new_length: "push_new v st = Inr st' \<Longrightarrow>
    length (va_variants st) \<le> length (va_variants st') \<and>
    (length (va_variants st') = length (va_variants st) \<or> length (va_variants st') \<le> max_detection_variants)"
  by (auto simp: push_new_def see_def dest: push_variant_length split: if_splits)

lemma push_payloads_length:
  "push_payloads fs pending st = Inr (st', pending') \<Longrightarrow>
     (length (va_variants st') = length (va_variants st) \<and> pending' = pending) \<or>
     (length (va_variants st) < length (va_variants st') \<and> length (va_variants st') \<le> max_detection_variants)"
proof (induction fs pending st rule: push_payloads.induct)
  case (2 d payload fs pending st)
  show ?case
  proof (cases "\<exists>p. payload = Some p \<and> p \<notin> va_seen st")
    case True
    then obtain p where p: "payload = Some p" "p \<notin> va_seen st" by blast
    with 2(4) obtain s1 s2 where s1: "push_variant p (see p st) = Inr s1"
      and s2: "(if mark_command_starts p \<noteq> p then push_new (mark_command_starts p) s1 else Inr s1) = Inr s2"
      and s3: "push_payloads fs (p # pending) s2 = Inr (st', pending')"
      by (auto simp: and_then_Inr_iff simp del: if_split)
    have "length (va_variants s1) = Suc (length (va_variants st))" "length (va_variants s1) \<le> max_detection_variants"
      using push_variant_length [OF s1] by (simp_all add: see_def)
    moreover have "length (va_variants s1) \<le> length (va_variants s2)"
      "length (va_variants s2) = length (va_variants s1) \<or> length (va_variants s2) \<le> max_detection_variants"
      using s2 push_new_length by (auto split: if_splits)
    ultimately show ?thesis using 2(3) [OF p s3] by auto
  next
    case False
    with 2 show ?thesis by (cases payload) auto
  qed
qed simp

function drain_pending :: "ShellLib \<Rightarrow> string list \<Rightarrow> Variants \<Rightarrow> Variants + Variants" where
  "drain_pending L pending st =
     (case pending of
        [] \<Rightarrow> Inr st
      | variant # rest \<Rightarrow>
          (case push_payloads (execution_flag_findings L variant) rest st of
             Inl st' \<Rightarrow> Inl st'
           | Inr (st', pending') \<Rightarrow> drain_pending L pending' st'))"
  by pat_completeness auto
termination
proof (relation "measures [\<lambda>(_, _, st). max_detection_variants - length (va_variants st), \<lambda>(_, pending, _). length pending]", goal_cases)
  case (2 L pending st variant rest x st' pending')
  then show ?case using push_payloads_length [of "execution_flag_findings L variant" rest st st' pending'] by auto
qed simp

declare drain_pending.simps [simp del]

fun push_words :: "ShellLib \<Rightarrow> string \<Rightarrow> (nat \<times> nat \<times> string) list \<Rightarrow> Variants \<Rightarrow> Variants + Variants" where
  "push_words L normalized [] st = Inr st"
| "push_words L normalized ((a, b, word) # words) st =
     (let deobf = deobfuscate_shell_word_for_detection L word in
      and_then
        (if deobf \<noteq> [] \<and> deobf \<noteq> word then push_new (take a normalized @ deobf @ drop b normalized) st else Inr st)
        (push_words L normalized words))"

definition collect_variants :: "ShellLib \<Rightarrow> string \<Rightarrow> Variants + Variants" where
  "collect_variants L command =
     (let normalized = normalize_command_for_detection L command;
          grep_safe = fst (grep_safe_detection_variant L normalized);
          marked = mark_command_starts grep_safe in
      and_then (push_variant grep_safe \<lparr>va_variants = [], va_seen = {grep_safe}, va_retained = 0\<rparr>) (\<lambda>st.
      and_then (drain_pending L [normalized] st) (\<lambda>st.
      and_then (if marked \<noteq> grep_safe then push_new marked st else Inr st) (\<lambda>st.
        push_words L normalized (iter_shell_command_word_spans L normalized) st))))"

definition command_detection_variants :: "ShellLib \<Rightarrow> string \<Rightarrow> string list" where
  "command_detection_variants L command =
     (case collect_variants L command of Inl st \<Rightarrow> va_variants st | Inr st \<Rightarrow> va_variants st)"

end
