(* ===== verification/Command_Policy.thy ===== *)
theory Command_Policy
  imports Shell_Detection
begin

text \<open>Decisions about a command: the unconditional block list and the deny rules
  (\<open>security/hardline.rs\<close>), the dangerous commands and their pattern keys (\<open>security/dangerous.rs\<close>),
  the scan of cron prompts (\<open>security/scan.rs\<close>) and the neutralisation of untrusted text
  (\<open>security/neutralize.rs\<close>).  A rule table is the list of its descriptions; whether rule number \<open>k\<close>
  matches a text is a test of the regex crate.\<close>

section \<open>The block list and the deny rules\<close>

record PolicyLib =
  pl_shell :: ShellLib
  re_hardline :: "nat \<Rightarrow> string \<Rightarrow> bool"
  re_sudo_stdin :: "string \<Rightarrow> bool"
  sudo_password_set :: bool
  re_pattern :: "nat \<Rightarrow> string \<Rightarrow> bool"
  re_sql_delete_from :: "string \<Rightarrow> bool"
  re_sql_where :: "string \<Rightarrow> bool"
  re_injection :: "nat \<Rightarrow> string \<Rightarrow> bool"
  re_terminal_escape :: "string \<Rightarrow> string"
  re_sentinel :: "string \<Rightarrow> string"
  temp_dir :: string

definition hardline_patterns :: "string list" where
  "hardline_patterns = [''recursive delete of root filesystem'', ''recursive delete of system directory'',
     ''recursive delete of home directory'', ''format filesystem (mkfs)'', ''dd to raw block device'',
     ''redirect to raw block device'', ''fork bomb'', ''kill all processes'', ''kill all processes'',
     ''system shutdown/reboot'', ''init 0/6 (shutdown/reboot)'', ''systemctl poweroff/reboot'',
     ''telinit 0/6 (shutdown/reboot)'']"

text \<open>The first rule of a table that matches.\<close>

definition first_rule :: "(nat \<Rightarrow> string \<Rightarrow> bool) \<Rightarrow> string list \<Rightarrow> string \<Rightarrow> string option" where
  "first_rule m descriptions txt =
     map_option snd (find (\<lambda>(k, _). m k txt) (zip [0..<length descriptions] descriptions))"

fun first_some :: "('a \<Rightarrow> 'b option) \<Rightarrow> 'a list \<Rightarrow> 'b option" where
  "first_some f [] = None"
| "first_some f (x # xs) = or_else (f x) (first_some f xs)"

definition check_sudo_stdin_guard :: "PolicyLib \<Rightarrow> string \<Rightarrow> string option" where
  "check_sudo_stdin_guard P command =
     (if sudo_password_set P then None
      else if re_sudo_stdin P (normalize_command_for_detection (pl_shell P) command)
      then Some ''sudo password guessing via stdin (sudo -S)''
      else None)"

definition detect_hardline_command :: "PolicyLib \<Rightarrow> string \<Rightarrow> string option" where
  "detect_hardline_command P command =
     (if command_parser_limit_exceeded command then Some ''command parser limit exceeded''
      else if snd (grep_safe_detection_variant (pl_shell P) (normalize_command_for_detection (pl_shell P) command))
      then Some ''command parser limit or malformed executable payload''
      else or_else
        (first_some (\<lambda>variant. first_rule (re_hardline P) hardline_patterns (to_ascii_lowercase variant))
          (command_detection_variants (pl_shell P) command))
        (check_sudo_stdin_guard P command))"

fun stripped_forms :: "string \<Rightarrow> (nat \<times> nat \<times> string) list \<Rightarrow> string list \<Rightarrow> string list" where
  "stripped_forms command [] forms = forms"
| "stripped_forms command ((start, _, _) # words) forms =
     (let candidate = trim (drop start command) in
      if start = 0 \<or> candidate = [] \<or> candidate \<in> set forms then stripped_forms command words forms
      else stripped_forms command words (forms @ [candidate]))"

definition wrapper_stripped_forms :: "ShellLib \<Rightarrow> string \<Rightarrow> string list" where
  "wrapper_stripped_forms L command = stripped_forms command (iter_shell_command_word_spans L command) []"

definition first_glob :: "string list \<Rightarrow> string \<Rightarrow> string option" where
  "first_glob globs candidate = find (\<lambda>pattern. wildcard_match pattern candidate) globs"

definition match_user_deny_rule :: "ShellLib \<Rightarrow> string \<Rightarrow> string list \<Rightarrow> string option" where
  "match_user_deny_rule L command deny_patterns =
     (let globs = filter (\<lambda>p. p \<noteq> []) (map trim deny_patterns) in
      if deny_patterns = [] \<or> globs = [] then None
      else first_some (\<lambda>variant.
          or_else (first_glob globs (trim variant))
            (first_some (\<lambda>stripped. first_glob globs (trim stripped)) (wrapper_stripped_forms L (trim variant))))
        (command_detection_variants L command))"

section \<open>Dangerous commands\<close>

record DangerousFinding =
  df_pattern_key :: string
  df_description :: string

definition dangerous_patterns :: "string list" where
  "dangerous_patterns = [
    ''delete in root path'', ''recursive delete'', ''recursive delete (long flag)'',
    ''Windows cmd destructive delete'', ''Windows PowerShell destructive delete'',
    ''PowerShell encoded command execution'', ''world/other-writable permissions'',
    ''recursive world/other-writable (long flag)'', ''recursive chown to root'',
    ''recursive chown to root (long flag)'', ''format filesystem'', ''dd to raw block device'',
    ''disk copy'', ''write to block device'', ''SQL DROP'', ''SQL TRUNCATE'',
    ''stop/restart system service'', ''kill all processes'', ''force kill processes'',
    ''force kill processes (killall -KILL)'', ''force kill processes (killall -s KILL)'',
    ''kill processes by regex (killall -r)'', ''fork bomb'', ''pipe remote content to shell'',
    ''execute remote script via process substitution'',
    ''execute remote content via command substitution'',
    ''pipe decoded content to shell (possible command obfuscation)'',
    ''pipe xxd-decoded content to shell (possible command obfuscation)'',
    ''pipe tr-transformed output to shell (possible command obfuscation)'',
    ''pipe openssl-decoded content to shell (possible command obfuscation)'', ''xargs with rm'',
    ''find -exec/-execdir rm'', ''find -delete'', ''stop/restart hermes gateway (kills running agents)'',
    ''hermes update (restarts gateway, kills running agents)'',
    ''docker compose restart/stop/kill/down (container lifecycle)'',
    ''docker restart/stop/kill (container lifecycle)'',
    ''start gateway outside systemd (use 'systemctl --user restart hermes-gateway')'',
    ''start gateway outside systemd (use 'systemctl --user restart hermes-gateway')'',
    ''kill hermes/gateway process (self-termination)'',
    ''kill process via pgrep/pidof expansion (self-termination)'',
    ''kill process via backtick pgrep/pidof expansion (self-termination)'',
    ''stop/restart hermes launchd service (kills running agents)'', ''overwrite system config'',
    ''overwrite system file via tee'', ''overwrite system file via redirection'',
    ''overwrite project env/config via tee'', ''overwrite project env/config via redirection'',
    ''copy/move file into system config path'', ''overwrite project env/config file'',
    ''copy/move file into sensitive credential/SSH/shell-rc path'',
    ''in-place edit of sensitive credential/SSH/shell-rc path'',
    ''in-place edit of sensitive credential/SSH/shell-rc path (long flag)'',
    ''in-place edit of sensitive credential/SSH/shell-rc path (perl/ruby)'',
    ''in-place edit of system config'', ''in-place edit of system config (long flag)'',
    ''in-place edit of Hermes config/env'', ''in-place edit of Hermes config/env (long flag)'',
    ''in-place edit of Hermes config/env (perl/ruby)'', ''shell execution via heredoc'',
    ''git reset --hard (destroys uncommitted changes)'', ''git force push (rewrites remote history)'',
    ''git force push short flag (rewrites remote history)'',
    ''git clean with force (deletes untracked files)'', ''git branch force delete'',
    ''git branch force delete (long flags)'', ''git branch force delete (long flags, force-first)'',
    ''chmod +x followed by immediate execution'', ''sudo with privilege flag (stdin/askpass/shell/list)'',
    ''sudo with combined-flag privilege escalation'']"

definition dangerous :: "string \<Rightarrow> DangerousFinding" where
  "dangerous d = \<lparr>df_pattern_key = d, df_description = d\<rparr>"

definition check_sql_delete_without_where :: "PolicyLib \<Rightarrow> string \<Rightarrow> bool" where
  "check_sql_delete_without_where P command =
     list_ex (\<lambda>line. re_sql_delete_from P line \<and> \<not> re_sql_where P line) (lines command)"

text \<open>\<open>Path::components\<close> and \<open>Path::starts_with\<close> on Unix paths.\<close>

definition path_components :: "string \<Rightarrow> string list" where
  "path_components s =
     (let parts = split_on (CHR ''/'') s in
      (if starts_with ''/'' s then [''/''] else if hd parts = ''.'' then [''.''] else []) @
      filter (\<lambda>c. c \<noteq> [] \<and> c \<noteq> ''.'') parts)"

definition path_starts_with :: "string \<Rightarrow> string \<Rightarrow> bool" where
  "path_starts_with base path \<longleftrightarrow> prefix (path_components base) (path_components path)"

definition is_verification_artifact_cleanup :: "PolicyLib \<Rightarrow> string \<Rightarrow> bool" where
  "is_verification_artifact_cleanup P command =
     (case split_whitespace command of
        [cmd, flag, target] \<Rightarrow>
          cmd = ''rm'' \<and> flag = ''-f'' \<and>
          (case file_name target of
             None \<Rightarrow> False
           | Some name \<Rightarrow>
               (path_starts_with (temp_dir P) target \<or> starts_with ''/tmp/'' target \<or> starts_with ''/var/folders/'' target) \<and>
               (starts_with ''hermes-verify-'' name \<or> starts_with ''hermes-ad-hoc-'' name))
      | _ \<Rightarrow> False)"

definition detect_dangerous_command :: "PolicyLib \<Rightarrow> string \<Rightarrow> DangerousFinding option" where
  "detect_dangerous_command P command =
     (if command_parser_limit_exceeded command then Some (dangerous ''command parser limit exceeded'')
      else if is_verification_artifact_cleanup P command then None
      else or_else
        (first_some (\<lambda>variant.
            if check_sql_delete_without_where P variant then Some (dangerous ''SQL DELETE without WHERE'')
            else map_option dangerous (first_rule (re_pattern P) dangerous_patterns variant))
          (command_detection_variants (pl_shell P) command))
        (case execution_flag_findings (pl_shell P) (normalize_command_for_detection (pl_shell P) command) of
           (desc, _) # _ \<Rightarrow> Some (dangerous desc)
         | [] \<Rightarrow> None))"

definition is_dangerous :: "PolicyLib \<Rightarrow> string \<Rightarrow> bool" where
  "is_dangerous P command = (detect_dangerous_command P command \<noteq> None)"

definition derive_pattern_key :: "PolicyLib \<Rightarrow> string \<Rightarrow> string" where
  "derive_pattern_key P command =
     (case detect_dangerous_command P command of
        Some finding \<Rightarrow> df_pattern_key finding
      | None \<Rightarrow>
          (case take 3 (split_whitespace (normalize_command_for_detection (pl_shell P) command)) of
             [] \<Rightarrow> ''command''
           | parts \<Rightarrow> join '' '' parts))"

section \<open>Cron prompts\<close>

definition invisible_codepoints :: "nat list" where
  "invisible_codepoints = [0x200B, 0x200C, 0x200E, 0x200F, 0x202A, 0x202B, 0x202C, 0x202D,
     0x202E, 0x2060, 0x2061, 0x2062, 0x2063, 0x2064, 0x2066, 0x2067, 0x2068, 0x2069, 0xFEFF, 0x00AD]"

definition is_emoji_cp :: "nat \<Rightarrow> bool" where
  "is_emoji_cp u \<longleftrightarrow> (0x1F000 \<le> u \<and> u \<le> 0x1FFFF) \<or> (0x2600 \<le> u \<and> u \<le> 0x27BF) \<or> (0x2300 \<le> u \<and> u \<le> 0x23FF)
     \<or> (0x1F1E6 \<le> u \<and> u \<le> 0x1F1FF) \<or> u = 0x20E3"

definition emoji_beside :: "nat list \<Rightarrow> bool" where
  "emoji_beside us = (case dropWhile (\<lambda>u. u = 0xFE0F) us of u # _ \<Rightarrow> is_emoji_cp u | [] \<Rightarrow> False)"

text \<open>\<open>left\<close> holds the characters before the current one, the nearest first.\<close>

fun invisible_from :: "nat list \<Rightarrow> nat list \<Rightarrow> bool" where
  "invisible_from left [] = False"
| "invisible_from left (u # us) =
     ((0xE0000 \<le> u \<and> u \<le> 0xE007F) \<or> u \<in> set invisible_codepoints \<or>
      (u = 0x200D \<and> \<not> (emoji_beside left \<and> emoji_beside us)) \<or> invisible_from (u # left) us)"

definition contains_invisible_chars :: "string \<Rightarrow> bool" where
  "contains_invisible_chars txt = invisible_from [] (map scalar (chars txt))"

definition prompt_injection_patterns :: "string list" where
  "prompt_injection_patterns = [''prompt_injection: ignore previous instructions'', ''deception: do not tell the user'',
     ''override: system prompt override'', ''disregard_rules: disregard instructions'',
     ''read_secrets: reading sensitive secret file'', ''ssh_backdoor: referencing authorized_keys'',
     ''sudoers_mod: referencing sudoers'', ''exfil_curl_url: leaking secret in url'',
     ''exfil_wget_url: leaking secret in url'', ''exfil_curl_data: leaking secret in POST payload'',
     ''exfil_wget_post: leaking secret in POST payload'',
     ''exfil_curl_auth_header: leaking secret in authorization header'']"

definition scan_assembled_cron_prompt :: "PolicyLib \<Rightarrow> string \<Rightarrow> string list" where
  "scan_assembled_cron_prompt P txt =
     (if trim txt = [] then []
      else (if contains_invisible_chars txt
            then [''invisible_unicode: hidden or zero-width unicode characters detected''] else []) @
        map snd (filter (\<lambda>(k, _). re_injection P k txt)
          (zip [0..<length prompt_injection_patterns] prompt_injection_patterns)))"

definition scan_cron_prompt :: "PolicyLib \<Rightarrow> string \<Rightarrow> string list" where
  "scan_cron_prompt P txt =
     (if trim txt = [] then []
      else scan_assembled_cron_prompt P txt @
        (case detect_hardline_command P txt of
           Some hardline \<Rightarrow> [''hardline_command: '' @ hardline]
         | None \<Rightarrow>
             (case detect_dangerous_command P txt of
                Some finding \<Rightarrow> [''dangerous_command: '' @ df_pattern_key finding]
              | None \<Rightarrow> [])))"

section \<open>Untrusted text\<close>

definition is_invisible_or_control :: "nat \<Rightarrow> bool" where
  "is_invisible_or_control u \<longleftrightarrow> u \<in> {0x200B, 0x200C, 0x200D, 0x200E, 0x200F, 0xFEFF, 0x00AD} \<or>
     (0x202A \<le> u \<and> u \<le> 0x202E) \<or> (0x2060 \<le> u \<and> u \<le> 0x206F)"

definition clean_char :: "string \<Rightarrow> string" where
  "clean_char ch =
     (let u = scalar ch in
      if is_invisible_or_control u then []
      else if u < 0x20 \<or> u = 0x7F \<or> (0x80 \<le> u \<and> u \<le> 0x9F) then '' ''
      else ch)"

definition neutralize_untrusted_inline_text :: "PolicyLib \<Rightarrow> string \<Rightarrow> nat \<Rightarrow> string" where
  "neutralize_untrusted_inline_text P s max_len =
     (let without_sentinels = re_sentinel P (re_terminal_escape P s);
          sanitized_tokens = str_replace [backtick] [squote] without_sentinels;
          cleaned = concat (map clean_char (chars sanitized_tokens));
          collapsed = join '' '' (split_whitespace cleaned) in
      if max_len > 0 \<and> length (chars collapsed) > max_len then
        (if max_len \<le> 3 then concat (take max_len (chars collapsed))
         else concat (take (max_len - 3) (chars collapsed)) @ ''...'')
      else collapsed)"

end
