(* ===== verification/Shell_Properties.thy ===== *)
theory Shell_Properties
  imports Command_Policy
begin

text \<open>Properties of the shell scanners and of the detection variants: quoting is removed however a
  word is spelled, tokens and segments of a quoted argument list are the arguments, positions are
  character boundaries, blanking keeps everything else in place, and the variants stay within their
  budget and cover the payloads of interpreters.\<close>

section \<open>Spellings of a word\<close>

definition bytes_as_chars :: "string \<Rightarrow> string" where
  "bytes_as_chars s = concat (map byte_as_char s)"

lemma bytes_as_chars_simps [simp]:
  "bytes_as_chars [] = []"
  "bytes_as_chars (c # s) = byte_as_char c @ bytes_as_chars s"
  "bytes_as_chars (s @ t) = bytes_as_chars s @ bytes_as_chars t"
  by (simp_all add: bytes_as_chars_def)

lemma bytes_as_chars_ascii: "list_all (\<lambda>b. byte_val b < 128) s \<Longrightarrow> bytes_as_chars s = s"
  by (induction s) (auto simp: byte_as_char_def)

text \<open>The ways a shell lets a part of a word be written.\<close>

datatype spelling =
    Bare char
  | Escaped char
  | InSingle string
  | InDouble "(bool \<times> char) list"

fun spell :: "spelling \<Rightarrow> string" where
  "spell (Bare c) = [c]"
| "spell (Escaped c) = [backslash, c]"
| "spell (InSingle s) = [squote] @ s @ [squote]"
| "spell (InDouble cs) = [dquote] @ concat (map (\<lambda>(e, c). if e then [backslash, c] else [c]) cs) @ [dquote]"

fun spelled :: "spelling \<Rightarrow> string" where
  "spelled (Bare c) = [c]"
| "spelled (Escaped c) = [c]"
| "spelled (InSingle s) = s"
| "spelled (InDouble cs) = map snd cs"

fun proper :: "spelling \<Rightarrow> bool" where
  "proper (Bare c) \<longleftrightarrow> c \<notin> {squote, dquote, backslash}"
| "proper (Escaped c) \<longleftrightarrow> True"
| "proper (InSingle s) \<longleftrightarrow> squote \<notin> set s"
| "proper (InDouble cs) \<longleftrightarrow> list_all (\<lambda>(e, c). e \<or> c \<notin> {dquote, backslash}) cs"

lemma strip_in_single:
  "squote \<notin> set s \<Longrightarrow> strip_loop (Some squote) (s @ squote # rest) = bytes_as_chars s @ strip_loop None rest"
  by (induction s) auto

lemma strip_in_double:
  "list_all (\<lambda>(e, c). e \<or> c \<notin> {dquote, backslash}) cs \<Longrightarrow>
   strip_loop (Some dquote) (concat (map (\<lambda>(e, c). if e then [backslash, c] else [c]) cs) @ dquote # rest) =
   bytes_as_chars (map snd cs) @ strip_loop None rest"
  by (induction cs) auto

lemma strip_spelling:
  "proper sp \<Longrightarrow> strip_loop None (spell sp @ rest) = bytes_as_chars (spelled sp) @ strip_loop None rest"
  using strip_in_single strip_in_double by (cases sp) auto

lemma strip_spellings:
  "list_all proper ps \<Longrightarrow>
   strip_loop None (concat (map spell ps)) = bytes_as_chars (concat (map spelled ps))"
  by (induction ps) (auto simp: strip_spelling)

text \<open>However a word is written, bare, behind backslashes, in single or in double quotes, or in
  any mixture of these, the syntax stripper gives back the letters it stands for.\<close>

theorem quoting_is_stripped:
  assumes "list_all proper ps" and "list_all (\<lambda>b. byte_val b < 128) (concat (map spelled ps))"
  shows "strip_shell_word_syntax (concat (map spell ps)) = concat (map spelled ps)"
  using strip_spellings [OF assms(1)] bytes_as_chars_ascii [OF assms(2)]
  by (simp add: strip_shell_word_syntax_def)

theorem quoting_is_stripped_witness:
  "strip_shell_word_syntax (concat (map spell [Bare CHR ''r'', InSingle [], Escaped CHR ''m'', InDouble [(False, CHR '' ''), (True, dquote)]])) =
     ''rm '' @ [dquote]"
proof -
  let ?ps = "[Bare CHR ''r'', InSingle [], Escaped CHR ''m'', InDouble [(False, CHR '' ''), (True, dquote)]]"
  have "list_all proper ?ps" and "list_all (\<lambda>b. byte_val b < 128) (concat (map spelled ?ps))"
    by (simp_all add: byte_val_def)
  from quoting_is_stripped [OF this] show ?thesis by simp
qed

section \<open>Quoted words as tokens\<close>

lemma str_replace_char: "str_replace [c] r s = concat (map (\<lambda>b. if b = c then r else [b]) s)"
proof (induction s)
  case Nil
  show ?case by (simp add: str_replace.simps)
next
  case (Cons b s)
  then show ?case by (subst str_replace.simps) auto
qed

abbreviation requoted :: "string \<Rightarrow> string" where
  "requoted w \<equiv> str_replace [squote] [squote, dquote, squote, dquote, squote] w"

lemma not_space_quotes [simp]:
  "\<not> is_ascii_whitespace squote" "\<not> is_ascii_whitespace dquote" "\<not> is_ascii_whitespace backslash"
  by (simp_all add: is_ascii_whitespace_def)

lemma squote_as_char [simp]: "byte_as_char squote = [squote]"
  by (simp add: byte_as_char_def byte_val_def)

lemma token_scan_requoted:
  "token_scan (Some squote) val i (requoted w @ squote # rest) =
   token_scan None (val @ bytes_as_chars w) (i + length (requoted w) + 1) rest"
proof (induction w arbitrary: val i)
  case Nil
  show ?case by (simp add: str_replace_char)
next
  case (Cons b w)
  then show ?case by (cases "b = squote") (simp_all add: str_replace_char algebra_simps)
qed

section \<open>Texts of whole characters\<close>

text \<open>What the scanners need of a valid UTF-8 text: a character is one byte, or a leading byte that is
  not ASCII and continuation bytes.\<close>

definition utf8_char :: "string \<Rightarrow> bool" where
  "utf8_char ch \<longleftrightarrow> (case ch of [] \<Rightarrow> False | b # bs \<Rightarrow> \<not> is_cont b \<and> list_all is_cont bs \<and> (bs \<noteq> [] \<longrightarrow> byte_val b \<ge> 128))"

definition utf8_text :: "string \<Rightarrow> bool" where
  "utf8_text s \<longleftrightarrow> list_all utf8_char (chars s)"

lemma utf8_char_chars: "utf8_char ch \<Longrightarrow> chars ch = [ch]"
  by (auto simp: utf8_char_def list_all_iff takeWhile_eq_all_conv dropWhile_eq_Nil_conv split: list.splits)

lemma utf8_char_starts: "utf8_char ch \<Longrightarrow> \<exists>b bs. ch = b # bs \<and> \<not> is_cont b"
  by (auto simp: utf8_char_def split: list.splits)

lemma chars_concat: "list_all utf8_char chs \<Longrightarrow> chars (concat chs) = chs"
proof (induction chs)
  case (Cons ch chs)
  have "concat chs = [] \<or> \<not> is_cont (hd (concat chs))"
    using Cons.prems by (cases chs) (auto dest: utf8_char_starts)
  with Cons show ?case by (simp add: chars_append utf8_char_chars)
qed simp

lemma utf8_single [simp]: "utf8_char [b] \<longleftrightarrow> \<not> is_cont b"
  by (simp add: utf8_char_def)

lemma not_cont_ascii: "byte_val b < 128 \<Longrightarrow> \<not> is_cont b"
  by (cases b) (auto simp: is_cont_def byte_val_def of_char_def)

lemma squote_in_char: "utf8_char ch \<Longrightarrow> b \<in> set ch \<Longrightarrow> byte_val b < 128 \<Longrightarrow> ch = [b]"
  using not_cont_ascii by (auto simp: utf8_char_def list_all_iff split: list.splits)

lemma ascii_chars: "list_all (\<lambda>b. byte_val b < 128) s \<Longrightarrow> chars s = map (\<lambda>b. [b]) s"
  using not_cont_ascii by (intro chars_no_cont) (auto simp: list_all_iff)

lemma normalize_ascii: "list_all (\<lambda>b. byte_val b < 128) s \<Longrightarrow> normalize_unicode_nfkc s = s"
proof -
  assume a: "list_all (\<lambda>b. byte_val b < 128) s"
  then have "concat (map nfkc_char (map (\<lambda>b. [b]) s)) = s" by (induction s) (auto simp: nfkc_char_def)
  with a show ?thesis by (simp add: normalize_unicode_nfkc_def ascii_chars)
qed

section \<open>Segments\<close>

text \<open>The state of the segment scanner after some characters, unless they hold a separator.\<close>

definition seg_step :: "string option \<Rightarrow> bool \<Rightarrow> string \<Rightarrow> (string option \<times> bool) option" where
  "seg_step quote escaped ch =
     (if escaped then Some (quote, False)
      else if ch = [backslash] \<and> quote \<noteq> Some [squote] then Some (quote, True)
      else case quote of
        Some q \<Rightarrow> Some (if ch = q then None else Some q, False)
      | None \<Rightarrow>
          if ch = [squote] \<or> ch = [dquote] then Some (Some ch, False)
          else if is_separator ch then None
          else Some (None, False))"

fun seg_run :: "string option \<Rightarrow> bool \<Rightarrow> string list \<Rightarrow> (string option \<times> bool) option" where
  "seg_run quote escaped [] = Some (quote, escaped)"
| "seg_run quote escaped (ch # chs) =
     (case seg_step quote escaped ch of None \<Rightarrow> None | Some (q, e) \<Rightarrow> seg_run q e chs)"

lemma segments_loop_step:
  "seg_step quote escaped ch = Some (q, e) \<Longrightarrow>
   segments_loop cur quote escaped (ch # chs) = segments_loop (cur @ [ch]) q e chs"
  by (cases escaped; cases quote) (auto simp: seg_step_def split: if_split_asm split del: if_split)

lemma segments_loop_run:
  "seg_run quote escaped xs = Some (q, e) \<Longrightarrow>
   segments_loop cur quote escaped (xs @ ys) = segments_loop (cur @ xs) q e ys"
proof (induction xs arbitrary: cur quote escaped)
  case (Cons ch chs)
  then obtain q1 e1 where "seg_step quote escaped ch = Some (q1, e1)" and "seg_run q1 e1 chs = Some (q, e)"
    by (auto split: option.splits)
  with Cons.IH show ?case by (simp add: segments_loop_step del: segments_loop.simps)
qed simp

lemma seg_run_append:
  "seg_run q e (xs @ ys) = Option.bind (seg_run q e xs) (\<lambda>(q, e). seg_run q e ys)"
  by (induction xs arbitrary: q e) (auto split: option.split)

lemma one_segment:
  assumes "seg_run None False (chars s) = Some (None, False)" and "s \<noteq> []"
  shows "iter_top_level_shell_segments s = [s]"
  using segments_loop_run [OF assms(1), of "[]" "[]"] assms(2)
  by (simp add: iter_top_level_shell_segments_def)

definition requoted_chars :: "string list \<Rightarrow> string list" where
  "requoted_chars chs =
     concat (map (\<lambda>ch. if ch = [squote] then [[squote], [dquote], [squote], [dquote], [squote]] else [ch]) chs)"

lemma requoted_concat: "list_all utf8_char chs \<Longrightarrow> requoted (concat chs) = concat (requoted_chars chs)"
proof (induction chs)
  case Nil
  show ?case by (simp add: str_replace_char requoted_chars_def)
next
  case (Cons ch chs)
  then have IH: "requoted (concat chs) = concat (requoted_chars chs)" by simp
  have "requoted ch = (if ch = [squote] then [squote, dquote, squote, dquote, squote] else ch)"
  proof (cases "squote \<in> set ch")
    case True
    then have "ch = [squote]" using squote_in_char [of ch squote] Cons.prems by (simp add: byte_val_def)
    then show ?thesis by (simp add: str_replace_char)
  next
    case False
    then have "requoted ch = ch" unfolding str_replace_char by (induction ch) auto
    with False show ?thesis by auto
  qed
  with IH show ?case by (auto simp: str_replace_char requoted_chars_def)
qed

lemma seg_run_requoted: "seg_run (Some [squote]) False (requoted_chars chs) = Some (Some [squote], False)"
  by (induction chs) (auto simp: requoted_chars_def seg_step_def)

lemma utf8_requoted: "list_all utf8_char chs \<Longrightarrow> list_all utf8_char (requoted_chars chs)"
  by (induction chs) (auto simp: requoted_chars_def is_cont_def)
section \<open>The budget of the variants\<close>

definition variants_ok :: "Variants \<Rightarrow> bool" where
  "variants_ok st \<longleftrightarrow> distinct (va_variants st) \<and> set (va_variants st) = va_seen st \<and>
     length (va_variants st) \<le> max_detection_variants \<and>
     va_retained st = sum_list (map length (va_variants st)) \<and> va_retained st \<le> max_detection_variant_bytes"

text \<open>Where the early return is taken the set of seen texts is one ahead of the variants.\<close>

definition returned_ok :: "Variants \<Rightarrow> bool" where
  "returned_ok st \<longleftrightarrow> distinct (va_variants st) \<and> length (va_variants st) \<le> max_detection_variants \<and>
     sum_list (map length (va_variants st)) \<le> max_detection_variant_bytes"

lemma variants_ok_returned: "variants_ok st \<Longrightarrow> returned_ok st"
  by (simp add: variants_ok_def returned_ok_def)

definition grows :: "Variants \<Rightarrow> Variants \<Rightarrow> bool" where
  "grows st st' \<longleftrightarrow> variants_ok st' \<and> va_seen st \<subseteq> va_seen st'"

lemma push_seen:
  assumes "variants_ok st" and "v \<notin> va_seen st"
  shows "outcome returned_ok (\<lambda>st'. grows st st' \<and> va_seen st' = insert v (va_seen st)) (push_variant v (see v st))"
  using assms by (auto simp: push_variant_def see_def variants_ok_def returned_ok_def grows_def)

lemma push_new_ok:
  assumes "variants_ok st"
  shows "outcome returned_ok (\<lambda>st'. grows st st' \<and> va_seen st' = insert v (va_seen st)) (push_new v st)"
  using push_seen [OF assms] assms by (auto simp: push_new_def grows_def)

lemma grows_trans: "grows st st' \<Longrightarrow> grows st' st'' \<Longrightarrow> grows st st''"
  by (auto simp: grows_def)

lemma grows_refl: "variants_ok st \<Longrightarrow> grows st st"
  by (simp add: grows_def)

definition payloads :: "ExecFinding list \<Rightarrow> string set" where
  "payloads fs = {p. \<exists>d. (d, Some p) \<in> set fs}"

lemma payloads_simps [simp]:
  "payloads [] = {}" "payloads ((d, None) # fs) = payloads fs" "payloads ((d, Some p) # fs) = insert p (payloads fs)"
  by (auto simp: payloads_def)

text \<open>What a round over the findings of one text adds: its payloads, each with its marked form, and
  nothing else; the payloads that are new wait to be explored.\<close>

definition round_ok :: "string set \<Rightarrow> string list \<Rightarrow> Variants \<Rightarrow> Variants \<times> string list \<Rightarrow> bool" where
  "round_ok ps pending st r \<longleftrightarrow> (case r of (st', pending') \<Rightarrow>
     grows st st' \<and> ps \<subseteq> va_seen st' \<and> set pending \<subseteq> set pending' \<and>
     va_seen st' \<subseteq> va_seen st \<union> set pending' \<union> mark_command_starts ` set pending')"

lemma push_payloads_ok:
  assumes "variants_ok st"
  shows "outcome returned_ok (round_ok (payloads fs) pending st) (push_payloads fs pending st)"
  using assms
proof (induction fs pending st rule: push_payloads.induct)
  case (1 pending st)
  then show ?case by (auto simp: round_ok_def grows_refl)
next
  case (2 d payload fs pending st)
  show ?case
  proof (cases payload)
    case None
    with 2 show ?thesis by simp
  next
    case (Some p)
    show ?thesis
    proof (cases "p \<in> va_seen st")
      case True
      with Some 2(2) 2(4) have "outcome returned_ok (round_ok (payloads fs) pending st) (push_payloads fs pending st)"
        by simp
      then show ?thesis using True Some
        by (cases "push_payloads fs pending st") (auto simp: round_ok_def grows_def)
    next
      case False
      let ?marked = "\<lambda>s. if mark_command_starts p \<noteq> p then push_new (mark_command_starts p) s else Inr s"
      have "outcome returned_ok (round_ok (insert p (payloads fs)) pending st)
        (and_then (push_variant p (see p st)) (\<lambda>s. and_then (?marked s) (\<lambda>s. push_payloads fs (p # pending) s)))"
      proof (rule outcome_and_then [OF push_seen [OF 2(4) False]], rule outcome_and_then)
        fix s1 assume s1: "grows st s1 \<and> va_seen s1 = insert p (va_seen st)"
        then show "outcome returned_ok (\<lambda>s. grows st s \<and> p \<in> va_seen s \<and>
            va_seen s \<subseteq> insert p (insert (mark_command_starts p) (va_seen st))) (?marked s1)"
          using push_new_ok [of s1 "mark_command_starts p"]
          by (cases "?marked s1") (auto simp: grows_def split: if_splits)
      next
        fix s2 assume s2: "grows st s2 \<and> p \<in> va_seen s2 \<and> va_seen s2 \<subseteq> insert p (insert (mark_command_starts p) (va_seen st))"
        then have "outcome returned_ok (round_ok (payloads fs) (p # pending) s2) (push_payloads fs (p # pending) s2)"
          using 2(3) [OF Some False] by (simp add: grows_def)
        then show "outcome returned_ok (round_ok (insert p (payloads fs)) pending st) (push_payloads fs (p # pending) s2)"
          using s2 by (cases "push_payloads fs (p # pending) s2") (auto simp: round_ok_def grows_def)
      qed
      with Some False show ?thesis by simp
    qed
  qed
qed
definition explored :: "ShellLib \<Rightarrow> string list \<Rightarrow> Variants \<Rightarrow> Variants \<Rightarrow> string set \<Rightarrow> bool" where
  "explored L pending st st' X \<longleftrightarrow> set pending \<subseteq> X \<and>
     (\<forall>v \<in> X. payloads (execution_flag_findings L v) \<subseteq> va_seen st') \<and>
     va_seen st' \<subseteq> va_seen st \<union> X \<union> mark_command_starts ` X"

lemma explored_step:
  assumes r: "round_ok (payloads (execution_flag_findings L v)) rest st (st1, pending)"
    and X: "explored L pending st1 st2 X" and g: "grows st1 st2"
  shows "explored L (v # rest) st st2 (insert v X)"
proof -
  have "mark_command_starts ` set pending \<subseteq> mark_command_starts ` X" using X by (auto simp: explored_def)
  then have "va_seen st1 \<subseteq> va_seen st \<union> X \<union> mark_command_starts ` X"
    using r X unfolding explored_def round_ok_def by blast
  then show ?thesis using assms unfolding explored_def round_ok_def grows_def by auto
qed

lemma drain_pending_ok:
  "variants_ok st \<Longrightarrow>
   outcome returned_ok (\<lambda>st'. grows st st' \<and> (\<exists>X. explored L pending st st' X)) (drain_pending L pending st)"
proof (induction L pending st rule: drain_pending.induct)
  case (1 L pending st)
  show ?case
  proof (cases pending)
    case Nil
    have "explored L [] st st {}" by (simp add: explored_def)
    then show ?thesis using 1(2) Nil grows_refl by (auto simp: drain_pending.simps [of L "[]"])
  next
    case (Cons v rest)
    note p = push_payloads_ok [OF 1(2), of "execution_flag_findings L v" rest]
    show ?thesis
    proof (cases "push_payloads (execution_flag_findings L v) rest st")
      case (Inl s)
      with p Cons show ?thesis by (simp add: drain_pending.simps [of L "v # rest"])
    next
      case (Inr r)
      obtain st1 pending1 where r: "r = (st1, pending1)" by fastforce
      with p Inr have ok: "round_ok (payloads (execution_flag_findings L v)) rest st (st1, pending1)" by simp
      then have g1: "grows st st1" by (simp add: round_ok_def)
      then have IH: "outcome returned_ok (\<lambda>st'. grows st1 st' \<and> (\<exists>X. explored L pending1 st1 st' X)) (drain_pending L pending1 st1)"
        by (intro 1(1) [OF Cons Inr r [symmetric]]) (simp add: grows_def)
      have eq: "drain_pending L pending st = drain_pending L pending1 st1"
        using Cons Inr r by (simp add: drain_pending.simps [of L "v # rest"])
      show ?thesis
      proof (cases "drain_pending L pending1 st1")
        case (Inr st2)
        with IH obtain X where "grows st1 st2" "explored L pending1 st1 st2 X" by auto
        then show ?thesis using explored_step [OF ok] grows_trans [OF g1] Cons eq Inr by auto
      qed (use IH eq in simp)
    qed
  qed
qed

lemma push_words_ok:
  "variants_ok st \<Longrightarrow> outcome returned_ok (grows st) (push_words L normalized words st)"
proof (induction L normalized words st rule: push_words.induct)
  case (1 L normalized st)
  then show ?case by (simp add: grows_refl)
next
  case (2 L normalized a b word words st)
  let ?deobf = "deobfuscate_shell_word_for_detection L word"
  have "outcome returned_ok (grows st)
    (if ?deobf \<noteq> [] \<and> ?deobf \<noteq> word then push_new (take a normalized @ ?deobf @ drop b normalized) st else Inr st)"
    using push_new_ok [OF 2(2), of "take a normalized @ ?deobf @ drop b normalized"] grows_refl [OF 2(2)]
    by (cases "push_new (take a normalized @ ?deobf @ drop b normalized) st") auto
  then have "outcome returned_ok (grows st) (and_then
    (if ?deobf \<noteq> [] \<and> ?deobf \<noteq> word then push_new (take a normalized @ ?deobf @ drop b normalized) st else Inr st)
    (push_words L normalized words))"
  proof (rule outcome_and_then)
    fix s assume g: "grows st s"
    then have "outcome returned_ok (grows s) (push_words L normalized words s)"
      by (intro 2(1) [OF refl]) (simp add: grows_def)
    with g grows_trans show "outcome returned_ok (grows st) (push_words L normalized words s)"
      by (cases "push_words L normalized words s") auto
  qed
  then show ?case by (simp add: Let_def del: outcome_simps)
qed

definition covered :: "ShellLib \<Rightarrow> string \<Rightarrow> Variants \<Rightarrow> bool" where
  "covered L command st \<longleftrightarrow>
     (let normalized = normalize_command_for_detection L command; grep_safe = fst (grep_safe_detection_variant L normalized) in
      grep_safe \<in> set (va_variants st) \<and> mark_command_starts grep_safe \<in> set (va_variants st) \<and>
      (\<exists>X. normalized \<in> X \<and> (\<forall>v \<in> X. \<forall>p \<in> payloads (execution_flag_findings L v).
         p \<in> set (va_variants st) \<and> (p \<in> X \<or> p = grep_safe \<or> p \<in> mark_command_starts ` X))))"

lemma collect_variants_ok: "outcome returned_ok (\<lambda>st. variants_ok st \<and> covered L command st) (collect_variants L command)"
proof -
  define n where "n = normalize_command_for_detection L command"
  define g where "g = fst (grep_safe_detection_variant L n)"
  let ?st = "\<lparr>va_variants = [], va_seen = {g}, va_retained = 0\<rparr>"
  let ?marked = "\<lambda>st. if mark_command_starts g \<noteq> g then push_new (mark_command_starts g) st else Inr st"
  let ?reached = "\<lambda>X st. explored L [n] \<lparr>va_variants = [g], va_seen = {g}, va_retained = length g\<rparr> st X"
  have "outcome returned_ok (\<lambda>st. st = \<lparr>va_variants = [g], va_seen = {g}, va_retained = length g\<rparr> \<and> variants_ok st)
      (push_variant g ?st)"
    by (auto simp: push_variant_def returned_ok_def variants_ok_def)
  then have "outcome returned_ok (\<lambda>st. variants_ok st \<and> covered L command st)
    (and_then (push_variant g ?st) (\<lambda>st. and_then (drain_pending L [n] st) (\<lambda>st. and_then (?marked st) (\<lambda>st.
       push_words L n (iter_shell_command_word_spans L n) st))))"
  proof (rule outcome_and_then)
    fix st assume "st = \<lparr>va_variants = [g], va_seen = {g}, va_retained = length g\<rparr> \<and> variants_ok st"
    then have st: "variants_ok st" "st = \<lparr>va_variants = [g], va_seen = {g}, va_retained = length g\<rparr>" by blast+
    have "outcome returned_ok (\<lambda>s. variants_ok s \<and> g \<in> va_seen s \<and> (\<exists>X. ?reached X s)) (drain_pending L [n] st)"
      using drain_pending_ok [OF st(1), of L "[n]"] st(2) by (cases "drain_pending L [n] st") (auto simp: grows_def)
    then show "outcome returned_ok (\<lambda>st. variants_ok st \<and> covered L command st) (and_then (drain_pending L [n] st) (\<lambda>st.
        and_then (?marked st) (\<lambda>st. push_words L n (iter_shell_command_word_spans L n) st)))"
    proof (rule outcome_and_then)
      fix s assume "variants_ok s \<and> g \<in> va_seen s \<and> (\<exists>X. ?reached X s)"
      then obtain X where s: "variants_ok s" "g \<in> va_seen s" "?reached X s" by blast
      have "outcome returned_ok (\<lambda>s'. grows s s' \<and> mark_command_starts g \<in> va_seen s') (?marked s)"
        using push_new_ok [OF s(1), of "mark_command_starts g"] s(2) grows_refl [OF s(1)]
        by (cases "push_new (mark_command_starts g) s") auto
      then show "outcome returned_ok (\<lambda>st. variants_ok st \<and> covered L command st)
          (and_then (?marked s) (\<lambda>st. push_words L n (iter_shell_command_word_spans L n) st))"
      proof (rule outcome_and_then)
        fix s1 assume s1: "grows s s1 \<and> mark_command_starts g \<in> va_seen s1"
        have "covered L command s2" if s2: "grows s1 s2" for s2
        proof -
          have sub: "va_seen s \<subseteq> set (va_variants s2)" "mark_command_starts g \<in> set (va_variants s2)"
            using s1 s2 by (auto simp: grows_def variants_ok_def)
          have "n \<in> X \<and> (\<forall>v \<in> X. \<forall>p \<in> payloads (execution_flag_findings L v).
              p \<in> set (va_variants s2) \<and> (p \<in> X \<or> p = g \<or> p \<in> mark_command_starts ` X))"
            using s(3) sub(1) unfolding explored_def by auto
          with s(2) sub show ?thesis by (auto simp: covered_def Let_def n_def [symmetric] g_def [symmetric])
        qed
        then show "outcome returned_ok (\<lambda>st. variants_ok st \<and> covered L command st)
            (push_words L n (iter_shell_command_word_spans L n) s1)"
          using push_words_ok [of s1 L n "iter_shell_command_word_spans L n"] s1
          by (cases "push_words L n (iter_shell_command_word_spans L n) s1") (auto simp: grows_def)
      qed
    qed
  qed
  then show ?thesis unfolding collect_variants_def Let_def n_def [symmetric] g_def [symmetric] .
qed

text \<open>Whatever the command, the variants that are kept for its classification are at most 512,
  hold at most four megabytes together and are all different; in particular the search for nested
  payloads ends.\<close>

theorem detection_variants_bounded:
  "length (command_detection_variants L command) \<le> 512 \<and>
   sum_list (map length (command_detection_variants L command)) \<le> 4194304 \<and>
   distinct (command_detection_variants L command)"
  using collect_variants_ok [of L command] variants_ok_returned
  by (cases "collect_variants L command") (auto simp: command_detection_variants_def returned_ok_def)


definition sample_shell :: ShellLib where
  "sample_shell = \<lparr>re_ansi = id, re_line_continuation = id, re_backslash_escape = id, re_empty_quotes = id,
     re_ifs_expansion = id, re_simple_shell_literal = (\<lambda>s. s \<noteq> [] \<and> list_all (\<lambda>c. c \<noteq> CHR ''$'') s),
     re_param_replacement = id, re_param_default = id, re_env_assignment = (\<lambda>s. CHR ''='' \<in> set s),
     env_home = None, env_userprofile = None\<rparr>"

lemma sample_normalize:
  assumes "list_all (\<lambda>b. byte_val b < 128) s" and "CHR 0x00 \<notin> set s"
  shows "normalize_command_for_detection sample_shell s = s"
proof -
  have "str_replace [CHR 0x00] [] s = s" unfolding str_replace_char using assms(2) by (induction s) auto
  with normalize_ascii [OF assms(1)] show ?thesis
    by (simp add: normalize_command_for_detection_def sample_shell_def rewrite_home_prefixes_def home_candidates_def)
qed

lemma sample_scans:
  "normalize_command_for_detection sample_shell ''ls'' = ''ls''"
  "grep_safe_detection_variant sample_shell ''ls'' = (''ls'', False)"
  "mark_command_starts ''ls'' = ''ls''"
  "execution_flag_findings sample_shell ''ls'' = []"
  "iter_shell_command_word_spans sample_shell ''ls'' = [(0, 2, ''ls'')]"
  "deobfuscate_shell_word_for_detection sample_shell ''ls'' = ''ls''"
proof -
  show "normalize_command_for_detection sample_shell ''ls'' = ''ls''" by (intro sample_normalize) (simp_all add: byte_val_def)
qed code_simp+

lemma sample_variants: "command_detection_variants sample_shell ''ls'' = [''ls'']"
  by (simp add: command_detection_variants_def collect_variants_def Let_def sample_scans push_variant_def drain_pending.simps)

lemma sample_nested:
  "normalize_command_for_detection sample_shell ''sh -c ls'' = ''sh -c ls''"
  "grep_safe_detection_variant sample_shell ''sh -c ls'' = (''sh -c ls'', False)"
  "mark_command_starts ''sh -c ls'' = ''sh -c ls''"
  "execution_flag_findings sample_shell ''sh -c ls'' = [(''shell command via -c/-lc flag'', Some ''ls'')]"
  "iter_shell_command_word_spans sample_shell ''sh -c ls'' = [(0, 2, ''sh'')]"
  "deobfuscate_shell_word_for_detection sample_shell ''sh'' = ''sh''"
proof -
  show "normalize_command_for_detection sample_shell ''sh -c ls'' = ''sh -c ls''" by (intro sample_normalize) (simp_all add: byte_val_def)
qed code_simp+

section \<open>Blanking\<close>

abbreviation blanked :: "char \<Rightarrow> char \<Rightarrow> bool" where
  "blanked a b \<equiv> b = a \<or> b = CHR '' ''"

lemma tokens_ordered:
  "shell_tokens_with_spans segment start = Some toks \<Longrightarrow> list_all (\<lambda>t. st_start t \<le> st_end t) toks"
proof (induction segment start arbitrary: toks rule: shell_tokens_with_spans.induct)
  case (1 segment start)
  let ?i = "skip_space segment start"
  show ?case
  proof (cases "?i \<ge> length segment")
    case True
    with 1(2) show ?thesis by (simp add: shell_tokens_with_spans.simps [of segment start] Let_def)
  next
    case False
    with 1(2) obtain v e ts where scan: "token_scan None [] ?i (drop ?i segment) = Some (v, e, None)"
      and ts: "shell_tokens_with_spans segment e = Some ts"
      and toks: "toks = \<lparr>st_value = v, st_start = ?i, st_end = e, st_inert_single_quoted = inert_raw (slice segment ?i e)\<rparr> # ts"
      by (auto simp: shell_tokens_with_spans.simps [of segment start] Let_def split: option.splits if_splits)
    have "list_all (\<lambda>t. st_start t \<le> st_end t) ts"
      using 1(1) [OF refl False scan refl refl _ ts] by simp
    with toks token_scan_bounds [OF scan] show ?thesis by simp
  qed
qed

lemma word_spans_ordered:
  "word_pattern_spans L segment at w = Some spans \<Longrightarrow> list_all (\<lambda>(a, b). a \<le> b) spans"
proof -
  assume a: "word_pattern_spans L segment at w = Some spans"
  obtain start stop word where w: "w = (start, stop, word)" by (cases w) auto
  show ?thesis
  proof (cases "shell_tokens_with_spans segment start")
    case None
    with a w show ?thesis by (auto simp: word_pattern_spans_def Let_def split: if_splits)
  next
    case (Some toks)
    then have "list_all (\<lambda>t. st_start t \<le> st_end t) toks" by (rule tokens_ordered)
    then show ?thesis using a w Some
      by (auto simp: word_pattern_spans_def Let_def token_span_def list_all_iff split: if_splits list.splits)
  qed
qed

lemma all_spans_ordered:
  "(\<And>x ys. f x = Some ys \<Longrightarrow> list_all P ys) \<Longrightarrow> all_spans f xs = Some zs \<Longrightarrow> list_all P zs"
  by (induction xs arbitrary: zs) (auto split: option.splits)

lemma segment_spans_ordered:
  "segment_pattern_spans L command offset segments = Some spans \<Longrightarrow> list_all (\<lambda>(a, b). a \<le> b) spans"
proof (induction segments arbitrary: offset spans)
  case (Cons segment segments)
  show ?case
  proof (cases "find_str segment (drop offset command)")
    case None
    with Cons show ?thesis by auto
  next
    case (Some idx)
    with Cons.prems obtain xs ys where "all_spans (word_pattern_spans L segment (offset + idx)) (iter_shell_command_word_spans L segment) = Some xs"
      "segment_pattern_spans L command (offset + idx + length segment) segments = Some ys" "spans = xs @ ys"
      by (auto split: option.splits)
    then show ?thesis using all_spans_ordered [OF word_spans_ordered] Cons.IH by auto
  qed
qed simp

lemma blank_spans_keeps:
  "list_all (\<lambda>(a, b). a \<le> b) spans \<Longrightarrow> prev \<le> length command \<Longrightarrow>
   list_all2 blanked (drop prev command) (blank_spans command prev spans)"
proof (induction command prev spans rule: blank_spans.induct)
  case (1 command prev)
  then show ?case by (auto intro!: list.rel_refl)
next
  case (2 command prev a b spans)
  show ?case
  proof (cases "a \<ge> prev \<and> a \<le> length command \<and> b \<le> length command")
    case True
    then have ab: "a \<le> b" "b \<le> length command" "prev \<le> a" using 2(3) by auto
    have "drop prev command = slice command prev a @ slice command a b @ drop b command"
      using ab by (simp add: slice_def) (metis append_take_drop_id drop_take le_add_diff_inverse append.assoc take_add drop_drop add.commute le_add_diff_inverse2)
    moreover have "list_all2 blanked (slice command a b) (replicate (b - a) (CHR '' ''))"
      using ab by (simp add: slice_def list_all2_conv_all_nth)
    moreover have "list_all2 blanked (slice command prev a) (slice command prev a)" by (auto intro!: list.rel_refl)
    ultimately show ?thesis using 2(1) [OF True] 2(3) ab True by (simp add: list_all2_appendI)
  next
    case False
    with 2 show ?thesis by auto
  qed
qed

text \<open>Hiding the patterns of \<open>grep\<close> and the arguments of \<open>echo\<close> changes nothing else: the text that
  is classified has the length of the command, and every byte is the command's or a blank.\<close>

theorem blanking_keeps_the_rest:
  "list_all2 blanked command (fst (grep_safe_detection_variant L command))"
proof (cases "segment_pattern_spans L command 0 (iter_top_level_shell_segments command)")
  case None
  then show ?thesis by (auto simp: grep_safe_detection_variant_def quoted_grep_pattern_spans_def intro!: list.rel_refl)
next
  case (Some spans)
  from blank_spans_keeps [OF segment_spans_ordered [OF this], of 0]
  show ?thesis using Some
    by (auto simp: grep_safe_detection_variant_def quoted_grep_pattern_spans_def intro!: list.rel_refl)
qed

section \<open>Positions\<close>

lemma utf8_follow:
  "list_all utf8_char chs \<Longrightarrow> Suc i < length (concat chs) \<Longrightarrow> byte_val (concat chs ! i) < 128 \<Longrightarrow> \<not> is_cont (concat chs ! Suc i)"
proof (induction chs arbitrary: i)
  case (Cons ch chs)
  show ?case
  proof (cases "i < length ch")
    case True
    then have "ch = [ch ! i]" using squote_in_char [of ch "ch ! i"] Cons.prems by (auto simp: nth_append)
    then have i: "i = 0" "length ch = 1" using True by (metis length_Cons list.size(3) less_one One_nat_def)+
    with Cons.prems obtain c rest where "chs = c # rest" by (cases chs) auto
    then show ?thesis using i Cons.prems utf8_char_starts [of c] by (auto simp: nth_append)
  next
    case False
    with Cons show ?thesis by (auto simp: nth_append Suc_diff_le)
  qed
qed simp

lemma boundary_after_ascii:
  assumes "utf8_text s" and "i < length s" and "byte_val (s ! i) < 128"
  shows "is_char_boundary s (Suc i)"
  using utf8_follow [of "chars s" i] assms by (auto simp: is_char_boundary_def utf8_text_def)

lemma starts_cases:
  assumes "p \<in> set (starts_loop quote i (ch # cs))"
    and step: "\<And>q. p \<in> set (starts_loop q (i + 1) cs) \<Longrightarrow> Q"
    and skip: "\<And>q. cs \<noteq> [] \<Longrightarrow> p \<in> set (starts_loop q (i + 2) (tl cs)) \<Longrightarrow> Q"
    and here: "p = i + 1 \<Longrightarrow> ch \<in> {CHR ''('', CHR ''{'', CHR '';'', CHR ''&'', CHR ''|'', newline} \<Longrightarrow> Q"
    and two: "p = i + 2 \<Longrightarrow> cs \<noteq> [] \<Longrightarrow> hd cs \<in> {CHR ''('', CHR ''{'', CHR '';'', CHR ''&'', CHR ''|'', newline} \<Longrightarrow> Q"
  shows Q
proof -
  have push1: "p \<in> set ((i + 1) # starts_loop q (i + 1) cs) \<Longrightarrow> ch \<in> {CHR ''('', CHR ''{'', CHR '';'', CHR ''&'', CHR ''|'', newline} \<Longrightarrow> Q" for q
    using here step by auto
  have push2: "p \<in> set ((i + 2) # starts_loop q (i + 2) (tl cs)) \<Longrightarrow> next_is c cs \<Longrightarrow> c \<in> {CHR ''('', CHR ''&'', CHR ''|''} \<Longrightarrow> Q" for q c
    using two skip by auto
  have branch: "p \<in> set (if A then X else Y) \<Longrightarrow> (A \<Longrightarrow> p \<in> set X \<Longrightarrow> Q) \<Longrightarrow> (\<not> A \<Longrightarrow> p \<in> set Y \<Longrightarrow> Q) \<Longrightarrow> Q" for A X Y
    by (cases A) simp_all
  show Q
    using assms(1) unfolding starts_loop.simps
    by (elim branch) (erule step | erule skip [rotated], erule conjunct2 | erule push2, erule conjunct2, simp | erule push2, assumption, simp | erule push1, fastforce)+
qed

lemma starts_after_ascii:
  "p \<in> set (starts_loop quote i s) \<Longrightarrow> i < p \<and> p \<le> i + length s \<and> byte_val (s ! (p - Suc i)) < 128"
proof (induction "length s" arbitrary: quote i s rule: less_induct)
  case less
  show ?case
  proof (cases s)
    case (Cons ch cs)
    define Q where "Q \<longleftrightarrow> i < p \<and> p \<le> i + length s \<and> byte_val (s ! (p - Suc i)) < 128"
    have ascii: "\<forall>c \<in> {CHR ''('', CHR ''{'', CHR '';'', CHR ''&'', CHR ''|'', newline}. byte_val c < 128"
      by (simp add: byte_val_def)
    have here: "p = i + 1 \<Longrightarrow> ch \<in> {CHR ''('', CHR ''{'', CHR '';'', CHR ''&'', CHR ''|'', newline} \<Longrightarrow> Q"
      using Cons ascii by (auto simp: Q_def)
    have two: "p = i + 2 \<Longrightarrow> cs \<noteq> [] \<Longrightarrow> hd cs \<in> {CHR ''('', CHR ''{'', CHR '';'', CHR ''&'', CHR ''|'', newline} \<Longrightarrow> Q"
      using Cons ascii by (cases cs) (auto simp: Q_def)
    have step: "p \<in> set (starts_loop q (i + 1) cs) \<Longrightarrow> Q" for q
      using less.hyps [of cs q "i + 1"] Cons by (auto simp: nth_Cons' Suc_diff_Suc Q_def)
    have skip: "cs \<noteq> [] \<Longrightarrow> p \<in> set (starts_loop q (i + 2) (tl cs)) \<Longrightarrow> Q" for q
      using less.hyps [of "tl cs" q "i + 2"] Cons by (cases cs) (auto simp: nth_Cons' Suc_diff_Suc Q_def)
    have "Q" by (rule starts_cases [OF less.prems [unfolded Cons]]) (fact step skip here two)+
    then show ?thesis by (simp add: Q_def)
  qed (use less.prems in simp)
qed
lemma fresh_starts_pos:
  "q \<in> set (fresh_starts command seen starts) \<Longrightarrow> \<exists>p \<in> set starts. q = skip_space command p \<and> q < length command"
  by (induction starts arbitrary: seen) (auto simp: Let_def split: if_splits)

lemma skip_space_boundary:
  assumes "utf8_text s" and "is_char_boundary s p" and "skip_space s p < length s"
  shows "is_char_boundary s (skip_space s p)"
proof (cases "takeWhile is_ascii_whitespace (drop p s) = []")
  case True
  with assms(2) show ?thesis by (simp add: skip_space_def)
next
  case False
  let ?n = "length (takeWhile is_ascii_whitespace (drop p s))"
  have "takeWhile is_ascii_whitespace (drop p s) ! (?n - 1) = drop p s ! (?n - 1)"
    using False by (intro takeWhile_nth) simp
  moreover have "takeWhile is_ascii_whitespace (drop p s) ! (?n - 1) \<in> set (takeWhile is_ascii_whitespace (drop p s))"
    using False by (intro nth_mem) simp
  then have "is_ascii_whitespace (takeWhile is_ascii_whitespace (drop p s) ! (?n - 1))" using set_takeWhileD by fast
  moreover have "drop p s ! (?n - 1) = s ! (p + (?n - 1))"
    using assms(3) by (intro nth_drop) (simp add: skip_space_def)
  ultimately have "byte_val (s ! (p + (?n - 1))) < 128"
    by (auto simp: is_ascii_whitespace_def byte_val_def)
  moreover have "skip_space s p = Suc (p + (?n - 1))" using False by (simp add: skip_space_def)
  ultimately show ?thesis using boundary_after_ascii [OF assms(1), of "p + (?n - 1)"] assms(3) by simp
qed

text \<open>On a text of whole characters every position at which a command is taken to start lies in the
  text and between two characters, so that no slice at these positions can panic.\<close>

theorem command_starts_are_boundaries:
  assumes "utf8_text command" and "p \<in> set (iter_shell_command_starts command)"
  shows "p < length command \<and> is_char_boundary command p"
proof -
  obtain q where q: "q \<in> set (0 # starts_loop None 0 command)" and p: "p = skip_space command q" "p < length command"
    using assms(2) fresh_starts_pos unfolding iter_shell_command_starts_def by blast
  have "is_char_boundary command q"
  proof (cases "q = 0")
    case False
    then have "q \<in> set (starts_loop None 0 command)" using q by simp
    from starts_after_ascii [OF this] have "q - 1 < length command" "byte_val (command ! (q - 1)) < 128" "q = Suc (q - 1)"
      by auto
    then show ?thesis using boundary_after_ascii [OF assms(1), of "q - 1"] by simp
  qed (simp add: is_char_boundary_def)
  with assms(1) p show ?thesis using skip_space_boundary by blast
qed

theorem command_starts_are_boundaries_witness:
  "iter_shell_command_starts ([CHR 0xC3, CHR 0xA9] @ ''; ls'') = [0, 4] \<and> is_char_boundary ([CHR 0xC3, CHR 0xA9] @ ''; ls'') 4"
proof -
  have "utf8_text ([CHR 0xC3, CHR 0xA9] @ ''; ls'')" by code_simp
  moreover have "iter_shell_command_starts ([CHR 0xC3, CHR 0xA9] @ ''; ls'') = [0, 4]" by code_simp
  ultimately show ?thesis using command_starts_are_boundaries [of "[CHR 0xC3, CHR 0xA9] @ ''; ls''" 4] by simp
qed

section \<open>Deny rules\<close>

lemma first_some_None_iff: "first_some f xs = None \<longleftrightarrow> (\<forall>x \<in> set xs. f x = None)"
  by (induction xs) (auto simp: or_else_None_iff)

lemma first_glob_None_iff: "first_glob globs c = None \<longleftrightarrow> (\<forall>g \<in> set globs. \<not> wildcard_match g c)"
  by (auto simp: first_glob_def find_None_iff)

lemma stripped_forms_mem:
  "set (stripped_forms command words forms) =
     set forms \<union> {c. \<exists>(a, b, w) \<in> set words. a \<noteq> 0 \<and> c = trim (drop a command) \<and> c \<noteq> []}"
  by (induction command words forms rule: stripped_forms.induct) (auto simp: Let_def)

text \<open>A word of plain bytes is read to its end.\<close>

lemma word_end_stop:
  "i < length s \<Longrightarrow> is_ascii_whitespace (s ! i) \<Longrightarrow> word_end s None i = i"
  by (subst word_end.simps) (auto simp: Let_def is_ascii_whitespace_def)

definition word_byte :: "char \<Rightarrow> bool" where
  "word_byte b \<longleftrightarrow> b \<notin> {squote, dquote, backslash, backtick, CHR ''$'', CHR '';'', CHR ''&'', CHR ''|''} \<and> \<not> is_ascii_whitespace b"

lemma word_end_word:
  assumes "list_all word_byte w" and "drop i s = w @ rest" and "rest = [] \<or> is_ascii_whitespace (hd rest)"
  shows "word_end s None i = i + length w"
  using assms
proof (induction w arbitrary: i)
  case Nil
  show ?case
  proof (cases "rest = []")
    case True
    with Nil show ?thesis by (subst word_end.simps) simp
  next
    case False
    with Nil have i: "i < length s" by (metis append_Nil drop_all not_le)
    with Nil have "s ! i = hd rest" using hd_drop_conv_nth [of i s] by simp
    with i False Nil word_end_stop show ?thesis by simp
  qed
next
  case (Cons b w)
  have i: "i < length s" and b: "s ! i = b" and r: "drop (Suc i) s = w @ rest"
    using Cons.prems(2) by (metis append_Cons drop_all list.distinct(1) not_le,
        metis append_Cons drop_all hd_drop_conv_nth list.distinct(1) list.sel(1) not_le,
        metis append_Cons drop_Suc list.sel(3) tl_drop)
  have "word_end s None i = word_end s None (Suc i)"
    using i b Cons.prems(1) by (subst word_end.simps) (simp add: Let_def word_byte_def)
  with Cons.IH [OF _ r] Cons.prems show ?case by simp
qed
lemma read_word:
  assumes "list_all word_byte w" and "w \<noteq> []" and "drop pos s = sp @ w @ rest" and "list_all is_ascii_whitespace sp"
    and "rest = [] \<or> is_ascii_whitespace (hd rest)"
  shows "read_shell_word s pos = (pos + length sp, pos + length sp + length w, w)"
proof -
  have w: "\<not> is_ascii_whitespace (hd w)" using assms(1,2) by (cases w) (auto simp: word_byte_def)
  have "takeWhile is_ascii_whitespace (sp @ w @ rest) = sp"
    using assms(2,4) w by (subst takeWhile_append2) (auto simp: list_all_iff takeWhile_eq_Nil_iff)
  then have start: "skip_space s pos = pos + length sp" by (simp add: skip_space_def assms(3))
  have "drop (pos + length sp) s = drop (length sp) (drop pos s)" by (simp add: add.commute)
  then have d: "drop (pos + length sp) s = w @ rest" by (simp add: assms(3))
  have "slice s (pos + length sp) (pos + length sp + length w) = take (length w) (drop (pos + length sp) s)"
    by (simp add: slice_def drop_take)
  then show ?thesis
    by (simp add: read_shell_word_def Let_def start word_end_word [OF assms(1) d assms(5)] d)
qed

lemma wrapper_facts:
  "list_all (\<lambda>w. list_all word_byte w \<and> w \<noteq> [] \<and> to_ascii_lowercase w = w) wrapper_words"
  by code_simp

lemma lower_dash: "ascii_lower c = CHR ''-'' \<Longrightarrow> c = CHR ''-''"
proof (rule ccontr)
  assume a: "ascii_lower c = CHR ''-''" and "c \<noteq> CHR ''-''"
  then have b: "65 \<le> byte_val c" "byte_val c \<le> 90" and c: "char_of (byte_val c + 32) = CHR ''-''"
    by (auto simp: ascii_lower_def split: if_splits)
  from c have "of_char (char_of (byte_val c + 32) :: char) = (of_char (CHR ''-'') :: nat)" by simp
  with b show False by simp
qed

lemma wrapped_word_span:
  assumes w: "w \<in> set wrapper_words" and plain: "deobfuscate_shell_word_for_detection L w = w"
    and x: "list_all word_byte x" "x \<noteq> []" "deobfuscate_shell_word_for_detection L x = x" "hd x \<noteq> CHR ''-''"
    and rest: "rest = [] \<or> is_ascii_whitespace (hd rest)"
  shows "(length w + 1, length w + 1 + length x, x) \<in> set (iter_shell_command_word_spans L (w @ '' '' @ x @ rest))"
proof -
  let ?c = "w @ '' '' @ x @ rest"
  have f: "list_all word_byte w" "w \<noteq> []" "to_ascii_lowercase w = w"
    using wrapper_facts w by (auto simp: list_all_iff)
  have sp: "is_ascii_whitespace (CHR '' '')" by (simp add: is_ascii_whitespace_def)
  have r1: "read_shell_word ?c 0 = (0, length w, w)"
    using read_word [OF f(1,2), of 0 ?c "[]" "'' '' @ x @ rest"] sp by simp
  have r2: "read_shell_word ?c (length w) = (length w + 1, length w + 1 + length x, x)"
    using read_word [OF x(1,2) _ _ rest, of "length w" ?c "'' ''"] sp by simp
  have dash: "\<not> starts_with ''-'' (to_ascii_lowercase x)"
    using x(2,4) lower_dash by (cases x) (auto simp: to_ascii_lowercase_def)
  have "(length w + 1, length w + 1 + length x, x) \<in> set (span_loop L ?c (Suc (Suc n)) 0 False False)" for n
    using r1 r2 f(2,3) w plain x(2,3) dash by (simp add: Let_def)
  from this [of 10] have "(length w + 1, length w + 1 + length x, x) \<in> set (span_loop L ?c 12 0 False False)" by simp
  moreover have "0 \<in> set (iter_shell_command_starts ?c)"
  proof -
    have "skip_space ?c 0 = 0" using f(1,2) by (cases w) (auto simp: skip_space_def word_byte_def)
    then show ?thesis using f(2) by (simp add: iter_shell_command_starts_def Let_def)
  qed
  ultimately show ?thesis by (force simp: iter_shell_command_word_spans_def)
qed

text \<open>A deny rule that matches a command also stops it behind a wrapper such as \<open>sudo\<close>, \<open>env\<close> or
  \<open>nohup\<close>.\<close>

theorem wrapped_command_is_denied:
  assumes "w \<in> set wrapper_words" and "deobfuscate_shell_word_for_detection L w = w"
    and "list_all word_byte x" and "x \<noteq> []" and "deobfuscate_shell_word_for_detection L x = x" and "hd x \<noteq> CHR ''-''"
    and "rest = [] \<or> is_ascii_whitespace (hd rest)"
    and command: "command = w @ '' '' @ x @ rest" "trim command = command" "trim (x @ rest) = x @ rest"
    and own: "command \<in> set (command_detection_variants L command)"
    and glob: "g \<in> set deny" "trim g \<noteq> []" "wildcard_match (trim g) (x @ rest)"
  shows "match_user_deny_rule L command deny \<noteq> None"
proof
  assume "match_user_deny_rule L command deny = None"
  then have "\<forall>s \<in> set (wrapper_stripped_forms L command). \<forall>p \<in> set (map trim deny). p \<noteq> [] \<longrightarrow> \<not> wildcard_match p (trim s)"
    using own command(2) glob(1,2)
    by (auto simp: match_user_deny_rule_def Let_def first_some_None_iff first_glob_None_iff or_else_None_iff
        filter_empty_conv split: if_splits)
  moreover have "x @ rest \<in> set (wrapper_stripped_forms L command)"
    using wrapped_word_span [OF assms(1-7)] command assms(4)
    by (force simp: wrapper_stripped_forms_def stripped_forms_mem)
  ultimately show False using glob command(3) by auto
qed
lemma sample_wrapped:
  "normalize_command_for_detection sample_shell ''sudo npm it'' = ''sudo npm it''"
  "grep_safe_detection_variant sample_shell ''sudo npm it'' = (''sudo npm it'', False)"
  "mark_command_starts ''sudo npm it'' = ''sudo npm it''"
  "execution_flag_findings sample_shell ''sudo npm it'' = []"
  "iter_shell_command_word_spans sample_shell ''sudo npm it'' = [(0, 4, ''sudo''), (5, 8, ''npm'')]"
  "deobfuscate_shell_word_for_detection sample_shell ''sudo'' = ''sudo''"
  "deobfuscate_shell_word_for_detection sample_shell ''npm'' = ''npm''"
  "wildcard_match ''npm *'' ''npm it''" "trim ''sudo npm it'' = ''sudo npm it''" "trim ''npm it'' = ''npm it''"
  "trim ''npm *'' = ''npm *''" "word_byte (CHR ''n'')" "word_byte (CHR ''p'')" "word_byte (CHR ''m'')" "''sudo'' \<in> set wrapper_words"
proof -
  show "normalize_command_for_detection sample_shell ''sudo npm it'' = ''sudo npm it''"
    by (intro sample_normalize) (simp_all add: byte_val_def)
qed code_simp+

theorem wrapped_command_is_denied_witness:
  "match_user_deny_rule sample_shell ''sudo npm it'' [''npm *''] \<noteq> None"
proof -
  have "''sudo npm it'' \<in> set (command_detection_variants sample_shell ''sudo npm it'')"
    by (simp add: command_detection_variants_def collect_variants_def Let_def sample_wrapped push_variant_def drain_pending.simps)
  then show ?thesis
    using wrapped_command_is_denied [of "''sudo''" sample_shell "''npm''" "'' it''" "''sudo npm it''" "''npm *''" "[''npm *'']"]
    by (simp add: sample_wrapped is_ascii_whitespace_def)
qed
end
