(* ===== verification/Terminal_Tool.thy ===== *)
theory Terminal_Tool
  imports Command_Policy Approval_Guard Json_Value
begin

text \<open>The terminal tool (\<open>tools/terminal.rs\<close>) and the verdicts of the external scanner
  (\<open>security/tirith.rs\<close>): the approval gate before a process is started, the confinement of working
  directory and program, the environment of the process and the report of its output.  The file
  system, the scanner's answer, the answers of the approval requester and the run of the process
  are parameters.\<close>

section \<open>The external scanner\<close>

datatype ScannerVerdict = Allow | Warn string | Block string | ScanDeny string

definition finding_text :: "json \<Rightarrow> string option" where
  "finding_text f =
     map_option (\<lambda>title.
         let desc = (case get_str ''description'' f of Some d \<Rightarrow> d | None \<Rightarrow> [])
         in if desc = [] then title else title @ '': '' @ desc)
       (get_str ''title'' f)"

definition scanner_summary :: "json \<Rightarrow> string" where
  "scanner_summary j =
     (case Option.bind (get_str ''summary'' j) (\<lambda>s. if trim s \<noteq> [] then Some s else None) of
        Some s \<Rightarrow> s
      | None \<Rightarrow>
          (case Option.bind (json_get ''findings'' j) as_array of
             None \<Rightarrow> ''semantic risk analysis flagged this command''
           | Some fs \<Rightarrow>
               (case List.map_filter finding_text fs of
                  [] \<Rightarrow> ''semantic risk analysis flagged this command''
                | parts \<Rightarrow> join ''; '' parts)))"

definition scanner_unavailable :: "string \<Rightarrow> bool \<Rightarrow> ScannerVerdict" where
  "scanner_unavailable err fail_open =
     (if fail_open then Allow else ScanDeny (''External security scanner unavailable: '' @ err))"

definition evaluate_response :: "string + json \<Rightarrow> bool \<Rightarrow> ScannerVerdict" where
  "evaluate_response response fail_open =
     (case response of
        Inl err \<Rightarrow> scanner_unavailable err fail_open
      | Inr j \<Rightarrow>
          let action = to_ascii_lowercase (case get_str ''action'' j of Some a \<Rightarrow> a | None \<Rightarrow> []) in
          if action \<in> {''warn'', ''deny'', ''block'', ''reject''} then
            (if action = ''warn'' then Warn (scanner_summary j) else Block (scanner_summary j))
          else if action = ''allow'' then Allow
          else scanner_unavailable ''missing or unknown scanner action'' fail_open)"

text \<open>What came back from the scanner's service.\<close>

datatype ScanReply = Unreachable string | BadStatus string | BadBody string | Body json

definition scan_command :: "ScanReply \<Rightarrow> bool \<Rightarrow> ScannerVerdict" where
  "scan_command reply fail_open =
     (case reply of
        Unreachable err \<Rightarrow> evaluate_response (Inl (''network error: '' @ err)) fail_open
      | BadStatus status \<Rightarrow> evaluate_response (Inl (''HTTP status '' @ status)) fail_open
      | BadBody err \<Rightarrow> evaluate_response (Inl (''failed to decode scanner response JSON: '' @ err)) fail_open
      | Body j \<Rightarrow> evaluate_response (Inr j) fail_open)"

section \<open>The approval gate\<close>

datatype ApprovalPolicy = Smart | AlwaysAsk | Never

definition parse_policy :: "string option \<Rightarrow> ApprovalPolicy" where
  "parse_policy v =
     (case map_option (\<lambda>s. to_ascii_lowercase (trim s)) v of
        Some p \<Rightarrow> if p = ''always'' then AlwaysAsk else if p = ''never'' \<or> p = ''yolo'' then Never else Smart
      | None \<Rightarrow> Smart)"

record TerminalTool =
  tt_root :: string
  tt_extra_roots :: "string list"
  tt_max_output_bytes :: nat
  tt_approval_policy :: ApprovalPolicy
  tt_has_requester :: bool
  tt_deny_globs :: "string list"
  tt_scanner :: "bool option"

text \<open>What the gate learns while it runs: the two answers of \<open>is_yolo\<close>, the scanner's reply, and the
  end of the approval request (\<open>None\<close> when it timed out).  A scanner is the \<open>fail_open\<close> flag it was
  configured with.\<close>

record GateEnv =
  ge_yolo_first :: bool
  ge_yolo_second :: bool
  ge_scan_reply :: ScanReply
  ge_answer :: "SessionKey \<Rightarrow> string \<Rightarrow> string \<Rightarrow> ApprovalScope \<Rightarrow> (ApprovalError + ApprovalDecision) option"

fun approval_error_text :: "ApprovalError \<Rightarrow> string" where
  "approval_error_text Timeout = ''approval request timed out''"
| "approval_error_text Cancelled = ''approval request was cancelled''"
| "approval_error_text (Persistence e) = ''failed to persist always-allow approval: '' @ e"

definition scanner_stage :: "TerminalTool \<Rightarrow> GateEnv \<Rightarrow> OmonError + (ApprovalScope \<times> string option)" where
  "scanner_stage T E =
     (case tt_scanner T of
        None \<Rightarrow> Inr (ScopeAlways, None)
      | Some fail_open \<Rightarrow>
          (case scan_command (ge_scan_reply E) fail_open of
             Allow \<Rightarrow> Inr (ScopeAlways, None)
           | Warn reason \<Rightarrow> Inr (ScopeSession, Some reason)
           | Block reason \<Rightarrow> Inr (ScopeOnce, Some reason)
           | ScanDeny reason \<Rightarrow> Inl (Approval (''BLOCKED (external security scanner): '' @ reason))))"

definition policy_gate :: "ApprovalPolicy \<Rightarrow> DangerousFinding option \<Rightarrow> bool \<times> string" where
  "policy_gate policy finding =
     (case policy of
        Never \<Rightarrow> (False, [])
      | AlwaysAsk \<Rightarrow> (True, case finding of Some f \<Rightarrow> df_description f | None \<Rightarrow> ''approval policy: always'')
      | Smart \<Rightarrow> (case finding of Some f \<Rightarrow> (True, df_description f) | None \<Rightarrow> (False, [])))"

definition with_scanner_reason :: "string option \<Rightarrow> bool \<times> string \<Rightarrow> bool \<times> string" where
  "with_scanner_reason scanner_reason g =
     (case scanner_reason of
        None \<Rightarrow> g
      | Some r \<Rightarrow>
          (True, (if snd g \<noteq> [] then snd g @ ''; '' else snd g) @ ''External security scanner finding: '' @ r))"

definition decide :: "ApprovalDecision \<Rightarrow> OmonError + unit" where
  "decide decision =
     (case decision of
        Deny (Some r) \<Rightarrow>
          Inl (Approval (if trim r \<noteq> [] then ''command denied by user: '' @ trim r else ''command was rejected by the user''))
      | Deny None \<Rightarrow> Inl (Approval ''command was rejected by the user'')
      | _ \<Rightarrow> Inr ())"

definition require_approval ::
  "PolicyLib \<Rightarrow> TerminalTool \<Rightarrow> GateEnv \<Rightarrow> SessionKey option \<Rightarrow> string \<Rightarrow> OmonError + unit" where
  "require_approval P T E session command =
     (case detect_hardline_command P command of
        Some reason \<Rightarrow> Inl (Approval (''BLOCKED (hardline): '' @ reason @
          ''. This command is on the unconditional blocklist and cannot be executed.''))
      | None \<Rightarrow>
     (case match_user_deny_rule (pl_shell P) command (tt_deny_globs T) of
        Some pat \<Rightarrow> Inl (Approval (''BLOCKED: this command matches the user-defined deny rule '' @ [squote] @ pat @ [squote] @
          '' (APPROVALS_DENY). It cannot be executed via the agent '' @ [CHR 0xE2, CHR 0x80, CHR 0x94] @
          '' not even with /yolo or approval bypass. Do NOT retry or rephrase this command; the user has explicitly forbidden it.''))
      | None \<Rightarrow>
      if tt_approval_policy T = Never then Inr ()
      else if session \<noteq> None \<and> tt_has_requester T \<and> ge_yolo_first E then Inr ()
      else and_then (scanner_stage T E) (\<lambda>(max_scope, scanner_reason).
        case with_scanner_reason scanner_reason (policy_gate (tt_approval_policy T) (detect_dangerous_command P command)) of
          (gated, reason) \<Rightarrow>
        if \<not> gated then Inr ()
        else case session of
          None \<Rightarrow> Inl (Approval ''command requires interactive approval, but no session is available'')
        | Some s \<Rightarrow>
            if \<not> tt_has_requester T
            then Inl (Approval ''command requires interactive approval, but no approval guard is configured'')
            else if ge_yolo_second E then Inr ()
            else case ge_answer E s command reason max_scope of
              None \<Rightarrow> Inl (Approval ''approval request timed out'')
            | Some (Inl err) \<Rightarrow> Inl (Approval (approval_error_text err))
            | Some (Inr decision) \<Rightarrow> decide decision)))"

section \<open>Working directory and program\<close>

record FileSystem =
  fs_canonicalize :: "string \<Rightarrow> string + string"
  fs_is_dir :: "string \<Rightarrow> bool"
  fs_is_file :: "string \<Rightarrow> bool"

definition canonical :: "FileSystem \<Rightarrow> string \<Rightarrow> OmonError + string" where
  "canonical F path = (case fs_canonicalize F path of Inl err \<Rightarrow> Inl (ToolExecution err) | Inr p \<Rightarrow> Inr p)"

definition with_authorized_roots :: "FileSystem \<Rightarrow> string list \<Rightarrow> TerminalTool \<Rightarrow> TerminalTool" where
  "with_authorized_roots F roots T =
     T\<lparr>tt_extra_roots := List.map_filter (\<lambda>path.
         case fs_canonicalize F path of
           Inr c \<Rightarrow> if fs_is_dir F c then Some c else None
         | Inl _ \<Rightarrow> None) roots\<rparr>"

definition is_authorized :: "FileSystem \<Rightarrow> TerminalTool \<Rightarrow> string \<Rightarrow> bool" where
  "is_authorized F T path \<longleftrightarrow>
     (case canonical F (tt_root T) of Inr root \<Rightarrow> path_starts_with root path | Inl _ \<Rightarrow> False) \<or>
     list_ex (\<lambda>root. path_starts_with root path) (tt_extra_roots T)"

definition is_absolute :: "string \<Rightarrow> bool" where
  "is_absolute path \<longleftrightarrow> starts_with ''/'' path"

text \<open>\<open>Path::join\<close> with a relative path.\<close>

definition path_join :: "string \<Rightarrow> string \<Rightarrow> string" where
  "path_join base path =
     (if is_absolute path then path
      else if base = [] \<or> last base = CHR ''/'' then base @ path else base @ ''/'' @ path)"

definition working_directory :: "FileSystem \<Rightarrow> TerminalTool \<Rightarrow> string option \<Rightarrow> OmonError + string" where
  "working_directory F T requested =
     (let requested = (case requested of Some r \<Rightarrow> r | None \<Rightarrow> ''.'') in
      and_then (if is_absolute requested then Inr requested
                else and_then (canonical F (tt_root T)) (\<lambda>root. Inr (path_join root requested))) (\<lambda>target.
      and_then (canonical F target) (\<lambda>path.
        if \<not> is_authorized F T path \<or> \<not> fs_is_dir F path
        then Inl (ToolExecution ''working directory escapes tool root'')
        else Inr path)))"

datatype PathBufOrName = PathBuf string | Name string

definition executable :: "FileSystem \<Rightarrow> TerminalTool \<Rightarrow> string \<Rightarrow> string \<Rightarrow> OmonError + PathBufOrName" where
  "executable F T program cwd =
     (if \<not> (length (path_components program) > 1 \<or> is_absolute program \<or> CHR ''/'' \<in> set program)
      then Inr (Name program)
      else
        and_then (canonical F (if is_absolute program then program else path_join cwd program)) (\<lambda>exe.
          if \<not> is_authorized F T exe \<or> \<not> fs_is_file F exe
          then Inl (ToolExecution ''program path escapes tool root'')
          else Inr (PathBuf exe)))"

section \<open>Starting the process\<close>

text \<open>The command the gate classifies: the arguments, quoted.\<close>

definition plain_byte :: "char \<Rightarrow> bool" where
  "plain_byte b \<longleftrightarrow>
     (48 \<le> byte_val b \<and> byte_val b \<le> 57) \<or> (65 \<le> byte_val b \<and> byte_val b \<le> 90) \<or> (97 \<le> byte_val b \<and> byte_val b \<le> 122) \<or>
     b \<in> set ''_./:@%+=,-''"

definition quote_word :: "string \<Rightarrow> string" where
  "quote_word word =
     (if word \<noteq> [] \<and> list_all plain_byte word then word
      else [squote] @ str_replace [squote] [squote, dquote, squote, dquote, squote] word @ [squote])"

definition command_text :: "string list \<Rightarrow> string" where
  "command_text argv = join '' '' (map quote_word argv)"

definition required_string :: "string \<Rightarrow> json \<Rightarrow> OmonError + string" where
  "required_string key args =
     ok_or (ToolExecution (''missing string argument: '' @ key))
       (Option.bind (get_str key args) (\<lambda>v. if v \<noteq> [] then Some v else None))"

fun string_args :: "json list \<Rightarrow> OmonError + string list" where
  "string_args [] = Inr []"
| "string_args (v # vs) =
     (case as_str v of
        None \<Rightarrow> Inl (ToolExecution ''terminal args must be strings'')
      | Some s \<Rightarrow> and_then (string_args vs) (\<lambda>ss. Inr (s # ss)))"

definition protected_env_keys :: "string list" where
  "protected_env_keys = [''PATH'', ''LD_PRELOAD'', ''LD_LIBRARY_PATH'', ''LD_AUDIT'',
     ''DYLD_INSERT_LIBRARIES'', ''DYLD_LIBRARY_PATH'', ''DYLD_FRAMEWORK_PATH'']"

definition is_protected_env_key :: "string \<Rightarrow> bool" where
  "is_protected_env_key key = list_ex (\<lambda>p. eq_ignore_ascii_case key p) protected_env_keys"

fun caller_env :: "(string \<times> json) list \<Rightarrow> OmonError + (string \<times> string) list" where
  "caller_env [] = Inr []"
| "caller_env ((key, v) # env) =
     (if is_protected_env_key key then Inl (ToolExecution (''terminal env may not override '' @ key))
      else case as_str v of
        None \<Rightarrow> Inl (ToolExecution ''terminal env values must be strings'')
      | Some s \<Rightarrow> and_then (caller_env env) (\<lambda>rest. Inr ((key, s) # rest)))"

text \<open>A map with distinct keys; the code iterates over it in an unspecified order.\<close>

definition build_session_environment :: "SessionKey \<Rightarrow> (string \<times> string) list" where
  "build_session_environment s =
     [(''OMON_SESSION_ID'', storage_key s), (''OMON_SESSION_KEY'', storage_key s),
      (''OMON_SESSION_PLATFORM'', platform s), (''OMON_SESSION_CHANNEL'', channel_id s),
      (''OMON_SESSION_CHANNEL_ID'', channel_id s), (''OMON_SESSION_USER_ID'', user_id s),
      (''HERMES_SESSION_ID'', storage_key s), (''HERMES_SESSION_KEY'', storage_key s),
      (''HERMES_SESSION_PLATFORM'', platform s), (''HERMES_SESSION_CHAT_ID'', channel_id s),
      (''HERMES_SESSION_USER_ID'', user_id s)] @
     (case guild_id s of Some g \<Rightarrow> [(''OMON_SESSION_GUILD_ID'', g), (''HERMES_SESSION_GUILD_ID'', g)] | None \<Rightarrow> []) @
     (case thread_id s of Some t \<Rightarrow> [(''OMON_SESSION_THREAD_ID'', t), (''HERMES_SESSION_THREAD_ID'', t)] | None \<Rightarrow> [])"

fun unseen :: "string set \<Rightarrow> string list \<Rightarrow> string list" where
  "unseen seen [] = []"
| "unseen seen (x # xs) = (if x \<in> seen then unseen seen xs else x # unseen (insert x seen) xs)"

definition build_augmented_path :: "string option \<Rightarrow> string option \<Rightarrow> string" where
  "build_augmented_path extra current =
     (let extra_val = (case extra of Some x \<Rightarrow> x | None \<Rightarrow> []); current_val = (case current of Some x \<Rightarrow> x | None \<Rightarrow> []);
          sep = (if CHR '';'' \<in> set extra_val \<or> CHR '';'' \<in> set current_val then CHR '';'' else CHR '':'');
          parts = (\<lambda>v. filter (\<lambda>p. p \<noteq> []) (map trim (split_on sep v)))
      in join [sep] (unseen {} (parts extra_val @ parts current_val)))"

record ProcessEnv =
  pe_omon_extra_path :: "string option"
  pe_extra_path :: "string option"
  pe_path :: "string option"

definition augmented_path_from_environment :: "ProcessEnv \<Rightarrow> string" where
  "augmented_path_from_environment V =
     build_augmented_path
       (Some (case or_else (pe_omon_extra_path V) (pe_extra_path V) of
                Some x \<Rightarrow> x | None \<Rightarrow> ''/opt/homebrew/bin:/usr/local/bin''))
       (pe_path V)"

record SpawnSpec =
  sp_program :: PathBufOrName
  sp_args :: "string list"
  sp_cwd :: string
  sp_env :: "(string \<times> string) list"

text \<open>Everything up to \<open>spawn\<close>; \<open>sp_env\<close> lists the calls of \<open>Command::env\<close> in order, of which the last
  one for a name takes effect.\<close>

definition prepare_command ::
  "PolicyLib \<Rightarrow> FileSystem \<Rightarrow> ProcessEnv \<Rightarrow> TerminalTool \<Rightarrow> GateEnv \<Rightarrow> json \<Rightarrow> SessionKey option \<Rightarrow> OmonError + SpawnSpec" where
  "prepare_command P F V T E args session =
     and_then (required_string ''program'' args) (\<lambda>program.
     and_then (string_args (case Option.bind (json_get ''args'' args) as_array of Some vs \<Rightarrow> vs | None \<Rightarrow> [])) (\<lambda>process_args.
     and_then (require_approval P T E session (command_text (program # process_args))) (\<lambda>_.
     and_then (working_directory F T (get_str ''cwd'' args)) (\<lambda>cwd.
     and_then (executable F T program cwd) (\<lambda>exe.
     and_then (caller_env (case Option.bind (json_get ''env'' args) as_object of Some m \<Rightarrow> m | None \<Rightarrow> [])) (\<lambda>env.
       let path = augmented_path_from_environment V in
       Inr \<lparr>sp_program = exe, sp_args = process_args, sp_cwd = cwd,
            sp_env = (if path \<noteq> [] then [(''PATH'', path)] else []) @
              (case session of Some s \<Rightarrow> build_session_environment s | None \<Rightarrow> []) @ env\<rparr>))))))"

section \<open>The report\<close>

text \<open>\<open>read_capped\<close> keeps one byte more than the limit; \<open>lossy\<close> is \<open>String::from_utf8_lossy\<close>.\<close>

definition read_capped :: "string \<Rightarrow> nat \<Rightarrow> string" where
  "read_capped produced limit = take (limit + 1) produced"

definition capture :: "(string \<Rightarrow> string) \<Rightarrow> string \<Rightarrow> nat \<Rightarrow> string \<times> bool" where
  "capture lossy bytes limit =
     (if length bytes \<le> limit then (lossy bytes, False)
      else
        let head_len = (limit * 2) div 5;
            tail_len = limit - head_len;
            head_bytes = take (min head_len (length bytes)) bytes;
            tail_bytes = drop (length bytes - tail_len) bytes;
            omitted = length bytes - length head_bytes - length tail_bytes
        in (lossy head_bytes @ [newline, newline] @ ''... [output truncated: '' @ dec omitted @ '' bytes omitted] ...'' @
            [newline, newline] @ lossy tail_bytes, True))"

datatype ProcessRun =
    SpawnFailed string
  | TimedOut string
  | RunFailed string
  | Exited bool "int option" string string

definition report :: "(string \<Rightarrow> string) \<Rightarrow> TerminalTool \<Rightarrow> ProcessRun \<Rightarrow> OmonError + json" where
  "report lossy T run =
     (case run of
        SpawnFailed err \<Rightarrow> Inl (ToolExecution err)
      | TimedOut timeout \<Rightarrow> Inl (ToolExecution (''process timed out after '' @ timeout))
      | RunFailed err \<Rightarrow> Inl (ToolExecution err)
      | Exited success code out err \<Rightarrow>
          let limit = tt_max_output_bytes T;
              (stdout, stdout_truncated) = capture lossy (read_capped out limit) limit;
              (stderr, stderr_truncated) = capture lossy (read_capped err limit) limit
          in Inr (JObj [(''success'', JBool success), (''exit_code'', case code of Some c \<Rightarrow> JNum c | None \<Rightarrow> JNull),
               (''stdout'', JStr stdout), (''stderr'', JStr stderr),
               (''stdout_truncated'', JBool stdout_truncated), (''stderr_truncated'', JBool stderr_truncated)]))"

definition execute_inner ::
  "PolicyLib \<Rightarrow> FileSystem \<Rightarrow> ProcessEnv \<Rightarrow> (string \<Rightarrow> string) \<Rightarrow> TerminalTool \<Rightarrow> GateEnv \<Rightarrow>
   (SpawnSpec \<Rightarrow> ProcessRun) \<Rightarrow> json \<Rightarrow> SessionKey option \<Rightarrow> OmonError + json" where
  "execute_inner P F V lossy T E run args session =
     and_then (prepare_command P F V T E args session) (\<lambda>spec. report lossy T (run spec))"
end
