(* ===== verification/Terminal_Properties.thy ===== *)
theory Terminal_Properties
  imports Shell_Properties Terminal_Tool
begin

text \<open>Properties of the terminal tool: what a process that was started went through, where it runs,
  and that the command the gate classifies is the argument list and nothing else.\<close>

section \<open>The argument list as tokens\<close>

lemma plain_byte_not_special:
  "plain_byte b \<Longrightarrow> b \<noteq> squote \<and> b \<noteq> dquote \<and> b \<noteq> backslash \<and> \<not> is_ascii_whitespace b"
  by (auto simp: plain_byte_def is_ascii_whitespace_def byte_val_def)

lemma token_scan_plain:
  "list_all plain_byte w \<Longrightarrow>
   token_scan None val i (w @ rest) = token_scan None (val @ bytes_as_chars w) (i + length w) rest"
proof (induction w arbitrary: val i)
  case (Cons b w)
  then show ?case using plain_byte_not_special [of b] by simp
qed simp

lemma token_scan_quote_word:
  "token_scan None val i (quote_word w @ rest) =
   token_scan None (val @ bytes_as_chars w) (i + length (quote_word w)) rest"
  using token_scan_plain token_scan_requoted [of val "Suc i" w rest]
  by (simp add: quote_word_def add.commute)

lemma token_scan_end:
  "rest = [] \<or> (\<exists>r. rest = CHR '' '' # r) \<Longrightarrow> token_scan None val i rest = Some (val, i, None)"
  by (auto simp: is_ascii_whitespace_def)

lemma quote_word_start: "\<exists>c cs. quote_word w = c # cs \<and> \<not> is_ascii_whitespace c"
  using plain_byte_not_special by (cases w) (auto simp: quote_word_def)

lemma quote_word_not_Nil [simp]: "quote_word w \<noteq> []"
  using quote_word_start [of w] by auto

lemma command_text_Cons:
  "command_text (w # ws) = quote_word w @ (if ws = [] then [] else CHR '' '' # command_text ws)"
  by (cases ws) (simp_all add: command_text_def)

lemma skip_to_word:
  assumes "drop start seg = sp @ quote_word w @ rest" and "sp = [] \<or> sp = '' ''"
  shows "skip_space seg start = start + length sp \<and> drop (start + length sp) seg = quote_word w @ rest"
proof -
  obtain c cs where q: "quote_word w = c # cs" "\<not> is_ascii_whitespace c" using quote_word_start by blast
  have "drop (start + length sp) seg = drop (length sp) (drop start seg)" by (simp add: add.commute)
  with assms q show ?thesis by (auto simp: skip_space_def is_ascii_whitespace_def)
qed

lemma tokens_of_arguments:
  assumes "drop start seg = sp @ command_text argv" and "sp = [] \<or> sp = '' ''" and "argv \<noteq> []"
  shows "\<exists>toks. shell_tokens_with_spans seg start = Some toks \<and> map st_value toks = map bytes_as_chars argv"
  using assms
proof (induction argv arbitrary: start sp)
  case (Cons w ws)
  define rest where "rest = (if ws = [] then [] else CHR '' '' # command_text ws)"
  have d: "drop start seg = sp @ quote_word w @ rest"
    using Cons.prems(1) by (simp add: command_text_Cons rest_def)
  define i where "i = start + length sp"
  have skip: "skip_space seg start = i" and at: "drop i seg = quote_word w @ rest"
    using skip_to_word [OF d Cons.prems(2)] by (simp_all add: i_def)
  have i: "i < length seg" using at quote_word_start [of w] by (metis drop_all append_is_Nil_conv list.distinct(1) not_le)
  define e where "e = i + length (quote_word w)"
  have scan: "token_scan None [] i (drop i seg) = Some (bytes_as_chars w, e, None)"
    by (simp add: at token_scan_quote_word token_scan_end rest_def e_def)
  have "drop e seg = drop (length (quote_word w)) (drop i seg)" by (simp add: e_def add.commute)
  then have rest: "drop e seg = rest" by (simp add: at)
  have "\<exists>toks. shell_tokens_with_spans seg e = Some toks \<and> map st_value toks = map bytes_as_chars ws"
  proof (cases "ws = []")
    case True
    then have "skip_space seg e \<ge> length seg" using rest by (simp add: skip_space_def rest_def)
    then show ?thesis using True by (simp add: shell_tokens_with_spans.simps [of seg e] Let_def)
  next
    case False
    then show ?thesis using Cons.IH [of e "'' ''"] rest by (simp add: rest_def)
  qed
  with scan i skip show ?case by (auto simp: shell_tokens_with_spans.simps [of seg start] Let_def)
qed simp

section \<open>The argument list as one segment\<close>

definition quoted_chars :: "string \<Rightarrow> string list" where
  "quoted_chars w =
     (if w \<noteq> [] \<and> list_all plain_byte w then map (\<lambda>b. [b]) w
      else [[squote]] @ requoted_chars (chars w) @ [[squote]])"

lemma plain_byte_ascii: "plain_byte b \<Longrightarrow> \<not> is_cont b \<and> \<not> is_separator [b]"
proof -
  assume p: "plain_byte b"
  then have "byte_val b < 128" by (auto simp: plain_byte_def byte_val_def)
  with p not_cont_ascii show ?thesis by (auto simp: is_separator_def plain_byte_def byte_val_def)
qed

lemma quoted_chars_word:
  assumes "utf8_text w"
  shows "concat (quoted_chars w) = quote_word w" and "list_all utf8_char (quoted_chars w)"
proof -
  have r: "requoted w = concat (requoted_chars (chars w))"
    using requoted_concat [of "chars w"] assms by (simp add: utf8_text_def)
  show "concat (quoted_chars w) = quote_word w"
    by (simp add: quoted_chars_def quote_word_def r o_def)
  show "list_all utf8_char (quoted_chars w)"
    using assms utf8_requoted [of "chars w"] plain_byte_ascii
    by (auto simp: quoted_chars_def utf8_text_def list_all_iff is_cont_def)
qed

lemma seg_run_plain: "list_all plain_byte w \<Longrightarrow> seg_run None False (map (\<lambda>b. [b]) w) = Some (None, False)"
proof (induction w)
  case (Cons b w)
  then show ?case using plain_byte_not_special [of b] plain_byte_ascii [of b] by (simp add: seg_step_def)
qed simp

lemma seg_run_quoted: "seg_run None False (quoted_chars w) = Some (None, False)"
  using seg_run_plain seg_run_requoted
  by (auto simp: quoted_chars_def seg_run_append seg_step_def)

fun command_chars :: "string list \<Rightarrow> string list" where
  "command_chars [] = []"
| "command_chars [w] = quoted_chars w"
| "command_chars (w # v # ws) = quoted_chars w @ [[CHR '' '']] @ command_chars (v # ws)"

lemma command_chars_text:
  assumes "list_all utf8_text argv"
  shows "concat (command_chars argv) = command_text argv \<and> list_all utf8_char (command_chars argv)"
  using assms
proof (induction argv rule: command_chars.induct)
  case (3 w v ws)
  then show ?case using quoted_chars_word [of w] by (simp add: command_text_Cons [of w] is_cont_def)
qed (simp_all add: command_text_def quoted_chars_word)

lemma seg_run_command: "seg_run None False (command_chars argv) = Some (None, False)"
  by (induction argv rule: command_chars.induct)
    (auto simp: seg_run_append seg_run_quoted seg_step_def is_separator_def)



section \<open>What a started process went through\<close>

definition scope_of_scan :: "TerminalTool \<Rightarrow> GateEnv \<Rightarrow> ApprovalScope" where
  "scope_of_scan T E =
     (case map_option (scan_command (ge_scan_reply E)) (tt_scanner T) of
        Some (Warn _) \<Rightarrow> ScopeSession | Some (Block _) \<Rightarrow> ScopeOnce | _ \<Rightarrow> ScopeAlways)"

definition scan_allows :: "TerminalTool \<Rightarrow> GateEnv \<Rightarrow> bool" where
  "scan_allows T E \<longleftrightarrow> (case tt_scanner T of None \<Rightarrow> True | Some f \<Rightarrow> scan_command (ge_scan_reply E) f = Allow)"

definition switched_off :: "TerminalTool \<Rightarrow> GateEnv \<Rightarrow> SessionKey option \<Rightarrow> bool" where
  "switched_off T E session \<longleftrightarrow> session \<noteq> None \<and> tt_has_requester T \<and> (ge_yolo_first E \<or> ge_yolo_second E)"

definition approved_by_person :: "TerminalTool \<Rightarrow> GateEnv \<Rightarrow> SessionKey option \<Rightarrow> string \<Rightarrow> bool" where
  "approved_by_person T E session command \<longleftrightarrow>
     (\<exists>s reason d. session = Some s \<and> tt_has_requester T \<and>
        ge_answer E s command reason (scope_of_scan T E) = Some (Inr d) \<and> is_approved_decision d)"

lemma decide_Inr: "decide d = Inr u \<Longrightarrow> is_approved_decision d"
  by (cases d) (auto simp: decide_def split: option.splits)

lemma scanner_stage_scope: "scanner_stage T E = Inr (scope, r) \<Longrightarrow>
    scope = scope_of_scan T E \<and> (r = None \<longleftrightarrow> scan_allows T E)"
  by (auto simp: scanner_stage_def scope_of_scan_def scan_allows_def split: option.splits ScannerVerdict.splits)

lemma policy_gate_open: "\<not> fst (policy_gate p f) \<Longrightarrow> p = Never \<or> (p = Smart \<and> f = None)"
  by (cases p) (auto simp: policy_gate_def split: option.splits)

definition gate_passed :: "PolicyLib \<Rightarrow> TerminalTool \<Rightarrow> GateEnv \<Rightarrow> SessionKey option \<Rightarrow> string \<Rightarrow> bool" where
  "gate_passed P T E session command \<longleftrightarrow>
     detect_hardline_command P command = None \<and>
     match_user_deny_rule (pl_shell P) command (tt_deny_globs T) = None \<and>
     (tt_approval_policy T = Never \<or> switched_off T E session \<or>
      (tt_approval_policy T = Smart \<and> \<not> is_dangerous P command \<and> scan_allows T E) \<or>
      approved_by_person T E session command)"

lemma require_approval_passed:
  assumes "require_approval P T E session command = Inr u"
  shows "gate_passed P T E session command"
proof -
  note r = assms [unfolded require_approval_def]
  have hard: "detect_hardline_command P command = None"
    and deny: "match_user_deny_rule (pl_shell P) command (tt_deny_globs T) = None"
    using r by (auto split: option.splits)
  show ?thesis
  proof (cases "tt_approval_policy T = Never \<or> switched_off T E session")
    case True
    with hard deny show ?thesis by (auto simp: gate_passed_def)
  next
    case False
    with r hard deny obtain scope reason where st: "scanner_stage T E = Inr (scope, reason)"
      and rest: "(case with_scanner_reason reason (policy_gate (tt_approval_policy T) (detect_dangerous_command P command)) of
          (gated, txt) \<Rightarrow>
        if \<not> gated then Inr ()
        else case session of
          None \<Rightarrow> Inl (Approval ''command requires interactive approval, but no session is available'')
        | Some s \<Rightarrow>
            if \<not> tt_has_requester T
            then Inl (Approval ''command requires interactive approval, but no approval guard is configured'')
            else if ge_yolo_second E then Inr ()
            else case ge_answer E s command txt scope of
              None \<Rightarrow> Inl (Approval ''approval request timed out'')
            | Some (Inl err) \<Rightarrow> Inl (Approval (approval_error_text err))
            | Some (Inr decision) \<Rightarrow> decide decision) = Inr u"
      by (auto simp: switched_off_def and_then_Inr_iff)
    obtain gated why where g: "with_scanner_reason reason (policy_gate (tt_approval_policy T) (detect_dangerous_command P command)) = (gated, why)"
      by fastforce
    show ?thesis
    proof (cases gated)
      case True
      with rest g False obtain s d where "session = Some s" "tt_has_requester T"
        "ge_answer E s command why scope = Some (Inr d)" "decide d = Inr u"
        by (auto simp: switched_off_def split: option.splits sum.splits if_splits)
      then have "approved_by_person T E session command"
        using scanner_stage_scope [OF st] decide_Inr unfolding approved_by_person_def by blast
      with hard deny show ?thesis by (simp add: gate_passed_def)
    next
      case False
      then have "reason = None" "\<not> fst (policy_gate (tt_approval_policy T) (detect_dangerous_command P command))"
        using g by (auto simp: with_scanner_reason_def split: option.splits)
      then show ?thesis using policy_gate_open scanner_stage_scope [OF st] hard deny
        by (auto simp: gate_passed_def is_dangerous_def)
    qed
  qed
qed

section \<open>A sample command\<close>

definition sample_policy :: PolicyLib where
  "sample_policy = \<lparr>pl_shell = sample_shell, re_hardline = (\<lambda>k s. k = 9 \<and> contains ''reboot'' s), re_sudo_stdin = (\<lambda>_. False),
     sudo_password_set = False, re_pattern = (\<lambda>k s. k = 1 \<and> contains ''rm -r'' s), re_sql_delete_from = (\<lambda>_. False),
     re_sql_where = (\<lambda>_. False), re_injection = (\<lambda>_ _. False), re_terminal_escape = id, re_sentinel = id,
     temp_dir = ''/tmp''\<rparr>"

lemma sample_harmless:
  "detect_hardline_command sample_policy ''ls'' = None" "detect_dangerous_command sample_policy ''ls'' = None"
proof -
  have "\<not> command_parser_limit_exceeded ''ls''"
    by (simp add: command_parser_limit_exceeded_def is_separator_def is_cont_def)
  moreover have "first_rule (re_hardline sample_policy) hardline_patterns (to_ascii_lowercase ''ls'') = None"
    "first_rule (re_pattern sample_policy) dangerous_patterns ''ls'' = None"
    "check_sql_delete_without_where sample_policy ''ls'' = False"
    "is_verification_artifact_cleanup sample_policy ''ls'' = False"
    by code_simp+
  moreover have "check_sudo_stdin_guard sample_policy ''ls'' = None" "pl_shell sample_policy = sample_shell"
    by (simp_all add: check_sudo_stdin_guard_def sample_policy_def)
  ultimately show "detect_hardline_command sample_policy ''ls'' = None" "detect_dangerous_command sample_policy ''ls'' = None"
    by (simp_all add: detect_hardline_command_def detect_dangerous_command_def sample_scans sample_variants)
qed

lemmas prepare_inversion = prepare_command_def and_then_Inr_iff Let_def

text \<open>C9: a process is started only for a command that is on no block list and matches no deny rule,
  whatever the policy, and that, unless approvals are off for the tool or the session, is either
  harmless in the eyes of the patterns and the scanner or was approved by a person, at most to the
  extent the scanner's verdict leaves.\<close>

theorem process_is_gated:
  assumes "prepare_command P F V T E args session = Inr spec"
  shows "\<exists>program. required_string ''program'' args = Inr program \<and>
    gate_passed P T E session (command_text (program # sp_args spec))"
proof -
  obtain program u where "required_string ''program'' args = Inr program"
    "require_approval P T E session (command_text (program # sp_args spec)) = Inr u"
    using assms by (auto simp: prepare_inversion)
  with require_approval_passed show ?thesis by blast
qed
definition sample_fs :: FileSystem where
  "sample_fs = \<lparr>fs_canonicalize = (\<lambda>p. if p \<in> {''/w'', ''/w/.''} then Inr ''/w'' else Inr p),
     fs_is_dir = (\<lambda>p. p = ''/w''), fs_is_file = (\<lambda>_. False)\<rparr>"

definition sample_env :: ProcessEnv where
  "sample_env = \<lparr>pe_omon_extra_path = None, pe_extra_path = Some ''/x'', pe_path = Some ''/bin:/x''\<rparr>"

definition sample_tool :: TerminalTool where
  "sample_tool = \<lparr>tt_root = ''/w'', tt_extra_roots = [], tt_max_output_bytes = 10, tt_approval_policy = Smart,
     tt_has_requester = False, tt_deny_globs = [], tt_scanner = None\<rparr>"

definition sample_gate :: GateEnv where
  "sample_gate = \<lparr>ge_yolo_first = False, ge_yolo_second = False, ge_scan_reply = Unreachable [], ge_answer = (\<lambda>_ _ _ _. None)\<rparr>"

abbreviation sample_args :: json where
  "sample_args \<equiv> JObj [(''program'', JStr ''ls''), (''env'', JObj [(''A'', JStr ''1'')])]"

lemma sample_approved: "require_approval sample_policy sample_tool sample_gate None ''ls'' = Inr ()"
proof -
  have "match_user_deny_rule (pl_shell sample_policy) ''ls'' (tt_deny_globs sample_tool) = None"
    by (simp add: match_user_deny_rule_def sample_tool_def)
  then show ?thesis
    by (simp add: require_approval_def sample_harmless sample_tool_def scanner_stage_def with_scanner_reason_def policy_gate_def)
qed

lemma sample_prepared:
  "prepare_command sample_policy sample_fs sample_env sample_tool sample_gate sample_args None =
     Inr \<lparr>sp_program = Name ''ls'', sp_args = [], sp_cwd = ''/w'', sp_env = [(''PATH'', ''/x:/bin''), (''A'', ''1'')]\<rparr>"
proof -
  have "required_string ''program'' sample_args = Inr ''ls''"
    "string_args (case Option.bind (json_get ''args'' sample_args) as_array of Some vs \<Rightarrow> vs | None \<Rightarrow> []) = Inr []"
    "command_text [''ls''] = ''ls''"
    "working_directory sample_fs sample_tool (get_str ''cwd'' sample_args) = Inr ''/w''"
    "executable sample_fs sample_tool ''ls'' ''/w'' = Inr (Name ''ls'')"
    "caller_env (case Option.bind (json_get ''env'' sample_args) as_object of Some m \<Rightarrow> m | None \<Rightarrow> []) = Inr [(''A'', ''1'')]"
    "augmented_path_from_environment sample_env = ''/x:/bin''"
    by code_simp+
  then show ?thesis by (simp add: prepare_command_def sample_approved)
qed

theorem process_is_gated_witness:
  "\<exists>spec. prepare_command sample_policy sample_fs sample_env sample_tool sample_gate sample_args None = Inr spec \<and>
     detect_hardline_command sample_policy (command_text (''ls'' # sp_args spec)) = None"
proof -
  have "required_string ''program'' sample_args = Inr ''ls''" by code_simp
  then show ?thesis using process_is_gated [OF sample_prepared] sample_prepared by (auto simp: gate_passed_def)
qed

section \<open>Where a process runs and what it inherits\<close>

lemma working_directory_confined:
  "working_directory F T r = Inr p \<Longrightarrow> is_authorized F T p \<and> fs_is_dir F p"
  by (auto simp: working_directory_def Let_def and_then_Inr_iff split: if_splits)

lemma executable_confined:
  "executable F T program cwd = Inr (PathBuf p) \<Longrightarrow> is_authorized F T p \<and> fs_is_file F p"
  "executable F T program cwd = Inr (Name n) \<Longrightarrow> n = program \<and> CHR ''/'' \<notin> set n"
  by (auto simp: executable_def and_then_Inr_iff split: if_splits)

lemma caller_env_unprotected: "caller_env m = Inr env \<Longrightarrow> list_all (\<lambda>(k, _). \<not> is_protected_env_key k) env"
  by (induction m arbitrary: env rule: caller_env.induct)
    (auto simp: and_then_Inr_iff split: if_splits option.splits)

lemma protected_initial: "is_protected_env_key k \<Longrightarrow> k \<noteq> [] \<and> ascii_lower (hd k) \<in> {CHR ''p'', CHR ''l'', CHR ''d''}"
proof -
  assume "is_protected_env_key k"
  then obtain p where p: "p \<in> set protected_env_keys" and e: "map ascii_lower k = map ascii_lower p"
    by (auto simp: is_protected_env_key_def list_ex_iff eq_ignore_ascii_case_def to_ascii_lowercase_def)
  have "list_all (\<lambda>p. p \<noteq> [] \<and> ascii_lower (hd p) \<in> {CHR ''p'', CHR ''l'', CHR ''d''}) protected_env_keys" by code_simp
  with p have h: "p \<noteq> []" "ascii_lower (hd p) \<in> {CHR ''p'', CHR ''l'', CHR ''d''}" by (auto simp: list_all_iff)
  with e have "k \<noteq> []" by auto
  with e h(1) have "ascii_lower (hd k) = ascii_lower (hd p)" by (metis list.map_sel(1))
  with h(2) \<open>k \<noteq> []\<close> show ?thesis by simp
qed

lemma session_env_unprotected: "list_all (\<lambda>(k, _). \<not> is_protected_env_key k) (build_session_environment s)"
proof -
  have "ascii_lower (CHR ''O'') = CHR ''o''" "ascii_lower (CHR ''H'') = CHR ''h''" by code_simp+
  then show ?thesis by (auto simp: build_session_environment_def dest!: protected_initial split: option.split)
qed



section \<open>The report\<close>

text \<open>Since the reader keeps one byte more than the limit, the report always speaks of one omitted
  byte, and its tail is the end of the bytes kept, not of the output.\<close>

lemma report_always_omits_one:
  assumes "length produced > limit"
  shows "capture lossy (read_capped produced limit) limit =
    (lossy (take ((limit * 2) div 5) produced) @ [newline, newline] @ ''... [output truncated: 1 bytes omitted] ...'' @
     [newline, newline] @ lossy (drop (Suc ((limit * 2) div 5)) (take (Suc limit) produced)), True)"
proof -
  have "length (read_capped produced limit) = Suc limit" using assms by (simp add: read_capped_def)
  moreover have "(limit * 2) div 5 \<le> limit" by simp
  moreover have "dec (Suc 0) = ''1''" by code_simp
  ultimately show ?thesis using assms
    by (simp add: capture_def read_capped_def Let_def min_def)
qed
end
