(* ===== verification/Session_Store.thy ===== *)
theory Session_Store
  imports Delivery_Ledger Json_Value "HOL-Library.Word"
begin

section \<open>The tables of sessions and their operations\<close>

text \<open>
  The storage module (\<open>src/storage/db.rs\<close>): the tables that hang on a session, the flags a restart
  reads, the last unfinished turn of a transcript, the owners of threads and the targets that are
  known to be dead.  A statement of the module is one definition; \<open>updated_at\<close> is an argument.  The
  codec of the state column (\<open>serde_json\<close>) and SQLite's JSON functions are parameters, bundled in
  the record \<open>Codec\<close>.
\<close>

subsection \<open>Rows\<close>

record StoredSession =
  st_key :: string
  st_platform :: string
  st_guild_id :: "string option"
  st_channel_id :: string
  st_thread_id :: "string option"
  st_user_id :: string
  st_state_json :: string
  st_resume_pending :: int
  st_updated_at :: int

record TranscriptRow =
  tr_id :: string
  tr_session_key :: string
  tr_sequence :: int
  tr_role :: string
  tr_content :: string
  tr_metadata_json :: string
  tr_created_at :: int
  tr_platform_message_id :: "string option"

record MemoryRow =
  me_id :: string
  me_session_key :: string
  me_content :: string
  me_metadata_json :: string

record PendingWrite =
  pw_id :: string
  pw_kind :: string
  pw_payload :: string
  pw_created_at :: int

record PendingAuth =
  pa_message_id :: string
  pa_message_sequence :: int
  pa_canonical_key :: string
  pa_raw_key :: string
  pa_author_id :: string

text \<open>The rows of the message index the recovery reads, with the \<open>source\<close> of their metadata
  (\<open>None\<close> where that is no JSON text or has none).\<close>

record SearchDocument =
  sd_platform :: string
  sd_guild_id :: "string option"
  sd_channel_id :: string
  sd_message_id :: string
  sd_author_id :: string
  sd_source :: "string option"

record DeadTarget =
  dt_bot_id :: string
  dt_channel_id :: int
  dt_status_code :: int
  dt_error_message :: string
  dt_dead_since :: string

text \<open>A cron job is here its id and the session it belongs to.\<close>

record Store =
  so_sessions :: "StoredSession list"
  so_messages :: "TranscriptRow list"
  so_ledger :: "DeliveryLedgerEntry list"
  so_cron_jobs :: "(string \<times> string option) list"
  so_memories :: "MemoryRow list"
  so_obligations :: "DeliveryObligation list"
  so_pending_writes :: "PendingWrite list"
  so_conflicts :: "(string \<times> string) list"
  so_pending_auth :: "PendingAuth list"
  so_documents :: "SearchDocument list"
  so_thread_owners :: "(string \<times> string) list"
  so_dead_targets :: "DeadTarget list"

definition store_empty :: Store where
  "store_empty = \<lparr>so_sessions = [], so_messages = [], so_ledger = [], so_cron_jobs = [],
     so_memories = [], so_obligations = [], so_pending_writes = [], so_conflicts = [],
     so_pending_auth = [], so_documents = [], so_thread_owners = [], so_dead_targets = []\<rparr>"

record Codec =
  state_read :: "string \<Rightarrow> string + SessionState"
  state_write :: "SessionState \<Rightarrow> string"
  json_read :: "string \<Rightarrow> string + json"
  json_write :: "json \<Rightarrow> string"

text \<open>What the code relies on: a JSON value that is written is read back, and so is the suspension of a
  state.\<close>

definition json_ok :: "Codec \<Rightarrow> bool" where
  "json_ok co \<longleftrightarrow> (\<forall>v. json_read co (json_write co v) = Inr v)"

definition state_ok :: "Codec \<Rightarrow> bool" where
  "state_ok co \<longleftrightarrow> (\<forall>s. outcome (\<lambda>_. False) (\<lambda>s'. suspended s' = suspended s) (state_read co (state_write co s)))"

subsection \<open>Thread owners\<close>

definition record_thread_owner :: "nat \<Rightarrow> nat \<Rightarrow> Store \<Rightarrow> Store" where
  "record_thread_owner thread b db = db\<lparr>so_thread_owners :=
     fst (sql_upsert fst (\<lambda>_. True) (\<lambda>r. (fst r, dec b)) (dec thread, dec b) (so_thread_owners db))\<rparr>"

definition get_thread_owner :: "nat \<Rightarrow> Store \<Rightarrow> nat option" where
  "get_thread_owner thread db =
     Option.bind (map_option snd (sql_get fst (dec thread) (so_thread_owners db))) parse_u64"

definition load_all_thread_owners :: "Store \<Rightarrow> (nat \<rightharpoonup> nat)" where
  "load_all_thread_owners db =
     fold (\<lambda>(t, b) m. case (parse_u64 t, parse_u64 b) of
        (Some t_num, Some b_num) \<Rightarrow> m(t_num \<mapsto> b_num) | _ \<Rightarrow> m) (so_thread_owners db) Map.empty"

subsection \<open>Session flags\<close>

definition session_row :: "string \<Rightarrow> Store \<Rightarrow> StoredSession option" where
  "session_row k db = sql_get st_key k (so_sessions db)"

definition set_resume :: "int \<Rightarrow> int \<Rightarrow> StoredSession \<Rightarrow> StoredSession" where
  "set_resume now v r = r\<lparr>st_resume_pending := v, st_updated_at := now\<rparr>"

definition mark_session_resume_pending :: "int \<Rightarrow> string \<Rightarrow> Store \<Rightarrow> Store" where
  "mark_session_resume_pending now k db = db\<lparr>so_sessions :=
     fst (sql_update (\<lambda>r. st_key r = k) (set_resume now 1) (so_sessions db))\<rparr>"

definition clear_session_resume_pending :: "int \<Rightarrow> string \<Rightarrow> Store \<Rightarrow> Store \<times> bool" where
  "clear_session_resume_pending now k db =
     (case sql_update (\<lambda>r. st_key r = k \<and> st_resume_pending r = 1) (set_resume now 0) (so_sessions db) of
        (t, affected) \<Rightarrow> (db\<lparr>so_sessions := t\<rparr>, 0 < affected))"

definition set_state :: "int \<Rightarrow> string \<Rightarrow> StoredSession \<Rightarrow> StoredSession" where
  "set_state now js r = r\<lparr>st_state_json := js, st_updated_at := now\<rparr>"

definition mark_session_suspended :: "Codec \<Rightarrow> int \<Rightarrow> string \<Rightarrow> bool \<Rightarrow> Store \<Rightarrow> string + Store" where
  "mark_session_suspended co now k susp db =
     (case session_row k db of
        None \<Rightarrow> Inr db
      | Some row \<Rightarrow> and_then (state_read co (st_state_json row)) (\<lambda>state.
          Inr (db\<lparr>so_sessions := fst (sql_update (\<lambda>r. st_key r = k)
            (set_state now (state_write co (state\<lparr>suspended := susp\<rparr>))) (so_sessions db))\<rparr>)))"

definition is_session_suspended :: "Codec \<Rightarrow> string \<Rightarrow> Store \<Rightarrow> bool" where
  "is_session_suspended co k db =
     (case session_row k db of
        None \<Rightarrow> False
      | Some row \<Rightarrow> suspended (case state_read co (st_state_json row) of
          Inr state \<Rightarrow> state | Inl _ \<Rightarrow> session_state_default))"

definition count_resume_pending_sessions :: "Store \<Rightarrow> nat" where
  "count_resume_pending_sessions db = length (filter (\<lambda>r. st_resume_pending r = 1) (so_sessions db))"

text \<open>\<open>INSERT INTO sessions ... ON CONFLICT DO NOTHING\<close>, behind the trigger of
  \<open>0028_legacy_guild_session_conflicts.sql\<close>: an insert into a deferred lane is aborted, whether or not
  it would have been ignored.\<close>

definition deferred_lane :: "string \<Rightarrow> Store \<Rightarrow> bool" where
  "deferred_lane k db \<longleftrightarrow> list_ex (\<lambda>(raw, canon). raw = k \<or> canon = k) (so_conflicts db)"

definition insert_session :: "StoredSession \<Rightarrow> Store \<Rightarrow> string + Store" where
  "insert_session row db =
     (if deferred_lane (st_key row) db
      then Inl ''legacy guild session collision deferred: OD-01 unresolved''
      else Inr (db\<lparr>so_sessions := sql_insert_ignore st_key row (so_sessions db)\<rparr>))"

definition stored_session :: "SessionKey \<Rightarrow> string \<Rightarrow> int \<Rightarrow> StoredSession" where
  "stored_session k js at = \<lparr>st_key = storage_key k, st_platform = platform k, st_guild_id = guild_id k,
     st_channel_id = channel_id k, st_thread_id = thread_id k, st_user_id = user_id k,
     st_state_json = js, st_resume_pending = 0, st_updated_at = at\<rparr>"

definition ensure_agent_session :: "Codec \<Rightarrow> SessionContext \<Rightarrow> Store \<Rightarrow> string + Store" where
  "ensure_agent_session co ctx db =
     insert_session (stored_session (ctx_key ctx) (state_write co (ctx_state ctx)) (ctx_updated_at ctx)) db"

text \<open>\<open>persist_session_binding\<close>: the row exists, then \<open>json_set\<close> of the thread id into its state (an
  empty text counts as an empty object); \<open>bind\<close> is SQLite's function, which fails on a text that is
  no JSON.\<close>

definition persist_session_binding ::
  "(string \<Rightarrow> string \<Rightarrow> string + string) \<Rightarrow> int \<Rightarrow> SessionContext \<Rightarrow> string \<Rightarrow> Store \<Rightarrow> string + Store" where
  "persist_session_binding bind now ctx thread db =
     and_then (insert_session (stored_session (ctx_key ctx) ''{}'' now) db) (\<lambda>db.
       case session_row (storage_key (ctx_key ctx)) db of
         None \<Rightarrow> Inr db
       | Some row \<Rightarrow>
           and_then (bind thread (if st_state_json row = '''' then ''{}'' else st_state_json row)) (\<lambda>js.
             Inr (db\<lparr>so_sessions := fst (sql_update (\<lambda>r. st_key r = storage_key (ctx_key ctx))
               (set_state now js) (so_sessions db))\<rparr>)))"

subsection \<open>What a restart reads\<close>

definition row_session_key :: "StoredSession \<Rightarrow> SessionKey" where
  "row_session_key r =
     (case from_storage_key (st_key r) of
        Inr k \<Rightarrow> k
      | Inl _ \<Rightarrow> session_key_new (st_platform r) (st_guild_id r) (st_channel_id r) (st_thread_id r) (st_user_id r))"

definition resumable :: "Store \<Rightarrow> StoredSession \<Rightarrow> bool" where
  "resumable db r \<longleftrightarrow> st_resume_pending r = 1 \<and> \<not> deferred_lane (st_key r) db"

definition fetch_resume_pending_session_keys :: "Store \<Rightarrow> SessionKey list" where
  "fetch_resume_pending_session_keys db =
     map row_session_key (sort_key st_updated_at (filter (resumable db) (so_sessions db)))"

record UnfinishedTurn =
  ut_message_id :: string
  ut_content :: string
  ut_metadata_json :: string
  ut_created_at :: int
  ut_platform_message_id :: "string option"

definition last_message :: "string \<Rightarrow> Store \<Rightarrow> TranscriptRow option" where
  "last_message k db =
     (case sort_key (\<lambda>r. - tr_sequence r) (filter (\<lambda>r. tr_session_key r = k) (so_messages db)) of
        [] \<Rightarrow> None | r # _ \<Rightarrow> Some r)"

definition find_last_unfinished_user_turn :: "string \<Rightarrow> Store \<Rightarrow> UnfinishedTurn option" where
  "find_last_unfinished_user_turn k db =
     (case last_message k db of
        None \<Rightarrow> None
      | Some row \<Rightarrow>
          if tr_role row = ''user''
          then Some \<lparr>ut_message_id = tr_id row, ut_content = tr_content row,
                 ut_metadata_json = tr_metadata_json row, ut_created_at = tr_created_at row,
                 ut_platform_message_id = tr_platform_message_id row\<rparr>
          else None)"

definition has_platform_message_id :: "string \<Rightarrow> string \<Rightarrow> Store \<Rightarrow> bool" where
  "has_platform_message_id k pid db \<longleftrightarrow>
     list_ex (\<lambda>r. tr_session_key r = k \<and> tr_platform_message_id r = Some pid) (so_messages db)"

subsection \<open>Dead targets\<close>

text \<open>A channel is a \<open>u64\<close> stored through \<open>as i64\<close>, a status a \<open>u16\<close>.\<close>

definition target_key :: "DeadTarget \<Rightarrow> string \<times> int" where
  "target_key r = (dt_bot_id r, dt_channel_id r)"

definition persist_dead_target ::
  "string \<Rightarrow> string \<Rightarrow> 64 word \<Rightarrow> 16 word \<Rightarrow> string \<Rightarrow> Store \<Rightarrow> Store" where
  "persist_dead_target now b chan code msg db = db\<lparr>so_dead_targets :=
     fst (sql_upsert target_key (\<lambda>_. True)
       (\<lambda>r. r\<lparr>dt_status_code := uint code, dt_error_message := msg, dt_dead_since := now\<rparr>)
       \<lparr>dt_bot_id = b, dt_channel_id = sint chan, dt_status_code = uint code,
        dt_error_message = msg, dt_dead_since = now\<rparr> (so_dead_targets db))\<rparr>"

definition remove_dead_target :: "string \<Rightarrow> 64 word \<Rightarrow> Store \<Rightarrow> Store" where
  "remove_dead_target b chan db = db\<lparr>so_dead_targets :=
     fst (sql_delete (\<lambda>r. dt_bot_id r = b \<and> dt_channel_id r = sint chan) (so_dead_targets db))\<rparr>"

definition remove_dead_targets_for_channel :: "64 word \<Rightarrow> Store \<Rightarrow> Store" where
  "remove_dead_targets_for_channel chan db = db\<lparr>so_dead_targets :=
     fst (sql_delete (\<lambda>r. dt_channel_id r = sint chan) (so_dead_targets db))\<rparr>"

definition load_dead_targets :: "Store \<Rightarrow> (string \<times> 64 word \<times> 16 word \<times> string \<times> string) list" where
  "load_dead_targets db = map (\<lambda>r. (dt_bot_id r, word_of_int (dt_channel_id r),
     word_of_int (dt_status_code r), dt_error_message r, dt_dead_since r)) (so_dead_targets db)"

subsection \<open>Facts about the flags\<close>

interpretation set_resume: keyed_update st_key "set_resume now v" for now v
  by unfold_locales (simp add: set_resume_def)

interpretation set_state: keyed_update st_key "set_state now js" for now js
  by unfold_locales (simp add: set_state_def)

interpretation owner_upsert: keyed_update fst "\<lambda>r. (fst r, dec b)" for b
  by unfold_locales simp

interpretation target_upsert: keyed_update target_key
  "\<lambda>r. r\<lparr>dt_status_code := c, dt_error_message := m, dt_dead_since := s\<rparr>" for c m s
  by unfold_locales (simp add: target_key_def)

text \<open>The flag of a session after the clearing statement, and what the statement reports.\<close>

lemma session_row_clear:
  "session_row k (fst (clear_session_resume_pending now k' db)) =
     map_option (\<lambda>r. if st_key r = k' \<and> st_resume_pending r = 1 then set_resume now 0 r else r) (session_row k db)"
  by (simp add: clear_session_resume_pending_def session_row_def case_prod_unfold set_resume.get_update)

lemma cleared_iff:
  assumes "distinct (map st_key (so_sessions db))"
  shows "snd (clear_session_resume_pending now k db) \<longleftrightarrow>
    (\<exists>r. session_row k db = Some r \<and> st_resume_pending r = 1)"
  using set_resume.affected_update [OF assms, of k "\<lambda>r. st_resume_pending r = 1" now 0]
  by (simp add: clear_session_resume_pending_def session_row_def case_prod_unfold split: option.splits)

lemma clear_other_tables [simp]:
  "so_messages (fst (clear_session_resume_pending now k db)) = so_messages db"
  "so_conflicts (fst (clear_session_resume_pending now k db)) = so_conflicts db"
  "so_pending_auth (fst (clear_session_resume_pending now k db)) = so_pending_auth db"
  "so_documents (fst (clear_session_resume_pending now k db)) = so_documents db"
  by (simp_all add: clear_session_resume_pending_def case_prod_unfold)

text \<open>Suspension is read back as it was written.\<close>

lemma suspended_after_mark:
  assumes "state_ok co" and "mark_session_suspended co now k b db = Inr db'" and "session_row k db \<noteq> None"
  shows "is_session_suspended co k db' = b"
proof -
  obtain row state where row: "session_row k db = Some row" and st: "state_read co (st_state_json row) = Inr state"
    and db': "db' = db\<lparr>so_sessions := fst (sql_update (\<lambda>r. st_key r = k)
        (set_state now (state_write co (state\<lparr>suspended := b\<rparr>))) (so_sessions db))\<rparr>"
    using assms(2,3) by (auto simp: mark_session_suspended_def and_then_Inr_iff split: option.splits)
  have "session_row k db' = Some (set_state now (state_write co (state\<lparr>suspended := b\<rparr>)) row)"
    using row sql_get_SomeD [of st_key k "so_sessions db" row]
    by (simp add: db' session_row_def set_state.get_update)
  moreover have "outcome (\<lambda>_. False) (\<lambda>s'. suspended s' = b) (state_read co (state_write co (state\<lparr>suspended := b\<rparr>)))"
    using assms(1) by (auto simp: state_ok_def dest: spec [of _ "state\<lparr>suspended := b\<rparr>"])
  ultimately show ?thesis by (auto simp: is_session_suspended_def set_state_def outcome_def split: sum.splits)
qed

text \<open>Thread owners: the last owner recorded is the one read, and the whole table loads to the same
  answers.\<close>

lemma get_record_thread_owner:
  assumes "b < 2 ^ 64"
  shows "get_thread_owner t (record_thread_owner t' b db) = (if t = t' then Some b else get_thread_owner t db)"
  using assms
  by (auto simp: get_thread_owner_def record_thread_owner_def owner_upsert.get_upsert parse_uint_dec
      split: option.splits)

text \<open>Dead targets survive storing: the casts lose nothing.\<close>

lemma persist_load_dead_target:
  "(b, chan, code, msg, now) \<in> set (load_dead_targets (persist_dead_target now b chan code msg db))"
proof -
  let ?t = "so_dead_targets (persist_dead_target now b chan code msg db)"
  obtain r where "sql_get target_key (b, sint chan) ?t = Some r" "dt_status_code r = uint code"
    "dt_error_message r = msg" "dt_dead_since r = now"
    by (auto simp: persist_dead_target_def target_upsert.get_upsert target_key_def split: option.splits)
  moreover from this(1) have "r \<in> set ?t" "dt_bot_id r = b" "dt_channel_id r = sint chan"
    by (auto dest!: sql_get_SomeD simp: target_key_def)
  ultimately show ?thesis
    by (auto simp: load_dead_targets_def intro!: rev_image_eqI [of r])
qed

text \<open>The table of owners as the program writes it, and the map a start loads from it.\<close>

definition owners_wf :: "Store \<Rightarrow> bool" where
  "owners_wf db \<longleftrightarrow> distinct (map fst (so_thread_owners db)) \<and>
     list_all (\<lambda>(t, b). \<exists>m n. t = dec m \<and> b = dec n \<and> m < 2 ^ 64 \<and> n < 2 ^ 64) (so_thread_owners db)"

lemma owners_wf_record:
  assumes "owners_wf db" and "t < 2 ^ 64" and "b < 2 ^ 64"
  shows "owners_wf (record_thread_owner t b db)"
  using assms owner_upsert.distinct_upsert [of "so_thread_owners db"]
  by (auto simp: owners_wf_def record_thread_owner_def intro!: list_all_upsert)

lemma load_owners_fold:
  assumes "distinct (map fst os)" and "t < 2 ^ 64"
    and "list_all (\<lambda>(t, b). \<exists>m n. t = dec m \<and> b = dec n \<and> m < 2 ^ 64 \<and> n < 2 ^ 64) os"
  shows "fold (\<lambda>(t, b) m. case (parse_u64 t, parse_u64 b) of
        (Some t_num, Some b_num) \<Rightarrow> m(t_num \<mapsto> b_num) | _ \<Rightarrow> m) os acc t =
    (case sql_get fst (dec t) os of None \<Rightarrow> acc t | Some r \<Rightarrow> parse_u64 (snd r))"
  using assms
proof (induction os arbitrary: acc)
  case (Cons o1 os)
  then obtain m n where o1: "o1 = (dec m, dec n)" "m < 2 ^ 64" "n < 2 ^ 64" by (auto simp: list_all_iff)
  have "sql_get fst (dec m) os = None" using Cons.prems(1) o1 by (simp add: sql_get_None_iff)
  with Cons o1 show ?case by (auto simp: parse_uint_dec split: option.splits)
qed simp

lemma load_owners_get:
  "owners_wf db \<Longrightarrow> t < 2 ^ 64 \<Longrightarrow> load_all_thread_owners db t = get_thread_owner t db"
  unfolding load_all_thread_owners_def get_thread_owner_def owners_wf_def
  by (subst load_owners_fold) (auto split: option.splits)

end
