(* ===== verification/Session_Upgrade.thy ===== *)
theory Session_Upgrade
  imports Session_Store "HOL-Library.Char_ord" "HOL-Library.List_Lexorder"
begin

section \<open>The upgrade of legacy guild session keys\<close>

text \<open>
  \<open>upgrade_legacy_guild_session_keys\<close> (\<open>src/storage/db.rs\<close>) runs once before any consumer loads a
  session.  Guild sessions used to be keyed per user; now a guild channel has one lane with one
  canonical key.  A lane with a single stored row is rekeyed in place together with every row that
  refers to it; a lane in which several rows collide is quarantined: nothing of it is moved and it is
  recorded as deferred.  The transaction fails as a whole where SQLite's constraints fail.  The second
  half shows that it never does on a well-formed store, what the upgraded store is, that nothing is
  lost, and that a second run changes nothing.
\<close>

subsection \<open>Lanes\<close>

text \<open>The canonical key a stored key stands for, when it is one of a guild.\<close>

definition lane_of :: "string \<Rightarrow> string option" where
  "lane_of raw =
     (case from_storage_key raw of
        Inl _ \<Rightarrow> None
      | Inr key \<Rightarrow> if guild_id key \<noteq> None then Some (storage_key key) else None)"

text \<open>\<open>lanes.entry(canonical).or_default().push(raw)\<close> on the ordered map.\<close>

fun lane_push :: "string \<Rightarrow> string \<Rightarrow> (string \<times> string list) list \<Rightarrow> (string \<times> string list) list" where
  "lane_push c raw [] = [(c, [raw])]"
| "lane_push c raw ((d, rs) # ls) =
     (if c < d then (c, [raw]) # (d, rs) # ls
      else if c = d then (d, rs @ [raw]) # ls
      else (d, rs) # lane_push c raw ls)"

definition push_key :: "string \<Rightarrow> (string \<times> string list) list \<Rightarrow> (string \<times> string list) list" where
  "push_key raw lanes = (case lane_of raw of None \<Rightarrow> lanes | Some c \<Rightarrow> lane_push c raw lanes)"

definition guild_lanes :: "Store \<Rightarrow> (string \<times> string list) list" where
  "guild_lanes db = fold push_key (sort (map st_key (so_sessions db))) []"

subsection \<open>One lane\<close>

text \<open>The key a legacy lane had when it carried its initiator.\<close>

definition legacy_key :: "SessionKey \<Rightarrow> string \<Rightarrow> string" where
  "legacy_key key initiator =
     join ''|'' ([component (Some (platform key)), component (guild_id key), component (Some (channel_id key)),
        component (thread_id key), component (Some initiator)] @
       (case bot_id key of Some b \<Rightarrow> [component (Some b)] | None \<Rightarrow> []))"

definition pending_grants :: "string \<Rightarrow> string \<Rightarrow> string \<Rightarrow> Store \<Rightarrow> PendingAuth list" where
  "pending_grants canon raw who db =
     (let own = filter (\<lambda>m. tr_session_key m = raw) (so_messages db)
      in if \<not> list_ex (\<lambda>s. st_key s = raw \<and> st_resume_pending s = 1) (so_sessions db) then []
         else map (\<lambda>m. \<lparr>pa_message_id = tr_id m, pa_message_sequence = tr_sequence m,
                        pa_canonical_key = canon, pa_raw_key = raw, pa_author_id = who\<rparr>)
                (filter (\<lambda>m. tr_role m = ''user'' \<and> list_all (\<lambda>o1. tr_sequence o1 \<le> tr_sequence m) own) own))"

text \<open>\<open>INSERT INTO ... SELECT\<close> into a table with a unique key.\<close>

definition sql_insert_rows :: "('r \<Rightarrow> 'k) \<Rightarrow> 'r list \<Rightarrow> 'r list \<Rightarrow> string + 'r list" where
  "sql_insert_rows key rows t =
     (if distinct (map key (t @ rows)) then Inr (t @ rows) else Inl ''UNIQUE constraint failed'')"

definition grant_pending :: "string \<Rightarrow> string \<Rightarrow> SessionKey \<Rightarrow> string \<Rightarrow> Store \<Rightarrow> string + Store" where
  "grant_pending canon raw key who db =
     (if parse_u64 who \<noteq> None \<and> legacy_key key who = raw
      then and_then (sql_insert_rows pa_message_id (pending_grants canon raw who db) (so_pending_auth db))
             (\<lambda>t. Inr (db\<lparr>so_pending_auth := t\<rparr>))
      else Inr db)"

text \<open>\<open>UPDATE ... SET session_key = canon WHERE session_key = raw\<close>, on the column \<open>key_of\<close> reads and
  \<open>set_key\<close> writes.\<close>

definition rekey :: "('r \<Rightarrow> string option) \<Rightarrow> (string \<Rightarrow> 'r \<Rightarrow> 'r) \<Rightarrow> string \<times> string \<Rightarrow> 'r \<Rightarrow> 'r" where
  "rekey key_of set_key p r = (if key_of r = Some (fst p) then set_key (snd p) r else r)"

text \<open>The session a staged memory write refers to, read by \<open>json_extract\<close> and written by \<open>json_set\<close>.\<close>

definition write_session :: "Codec \<Rightarrow> PendingWrite \<Rightarrow> string option" where
  "write_session co w =
     (if pw_kind w = ''memory''
      then case json_read co (pw_payload w) of Inr v \<Rightarrow> get_str ''session_key'' v | Inl _ \<Rightarrow> None
      else None)"

definition set_write_session :: "Codec \<Rightarrow> string \<Rightarrow> PendingWrite \<Rightarrow> PendingWrite" where
  "set_write_session co c w =
     (case json_read co (pw_payload w) of
        Inr v \<Rightarrow> w\<lparr>pw_payload := json_write co (json_insert ''session_key'' (JStr c) v)\<rparr>
      | Inl _ \<Rightarrow> w)"

definition rekey_store :: "Codec \<Rightarrow> string \<times> string \<Rightarrow> Store \<Rightarrow> string + Store" where
  "rekey_store co p db =
     (if snd p \<in> st_key ` set (so_sessions db) then Inl ''UNIQUE constraint failed''
      else Inr (db\<lparr>
        so_sessions := map (rekey (\<lambda>r. Some (st_key r)) (\<lambda>c r. r\<lparr>st_key := c\<rparr>) p) (so_sessions db),
        so_messages := map (rekey (\<lambda>r. Some (tr_session_key r)) (\<lambda>c r. r\<lparr>tr_session_key := c\<rparr>) p) (so_messages db),
        so_ledger := map (rekey (\<lambda>r. Some (le_session_key r)) (\<lambda>c r. r\<lparr>le_session_key := c\<rparr>) p) (so_ledger db),
        so_cron_jobs := map (rekey snd (\<lambda>c r. (fst r, Some c)) p) (so_cron_jobs db),
        so_memories := map (rekey (\<lambda>r. Some (me_session_key r)) (\<lambda>c r. r\<lparr>me_session_key := c\<rparr>) p) (so_memories db),
        so_obligations := map (rekey (\<lambda>r. Some (ob_session_key r)) (\<lambda>c r. r\<lparr>ob_session_key := c\<rparr>) p) (so_obligations db),
        so_pending_writes := map (rekey (write_session co) (set_write_session co) p) (so_pending_writes db)\<rparr>))"

definition quarantine :: "string \<Rightarrow> string list \<Rightarrow> Store \<Rightarrow> Store" where
  "quarantine canon raws db = db\<lparr>so_conflicts :=
     fold (\<lambda>raw. sql_insert_ignore fst (raw, canon)) raws (so_conflicts db)\<rparr>"

definition upgrade_lane :: "Codec \<Rightarrow> string list \<Rightarrow> string \<times> string list \<Rightarrow> Store \<Rightarrow> string + Store" where
  "upgrade_lane co blocked lane db =
     (case lane of (canon, raws) \<Rightarrow>
        if 1 < length raws \<or> canon \<in> set blocked then Inr (quarantine canon raws db)
        else case raws of
          [] \<Rightarrow> Inl ''index out of bounds''
        | raw # _ \<Rightarrow>
            if raw = canon then Inr db
            else case from_storage_key raw of
              Inl _ \<Rightarrow> Inl ''invalid storage key''
            | Inr key \<Rightarrow>
                (case session_row raw db of
                   None \<Rightarrow> Inl ''no rows returned''
                 | Some row \<Rightarrow>
                     and_then (grant_pending canon raw key (st_user_id row) db) (rekey_store co (raw, canon))))"

fun try_fold :: "('a \<Rightarrow> 's \<Rightarrow> 'e + 's) \<Rightarrow> 'a list \<Rightarrow> 's \<Rightarrow> 'e + 's" where
  "try_fold f [] s = Inr s"
| "try_fold f (x # xs) s = and_then (f x s) (try_fold f xs)"

text \<open>The deferred foreign keys, checked when the transaction commits.\<close>

definition foreign_keys_ok :: "Store \<Rightarrow> bool" where
  "foreign_keys_ok db \<longleftrightarrow>
     (let keys = st_key ` set (so_sessions db)
      in list_all (\<lambda>r. tr_session_key r \<in> keys) (so_messages db) \<and>
         list_all (\<lambda>r. le_session_key r \<in> keys) (so_ledger db) \<and>
         list_all (\<lambda>r. case snd r of None \<Rightarrow> True | Some k \<Rightarrow> k \<in> keys) (so_cron_jobs db) \<and>
         list_all (\<lambda>r. me_session_key r \<in> keys) (so_memories db) \<and>
         list_all (\<lambda>r. ob_session_key r \<in> keys) (so_obligations db))"

definition upgrade_legacy_guild_session_keys :: "Codec \<Rightarrow> Store \<Rightarrow> string + Store" where
  "upgrade_legacy_guild_session_keys co db =
     and_then (try_fold (upgrade_lane co (map snd (so_conflicts db))) (guild_lanes db) db) (\<lambda>db'.
       if foreign_keys_ok db' then Inr db' else Inl ''FOREIGN KEY constraint failed'')"

subsection \<open>Rekeying a table\<close>

text \<open>The contract of a column that holds a session key: a row that has one keeps having one when it is
  set.  Under it a sequence of renamings, none of which renames the target of another, is one pass.\<close>

definition renamed :: "('r \<Rightarrow> string option) \<Rightarrow> (string \<Rightarrow> 'r \<Rightarrow> 'r) \<Rightarrow> (string \<rightharpoonup> string) \<Rightarrow> 'r \<Rightarrow> 'r" where
  "renamed key_of set_key m r =
     (case key_of r of None \<Rightarrow> r | Some k \<Rightarrow> (case m k of None \<Rightarrow> r | Some c \<Rightarrow> set_key c r))"

definition rekey_rows ::
  "('r \<Rightarrow> string option) \<Rightarrow> (string \<Rightarrow> 'r \<Rightarrow> 'r) \<Rightarrow> (string \<times> string) list \<Rightarrow> 'r list \<Rightarrow> 'r list" where
  "rekey_rows key_of set_key ps t = fold (\<lambda>p. map (rekey key_of set_key p)) ps t"

lemma rekey_rows_simps [simp]:
  "rekey_rows key_of set_key [] t = t"
  "rekey_rows key_of set_key (ps @ [p]) t = map (rekey key_of set_key p) (rekey_rows key_of set_key ps t)"
  by (simp_all add: rekey_rows_def)

definition chain_free :: "(string \<times> string) list \<Rightarrow> bool" where
  "chain_free ps \<longleftrightarrow> distinct (map fst ps) \<and> (\<forall>p \<in> set ps. snd p \<notin> fst ` set ps)"

lemma chain_free_Cons: "chain_free (p # ps) \<Longrightarrow> chain_free ps \<and> map_of ps (fst p) = None \<and> map_of ps (snd p) = None"
  by (auto simp: chain_free_def map_of_eq_None_iff)

locale session_column =
  fixes key_of :: "'r \<Rightarrow> string option" and set_key :: "string \<Rightarrow> 'r \<Rightarrow> 'r"
  assumes key_set: "key_of r = Some k \<Longrightarrow> key_of (set_key c r) = Some c"
begin

lemma fold_rekey_row:
  "chain_free ps \<Longrightarrow> fold (rekey key_of set_key) ps r = renamed key_of set_key (map_of ps) r"
proof (induction ps arbitrary: r)
  case Nil
  then show ?case by (simp add: renamed_def split: option.splits)
next
  case (Cons p ps)
  note c = chain_free_Cons [OF Cons.prems]
  show ?case
  proof (cases "key_of r = Some (fst p)")
    case True
    then have "fold (rekey key_of set_key) ps (set_key (snd p) r) = set_key (snd p) r"
      using Cons.IH c key_set [OF True] by (simp add: renamed_def)
    moreover have "rekey key_of set_key p r = set_key (snd p) r" using True by (simp add: rekey_def)
    ultimately show ?thesis using True by (cases p) (simp add: renamed_def)
  next
    case False
    then have "rekey key_of set_key p r = r" by (simp add: rekey_def)
    with False show ?thesis using Cons.IH c
      by (cases p) (auto simp: renamed_def split: option.splits)
  qed
qed

lemma rekey_rows_map:
  assumes "chain_free ps"
  shows "rekey_rows key_of set_key ps t = map (renamed key_of set_key (map_of ps)) t"
proof -
  have "rekey_rows key_of set_key ps t = map (fold (rekey key_of set_key) ps) t"
    unfolding rekey_rows_def by (induction ps arbitrary: t) (simp_all add: comp_def)
  then show ?thesis using fold_rekey_row [OF assms] by simp
qed

lemma key_renamed:
  "key_of (renamed key_of set_key m r) = map_option (\<lambda>k. case m k of None \<Rightarrow> k | Some c \<Rightarrow> c) (key_of r)"
  by (auto simp: renamed_def key_set split: option.splits)

lemma filter_renamed:
  assumes "m k = None" and "k \<notin> ran m"
  shows "filter (\<lambda>r. key_of r = Some k) (map (renamed key_of set_key m) t) = filter (\<lambda>r. key_of r = Some k) t"
proof (induction t)
  case (Cons r t)
  have "key_of (renamed key_of set_key m r) = Some k \<longleftrightarrow> key_of r = Some k"
    using assms by (auto simp: key_renamed ran_def split: option.splits)
  moreover have "renamed key_of set_key m r = r" if "key_of r = Some k"
    using assms that by (simp add: renamed_def)
  ultimately show ?case using Cons by simp
qed simp

end

abbreviation "session_keys_rekeyed \<equiv> rekey_rows (\<lambda>r. Some (st_key r)) (\<lambda>c r. r\<lparr>st_key := c\<rparr>)"
abbreviation "messages_rekeyed \<equiv> rekey_rows (\<lambda>r. Some (tr_session_key r)) (\<lambda>c r. r\<lparr>tr_session_key := c\<rparr>)"
abbreviation "ledger_rekeyed \<equiv> rekey_rows (\<lambda>r. Some (le_session_key r)) (\<lambda>c r. r\<lparr>le_session_key := c\<rparr>)"
abbreviation "cron_rekeyed \<equiv> rekey_rows snd (\<lambda>c r. (fst r, Some c))"
abbreviation "memories_rekeyed \<equiv> rekey_rows (\<lambda>r. Some (me_session_key r)) (\<lambda>c r. r\<lparr>me_session_key := c\<rparr>)"
abbreviation "obligations_rekeyed \<equiv> rekey_rows (\<lambda>r. Some (ob_session_key r)) (\<lambda>c r. r\<lparr>ob_session_key := c\<rparr>)"
abbreviation "writes_rekeyed co \<equiv> rekey_rows (write_session co) (set_write_session co)"

interpretation sessions_col: session_column "\<lambda>r. Some (st_key r)" "\<lambda>c r. r\<lparr>st_key := c\<rparr>"
  by unfold_locales simp

interpretation messages_col: session_column "\<lambda>r. Some (tr_session_key r)" "\<lambda>c r. r\<lparr>tr_session_key := c\<rparr>"
  by unfold_locales simp

interpretation ledger_col: session_column "\<lambda>r. Some (le_session_key r)" "\<lambda>c r. r\<lparr>le_session_key := c\<rparr>"
  by unfold_locales simp

interpretation cron_col: session_column snd "\<lambda>c r. (fst r, Some c)"
  by unfold_locales simp

interpretation memories_col: session_column "\<lambda>r. Some (me_session_key r)" "\<lambda>c r. r\<lparr>me_session_key := c\<rparr>"
  by unfold_locales simp

interpretation obligations_col: session_column "\<lambda>r. Some (ob_session_key r)" "\<lambda>c r. r\<lparr>ob_session_key := c\<rparr>"
  by unfold_locales simp

text \<open>The staged memory writes satisfy it where the codec reads what it writes.\<close>

lemma set_write_session_column:
  assumes "json_ok co" and "write_session co w = Some k"
  shows "write_session co (set_write_session co c w) = Some c"
proof -
  obtain v where v: "json_read co (pw_payload w) = Inr v" "pw_kind w = ''memory''" "get_str ''session_key'' v = Some k"
    using assms(2) by (auto simp: write_session_def split: if_splits sum.splits)
  then have "is_object v" using json_get_None [of v "''session_key''"] by (cases "is_object v") auto
  with v assms(1) show ?thesis by (simp add: write_session_def set_write_session_def json_ok_def)
qed

subsection \<open>What the lanes are\<close>

lemma lane_of_canonical: "lane_of raw = Some c \<Longrightarrow> lane_of c = Some c"
proof -
  assume "lane_of raw = Some c"
  then obtain key where k: "from_storage_key raw = Inr key" "guild_id key \<noteq> None" "c = storage_key key"
    by (auto simp: lane_of_def split: sum.splits if_splits)
  then have "from_storage_key c = Inr key"
    using outcome_InrD [OF from_storage_key_outcome k(1)] by (simp add: sk.decode_encode)
  with k show ?thesis by (simp add: lane_of_def)
qed

lemma set_lane_push: "fst ` set (lane_push c raw ls) = insert c (fst ` set ls)"
  by (induction c raw ls rule: lane_push.induct) auto

lemma sorted_lane_push:
  "sorted_wrt (<) (map fst ls) \<Longrightarrow> sorted_wrt (<) (map fst (lane_push c raw ls))"
proof (induction c raw ls rule: lane_push.induct)
  case (2 c raw d rs ls)
  have "\<forall>x \<in> fst ` set (lane_push c raw ls). d < x" if "\<not> c < d" "c \<noteq> d"
    using that "2.prems" by (auto simp: set_lane_push)
  with 2 show ?case by (auto intro: less_trans)
qed simp

definition lane_keys :: "string \<Rightarrow> string list \<Rightarrow> string list" where
  "lane_keys c ks = filter (\<lambda>k. lane_of k = Some c) ks"

lemma map_of_lane_push:
  assumes "sorted_wrt (<) (map fst ls)"
  shows "map_of (lane_push c raw ls) d =
    (if d = c then Some ((case map_of ls c of None \<Rightarrow> [] | Some rs \<Rightarrow> rs) @ [raw]) else map_of ls d)"
  using assms
proof (induction c raw ls rule: lane_push.induct)
  case (2 c raw e rs ls)
  have "map_of ls c = None" if "c < e"
    using that "2.prems" by (auto simp: map_of_eq_None_iff dest!: bspec)
  with 2 show ?case by (auto split: option.splits)
qed auto

lemma push_keys:
  "sorted_wrt (<) (map fst (fold push_key ks [])) \<and>
   map_of (fold push_key ks []) c = (if lane_keys c ks = [] then None else Some (lane_keys c ks))"
proof (induction ks arbitrary: c rule: rev_induct)
  case (snoc k ks)
  show ?case
  proof (cases "lane_of k")
    case None
    then show ?thesis using snoc [of c] by (simp add: push_key_def lane_keys_def)
  next
    case (Some d)
    with snoc [of d] snoc [of c] show ?thesis
      by (simp add: push_key_def lane_keys_def sorted_lane_push map_of_lane_push)
  qed
qed (simp add: lane_keys_def)

lemma distinct_lanes: "distinct (map fst (guild_lanes db))"
  using push_keys [of "sort (map st_key (so_sessions db))"]
  by (simp add: guild_lanes_def strict_sorted_iff)

lemma guild_lane_iff:
  "(c, raws) \<in> set (guild_lanes db) \<longleftrightarrow>
     raws = lane_keys c (sort (map st_key (so_sessions db))) \<and> raws \<noteq> []"
proof -
  have "(c, raws) \<in> set (guild_lanes db) \<longleftrightarrow> map_of (guild_lanes db) c = Some raws"
    using distinct_lanes by simp
  also have "map_of (guild_lanes db) c =
      (let ks = lane_keys c (sort (map st_key (so_sessions db))) in if ks = [] then None else Some ks)"
    using push_keys by (simp add: guild_lanes_def)
  finally show ?thesis by (auto simp: Let_def)
qed

lemma lane_nonempty: "(c, raws) \<in> set (guild_lanes db) \<Longrightarrow> raws \<noteq> []"
  unfolding guild_lane_iff by blast

lemma lane_keys_iff:
  "(c, raws) \<in> set (guild_lanes db) \<Longrightarrow> k \<in> set raws \<longleftrightarrow> lane_of k = Some c \<and> k \<in> st_key ` set (so_sessions db)"
  by (auto simp: guild_lane_iff lane_keys_def)

lemma stored_lane: "lane_of k = Some c \<Longrightarrow> k \<in> st_key ` set (so_sessions db) \<Longrightarrow> \<exists>raws. (c, raws) \<in> set (guild_lanes db) \<and> k \<in> set raws"
  by (auto simp: guild_lane_iff lane_keys_def filter_empty_conv)

subsection \<open>The upgraded store\<close>

text \<open>Rows, messages and their references are consistent; a message whose author an earlier upgrade
  vouched for lies in a canonical lane.\<close>

definition store_wf :: "Store \<Rightarrow> bool" where
  "store_wf db \<longleftrightarrow> distinct (map st_key (so_sessions db)) \<and> distinct (map tr_id (so_messages db)) \<and>
     foreign_keys_ok db \<and> distinct (map pa_message_id (so_pending_auth db)) \<and>
     list_all (\<lambda>m. tr_id m \<in> pa_message_id ` set (so_pending_auth db) \<longrightarrow>
       lane_of (tr_session_key m) = Some (tr_session_key m)) (so_messages db)"

definition lane_moves :: "string list \<Rightarrow> string \<times> string list \<Rightarrow> (string \<times> string) list" where
  "lane_moves blocked lane =
     (case lane of (c, raws) \<Rightarrow>
        if 1 < length raws \<or> c \<in> set blocked then []
        else case raws of [] \<Rightarrow> [] | raw # _ \<Rightarrow> if raw = c then [] else [(raw, c)])"

definition lane_conflicts :: "string list \<Rightarrow> string \<times> string list \<Rightarrow> (string \<times> string) list" where
  "lane_conflicts blocked lane =
     (case lane of (c, raws) \<Rightarrow>
        if 1 < length raws \<or> c \<in> set blocked then map (\<lambda>raw. (raw, c)) raws else [])"

definition lane_grants :: "Store \<Rightarrow> string \<times> string \<Rightarrow> PendingAuth list" where
  "lane_grants db p =
     (case (from_storage_key (fst p), session_row (fst p) db) of
        (Inr key, Some row) \<Rightarrow>
          if parse_u64 (st_user_id row) \<noteq> None \<and> legacy_key key (st_user_id row) = fst p
          then pending_grants (snd p) (fst p) (st_user_id row) db else []
      | _ \<Rightarrow> [])"

definition moves :: "Store \<Rightarrow> (string \<times> string list) list \<Rightarrow> (string \<times> string) list" where
  "moves db lanes = concat (map (lane_moves (map snd (so_conflicts db))) lanes)"

definition deferrals :: "Store \<Rightarrow> (string \<times> string list) list \<Rightarrow> (string \<times> string) list" where
  "deferrals db lanes = concat (map (lane_conflicts (map snd (so_conflicts db))) lanes)"

definition upgraded :: "Codec \<Rightarrow> (string \<times> string list) list \<Rightarrow> Store \<Rightarrow> Store" where
  "upgraded co lanes db = db\<lparr>
     so_sessions := session_keys_rekeyed (moves db lanes) (so_sessions db),
     so_messages := messages_rekeyed (moves db lanes) (so_messages db),
     so_ledger := ledger_rekeyed (moves db lanes) (so_ledger db),
     so_cron_jobs := cron_rekeyed (moves db lanes) (so_cron_jobs db),
     so_memories := memories_rekeyed (moves db lanes) (so_memories db),
     so_obligations := obligations_rekeyed (moves db lanes) (so_obligations db),
     so_pending_writes := writes_rekeyed co (moves db lanes) (so_pending_writes db),
     so_conflicts := fold (sql_insert_ignore fst) (deferrals db lanes) (so_conflicts db),
     so_pending_auth := so_pending_auth db @ concat (map (lane_grants db) (moves db lanes))\<rparr>"

lemma moves_simps [simp]:
  "moves db [] = []" "moves db (xs @ ys) = moves db xs @ moves db ys"
  "moves db (l # ls) = lane_moves (map snd (so_conflicts db)) l @ moves db ls"
  "deferrals db [] = []" "deferrals db (xs @ ys) = deferrals db xs @ deferrals db ys"
  "deferrals db (l # ls) = lane_conflicts (map snd (so_conflicts db)) l @ deferrals db ls"
  by (simp_all add: moves_def deferrals_def)

lemma lane_moves_iff: "(raw, c) \<in> set (lane_moves b l) \<longleftrightarrow> raw \<noteq> c \<and> l = (c, [raw]) \<and> c \<notin> set b"
  by (cases l) (auto simp: lane_moves_def split: list.splits if_splits)

lemma moves_iff:
  "(raw, c) \<in> set (moves db (guild_lanes db)) \<longleftrightarrow>
     raw \<noteq> c \<and> (c, [raw]) \<in> set (guild_lanes db) \<and> c \<notin> snd ` set (so_conflicts db)"
  by (auto simp: moves_def lane_moves_iff)

lemma move_lane: "(raw, c) \<in> set (moves db (guild_lanes db)) \<Longrightarrow> lane_of raw = Some c \<and> raw \<noteq> c"
  using lane_keys_iff [of c "[raw]" db raw] by (auto simp: moves_iff)

lemma moves_lane: "(r, c) \<in> set (moves db xs) \<Longrightarrow> (c, [r]) \<in> set xs \<and> r \<noteq> c"
  by (auto simp: moves_def lane_moves_iff)

lemma moves_lane': "(r, c) \<in> set (moves db xs) \<Longrightarrow> c \<in> fst ` set xs"
  using moves_lane [of r c db xs] by (metis fst_conv image_eqI)

lemma distinct_move_targets: "distinct (map fst lanes) \<Longrightarrow> distinct (map snd (moves db lanes))"
proof (induction lanes)
  case (Cons l lanes)
  have l: "set (map snd (lane_moves b l)) \<subseteq> {fst l}" "distinct (map snd (lane_moves b l))" for b
    by (cases l; auto simp: lane_moves_def split: list.splits)+
  let ?ms = "lane_moves (map snd (so_conflicts db)) l"
  have "map snd (moves db (l # lanes)) = map snd ?ms @ map snd (moves db lanes)" by (simp add: moves_def)
  moreover have "set (map snd ?ms) \<inter> set (map snd (moves db lanes)) = {}"
  proof -
    have False if c: "c \<in> set (map snd ?ms)" "c \<in> set (map snd (moves db lanes))" for c
    proof -
      obtain r where "(r, c) \<in> set (moves db lanes)" using c(2) by auto
      then have "c \<in> fst ` set lanes" by (rule moves_lane')
      moreover have "c = fst l" using l(1) c(1) by fast
      ultimately show False using Cons.prems by simp
    qed
    then show ?thesis by (meson disjoint_iff)
  qed
  ultimately show ?case using Cons.IH Cons.prems l(2) by (simp del: set_map)
qed simp

lemma chain_free_moves:
  assumes "set ps \<subseteq> set (moves db (guild_lanes db))" and "distinct (map snd ps)"
  shows "chain_free ps"
proof -
  have p: "lane_of (fst p) = Some (snd p) \<and> fst p \<noteq> snd p" if "p \<in> set ps" for p
    using move_lane [of "fst p" "snd p" db] assms(1) that by auto
  then have "map snd ps = map (the \<circ> lane_of) (map fst ps)" by (simp add: map_eq_conv)
  with assms(2) have "distinct (map fst ps)" by (metis distinct_map)
  moreover have "snd p \<noteq> fst q" if "p \<in> set ps" "q \<in> set ps" for p q
    using p [OF that(1)] p [OF that(2)] lane_of_canonical [of "fst p" "snd p"] by auto
  ultimately show ?thesis by (auto simp: chain_free_def)
qed

lemma chain_free_prefix: "guild_lanes db = xs @ ys \<Longrightarrow> chain_free (moves db xs)"
  using chain_free_moves [of "moves db xs" db] distinct_move_targets [of xs db] distinct_lanes [of db] by auto

text \<open>A key that a list of moves leaves alone sees the same rows before and after.\<close>

definition untouched :: "(string \<times> string) list \<Rightarrow> string \<Rightarrow> bool" where
  "untouched ps k \<longleftrightarrow> k \<notin> fst ` set ps \<and> k \<notin> snd ` set ps"

lemma untouched_map: "untouched ps k \<Longrightarrow> map_of ps k = None \<and> k \<notin> ran (map_of ps)"
  by (force simp: untouched_def map_of_eq_None_iff ran_def dest: map_of_SomeD)

lemma filter_rekeyed:
  assumes "chain_free ps" and "untouched ps k"
  shows "filter (\<lambda>r. st_key r = k) (session_keys_rekeyed ps ss) = filter (\<lambda>r. st_key r = k) ss"
    and "filter (\<lambda>r. tr_session_key r = k) (messages_rekeyed ps ms) = filter (\<lambda>r. tr_session_key r = k) ms"
  using untouched_map [OF assms(2)] sessions_col.filter_renamed [of "map_of ps" k ss]
    messages_col.filter_renamed [of "map_of ps" k ms]
  by (simp_all add: sessions_col.rekey_rows_map messages_col.rekey_rows_map assms(1))

lemma sql_get_filter: "sql_get key k t = (case filter (\<lambda>r. key r = k) t of [] \<Rightarrow> None | r # _ \<Rightarrow> Some r)"
  by (induction t) auto

lemma list_ex_filter: "list_ex (\<lambda>r. p r \<and> q r) t = list_ex q (filter p t)"
  by (induction t) auto

lemma upgraded_untouched:
  assumes "chain_free (moves db lanes)" and "untouched (moves db lanes) k"
  shows "session_row k (upgraded co lanes db) = session_row k db"
    and "pending_grants c k who (upgraded co lanes db) = pending_grants c k who db"
  by (simp_all add: session_row_def sql_get_filter upgraded_def pending_grants_def list_ex_filter Let_def
      filter_rekeyed [OF assms] del: filter_filter)

lemma move_untouched:
  assumes "guild_lanes db = xs @ (c, [raw]) # ys" and "raw \<noteq> c" and "c \<notin> snd ` set (so_conflicts db)"
  shows "untouched (moves db xs) raw"
proof -
  have l: "lane_of raw = Some c" using lane_keys_iff [of c "[raw]" db raw] assms(1) by simp
  have m: "lane_of r = Some d" if "(r, d) \<in> set (moves db xs)" for r d
    using that move_lane [of r d db] by (simp add: assms(1))
  have new: "c \<notin> fst ` set xs" using distinct_lanes [of db] by (simp add: assms(1))
  have "p \<in> set (moves db xs) \<Longrightarrow> fst p \<noteq> raw \<and> snd p \<noteq> raw" for p
    using m [of "fst p" "snd p"] moves_lane' [of "fst p" "snd p" db xs] new l assms(2) lane_of_canonical [of "fst p" "snd p"]
    by (metis option.inject prod.collapse)
  then show ?thesis by (auto simp: untouched_def)
qed

lemma keys_rekeyed:
  "chain_free ps \<Longrightarrow> map st_key (session_keys_rekeyed ps ss) =
     map (\<lambda>r. case map_of ps (st_key r) of None \<Rightarrow> st_key r | Some c \<Rightarrow> c) ss"
  by (auto simp: sessions_col.rekey_rows_map renamed_def split: option.splits)

lemma target_free:
  assumes "guild_lanes db = xs @ (c, [raw]) # ys" and "raw \<noteq> c"
  shows "c \<notin> st_key ` set (session_keys_rekeyed (moves db xs) (so_sessions db))"
proof
  assume "c \<in> st_key ` set (session_keys_rekeyed (moves db xs) (so_sessions db))"
  then have "c \<in> set (map st_key (session_keys_rekeyed (moves db xs) (so_sessions db)))" by simp
  then obtain r where r: "r \<in> set (so_sessions db)"
    and c: "c = (case map_of (moves db xs) (st_key r) of None \<Rightarrow> st_key r | Some d \<Rightarrow> d)"
    unfolding keys_rekeyed [OF chain_free_prefix [OF assms(1)]] by auto
  have lane: "lane_of raw = Some c" "lane_of c = Some c"
    using lane_keys_iff [of c "[raw]" db raw] assms(1) lane_of_canonical by auto
  show False
  proof (cases "map_of (moves db xs) (st_key r)")
    case None
    then show ?thesis using lane_keys_iff [of c "[raw]" db c] assms r c lane by auto
  next
    case (Some d)
    then have "(st_key r, c) \<in> set (moves db xs)" using c by (auto dest: map_of_SomeD)
    then have "c \<in> fst ` set xs" by (rule moves_lane')
    then show ?thesis using distinct_lanes [of db] assms(1) by auto
  qed
qed

text \<open>The messages an upgrade vouches for are new, and those of different lanes are different.\<close>

lemma grant_ids:
  "\<exists>ms. map pa_message_id (lane_grants db p) = map tr_id (filter ms (so_messages db)) \<and>
    (\<forall>m. ms m \<longrightarrow> tr_session_key m = fst p)"
proof (cases "lane_grants db p = []")
  case True
  then show ?thesis by (intro exI [where x = "\<lambda>_. False"]) simp
next
  case False
  then obtain who where who: "lane_grants db p = pending_grants (snd p) (fst p) who db"
    by (auto simp: lane_grants_def split: sum.splits option.splits if_splits)
  let ?own = "filter (\<lambda>m. tr_session_key m = fst p) (so_messages db)"
  show ?thesis unfolding who
    by (rule exI [where x = "\<lambda>m. list_ex (\<lambda>s. st_key s = fst p \<and> st_resume_pending s = 1) (so_sessions db) \<and>
        tr_session_key m = fst p \<and> tr_role m = ''user'' \<and>
        list_all (\<lambda>o1. tr_sequence o1 \<le> tr_sequence m) ?own"])
      (simp add: pending_grants_def Let_def comp_def)
qed

lemma distinct_grants:
  assumes wf: "store_wf db" and "distinct (map fst ps)" and "\<And>p. p \<in> set ps \<Longrightarrow> lane_of (fst p) \<noteq> Some (fst p)"
  shows "distinct (map pa_message_id (so_pending_auth db @ concat (map (lane_grants db) ps)))"
  using assms(2,3)
proof (induction ps rule: rev_induct)
  case Nil
  then show ?case using wf by (simp add: store_wf_def)
next
  case (snoc p ps)
  have ids: "distinct (map tr_id (so_messages db))" using wf by (simp add: store_wf_def)
  obtain ms where ms: "map pa_message_id (lane_grants db p) = map tr_id (filter ms (so_messages db))"
    using grant_ids [of db p] by auto
  have old: "pa_message_id ` set (lane_grants db q) \<subseteq> tr_id ` {m \<in> set (so_messages db). tr_session_key m = fst q}" for q
  proof -
    obtain ms where "map pa_message_id (lane_grants db q) = map tr_id (filter ms (so_messages db))"
      and ms: "\<forall>m. ms m \<longrightarrow> tr_session_key m = fst q" using grant_ids [of db q] by auto
    from arg_cong [OF this(1), of set] ms show ?thesis by auto
  qed
  have "i \<notin> pa_message_id ` set (so_pending_auth db) \<and> i \<notin> pa_message_id ` set (concat (map (lane_grants db) ps))"
    if i: "i \<in> pa_message_id ` set (lane_grants db p)" for i
  proof -
    obtain m where m: "m \<in> set (so_messages db)" "tr_session_key m = fst p" "i = tr_id m" using old [of p] i by auto
    have "i \<notin> pa_message_id ` set (so_pending_auth db)"
      using wf m snoc.prems(2) [of p] by (auto simp: store_wf_def list_all_iff)
    moreover have "i \<notin> pa_message_id ` set (lane_grants db q)" if q: "q \<in> set ps" for q
    proof
      assume "i \<in> pa_message_id ` set (lane_grants db q)"
      then obtain n where n: "n \<in> set (so_messages db)" "tr_session_key n = fst q" "tr_id n = tr_id m"
        using old [of q] m by auto
      then have "fst q = fst p" using row_by_key [OF ids n(1) m(1)] m(2) by simp
      then show False using snoc.prems(1) q by (auto simp: image_iff)
    qed
    ultimately show ?thesis by auto
  qed
  moreover have "distinct (map pa_message_id (lane_grants db p))" using ids ms(1) by (simp add: distinct_map_filter)
  moreover have "distinct (map pa_message_id (so_pending_auth db @ concat (map (lane_grants db) ps)))"
    using snoc by simp
  ultimately have "distinct (map pa_message_id ((so_pending_auth db @ concat (map (lane_grants db) ps)) @ lane_grants db p))"
    unfolding map_append [of _ _ "lane_grants db p"] distinct_append [of _ "map _ (lane_grants db p)"] by fastforce
  then show ?case by simp
qed

text \<open>One lane of the transaction.\<close>

lemma upgrade_lane_step:
  assumes wf: "store_wf db" and lanes: "guild_lanes db = xs @ l # ys"
  shows "upgrade_lane co (map snd (so_conflicts db)) l (upgraded co xs db) = Inr (upgraded co (xs @ [l]) db)"
proof -
  obtain c raws where l: "l = (c, raws)" by (cases l)
  then have raws: "raws \<noteq> []" using lanes lane_nonempty [of c raws db] by simp
  consider (deferred) "1 < length raws \<or> c \<in> snd ` set (so_conflicts db)"
    | (keep) "raws = [c]" "c \<notin> snd ` set (so_conflicts db)"
    | (move) raw where "raws = [raw]" "raw \<noteq> c" "c \<notin> snd ` set (so_conflicts db)"
    using raws by (cases raws; cases "tl raws") auto
  then show ?thesis
  proof cases
    case deferred
    then have "lane_moves (map snd (so_conflicts db)) l = []"
      "lane_conflicts (map snd (so_conflicts db)) l = map (\<lambda>raw. (raw, c)) raws"
      by (auto simp: l lane_moves_def lane_conflicts_def)
    with deferred show ?thesis by (simp add: upgrade_lane_def l upgraded_def quarantine_def fold_map comp_def)
  next
    case keep
    then show ?thesis by (simp add: upgrade_lane_def l upgraded_def lane_moves_def lane_conflicts_def)
  next
    case (move raw)
    have lanes': "guild_lanes db = xs @ (c, [raw]) # ys" using lanes l move(1) by simp
    have in_lane: "lane_of raw = Some c \<and> raw \<in> st_key ` set (so_sessions db)"
      using lane_keys_iff [of c "[raw]" db raw] lanes' by simp
    obtain key where key: "from_storage_key raw = Inr key" using in_lane by (auto simp: lane_of_def split: sum.splits)
    obtain row where row: "session_row raw db = Some row"
      using in_lane sql_get_None_iff [of st_key raw "so_sessions db"] by (auto simp: session_row_def)
    note same = upgraded_untouched [OF chain_free_prefix [OF lanes'] move_untouched [OF lanes' move(2,3)]]
    have mv: "lane_moves (map snd (so_conflicts db)) l = [(raw, c)]" "lane_conflicts (map snd (so_conflicts db)) l = []"
      using move by (simp_all add: l lane_moves_def lane_conflicts_def)
    have "set (moves db (xs @ [l])) \<subseteq> set (moves db (guild_lanes db))" by (auto simp: lanes)
    then have nc: "lane_of (fst p) \<noteq> Some (fst p)" if "p \<in> set (moves db (xs @ [l]))" for p
      using that move_lane [of "fst p" "snd p" db] by auto
    have "distinct (map fst (moves db (xs @ [l])))"
      using chain_free_prefix [of db "xs @ [l]" ys] lanes by (simp add: chain_free_def)
    note new = distinct_grants [OF wf this nc]
    have auth: "so_pending_auth (upgraded co xs db) = so_pending_auth db @ concat (map (lane_grants db) (moves db xs))"
      by (simp add: upgraded_def)
    have g: "lane_grants db (raw, c) = (if parse_u64 (st_user_id row) \<noteq> None \<and> legacy_key key (st_user_id row) = raw
        then pending_grants c raw (st_user_id row) db else [])"
      by (simp add: lane_grants_def key row)
    have "grant_pending c raw key (st_user_id row) (upgraded co xs db) =
        Inr (upgraded co xs db\<lparr>so_pending_auth := so_pending_auth db @ concat (map (lane_grants db) (moves db (xs @ [l])))\<rparr>)"
    proof (cases "parse_u64 (st_user_id row) \<noteq> None \<and> legacy_key key (st_user_id row) = raw")
      case True
      have "concat (map (lane_grants db) (moves db (xs @ [l]))) =
          concat (map (lane_grants db) (moves db xs)) @ pending_grants c raw (st_user_id row) db"
        by (simp add: mv g True)
      with new have "distinct (map pa_message_id (so_pending_auth db @ concat (map (lane_grants db) (moves db xs)) @
          pending_grants c raw (st_user_id row) db))" by (simp only:)
      with True show ?thesis
        by (simp add: grant_pending_def same sql_insert_rows_def auth mv g del: distinct_append)
    next
      case False
      have "upgraded co xs db = upgraded co xs db\<lparr>so_pending_auth := so_pending_auth (upgraded co xs db)\<rparr>" by simp
      with False show ?thesis by (auto simp: grant_pending_def mv g auth)
    qed
    moreover have "c \<notin> st_key ` set (so_sessions (upgraded co xs db))"
      using target_free [OF lanes' move(2)] by (simp add: upgraded_def)
    ultimately show ?thesis
      by (simp add: upgrade_lane_def l move key row same rekey_store_def mv [unfolded l move])
        (simp add: upgraded_def mv [unfolded l move] l move)
  qed
qed

lemma upgraded_Nil: "upgraded co [] db = db"
  by (simp add: upgraded_def)

lemma upgrade_fold:
  "store_wf db \<Longrightarrow> guild_lanes db = xs @ ys \<Longrightarrow>
   try_fold (upgrade_lane co (map snd (so_conflicts db))) ys (upgraded co xs db) = Inr (upgraded co (xs @ ys) db)"
proof (induction ys arbitrary: xs)
  case (Cons l ys)
  then show ?case using Cons.IH [of "xs @ [l]"] by (simp add: upgrade_lane_step)
qed simp

text \<open>Where a key goes.\<close>

definition new_key :: "Store \<Rightarrow> string \<Rightarrow> string" where
  "new_key db k = (case map_of (moves db (guild_lanes db)) k of None \<Rightarrow> k | Some c \<Rightarrow> c)"

lemma renamed_key:
  fixes m :: "string \<rightharpoonup> string"
  shows "renamed (\<lambda>r. Some (st_key r)) (\<lambda>c r. r\<lparr>st_key := c\<rparr>) m s =
      s\<lparr>st_key := case m (st_key s) of None \<Rightarrow> st_key s | Some c \<Rightarrow> c\<rparr>"
    and "renamed (\<lambda>r. Some (tr_session_key r)) (\<lambda>c r. r\<lparr>tr_session_key := c\<rparr>) m t =
      t\<lparr>tr_session_key := case m (tr_session_key t) of None \<Rightarrow> tr_session_key t | Some c \<Rightarrow> c\<rparr>"
    and "renamed (\<lambda>r. Some (le_session_key r)) (\<lambda>c r. r\<lparr>le_session_key := c\<rparr>) m l =
      l\<lparr>le_session_key := case m (le_session_key l) of None \<Rightarrow> le_session_key l | Some c \<Rightarrow> c\<rparr>"
    and "renamed snd (\<lambda>c r. (fst r, Some c)) m j = (fst j, map_option (\<lambda>k. case m k of None \<Rightarrow> k | Some c \<Rightarrow> c) (snd j))"
    and "renamed (\<lambda>r. Some (me_session_key r)) (\<lambda>c r. r\<lparr>me_session_key := c\<rparr>) m e =
      e\<lparr>me_session_key := case m (me_session_key e) of None \<Rightarrow> me_session_key e | Some c \<Rightarrow> c\<rparr>"
    and "renamed (\<lambda>r. Some (ob_session_key r)) (\<lambda>c r. r\<lparr>ob_session_key := c\<rparr>) m b =
      b\<lparr>ob_session_key := case m (ob_session_key b) of None \<Rightarrow> ob_session_key b | Some c \<Rightarrow> c\<rparr>"
  by (auto simp: renamed_def split: option.splits) (cases j, auto)+

lemma chain_free_all: "chain_free (moves db (guild_lanes db))"
  using chain_free_prefix [of db "guild_lanes db" "[]"] by simp

text \<open>The tables after the transaction.\<close>

lemma upgraded_tables:
  "so_sessions (upgraded co (guild_lanes db) db) = map (\<lambda>r. r\<lparr>st_key := new_key db (st_key r)\<rparr>) (so_sessions db)"
  "so_messages (upgraded co (guild_lanes db) db) = map (\<lambda>r. r\<lparr>tr_session_key := new_key db (tr_session_key r)\<rparr>) (so_messages db)"
  "so_ledger (upgraded co (guild_lanes db) db) = map (\<lambda>r. r\<lparr>le_session_key := new_key db (le_session_key r)\<rparr>) (so_ledger db)"
  "so_cron_jobs (upgraded co (guild_lanes db) db) = map (\<lambda>r. (fst r, map_option (new_key db) (snd r))) (so_cron_jobs db)"
  "so_memories (upgraded co (guild_lanes db) db) = map (\<lambda>r. r\<lparr>me_session_key := new_key db (me_session_key r)\<rparr>) (so_memories db)"
  "so_obligations (upgraded co (guild_lanes db) db) = map (\<lambda>r. r\<lparr>ob_session_key := new_key db (ob_session_key r)\<rparr>) (so_obligations db)"
  by (simp_all add: upgraded_def sessions_col.rekey_rows_map messages_col.rekey_rows_map ledger_col.rekey_rows_map
      cron_col.rekey_rows_map memories_col.rekey_rows_map obligations_col.rekey_rows_map chain_free_all renamed_key
      flip: new_key_def)

lemma keys_upgraded: "st_key ` set (so_sessions (upgraded co (guild_lanes db) db)) = new_key db ` st_key ` set (so_sessions db)"
  by (simp add: upgraded_tables image_image)

lemma foreign_keys_upgraded: "foreign_keys_ok db \<Longrightarrow> foreign_keys_ok (upgraded co (guild_lanes db) db)"
  unfolding foreign_keys_ok_def Let_def keys_upgraded upgraded_tables(2-6)
  by (auto simp: list_all_iff split: option.splits)

lemma upgrade_eq:
  "store_wf db \<Longrightarrow> upgrade_legacy_guild_session_keys co db = Inr (upgraded co (guild_lanes db) db)"
  using upgrade_fold [of db "[]" "guild_lanes db" co]
  by (simp add: upgrade_legacy_guild_session_keys_def upgraded_Nil foreign_keys_upgraded store_wf_def)

lemma new_key_cases:
  obtains (same) "new_key db k = k"
  | (moved) c where "new_key db k = c" "k \<noteq> c" "lane_of k = Some c" "(c, [k]) \<in> set (guild_lanes db)"
      "c \<notin> snd ` set (so_conflicts db)"
proof (cases "map_of (moves db (guild_lanes db)) k")
  case None
  then show ?thesis using same by (simp add: new_key_def)
next
  case (Some c)
  then have "(k, c) \<in> set (moves db (guild_lanes db))" by (rule map_of_SomeD)
  then show ?thesis using moved Some move_lane [of k c db] by (simp add: new_key_def moves_iff)
qed

lemma new_key_only:
  assumes "(c, [k]) \<in> set (guild_lanes db)" and "c \<notin> snd ` set (so_conflicts db)"
  shows "new_key db k = c"
proof (cases "k = c")
  case True
  then show ?thesis
    using lane_keys_iff [OF assms(1), of k] by (cases rule: new_key_cases [of db k]) auto
next
  case False
  then have "map_of (moves db (guild_lanes db)) k = Some c"
    using assms chain_free_all [of db] by (simp add: moves_iff chain_free_def)
  then show ?thesis by (simp add: new_key_def)
qed

lemma inj_new_key: "inj_on (new_key db) (st_key ` set (so_sessions db))"
proof (rule inj_onI)
  fix a b
  assume s: "a \<in> st_key ` set (so_sessions db)" "b \<in> st_key ` set (so_sessions db)" and e: "new_key db a = new_key db b"
  have key: "a = b" if "new_key db a = c" "new_key db b = c" "(c, [a]) \<in> set (guild_lanes db)"
      "b \<in> st_key ` set (so_sessions db)" "lane_of a = Some c" for a b c
  proof -
    have "lane_of b = Some c"
      by (cases rule: new_key_cases [of db b]) (use that lane_of_canonical [of a c] in auto)
    then show ?thesis using lane_keys_iff [of c "[a]" db b] that by auto
  qed
  show "a = b"
  proof (cases rule: new_key_cases [of db a])
    case (moved c)
    then show ?thesis using key [of a c b] e s by simp
  next
    case same
    show ?thesis
    proof (cases rule: new_key_cases [of db b])
      case (moved c)
      then show ?thesis using key [of b c a] e s by simp
    qed (use same e in simp)
  qed
qed

subsection \<open>Deferred lanes\<close>

definition deferred :: "Store \<Rightarrow> string \<Rightarrow> bool" where
  "deferred db c \<longleftrightarrow> (\<exists>raws. (c, raws) \<in> set (guild_lanes db) \<and> (1 < length raws \<or> c \<in> snd ` set (so_conflicts db)))"

abbreviation stored_keys :: "Store \<Rightarrow> string set" where
  "stored_keys db \<equiv> st_key ` set (so_sessions db)"

lemma new_key_undeferred:
  assumes "lane_of k = Some c" and "k \<in> stored_keys db" and "\<not> deferred db c"
  shows "new_key db k = c \<and> (c, [k]) \<in> set (guild_lanes db)"
proof -
  obtain raws where r: "(c, raws) \<in> set (guild_lanes db)" "k \<in> set raws" using stored_lane assms(1,2) by blast
  then have "\<not> 1 < length raws" "c \<notin> snd ` set (so_conflicts db)" using assms(3) by (auto simp: deferred_def)
  with r(2) have "raws = [k]" by (cases raws) auto
  with r(1) \<open>c \<notin> _\<close> show ?thesis by (auto intro: new_key_only)
qed

lemma same_lane: "(c, xs) \<in> set (guild_lanes db) \<Longrightarrow> (c, ys) \<in> set (guild_lanes db) \<Longrightarrow> xs = ys"
  by (simp add: guild_lane_iff)

lemma new_key_deferred:
  assumes "lane_of k = Some c" and "deferred db c"
  shows "new_key db k = k"
proof (cases rule: new_key_cases [of db k])
  case (moved d)
  obtain raws where r: "(c, raws) \<in> set (guild_lanes db)" "1 < length raws \<or> c \<in> snd ` set (so_conflicts db)"
    using assms(2) by (auto simp: deferred_def)
  have "d = c" using moved(3) assms(1) by simp
  with r moved same_lane [of c raws db "[k]"] show ?thesis by auto
qed

lemma lane_of_new_key: "lane_of (new_key db k) = lane_of k"
  by (cases rule: new_key_cases [of db k]) (auto dest: lane_of_canonical)

lemma lane_conflicts_iff:
  "(k, c) \<in> set (lane_conflicts b l) \<longleftrightarrow> fst l = c \<and> (1 < length (snd l) \<or> c \<in> set b) \<and> k \<in> set (snd l)"
  by (cases l) (auto simp: lane_conflicts_def)

lemma set_deferrals:
  "(k, c) \<in> set (deferrals db (guild_lanes db)) \<longleftrightarrow> deferred db c \<and> lane_of k = Some c \<and> k \<in> stored_keys db"
proof
  assume "(k, c) \<in> set (deferrals db (guild_lanes db))"
  then obtain l where "l \<in> set (guild_lanes db)" "(k, c) \<in> set (lane_conflicts (map snd (so_conflicts db)) l)"
    by (auto simp: deferrals_def)
  then have "(c, snd l) \<in> set (guild_lanes db)" "1 < length (snd l) \<or> c \<in> snd ` set (so_conflicts db)" "k \<in> set (snd l)"
    unfolding lane_conflicts_iff set_map by auto
  then show "deferred db c \<and> lane_of k = Some c \<and> k \<in> stored_keys db"
    using lane_keys_iff [of c "snd l" db k] unfolding deferred_def by blast
next
  assume d: "deferred db c \<and> lane_of k = Some c \<and> k \<in> stored_keys db"
  then obtain raws where r: "(c, raws) \<in> set (guild_lanes db)" "1 < length raws \<or> c \<in> snd ` set (so_conflicts db)"
    by (auto simp: deferred_def)
  moreover have "k \<in> set raws" using lane_keys_iff [OF r(1), of k] d by simp
  ultimately show "(k, c) \<in> set (deferrals db (guild_lanes db))"
    unfolding deferrals_def by (auto simp: lane_conflicts_iff intro!: bexI [of _ "(c, raws)"])
qed

lemma key_present: "list_ex (\<lambda>r. key r = k) t \<longleftrightarrow> k \<in> key ` set t"
  by (simp add: list_ex_key_iff sql_get_None_iff)

lemma insert_ignore_pair:
  "fst ` set (sql_insert_ignore fst x t) = insert (fst x) (fst ` set t)"
  "set (sql_insert_ignore fst x t) \<subseteq> insert x (set t)"
  "set t \<subseteq> set (sql_insert_ignore fst x t)"
  "fst x \<in> fst ` set t \<Longrightarrow> sql_insert_ignore fst x t = t"
  by (auto simp: sql_insert_ignore_def key_present)

lemma keys_fold_insert_ignore: "fst ` set (fold (sql_insert_ignore fst) xs t) = fst ` set xs \<union> fst ` set t"
  by (induction xs arbitrary: t) (auto simp: insert_ignore_pair(1))

lemma fold_insert_ignore_upper: "set (fold (sql_insert_ignore fst) xs t) \<subseteq> set xs \<union> set t"
proof (induction xs arbitrary: t)
  case (Cons x xs)
  then show ?case using insert_ignore_pair(2) [of x t] Cons.IH [of "sql_insert_ignore fst x t"] by auto
qed simp

lemma fold_insert_ignore_lower: "set t \<subseteq> set (fold (sql_insert_ignore fst) xs t)"
proof (induction xs arbitrary: t)
  case (Cons x xs)
  then show ?case using insert_ignore_pair(3) [of t x] Cons.IH [of "sql_insert_ignore fst x t"] by auto
qed simp

lemma fold_insert_ignore_id: "fst ` set xs \<subseteq> fst ` set t \<Longrightarrow> fold (sql_insert_ignore fst) xs t = t"
  by (induction xs arbitrary: t) (auto simp: insert_ignore_pair(4))

lemma conflicts_upgraded:
  "so_conflicts (upgraded co (guild_lanes db) db) = fold (sql_insert_ignore fst) (deferrals db (guild_lanes db)) (so_conflicts db)"
  by (simp add: upgraded_def)

lemma store_wf_upgraded:
  assumes wf: "store_wf db"
  shows "store_wf (upgraded co (guild_lanes db) db)"
proof -
  let ?u = "upgraded co (guild_lanes db) db" and ?ps = "moves db (guild_lanes db)"
  have "map st_key (so_sessions ?u) = map (new_key db) (map st_key (so_sessions db))" by (simp add: upgraded_tables)
  then have "distinct (map st_key (so_sessions ?u))"
    using wf inj_new_key [of db] by (simp add: distinct_map [of "new_key db"] store_wf_def del: map_map)
  moreover have "distinct (map tr_id (so_messages ?u))" using wf by (simp add: upgraded_tables store_wf_def comp_def)
  moreover have "foreign_keys_ok ?u" using wf by (simp add: store_wf_def foreign_keys_upgraded)
  moreover have mv: "lane_of (fst p) = Some (snd p)" "lane_of (fst p) \<noteq> Some (fst p)" if "p \<in> set ?ps" for p
    using move_lane [of "fst p" "snd p" db] that by auto
  then have "distinct (map pa_message_id (so_pending_auth ?u))"
    using distinct_grants [OF wf, of ?ps] chain_free_all [of db] by (simp add: upgraded_def chain_free_def)
  moreover have "lane_of (new_key db (tr_session_key m)) = Some (new_key db (tr_session_key m))"
    if m: "m \<in> set (so_messages db)" and a: "tr_id m \<in> pa_message_id ` set (so_pending_auth ?u)" for m
  proof (cases "tr_id m \<in> pa_message_id ` set (so_pending_auth db)")
    case True
    then have "lane_of (tr_session_key m) = Some (tr_session_key m)" using wf m by (simp add: store_wf_def list_all_iff)
    then show ?thesis by (cases rule: new_key_cases [of db "tr_session_key m"]) auto
  next
    case False
    then obtain p where p: "p \<in> set ?ps" "tr_id m \<in> pa_message_id ` set (lane_grants db p)"
      using a by (auto simp: upgraded_def)
    obtain ms where "map pa_message_id (lane_grants db p) = map tr_id (filter ms (so_messages db))"
      and ms: "\<forall>m. ms m \<longrightarrow> tr_session_key m = fst p" using grant_ids [of db p] by auto
    from arg_cong [OF this(1), of set] p(2) ms obtain n where
      "n \<in> set (so_messages db)" "tr_id n = tr_id m" "tr_session_key n = fst p" by force
    then have "tr_session_key m = fst p" using row_by_key [of tr_id "so_messages db" n m] wf m by (simp add: store_wf_def)
    moreover have "map_of ?ps (fst p) = Some (snd p)" using chain_free_all [of db] p(1) by (simp add: chain_free_def)
    ultimately show ?thesis using mv [OF p(1)] lane_of_canonical [of "fst p" "snd p"] by (simp add: new_key_def)
  qed
  then have "list_all (\<lambda>m. tr_id m \<in> pa_message_id ` set (so_pending_auth ?u) \<longrightarrow>
      lane_of (tr_session_key m) = Some (tr_session_key m)) (so_messages ?u)"
    by (auto simp: upgraded_tables list_all_iff)
  ultimately show ?thesis unfolding store_wf_def by blast
qed

subsection \<open>A second run\<close>

lemma other_member: "distinct xs \<Longrightarrow> 1 < length xs \<Longrightarrow> \<exists>y \<in> set xs. y \<noteq> x"
  by (cases xs; cases "tl xs") auto

lemma stored_upgraded:
  assumes "k \<in> stored_keys (upgraded co (guild_lanes db) db)"
  obtains k0 where "k0 \<in> stored_keys db" "k = new_key db k0" "lane_of k0 = lane_of k"
  using assms unfolding keys_upgraded by (auto simp: lane_of_new_key)

lemma deferred_upgraded:
  assumes "deferred (upgraded co (guild_lanes db) db) c" and "store_wf db"
  shows "deferred db c"
proof (rule ccontr)
  let ?u = "upgraded co (guild_lanes db) db"
  assume n: "\<not> deferred db c"
  obtain raws where r: "(c, raws) \<in> set (guild_lanes ?u)" "1 < length raws \<or> c \<in> snd ` set (so_conflicts ?u)"
    using assms(1) by (auto simp: deferred_def)
  have one: "k = c" if "k \<in> set raws" for k
  proof -
    have k: "lane_of k = Some c" "k \<in> stored_keys ?u" using lane_keys_iff [OF r(1)] that by auto
    from k(2) obtain k0 where "k0 \<in> stored_keys db" "k = new_key db k0" "lane_of k0 = lane_of k" by (rule stored_upgraded)
    then show ?thesis using new_key_undeferred [of k0 c db] k(1) n by simp
  qed
  have d: "distinct raws"
    using r(1) store_wf_upgraded [OF assms(2), of co] by (simp add: guild_lane_iff lane_keys_def store_wf_def)
  have "\<not> 1 < length raws"
    using other_member [OF d, of c] one by auto
  then obtain x where "(x, c) \<in> set (so_conflicts ?u)" using r(2) by auto
  then have "(x, c) \<in> set (deferrals db (guild_lanes db)) \<or> (x, c) \<in> set (so_conflicts db)"
    using fold_insert_ignore_upper unfolding conflicts_upgraded by fast
  moreover have "(x, c) \<notin> set (deferrals db (guild_lanes db))" using n by (simp add: set_deferrals)
  moreover have False if "(x, c) \<in> set (so_conflicts db)"
  proof -
    obtain k where "k \<in> set raws" using lane_nonempty [OF r(1)] by (cases raws) auto
    then have k: "lane_of k = Some c" "k \<in> stored_keys ?u" using lane_keys_iff [OF r(1)] by auto
    from k(2) obtain k0 where "k0 \<in> stored_keys db" "lane_of k0 = lane_of k" by (rule stored_upgraded)
    then obtain raws0 where "(c, raws0) \<in> set (guild_lanes db)" using stored_lane k(1) by metis
    then have "deferred db c" using that unfolding deferred_def by (metis image_eqI snd_conv)
    then show False using n by simp
  qed
  ultimately show False by blast
qed

lemma no_moves_upgraded:
  assumes "store_wf db"
  shows "moves (upgraded co (guild_lanes db) db) (guild_lanes (upgraded co (guild_lanes db) db)) = []"
proof -
  let ?u = "upgraded co (guild_lanes db) db"
  have no: False if m: "(raw, c) \<in> set (moves ?u (guild_lanes ?u))" for raw c
  proof -
    have l: "(c, [raw]) \<in> set (guild_lanes ?u)" "raw \<noteq> c" "c \<notin> snd ` set (so_conflicts ?u)" using m by (auto simp: moves_iff)
    have raw: "lane_of raw = Some c" "raw \<in> stored_keys ?u" using lane_keys_iff [OF l(1)] by auto
    from raw(2) obtain k where k: "k \<in> stored_keys db" "raw = new_key db k" "lane_of k = lane_of raw" by (rule stored_upgraded)
    have d: "deferred db c" using new_key_undeferred [of k c db] k raw l(2) by auto
    then have kr: "k = raw" using new_key_deferred [of k c db] k raw by simp
    obtain raws where r: "(c, raws) \<in> set (guild_lanes db)" "1 < length raws \<or> c \<in> snd ` set (so_conflicts db)"
      using d by (auto simp: deferred_def)
    have "c \<notin> snd ` set (so_conflicts db)"
      using l(3) fold_insert_ignore_lower [of "so_conflicts db" "deferrals db (guild_lanes db)"]
      unfolding conflicts_upgraded by fast
    then have "1 < length raws" using r(2) by simp
    moreover have "distinct raws"
      using r(1) assms by (simp add: guild_lane_iff lane_keys_def store_wf_def)
    ultimately obtain k2 where k2: "k2 \<in> set raws" "k2 \<noteq> raw"
      using other_member [of raws raw] by auto
    have "lane_of k2 = Some c" "k2 \<in> stored_keys db" using lane_keys_iff [OF r(1)] k2 by auto
    then have "k2 \<in> stored_keys ?u" using new_key_deferred [of k2 c db] d unfolding keys_upgraded by (metis image_eqI)
    then have "k2 \<in> set [raw]" using lane_keys_iff [OF l(1), of k2] \<open>lane_of k2 = Some c\<close> by simp
    then show False using k2(2) by simp
  qed
  show ?thesis
  proof (cases "moves ?u (guild_lanes ?u)")
    case (Cons p ps)
    then have "(fst p, snd p) \<in> set (moves ?u (guild_lanes ?u))" by simp
    then show ?thesis using no by fast
  qed
qed

lemma upgraded_again:
  assumes "store_wf db"
  shows "upgraded co (guild_lanes (upgraded co (guild_lanes db) db)) (upgraded co (guild_lanes db) db) = upgraded co (guild_lanes db) db"
proof -
  let ?u = "upgraded co (guild_lanes db) db"
  have "fst ` set (deferrals ?u (guild_lanes ?u)) \<subseteq> fst ` set (so_conflicts ?u)"
  proof
    fix k assume "k \<in> fst ` set (deferrals ?u (guild_lanes ?u))"
    then obtain c where "(k, c) \<in> set (deferrals ?u (guild_lanes ?u))" by auto
    then have k: "deferred ?u c" "lane_of k = Some c" "k \<in> stored_keys ?u" by (auto simp: set_deferrals)
    have d: "deferred db c" using deferred_upgraded [OF k(1) assms] .
    from k(3) obtain k0 where k0: "k0 \<in> stored_keys db" "k = new_key db k0" "lane_of k0 = lane_of k" by (rule stored_upgraded)
    then have "k0 = k" using new_key_deferred [of k0 c db] d k(2) by simp
    then have "(k, c) \<in> set (deferrals db (guild_lanes db))" using k0 d k(2) by (simp add: set_deferrals)
    then show "k \<in> fst ` set (so_conflicts ?u)"
      unfolding conflicts_upgraded keys_fold_insert_ignore by (metis UnI1 fst_conv image_eqI)
  qed
  from fold_insert_ignore_id [OF this] no_moves_upgraded [OF assms, of co]
  have "upgraded co (guild_lanes ?u) ?u = ?u\<lparr>so_sessions := so_sessions ?u\<rparr>"
    by (subst upgraded_def) simp
  then show ?thesis by simp
qed

subsection \<open>Properties\<close>

text \<open>The rule of the upgrade, one key at a time: a guild key takes its canonical form unless another
  stored key has the same one or the lane is already deferred; every other key stays.\<close>

definition contested :: "Store \<Rightarrow> string \<Rightarrow> string \<Rightarrow> bool" where
  "contested db k c \<longleftrightarrow> list_ex (\<lambda>r. st_key r \<noteq> k \<and> lane_of (st_key r) = Some c) (so_sessions db) \<or>
     c \<in> snd ` set (so_conflicts db)"

definition lane_key :: "Store \<Rightarrow> string \<Rightarrow> string" where
  "lane_key db k = (case lane_of k of None \<Rightarrow> k | Some c \<Rightarrow> if contested db k c then k else c)"

lemma contested_deferred:
  assumes "store_wf db" and "lane_of k = Some c" and "k \<in> stored_keys db"
  shows "contested db k c \<longleftrightarrow> deferred db c"
proof -
  obtain raws where r: "(c, raws) \<in> set (guild_lanes db)" "k \<in> set raws" using stored_lane [OF assms(2,3)] by auto
  have d: "distinct raws" using r(1) assms(1) by (simp add: guild_lane_iff lane_keys_def store_wf_def)
  have "list_ex (\<lambda>s. st_key s \<noteq> k \<and> lane_of (st_key s) = Some c) (so_sessions db) \<longleftrightarrow> (\<exists>x \<in> set raws. x \<noteq> k)"
    using lane_keys_iff [OF r(1)] by (auto simp: list_ex_iff)
  also have "\<dots> \<longleftrightarrow> 1 < length raws"
    using other_member [OF d, of k] r(2) by (cases raws; cases "tl raws") auto
  finally have "contested db k c \<longleftrightarrow> 1 < length raws \<or> c \<in> snd ` set (so_conflicts db)" by (simp add: contested_def)
  moreover have "(c, ys) \<in> set (guild_lanes db) \<longleftrightarrow> ys = raws" for ys using r(1) same_lane [OF r(1), of ys] by auto
  ultimately show ?thesis by (simp add: deferred_def)
qed

lemma lane_key_eq:
  assumes "store_wf db" and "k \<in> stored_keys db"
  shows "new_key db k = lane_key db k"
proof (cases "lane_of k")
  case None
  then show ?thesis by (cases rule: new_key_cases [of db k]) (auto simp: lane_key_def)
next
  case (Some c)
  then show ?thesis
    using contested_deferred [OF assms(1) Some assms(2)] new_key_deferred [OF Some]
      new_key_undeferred [OF Some assms(2)]
    by (auto simp: lane_key_def)
qed

text \<open>C13: on a consistent store the upgrade succeeds and loses nothing.  Every session row is kept with
  its state, its initiator and its resume flag; the messages, deliveries, cron jobs, memories and
  obligations follow the key of their session, in their order; a key changes exactly by the rule above;
  the keys of contested lanes are recorded as deferred; and the store is consistent again.\<close>

theorem legacy_upgrade:
  assumes "store_wf db"
  shows "\<exists>db'. upgrade_legacy_guild_session_keys co db = Inr db' \<and> store_wf db' \<and>
    so_sessions db' = map (\<lambda>r. r\<lparr>st_key := lane_key db (st_key r)\<rparr>) (so_sessions db) \<and>
    so_messages db' = map (\<lambda>r. r\<lparr>tr_session_key := lane_key db (tr_session_key r)\<rparr>) (so_messages db) \<and>
    so_ledger db' = map (\<lambda>r. r\<lparr>le_session_key := lane_key db (le_session_key r)\<rparr>) (so_ledger db) \<and>
    so_cron_jobs db' = map (\<lambda>r. (fst r, map_option (lane_key db) (snd r))) (so_cron_jobs db) \<and>
    so_memories db' = map (\<lambda>r. r\<lparr>me_session_key := lane_key db (me_session_key r)\<rparr>) (so_memories db) \<and>
    so_obligations db' = map (\<lambda>r. r\<lparr>ob_session_key := lane_key db (ob_session_key r)\<rparr>) (so_obligations db) \<and>
    fst ` set (so_conflicts db') = fst ` set (so_conflicts db) \<union>
      {k \<in> stored_keys db. \<exists>c. lane_of k = Some c \<and> contested db k c}"
proof -
  let ?u = "upgraded co (guild_lanes db) db"
  note key = lane_key_eq [OF assms]
  have fk: "foreign_keys_ok db" using assms by (simp add: store_wf_def)
  have "fst ` set (deferrals db (guild_lanes db)) = {k \<in> stored_keys db. \<exists>c. lane_of k = Some c \<and> contested db k c}"
  proof -
    have "k \<in> fst ` set (deferrals db (guild_lanes db)) \<longleftrightarrow> (\<exists>c. (k, c) \<in> set (deferrals db (guild_lanes db)))" for k
      by force
    then show ?thesis using contested_deferred [OF assms] by (auto simp: set_deferrals)
  qed
  then have "fst ` set (so_conflicts ?u) = fst ` set (so_conflicts db) \<union>
      {k \<in> stored_keys db. \<exists>c. lane_of k = Some c \<and> contested db k c}"
    unfolding conflicts_upgraded keys_fold_insert_ignore by blast
  moreover have "so_messages ?u = map (\<lambda>r. r\<lparr>tr_session_key := lane_key db (tr_session_key r)\<rparr>) (so_messages db)"
    "so_ledger ?u = map (\<lambda>r. r\<lparr>le_session_key := lane_key db (le_session_key r)\<rparr>) (so_ledger db)"
    "so_memories ?u = map (\<lambda>r. r\<lparr>me_session_key := lane_key db (me_session_key r)\<rparr>) (so_memories db)"
    "so_obligations ?u = map (\<lambda>r. r\<lparr>ob_session_key := lane_key db (ob_session_key r)\<rparr>) (so_obligations db)"
    "so_sessions ?u = map (\<lambda>r. r\<lparr>st_key := lane_key db (st_key r)\<rparr>) (so_sessions db)"
    "so_cron_jobs ?u = map (\<lambda>r. (fst r, map_option (lane_key db) (snd r))) (so_cron_jobs db)"
    using fk key
    by (auto simp: upgraded_tables foreign_keys_ok_def Let_def list_all_iff intro!: option.map_cong split: option.splits)
  ultimately show ?thesis using upgrade_eq [OF assms] store_wf_upgraded [OF assms] by blast
qed

text \<open>Three legacy rows of one guild: a lane of one user with a pending turn, and a lane two users share.\<close>

definition sample_row :: "string \<Rightarrow> string \<Rightarrow> string \<Rightarrow> int \<Rightarrow> StoredSession" where
  "sample_row k chan user p = \<lparr>st_key = k, st_platform = ''discord'', st_guild_id = Some ''g'', st_channel_id = chan,
     st_thread_id = None, st_user_id = user, st_state_json = ''{}'', st_resume_pending = p, st_updated_at = 0\<rparr>"

definition sample_message :: "string \<Rightarrow> string \<Rightarrow> int \<Rightarrow> TranscriptRow" where
  "sample_message i k n = \<lparr>tr_id = i, tr_session_key = k, tr_sequence = n, tr_role = ''user'', tr_content = ''hi'',
     tr_metadata_json = ''[]'', tr_created_at = 0, tr_platform_message_id = None\<rparr>"

definition sample_codec :: Codec where
  "sample_codec = \<lparr>state_read = (\<lambda>t. Inr (session_state_default\<lparr>suspended := t = ''s''\<rparr>)),
     state_write = (\<lambda>s. if suspended s then ''s'' else ''{}''), json_read = Inl, json_write = (\<lambda>_. '''')\<rparr>"

definition sample_store :: Store where
  "sample_store = store_empty\<lparr>
     so_sessions := [sample_row ''7:discord|1:g|1:c|-|1:7'' ''c'' ''7'' 1,
       sample_row ''7:discord|1:g|1:d|-|1:8'' ''d'' ''8'' 1, sample_row ''7:discord|1:g|1:d|-|1:9'' ''d'' ''9'' 0],
     so_messages := [sample_message ''m1'' ''7:discord|1:g|1:c|-|1:7'' 1, sample_message ''m2'' ''7:discord|1:g|1:d|-|1:8'' 2]\<rparr>"

lemma sample_dec: "dec (Suc (Suc (Suc (Suc (Suc (Suc (Suc 0))))))) = ''7''" "dec 1 = ''1''" "dec 0 = ''0''" "dec (Suc 0) = ''1''"
  by code_simp+

lemma sample_lanes:
  "lane_of ''7:discord|1:g|1:c|-|1:7'' = Some ''7:discord|1:g|1:c|-|0:''"
  "lane_of ''7:discord|1:g|1:d|-|1:8'' = Some ''7:discord|1:g|1:d|-|0:''"
  "lane_of ''7:discord|1:g|1:d|-|1:9'' = Some ''7:discord|1:g|1:d|-|0:''"
  by (simp_all add: lane_of_def from_storage_key_eval storage_key_def component_def sample_dec)

lemmas sample_defs = sample_store_def sample_row_def sample_message_def store_empty_def

lemma sample_store_wf: "store_wf sample_store"
  by (simp add: store_wf_def sample_defs foreign_keys_ok_def)

theorem legacy_upgrade_witness:
  "\<exists>db'. upgrade_legacy_guild_session_keys sample_codec sample_store = Inr db' \<and>
    map st_key (so_sessions db') = [''7:discord|1:g|1:c|-|0:'', ''7:discord|1:g|1:d|-|1:8'', ''7:discord|1:g|1:d|-|1:9''] \<and>
    map tr_session_key (so_messages db') = [''7:discord|1:g|1:c|-|0:'', ''7:discord|1:g|1:d|-|1:8'']"
proof -
  obtain db' where u: "upgrade_legacy_guild_session_keys sample_codec sample_store = Inr db'"
    "so_sessions db' = map (\<lambda>r. r\<lparr>st_key := lane_key sample_store (st_key r)\<rparr>) (so_sessions sample_store)"
    "so_messages db' = map (\<lambda>r. r\<lparr>tr_session_key := lane_key sample_store (tr_session_key r)\<rparr>) (so_messages sample_store)"
    using legacy_upgrade [OF sample_store_wf, of sample_codec] by metis
  have "map (lane_key sample_store) (map st_key (so_sessions sample_store)) =
      [''7:discord|1:g|1:c|-|0:'', ''7:discord|1:g|1:d|-|1:8'', ''7:discord|1:g|1:d|-|1:9'']"
    by (simp add: sample_defs lane_key_def contested_def sample_lanes)
  moreover from this have "map (lane_key sample_store) (map tr_session_key (so_messages sample_store)) =
      [''7:discord|1:g|1:c|-|0:'', ''7:discord|1:g|1:d|-|1:8'']"
    by (simp add: sample_defs)
  ultimately show ?thesis using u by (simp add: comp_def)
qed

text \<open>The upgrade can run at every start: a second run finds nothing to do.\<close>

theorem legacy_upgrade_idempotent:
  assumes "store_wf db" and "upgrade_legacy_guild_session_keys co db = Inr db'"
  shows "upgrade_legacy_guild_session_keys co db' = Inr db'"
proof -
  have "db' = upgraded co (guild_lanes db) db" using assms upgrade_eq by simp
  then show ?thesis using upgrade_eq [OF store_wf_upgraded [OF assms(1)]] upgraded_again [OF assms(1)] by simp
qed

theorem legacy_upgrade_idempotent_witness:
  "\<exists>db'. upgrade_legacy_guild_session_keys sample_codec sample_store = Inr db' \<and>
    upgrade_legacy_guild_session_keys sample_codec db' = Inr db'"
  using legacy_upgrade_idempotent [OF sample_store_wf upgrade_eq [OF sample_store_wf, of sample_codec]]
    upgrade_eq [OF sample_store_wf, of sample_codec] by auto

text \<open>The upgrade vouches for the author of a message only where the stored key names that author:
  the message is a user message, the last of a lane that waits to be resumed, and the old key of the lane
  is, byte for byte, the legacy key with the stored initiator.\<close>

theorem upgrade_grants:
  assumes "store_wf db" and "upgrade_legacy_guild_session_keys co db = Inr db'"
    and "a \<in> set (so_pending_auth db')"
  shows "a \<in> set (so_pending_auth db) \<or>
    (\<exists>m row key. m \<in> set (so_messages db) \<and> row \<in> set (so_sessions db) \<and>
      pa_message_id a = tr_id m \<and> tr_role m = ''user'' \<and> tr_session_key m = st_key row \<and>
      (\<forall>n \<in> set (so_messages db). tr_session_key n = st_key row \<longrightarrow> tr_sequence n \<le> tr_sequence m) \<and>
      st_resume_pending row = 1 \<and> pa_author_id a = st_user_id row \<and>
      from_storage_key (st_key row) = Inr key \<and> legacy_key key (st_user_id row) = st_key row \<and>
      pa_canonical_key a = storage_key key)"
proof (cases "a \<in> set (so_pending_auth db)")
  case False
  have d: "distinct (map st_key (so_sessions db))" using assms(1) by (simp add: store_wf_def)
  have "db' = upgraded co (guild_lanes db) db" using assms(1,2) upgrade_eq by simp
  then obtain raw c where p: "(raw, c) \<in> set (moves db (guild_lanes db))" "a \<in> set (lane_grants db (raw, c))"
    using assms(3) False by (auto simp: upgraded_def)
  obtain key where key: "from_storage_key raw = Inr key" using p(2) by (cases "from_storage_key raw") (auto simp: lane_grants_def)
  obtain row where get: "session_row raw db = Some row" using p(2) by (cases "session_row raw db") (auto simp: lane_grants_def key)
  have k: "legacy_key key (st_user_id row) = raw" "a \<in> set (pending_grants c raw (st_user_id row) db)"
    using p(2) by (simp_all add: lane_grants_def key get split: if_splits)
  have row: "row \<in> set (so_sessions db)" "st_key row = raw" using get by (auto simp: session_row_def dest: sql_get_SomeD)
  obtain s where s: "s \<in> set (so_sessions db)" "st_key s = raw" "st_resume_pending s = 1"
    using k(2) by (auto simp: pending_grants_def Let_def list_ex_iff split: if_splits)
  have "s = row" using row_by_key [OF d s(1) row(1)] s(2) row(2) by simp
  moreover obtain m where "m \<in> set (so_messages db)" "tr_session_key m = raw" "tr_role m = ''user''"
      "\<forall>n \<in> set (so_messages db). tr_session_key n = raw \<longrightarrow> tr_sequence n \<le> tr_sequence m"
      "pa_message_id a = tr_id m" "pa_author_id a = st_user_id row" "pa_canonical_key a = c"
    using k(2) by (auto simp: pending_grants_def Let_def list_all_iff split: if_splits)
  moreover have "c = storage_key key" using move_lane [OF p(1)] by (simp add: lane_of_def key split: if_splits)
  ultimately show ?thesis using row s(3) k(1) key by metis
qed simp

theorem upgrade_grants_witness:
  "\<exists>db' a. upgrade_legacy_guild_session_keys sample_codec sample_store = Inr db' \<and> a \<in> set (so_pending_auth db') \<and>
    (\<exists>m \<in> set (so_messages sample_store). pa_message_id a = tr_id m \<and> pa_author_id a = ''7'')"
proof -
  let ?k = "''7:discord|1:g|1:c|-|1:7''" and ?c = "''7:discord|1:g|1:c|-|0:''"
  let ?db' = "upgraded sample_codec (guild_lanes sample_store) sample_store"
  let ?a = "\<lparr>pa_message_id = ''m1'', pa_message_sequence = 1, pa_canonical_key = ?c, pa_raw_key = ?k, pa_author_id = ''7''\<rparr>"
  obtain raws where r: "(?c, raws) \<in> set (guild_lanes sample_store)" "?k \<in> set raws"
    using stored_lane [OF sample_lanes(1), of sample_store] by (auto simp: sample_defs)
  then have "raws = [?k]"
    by (auto simp: guild_lane_iff lane_keys_def sample_defs sample_lanes)
  then have "(?k, ?c) \<in> set (moves sample_store (guild_lanes sample_store))"
    using r(1) by (simp add: moves_iff) (simp add: sample_defs)
  moreover have "?a \<in> set (lane_grants sample_store (?k, ?c))"
    by (simp add: lane_grants_def session_row_def sample_defs from_storage_key_eval pending_grants_def
        legacy_key_def component_def sample_dec)
  ultimately have "?a \<in> set (so_pending_auth ?db')" unfolding upgraded_def by (simp add: rev_bexI)
  moreover from upgrade_grants [OF sample_store_wf upgrade_eq [OF sample_store_wf] this]
  have "\<exists>m \<in> set (so_messages sample_store). pa_message_id ?a = tr_id m" by (auto simp: sample_defs)
  ultimately show ?thesis using upgrade_eq [OF sample_store_wf, of sample_codec] by force
qed

end
