(* ===== verification/File_Tool.thy ===== *)
theory File_Tool
  imports Command_Policy Gateway_Events Json_Value "HOL-Library.Char_ord" "HOL-Library.List_Lexorder"
    "HOL-Library.Option_ord" "HOL-Library.Product_Lexorder"
begin

section \<open>The file tool\<close>

text \<open>
  The file tool (\<open>src/tools/file.rs\<close>): reading, writing, listing and searching below authorised roots.
  A path is the list of its components, as \<open>std::path\<close> compares and joins them; the root component is
  \<open>/\<close>.  The file system is a parameter: a state of any type with the queries and updates the tool calls.
  Every update is logged, so that what the tool did is part of its result.
\<close>

subsection \<open>Paths\<close>

type_synonym path = "string list"

definition path_is_absolute :: "path \<Rightarrow> bool" where
  "path_is_absolute p \<longleftrightarrow> p \<noteq> [] \<and> hd p = ''/''"

definition path_push :: "path \<Rightarrow> path \<Rightarrow> path" where
  "path_push p q =
     (if path_is_absolute q \<or> p = [] then q else p @ (if q \<noteq> [] \<and> hd q = ''.'' then tl q else q))"

definition path_parent :: "path \<Rightarrow> path option" where
  "path_parent p = (if p = [] \<or> p = [''/''] then None else Some (butlast p))"

definition path_file_name :: "path \<Rightarrow> string option" where
  "path_file_name p = (if p = [] \<or> last p \<in> {''/'', ''.'', ''..''} then None else Some (last p))"

definition path_text :: "path \<Rightarrow> string" where
  "path_text p = (case p of [] \<Rightarrow> [] | r # cs \<Rightarrow> if r = ''/'' then ''/'' @ join ''/'' cs else join ''/'' p)"

subsection \<open>The file system\<close>

record Metadata =
  md_symlink :: bool
  md_dir :: bool
  md_file :: bool
  md_len :: nat
  md_nlink :: nat

datatype Stat = Found Metadata | NotFound | StatError string

record DirEntry =
  de_name :: string
  de_path :: path
  de_is_dir :: bool
  de_size :: nat

record 'f Fs =
  fs_canon :: "'f \<Rightarrow> path \<Rightarrow> string + path"
  fs_exists :: "'f \<Rightarrow> path \<Rightarrow> bool"
  fs_stat :: "'f \<Rightarrow> path \<Rightarrow> Stat"
  fs_bytes :: "'f \<Rightarrow> path \<Rightarrow> string + string"
  fs_entries :: "'f \<Rightarrow> path \<Rightarrow> string + DirEntry list"
  fs_mkdir :: "path \<Rightarrow> 'f \<Rightarrow> string + 'f"
  fs_put :: "path \<Rightarrow> string \<Rightarrow> 'f \<Rightarrow> string + 'f"

datatype FileEffect = Created path | Wrote path string

text \<open>\<open>from_utf8\<close> and \<open>from_utf8_lossy\<close>.\<close>

record Utf8 =
  valid_utf8 :: "string \<Rightarrow> bool"
  utf8_lossy :: "string \<Rightarrow> string"

definition tool_error :: "string + 'a \<Rightarrow> OmonError + 'a" where
  "tool_error r = (case r of Inl e \<Rightarrow> Inl (ToolExecution e) | Inr x \<Rightarrow> Inr x)"

subsection \<open>Authorised paths\<close>

record FileTool =
  ft_root :: path
  ft_extra_roots :: "path list"
  ft_max_read_bytes :: nat
  ft_max_search_results :: nat
  ft_require_write_approval :: bool

definition file_tool_new :: "path \<Rightarrow> FileTool" where
  "file_tool_new root = \<lparr>ft_root = root, ft_extra_roots = [], ft_max_read_bytes = 200000,
     ft_max_search_results = 1000, ft_require_write_approval = False\<rparr>"

definition file_authorized_roots :: "'f Fs \<Rightarrow> 'f \<Rightarrow> path list \<Rightarrow> FileTool \<Rightarrow> FileTool" where
  "file_authorized_roots F f roots T = T\<lparr>ft_extra_roots := List.map_filter (\<lambda>p.
     case fs_canon F f p of
       Inr c \<Rightarrow> (case fs_stat F f c of Found md \<Rightarrow> if md_dir md then Some c else None | _ \<Rightarrow> None)
     | Inl _ \<Rightarrow> None) roots\<rparr>"

definition with_write_approval :: "bool \<Rightarrow> FileTool \<Rightarrow> FileTool" where
  "with_write_approval enabled T = T\<lparr>ft_require_write_approval := enabled\<rparr>"

definition canonical_root :: "'f Fs \<Rightarrow> 'f \<Rightarrow> FileTool \<Rightarrow> OmonError + path" where
  "canonical_root F f T = tool_error (fs_canon F f (ft_root T))"

definition file_is_authorized :: "'f Fs \<Rightarrow> 'f \<Rightarrow> FileTool \<Rightarrow> path \<Rightarrow> bool" where
  "file_is_authorized F f T p \<longleftrightarrow>
     (case canonical_root F f T of Inr root \<Rightarrow> prefix root p | Inl _ \<Rightarrow> False) \<or>
     list_ex (\<lambda>root. prefix root p) (ft_extra_roots T)"

definition escapes :: OmonError where
  "escapes = ToolExecution ''path escapes tool root''"

definition ensure_inside_root :: "'f Fs \<Rightarrow> 'f \<Rightarrow> FileTool \<Rightarrow> path \<Rightarrow> OmonError + path" where
  "ensure_inside_root F f T p =
     and_then (tool_error (fs_canon F f p)) (\<lambda>c. if file_is_authorized F f T c then Inr c else Inl escapes)"

definition target_path :: "'f Fs \<Rightarrow> 'f \<Rightarrow> FileTool \<Rightarrow> string \<Rightarrow> OmonError + path" where
  "target_path F f T value =
     (let p = path_components value in
      if path_is_absolute p then Inr p
      else and_then (canonical_root F f T) (\<lambda>root. Inr (path_push root p)))"

definition checked_existing :: "'f Fs \<Rightarrow> 'f \<Rightarrow> FileTool \<Rightarrow> string \<Rightarrow> OmonError + path" where
  "checked_existing F f T value = and_then (target_path F f T value) (ensure_inside_root F f T)"

definition file_required :: "string \<Rightarrow> json \<Rightarrow> OmonError + string" where
  "file_required key args = ok_or (ToolExecution (''missing string argument: '' @ key)) (get_str key args)"

definition relative_string :: "path \<Rightarrow> path \<Rightarrow> string" where
  "relative_string root p =
     (if prefix root p then map (\<lambda>c. if c = CHR 0x5C then CHR ''/'' else c) (path_text (drop (length root) p))
      else path_text p)"

subsection \<open>Reading\<close>

definition truncated_text :: "Utf8 \<Rightarrow> string \<Rightarrow> nat \<Rightarrow> string \<Rightarrow> string" where
  "truncated_text U head_bytes omitted tail_bytes =
     utf8_lossy U head_bytes @ [CHR 0x0A, CHR 0x0A] @ ''... [file truncated: '' @ dec omitted @
     '' bytes omitted] ...'' @ [CHR 0x0A, CHR 0x0A] @ utf8_lossy U tail_bytes"

definition head_and_tail :: "nat \<Rightarrow> nat \<Rightarrow> string \<Rightarrow> OmonError + (string \<times> string \<times> nat)" where
  "head_and_tail max_read tlen bytes =
     (let head_len = (max_read * 2) div 5; tail_len = max_read - head_len;
          h = take head_len bytes; t = take tail_len (drop (tlen - tail_len) bytes)
      in if length h < head_len \<or> length t < tail_len then Inl (ToolExecution ''failed to fill whole buffer'')
         else Inr (h, t, tlen - (length h + length t)))"

definition file_read :: "Utf8 \<Rightarrow> 'f Fs \<Rightarrow> 'f \<Rightarrow> FileTool \<Rightarrow> json \<Rightarrow> OmonError + json" where
  "file_read U F f T args =
     and_then (and_then (file_required ''path'' args) (checked_existing F f T)) (\<lambda>p.
       case fs_stat F f p of
         NotFound \<Rightarrow> Inl (ToolExecution ''No such file or directory'')
       | StatError e \<Rightarrow> Inl (ToolExecution e)
       | Found md \<Rightarrow>
           if md_symlink md \<or> \<not> md_file md
           then Inl (ToolExecution ''read path must resolve to a regular file inside tool root'')
           else and_then (tool_error (fs_bytes F f p)) (\<lambda>bytes.
             if ft_max_read_bytes T < md_len md
             then and_then (head_and_tail (ft_max_read_bytes T) (md_len md) bytes) (\<lambda>(h, t, omitted).
                 Inr (JObj [(''content'', JStr (truncated_text U h omitted t)), (''truncated'', JBool True)]))
             else if valid_utf8 U bytes then Inr (JObj [(''content'', JStr bytes)])
             else Inl (ToolExecution ''file is not valid UTF-8'')))"

subsection \<open>Writing\<close>

text \<open>The nearest ancestor that exists, with the names to create below it.\<close>

function climb :: "('f \<Rightarrow> path \<Rightarrow> bool) \<Rightarrow> 'f \<Rightarrow> path \<Rightarrow> string list \<Rightarrow> OmonError + (path \<times> string list)" where
  "climb ex f p names =
     (if ex f p then Inr (p, names)
      else case path_file_name p of
        None \<Rightarrow> Inl escapes
      | Some name \<Rightarrow> (case path_parent p of None \<Rightarrow> Inl escapes | Some q \<Rightarrow> climb ex f q (name # names)))"
  by pat_completeness auto
termination
  by (relation "measure (\<lambda>(ex, f, p, names). length p)") (auto simp: path_parent_def split: if_splits)

declare climb.simps [simp del]

type_synonym 'f fs_state = "'f \<times> FileEffect list"

text \<open>One directory level: it is there and a directory, or it is created and checked; then its real
  place is checked.\<close>

definition make_level :: "'f Fs \<Rightarrow> FileTool \<Rightarrow> path \<Rightarrow> 'f fs_state \<Rightarrow> 'f fs_state \<times> (OmonError + unit)" where
  "make_level F T current s =
     (case s of (f, log) \<Rightarrow>
        let inside = (\<lambda>f. and_then (ensure_inside_root F f T current) (\<lambda>_. Inr ())) in
        case fs_stat F f current of
          StatError e \<Rightarrow> (s, Inl (ToolExecution e))
        | Found md \<Rightarrow>
            if md_symlink md \<or> \<not> md_dir md
            then (s, Inl (ToolExecution ''write path contains a non-directory or symbolic link''))
            else (s, inside f)
        | NotFound \<Rightarrow>
            (case fs_mkdir F current f of
               Inl e \<Rightarrow> (s, Inl (ToolExecution e))
             | Inr f' \<Rightarrow>
                 let s' = (f', log @ [Created current]) in
                 (case fs_stat F f' current of
                    NotFound \<Rightarrow> (s', Inl (ToolExecution ''No such file or directory''))
                  | StatError e \<Rightarrow> (s', Inl (ToolExecution e))
                  | Found md \<Rightarrow>
                      if md_symlink md \<or> \<not> md_dir md
                      then (s', Inl (ToolExecution ''created path is not a directory inside tool root''))
                      else (s', inside f'))))"

fun make_levels :: "'f Fs \<Rightarrow> FileTool \<Rightarrow> path \<Rightarrow> string list \<Rightarrow> 'f fs_state \<Rightarrow> 'f fs_state \<times> (OmonError + path)" where
  "make_levels F T current [] s = (s, Inr current)"
| "make_levels F T current (name # names) s =
     (let current = path_push current [name] in
      case make_level F T current s of
        (s', Inl e) \<Rightarrow> (s', Inl e)
      | (s', Inr _) \<Rightarrow> make_levels F T current names s')"

definition create_checked_directories ::
  "'f Fs \<Rightarrow> FileTool \<Rightarrow> path \<Rightarrow> 'f fs_state \<Rightarrow> 'f fs_state \<times> (OmonError + path)" where
  "create_checked_directories F T parent s =
     (case climb (fs_exists F) (fst s) parent [] of
        Inl e \<Rightarrow> (s, Inl e)
      | Inr (ancestor, names) \<Rightarrow>
          (case tool_error (fs_canon F (fst s) ancestor) of
             Inl e \<Rightarrow> (s, Inl e)
           | Inr c \<Rightarrow>
               if \<not> file_is_authorized F (fst s) T c then (s, Inl escapes)
               else make_levels F T c names s))"

text \<open>What is at the target before it is written, and after.\<close>

definition check_target :: "'f Fs \<Rightarrow> FileTool \<Rightarrow> path \<Rightarrow> 'f \<Rightarrow> OmonError + unit" where
  "check_target F T target f =
     (case fs_stat F f target of
        NotFound \<Rightarrow> Inr ()
      | StatError e \<Rightarrow> Inl (ToolExecution e)
      | Found md \<Rightarrow>
          if md_symlink md then Inl (ToolExecution ''refusing to write through a symbolic link'')
          else if md_dir md then Inl (ToolExecution ''write path resolves to a directory'')
          else and_then (ensure_inside_root F f T target) (\<lambda>_.
            if 1 < md_nlink md then Inl (ToolExecution ''refusing to write a hard-linked file'') else Inr ()))"

definition check_written :: "'f Fs \<Rightarrow> FileTool \<Rightarrow> path \<Rightarrow> 'f \<Rightarrow> OmonError + path" where
  "check_written F T target f =
     and_then (ensure_inside_root F f T target) (\<lambda>written.
       case fs_stat F f written of
         NotFound \<Rightarrow> Inl (ToolExecution ''No such file or directory'')
       | StatError e \<Rightarrow> Inl (ToolExecution e)
       | Found md \<Rightarrow>
           if md_symlink md \<or> \<not> md_file md
           then Inl (ToolExecution ''written path is not a regular file inside tool root'')
           else Inr written)"

definition write_at ::
  "'f Fs \<Rightarrow> FileTool \<Rightarrow> path \<Rightarrow> path \<Rightarrow> string \<Rightarrow> 'f fs_state \<Rightarrow> 'f fs_state \<times> (OmonError + json)" where
  "write_at F T root target content s =
     (case check_target F T target (fst s) of
        Inl e \<Rightarrow> (s, Inl e)
      | Inr _ \<Rightarrow>
          (case fs_put F target content (fst s) of
             Inl e \<Rightarrow> (s, Inl (ToolExecution e))
           | Inr f' \<Rightarrow>
               ((f', snd s @ [Wrote target content]),
                and_then (check_written F T target f') (\<lambda>written.
                  Inr (JObj [(''path'', JStr (relative_string root written)),
                             (''bytes_written'', JNum (int (length content)))])))))"

definition file_write :: "'f Fs \<Rightarrow> FileTool \<Rightarrow> json \<Rightarrow> 'f fs_state \<Rightarrow> 'f fs_state \<times> (OmonError + json)" where
  "file_write F T args s =
     (case and_then (file_required ''path'' args) (\<lambda>path_arg.
             and_then (file_required ''content'' args) (\<lambda>content.
             and_then (canonical_root F (fst s) T) (\<lambda>root.
               let p = path_components path_arg;
                   p = (if path_is_absolute p then p else path_push root p) in
               and_then (ok_or (ToolExecution ''invalid write path'') (path_parent p)) (\<lambda>parent.
                 Inr (root, p, parent, content))))) of
        Inl e \<Rightarrow> (s, Inl e)
      | Inr (root, p, parent, content) \<Rightarrow>
          (case create_checked_directories F T parent s of
             (s', Inl e) \<Rightarrow> (s', Inl e)
           | (s', Inr created_parent) \<Rightarrow>
               (case path_file_name p of
                  None \<Rightarrow> (s', Inl (ToolExecution ''invalid write path''))
                | Some name \<Rightarrow> write_at F T root (path_push created_parent [name]) content s')))"

subsection \<open>Listing and searching\<close>

definition entry_json :: "path \<Rightarrow> DirEntry \<Rightarrow> json" where
  "entry_json root d = JObj [(''name'', JStr (de_name d)), (''path'', JStr (relative_string root (de_path d))),
     (''is_dir'', JBool (de_is_dir d)), (''size'', JNum (int (de_size d)))]"

definition file_list :: "'f Fs \<Rightarrow> 'f \<Rightarrow> FileTool \<Rightarrow> json \<Rightarrow> OmonError + json" where
  "file_list F f T args =
     and_then (checked_existing F f T (case get_str ''path'' args of Some p \<Rightarrow> p | None \<Rightarrow> ''.'')) (\<lambda>p.
     and_then (tool_error (fs_entries F f p)) (\<lambda>entries.
     and_then (canonical_root F f T) (\<lambda>root.
       Inr (JObj [(''entries'', JArr (map (entry_json root)
         (sort_key (\<lambda>d. relative_string root (de_path d)) entries)))]))))"

definition requires_approval :: "FileTool \<Rightarrow> json \<Rightarrow> string option" where
  "requires_approval T args =
     (if ft_require_write_approval T then
        Option.bind (get_str ''operation'' args) (\<lambda>op.
          if eq_ignore_ascii_case op ''write''
          then Some (''destructive file write to '' @ [CHR 0x27] @
                 (case get_str ''path'' args of Some p \<Rightarrow> p | None \<Rightarrow> ''file'') @ [CHR 0x27])
          else None)
      else None)"

text \<open>The search walks a stack of paths; a file system without end would keep it running.\<close>

definition line_match :: "path \<Rightarrow> path \<Rightarrow> nat \<Rightarrow> string \<Rightarrow> json" where
  "line_match root p i line = JObj [(''path'', JStr (relative_string root p)), (''line'', JNum (int i)), (''content'', JStr line)]"

text \<open>The matching lines of one file; \<open>True\<close> when the limit was reached.\<close>

fun scan_lines ::
  "path \<Rightarrow> path \<Rightarrow> string \<Rightarrow> nat \<Rightarrow> nat \<Rightarrow> string list \<Rightarrow> json list \<Rightarrow> json list \<times> bool" where
  "scan_lines root p query limit i [] ms = (ms, False)"
| "scan_lines root p query limit i (line # ls) ms =
     (if contains query line then
        let ms = ms @ [line_match root p (i + 1) line] in
        if limit \<le> length ms then (ms, True) else scan_lines root p query limit (i + 1) ls ms
      else scan_lines root p query limit (i + 1) ls ms)"

definition match_key :: "json \<Rightarrow> string option \<times> nat option" where
  "match_key m = (get_str ''path'' m, get_u64 ''line'' m)"

datatype SearchStep = SearchDone "OmonError + json list" | SearchMore "path list" "json list"

definition search_step ::
  "Utf8 \<Rightarrow> 'f Fs \<Rightarrow> 'f \<Rightarrow> path \<Rightarrow> path \<Rightarrow> string \<Rightarrow> nat \<Rightarrow> path list \<Rightarrow> json list \<Rightarrow> SearchStep" where
  "search_step U F f root start query limit pending ms =
     (case pending of
        [] \<Rightarrow> SearchDone (Inr (sort_key match_key ms))
      | p # rest \<Rightarrow>
          (case fs_stat F f p of
             NotFound \<Rightarrow> SearchDone (Inl (ToolExecution ''No such file or directory''))
           | StatError e \<Rightarrow> SearchDone (Inl (ToolExecution e))
           | Found md \<Rightarrow>
               if md_symlink md then SearchMore rest ms
               else if md_dir md then
                 (case fs_entries F f p of
                    Inl e \<Rightarrow> SearchDone (Inl (ToolExecution e))
                  | Inr ds \<Rightarrow> SearchMore (rev (filter (prefix start) (map de_path ds)) @ rest) ms)
               else if 1024 * 1024 < md_len md then SearchMore rest ms
               else
                 (case fs_bytes F f p of
                    Inl _ \<Rightarrow> SearchMore rest ms
                  | Inr bytes \<Rightarrow>
                      if \<not> valid_utf8 U bytes then SearchMore rest ms
                      else (case scan_lines root p query limit 0 (lines bytes) ms of
                              (ms', True) \<Rightarrow> SearchDone (Inr ms')
                            | (ms', False) \<Rightarrow> SearchMore rest ms'))))"

partial_function (option) search_loop ::
  "Utf8 \<Rightarrow> 'f Fs \<Rightarrow> 'f \<Rightarrow> path \<Rightarrow> path \<Rightarrow> string \<Rightarrow> nat \<Rightarrow> path list \<Rightarrow> json list \<Rightarrow> (OmonError + json list) option" where
  "search_loop U F f root start query limit pending ms =
     (case search_step U F f root start query limit pending ms of
        SearchDone r \<Rightarrow> Some r
      | SearchMore pending' ms' \<Rightarrow> search_loop U F f root start query limit pending' ms')"

definition file_search :: "Utf8 \<Rightarrow> 'f Fs \<Rightarrow> 'f \<Rightarrow> FileTool \<Rightarrow> json \<Rightarrow> (OmonError + json) option" where
  "file_search U F f T args =
     (case and_then (file_required ''query'' args) (\<lambda>query.
             and_then (checked_existing F f T (case get_str ''path'' args of Some p \<Rightarrow> p | None \<Rightarrow> ''.'')) (\<lambda>start.
             and_then (canonical_root F f T) (\<lambda>root. Inr (query, start, root)))) of
        Inl e \<Rightarrow> Some (Inl e)
      | Inr (query, start, root) \<Rightarrow>
          map_option (\<lambda>r. and_then r (\<lambda>ms. Inr (JObj [(''matches'', JArr ms)])))
            (search_loop U F f root start query (ft_max_search_results T) [start] []))"

definition file_execute ::
  "Utf8 \<Rightarrow> 'f Fs \<Rightarrow> FileTool \<Rightarrow> json \<Rightarrow> 'f fs_state \<Rightarrow> ('f fs_state \<times> (OmonError + json)) option" where
  "file_execute U F T args s =
     (case file_required ''operation'' args of
        Inl e \<Rightarrow> Some (s, Inl e)
      | Inr op \<Rightarrow>
          if op = ''read'' then Some (s, file_read U F (fst s) T args)
          else if op = ''write'' then Some (file_write F T args s)
          else if op = ''list'' then Some (s, file_list F (fst s) T args)
          else if op = ''search'' then map_option (Pair s) (file_search U F (fst s) T args)
          else Some (s, Inl (ToolExecution (''unsupported file operation: '' @ op))))"

subsection \<open>Where the tool writes\<close>

definition plain_name :: "string \<Rightarrow> bool" where
  "plain_name n \<longleftrightarrow> n \<notin> {''/'', ''.'', ''..''}"

lemma path_push_name: "plain_name n \<Longrightarrow> path_push p [n] = p @ [n]"
  by (auto simp: path_push_def path_is_absolute_def plain_name_def)

lemma file_name_plain: "path_file_name p = Some n \<Longrightarrow> plain_name n"
  by (auto simp: path_file_name_def plain_name_def split: if_splits)

lemma climb_names:
  "climb ex f p names = Inr (a, ns) \<Longrightarrow> list_all plain_name names \<Longrightarrow> ex f a \<and> list_all plain_name ns"
proof (induction ex f p names rule: climb.induct)
  case (1 ex f p names)
  show ?case
  proof (cases "ex f p")
    case True
    then show ?thesis using "1.prems" by (subst (asm) climb.simps) simp
  next
    case False
    then obtain n q where "path_file_name p = Some n" "path_parent p = Some q" "climb ex f q (n # names) = Inr (a, ns)"
      using "1.prems"(1) by (subst (asm) climb.simps) (auto split: option.splits)
    then show ?thesis using "1.IH" [OF False] "1.prems"(2) file_name_plain by simp
  qed
qed

text \<open>A path that hangs below a directory whose real place is authorised, by plain names only.\<close>

definition below_root :: "'f Fs \<Rightarrow> 'f \<Rightarrow> FileTool \<Rightarrow> path \<Rightarrow> bool" where
  "below_root F f T p \<longleftrightarrow> (\<exists>q c names. fs_exists F f q \<and> fs_canon F f q = Inr c \<and> file_is_authorized F f T c \<and>
     list_all plain_name names \<and> p = c @ names)"

lemma below_root_name: "below_root F f T p \<Longrightarrow> plain_name n \<Longrightarrow> below_root F f T (p @ [n])"
proof -
  assume "below_root F f T p" and n: "plain_name n"
  then obtain q c names where "fs_exists F f q" "fs_canon F f q = Inr c" "file_is_authorized F f T c"
    "list_all plain_name names" "p = c @ names" by (auto simp: below_root_def)
  then show ?thesis unfolding below_root_def using n
    by (intro exI [of _ q] exI [of _ c] exI [of _ "names @ [n]"]) simp
qed

fun effect_path :: "FileEffect \<Rightarrow> path" where
  "effect_path (Created p) = p"
| "effect_path (Wrote p c) = p"

lemma make_level_log:
  "make_level F T p s = (s', r) \<Longrightarrow> snd s' = snd s \<or> snd s' = snd s @ [Created p]"
  by (auto simp: make_level_def Let_def split: prod.splits Stat.splits sum.splits if_splits)

lemma make_levels_log:
  assumes "make_levels F T p names s = (s', r)" and "below_root F f T p" and "list_all plain_name names"
  shows "\<exists>new. snd s' = snd s @ new \<and> list_all (\<lambda>e. below_root F f T (effect_path e) \<and> (\<exists>q. e = Created q)) new \<and>
    (\<forall>q. r = Inr q \<longrightarrow> below_root F f T q)"
  using assms
proof (induction names arbitrary: p s)
  case (Cons n names)
  let ?p = "p @ [n]"
  obtain s1 r1 where lv: "make_level F T ?p s = (s1, r1)" by (cases "make_level F T ?p s")
  have pb: "below_root F f T ?p" using below_root_name [OF Cons.prems(2)] Cons.prems(3) by simp
  have push: "path_push p [n] = ?p" using Cons.prems(3) by (simp add: path_push_name)
  have one: "\<exists>new. snd s1 = snd s @ new \<and> list_all (\<lambda>e. below_root F f T (effect_path e) \<and> (\<exists>q. e = Created q)) new"
    using make_level_log [OF lv] pb by (auto intro: exI [of _ "[]"] exI [of _ "[Created ?p]"])
  show ?case
  proof (cases r1)
    case (Inl e)
    then have "s' = s1" "r = Inl e" using Cons.prems(1) by (simp_all add: push lv)
    then show ?thesis using one by auto
  next
    case (Inr u)
    then have "make_levels F T ?p names s1 = (s', r)" using Cons.prems(1) by (simp add: push lv)
    then obtain new where "snd s' = snd s1 @ new" "list_all (\<lambda>e. below_root F f T (effect_path e) \<and> (\<exists>q. e = Created q)) new"
      "\<forall>q. r = Inr q \<longrightarrow> below_root F f T q"
      using Cons.IH [of ?p s1] pb Cons.prems(3) by auto
    moreover obtain new1 where "snd s1 = snd s @ new1"
      "list_all (\<lambda>e. below_root F f T (effect_path e) \<and> (\<exists>q. e = Created q)) new1" using one by blast
    ultimately show ?thesis by (intro exI [of _ "new1 @ new"]) simp
  qed
qed auto

lemma create_checked_log:
  assumes "create_checked_directories F T parent s = (s', r)"
  shows "\<exists>new. snd s' = snd s @ new \<and> list_all (\<lambda>e. below_root F (fst s) T (effect_path e) \<and> (\<exists>q. e = Created q)) new \<and>
    (\<forall>q. r = Inr q \<longrightarrow> below_root F (fst s) T q)"
proof (cases "climb (fs_exists F) (fst s) parent []")
  case (Inl e)
  then show ?thesis using assms by (auto simp: create_checked_directories_def)
next
  case (Inr an)
  obtain a names where an: "an = (a, names)" by (cases an)
  have c: "fs_exists F (fst s) a" "list_all plain_name names" using climb_names Inr an by fastforce+
  consider (stop) e where "s' = s" "r = Inl e" | (go) c where "fs_canon F (fst s) a = Inr c"
      "file_is_authorized F (fst s) T c" "make_levels F T c names s = (s', r)"
    using assms Inr an
    by (auto simp: create_checked_directories_def tool_error_def split: sum.splits if_splits)
  then show ?thesis
  proof cases
    case go
    have "below_root F (fst s) T c" unfolding below_root_def using c(1) go(1,2)
      by (intro exI [of _ a] exI [of _ c] exI [of _ "[]"]) simp
    then show ?thesis using make_levels_log [OF go(3) _ c(2)] by blast
  qed auto
qed

subsection \<open>Properties\<close>

lemma ensure_inside_Inr:
  "ensure_inside_root F f T q = Inr p \<longleftrightarrow> fs_canon F f q = Inr p \<and> file_is_authorized F f T p"
  by (cases "fs_canon F f q") (auto simp: ensure_inside_root_def tool_error_def)

lemma write_at_log:
  assumes "write_at F T root p content s = (s', r)"
  shows "(snd s' = snd s \<or> (snd s' = snd s @ [Wrote p content] \<and> check_target F T p (fst s) = Inr ())) \<and>
    (\<forall>j. r = Inr j \<longrightarrow> (\<exists>w. fs_canon F (fst s') p = Inr w \<and> file_is_authorized F (fst s') T w))"
  using assms
  by (auto simp: write_at_def check_written_def ensure_inside_Inr and_then_Inr_iff split: sum.splits)


lemma head_and_tail_Inr:
  assumes "head_and_tail m n bytes = Inr (h, t, omitted)"
  shows "h = take (m * 2 div 5) bytes \<and> t = take (m - m * 2 div 5) (drop (n - (m - m * 2 div 5)) bytes) \<and> omitted = n - m"
proof -
  let ?h = "take (m * 2 div 5) bytes" and ?t = "take (m - m * 2 div 5) (drop (n - (m - m * 2 div 5)) bytes)"
  have eq: "h = ?h" "t = ?t" "omitted = n - (length ?h + length ?t)"
    and len: "\<not> length ?h < m * 2 div 5" "\<not> length ?t < m - m * 2 div 5"
    using assms unfolding head_and_tail_def Let_def by (auto simp del: length_take length_drop split: if_splits)
  have "length ?h \<le> m * 2 div 5" "length ?t \<le> m - m * 2 div 5" by simp_all
  with len have "length ?h + length ?t = m" by linarith
  with eq show ?thesis by (simp only:)
qed

text \<open>C32: a read returns bytes of a regular file whose real place is authorised; of a file over the limit it
  shows exactly the first two fifths of the limit and the rest of the limit from the end, and reports
  exactly the number of bytes between them.\<close>

theorem file_read_confined:
  assumes "file_read U F f T args = Inr j"
  shows "\<exists>p md bytes. (\<exists>q. fs_canon F f q = Inr p) \<and> file_is_authorized F f T p \<and> fs_stat F f p = Found md \<and> md_file md \<and> \<not> md_symlink md \<and>
    fs_bytes F f p = Inr bytes \<and>
    (if ft_max_read_bytes T < md_len md
     then let h = ft_max_read_bytes T * 2 div 5; t = ft_max_read_bytes T - h in
       j = JObj [(''content'', JStr (truncated_text U (take h bytes) (md_len md - ft_max_read_bytes T)
             (take t (drop (md_len md - t) bytes)))), (''truncated'', JBool True)]
     else j = JObj [(''content'', JStr bytes)])"
proof -
  obtain v p where v: "checked_existing F f T v = Inr p"
    and rest: "(case fs_stat F f p of NotFound \<Rightarrow> Inl (ToolExecution ''No such file or directory'') | StatError e \<Rightarrow> Inl (ToolExecution e)
       | Found md \<Rightarrow>
           if md_symlink md \<or> \<not> md_file md
           then Inl (ToolExecution ''read path must resolve to a regular file inside tool root'')
           else and_then (tool_error (fs_bytes F f p)) (\<lambda>bytes.
             if ft_max_read_bytes T < md_len md
             then and_then (head_and_tail (ft_max_read_bytes T) (md_len md) bytes) (\<lambda>(h, t, omitted).
                 Inr (JObj [(''content'', JStr (truncated_text U h omitted t)), (''truncated'', JBool True)]))
             else if valid_utf8 U bytes then Inr (JObj [(''content'', JStr bytes)])
             else Inl (ToolExecution ''file is not valid UTF-8''))) = Inr j"
    using assms by (auto simp: file_read_def file_required_def and_then_Inr_iff)
  obtain md where md: "fs_stat F f p = Found md" using rest by (cases "fs_stat F f p") auto
  obtain bytes where bytes: "fs_bytes F f p = Inr bytes" using rest by (cases "fs_bytes F f p") (auto simp: md tool_error_def split: if_splits)
  have p: "md_file md" "\<not> md_symlink md" and j: "(if ft_max_read_bytes T < md_len md
        then and_then (head_and_tail (ft_max_read_bytes T) (md_len md) bytes) (\<lambda>(h, t, omitted).
          Inr (JObj [(''content'', JStr (truncated_text U h omitted t)), (''truncated'', JBool True)]))
        else if valid_utf8 U bytes then Inr (JObj [(''content'', JStr bytes)])
        else Inl (ToolExecution ''file is not valid UTF-8'')) = Inr j"
    using rest by (simp_all add: md bytes tool_error_def split: if_split_asm)
  have "\<exists>q. fs_canon F f q = Inr p \<and> file_is_authorized F f T p"
    using v by (auto simp: checked_existing_def and_then_Inr_iff ensure_inside_Inr)
  moreover have "j = (let h = ft_max_read_bytes T * 2 div 5; t = ft_max_read_bytes T - h in
       JObj [(''content'', JStr (truncated_text U (take h bytes) (md_len md - ft_max_read_bytes T)
             (take t (drop (md_len md - t) bytes)))), (''truncated'', JBool True)])"
    if "ft_max_read_bytes T < md_len md"
    using j that by (auto simp: Let_def and_then_Inr_iff dest!: head_and_tail_Inr)
  ultimately show ?thesis using p j
    by (intro exI [of _ p] exI [of _ md] exI [of _ bytes]) (auto simp: md bytes Let_def split: if_splits)
qed

text \<open>A file system of one directory \<open>/w\<close> and the files written into it.\<close>

definition sample_fs :: "(path \<times> string) list Fs" where
  "sample_fs = \<lparr>fs_canon = (\<lambda>f p. Inr p), fs_exists = (\<lambda>f p. p = [''/''] \<or> p = [''/'', ''w'']),
     fs_stat = (\<lambda>f p. if p = [''/'', ''w''] then Found \<lparr>md_symlink = False, md_dir = True, md_file = False, md_len = 0, md_nlink = 2\<rparr>
       else case map_of f p of Some c \<Rightarrow> Found \<lparr>md_symlink = False, md_dir = False, md_file = True, md_len = length c, md_nlink = 1\<rparr>
       | None \<Rightarrow> NotFound),
     fs_bytes = (\<lambda>f p. case map_of f p of Some c \<Rightarrow> Inr c | None \<Rightarrow> Inl ''none''),
     fs_entries = (\<lambda>f p. if p = [''/'', ''w''] then Inr (map (\<lambda>(q, c). \<lparr>de_name = last q, de_path = q, de_is_dir = False, de_size = length c\<rparr>) f)
       else Inl ''none''),
     fs_mkdir = (\<lambda>p f. Inl ''read-only''), fs_put = (\<lambda>p c f. Inr ((p, c) # f))\<rparr>"

definition sample_utf8 :: Utf8 where
  "sample_utf8 = \<lparr>valid_utf8 = (\<lambda>_. True), utf8_lossy = (\<lambda>s. s)\<rparr>"

definition sample_tool :: FileTool where
  "sample_tool = \<lparr>ft_root = [''/'', ''w''], ft_extra_roots = [], ft_max_read_bytes = 5, ft_max_search_results = 1,
     ft_require_write_approval = False\<rparr>"

lemma sample_write:
  "file_write sample_fs sample_tool (JObj [(''path'', JStr ''a''), (''content'', JStr ''hello world'')]) ([], []) =
     (([([''/'', ''w'', ''a''], ''hello world'')], [Wrote [''/'', ''w'', ''a''] ''hello world'']),
      Inr (JObj [(''path'', JStr ''a''), (''bytes_written'', JNum 11)]))"
  by code_simp

lemma sample_escape:
  "snd (file_write sample_fs sample_tool (JObj [(''path'', JStr ''/etc/x''), (''content'', JStr ''hi'')]) ([], [])) = Inl escapes"
  by code_simp


lemma sample_read:
  "file_read sample_utf8 sample_fs [([''/'', ''w'', ''a''], ''hello world'')] sample_tool (JObj [(''path'', JStr ''a'')]) =
     Inr (JObj [(''content'', JStr (truncated_text sample_utf8 ''he'' 6 ''rld'')), (''truncated'', JBool True)])"
  by code_simp

theorem file_read_confined_witness:
  "\<exists>p bytes. file_is_authorized sample_fs [([''/'', ''w'', ''a''], ''hello world'')] sample_tool p \<and>
    fs_bytes sample_fs [([''/'', ''w'', ''a''], ''hello world'')] p = Inr bytes"
  using file_read_confined [OF sample_read] by blast

subsection \<open>The search ends\<close>

text \<open>A finite tree: every directory weighs more than its entries together.\<close>

definition weighted :: "'f Fs \<Rightarrow> 'f \<Rightarrow> (path \<Rightarrow> nat) \<Rightarrow> bool" where
  "weighted F f w \<longleftrightarrow> (\<forall>p. 0 < w p) \<and> (\<forall>p ds. fs_entries F f p = Inr ds \<longrightarrow> sum_list (map (\<lambda>d. w (de_path d)) ds) < w p)"

lemma search_step_shrinks:
  assumes "weighted F f w" and "search_step U F f root start query limit pending ms = SearchMore pending' ms'"
  shows "sum_list (map w pending') < sum_list (map w pending)"
proof -
  obtain p rest where p: "pending = p # rest" using assms(2) by (cases pending) (auto simp: search_step_def)
  have pos: "0 < w p" using assms(1) by (simp add: weighted_def)
  have dir: "sum_list (map w (rev (filter (prefix start) (map de_path ds)))) < w p" if "fs_entries F f p = Inr ds" for ds
  proof -
    have "sum_list (map w (filter (prefix start) (map de_path ds))) \<le> sum_list (map w (map de_path ds))"
      by (rule sum_list_filter_le_nat)
    also have "\<dots> < w p" using assms(1) that by (simp add: weighted_def comp_def)
    finally show ?thesis by (simp add: rev_map [symmetric] sum_list_rev)
  qed
  show ?thesis using assms(2) pos dir
    by (auto simp: search_step_def p rev_map split: Stat.splits sum.splits if_splits prod.splits bool.splits)
qed

lemma scan_lines_bound:
  "length ms < limit \<or> length ms = 0 \<Longrightarrow> scan_lines root p query limit i ls ms = (ms', full) \<Longrightarrow>
   length ms' \<le> max limit 1 \<and> (\<not> full \<longrightarrow> length ms' < limit \<or> length ms' = 0)"
  by (induction root p query limit i ls ms rule: scan_lines.induct) (auto simp: Let_def split: if_splits)

text \<open>On a file system whose directories are finite trees the search ends, with an error or with at
  most as many matching lines as the limit allows.\<close>

theorem search_ends_bounded:
  assumes "weighted F f w"
  shows "\<exists>r. search_loop U F f root start query limit [start] [] = Some r \<and>
    (\<forall>ms. r = Inr ms \<longrightarrow> length ms \<le> max limit 1)"
proof -
  have "\<exists>r. search_loop U F f root start query limit pending ms = Some r \<and> (\<forall>ms. r = Inr ms \<longrightarrow> length ms \<le> max limit 1)"
    if "length ms < limit \<or> length ms = 0" for pending ms
    using that
  proof (induction "sum_list (map w pending)" arbitrary: pending ms rule: less_induct)
    case less
    show ?case
    proof (cases "search_step U F f root start query limit pending ms")
      case (SearchDone r)
      then have "search_loop U F f root start query limit pending ms = Some r" by (subst search_loop.simps) simp
      moreover have "\<forall>ms. r = Inr ms \<longrightarrow> length ms \<le> max limit 1"
        using SearchDone less.prems scan_lines_bound [OF less.prems]
        by (auto simp: search_step_def split: list.splits Stat.splits sum.splits if_splits prod.splits bool.splits)
      ultimately show ?thesis by blast
    next
      case (SearchMore pending' ms')
      have "length ms' < limit \<or> length ms' = 0"
        using SearchMore less.prems scan_lines_bound [OF less.prems]
        by (auto simp: search_step_def split: list.splits Stat.splits sum.splits if_splits prod.splits bool.splits)
      then have "\<exists>r. search_loop U F f root start query limit pending' ms' = Some r \<and> (\<forall>ms. r = Inr ms \<longrightarrow> length ms \<le> max limit 1)"
        using less.hyps [of pending' ms'] search_step_shrinks [OF assms SearchMore] by simp
      then show ?thesis using SearchMore by (subst search_loop.simps) simp
    qed
  qed
  then show ?thesis by simp
qed

theorem search_ends_bounded_witness:
  "\<exists>r. search_loop sample_utf8 sample_fs [([''/'', ''w'', ''a''], ''hello world'')] [''/'', ''w''] [''/'', ''w''] ''hello'' 1
      [[''/'', ''w'']] [] = Some r \<and> (\<forall>ms. r = Inr ms \<longrightarrow> length ms \<le> 1)"
proof -
  have "weighted sample_fs [([''/'', ''w'', ''a''], ''hello world'')] (\<lambda>p. if p = [''/'', ''w''] then 2 else 1)"
    by (simp add: weighted_def sample_fs_def)
  from search_ends_bounded [OF this] show ?thesis by (metis max.idem)
qed

end
