(* ===== verification/Pending_Writes.thy ===== *)
theory Pending_Writes
  imports Session_Upgrade File_Tool "HOL-Library.Countable"
begin

section \<open>Writes that wait for approval\<close>

text \<open>
  Memories and skills an agent wants to write are staged as rows that a person approves or rejects
  (\<open>src/storage/db.rs\<close>, \<open>src/memory/store.rs\<close>, \<open>src/tools/skills.rs\<close>).  A scope says which rows a caller
  may see: the skills, or the memories of one session.  Approving deletes the row and applies it in one
  transaction; the file of a skill is written inside it.  Random ids, the clock, the environment and the
  file system are parameters; a failed statement or an early return drops the transaction, so that the
  store stays as it was.
\<close>

subsection \<open>Staging and reading\<close>

definition write_approval_enabled :: "string option \<Rightarrow> bool" where
  "write_approval_enabled v =
     (case v of None \<Rightarrow> False | Some s \<Rightarrow> to_ascii_lowercase (trim s) \<in> {''1'', ''true'', ''yes'', ''on''})"

definition short_id :: "string \<Rightarrow> string" where
  "short_id uuid = take 8 (filter (\<lambda>c. c \<noteq> CHR ''-'') uuid)"

definition stage_pending_write :: "string \<Rightarrow> int \<Rightarrow> string \<Rightarrow> string \<Rightarrow> Store \<Rightarrow> OmonError + (Store \<times> string)" where
  "stage_pending_write uuid now kind payload db =
     (if list_ex (\<lambda>w. pw_id w = short_id uuid) (so_pending_writes db)
      then Inl (Database ''UNIQUE constraint failed: pending_writes.id'')
      else Inr (db\<lparr>so_pending_writes := so_pending_writes db @
        [\<lparr>pw_id = short_id uuid, pw_kind = kind, pw_payload = payload, pw_created_at = now\<rparr>]\<rparr>, short_id uuid))"

definition list_pending_writes :: "string option \<Rightarrow> Store \<Rightarrow> PendingWrite list" where
  "list_pending_writes kind db =
     sort_key pw_created_at (filter (\<lambda>w. case kind of None \<Rightarrow> True | Some k \<Rightarrow> pw_kind w = k) (so_pending_writes db))"

definition get_pending_write :: "string \<Rightarrow> Store \<Rightarrow> PendingWrite option" where
  "get_pending_write i db = sql_get pw_id i (so_pending_writes db)"

definition delete_pending_write :: "string \<Rightarrow> Store \<Rightarrow> Store \<times> bool" where
  "delete_pending_write i db =
     (case sql_delete (\<lambda>w. pw_id w = i) (so_pending_writes db) of
        (t, n) \<Rightarrow> (db\<lparr>so_pending_writes := t\<rparr>, 0 < n))"

definition reject_pending_write :: "string \<Rightarrow> Store \<Rightarrow> Store \<times> bool" where
  "reject_pending_write i db = delete_pending_write i db"

subsection \<open>Scopes\<close>

datatype PendingWriteScope = Skills | Memory string

fun scope_kind :: "PendingWriteScope \<Rightarrow> string" where
  "scope_kind Skills = ''skill''"
| "scope_kind (Memory s) = ''memory''"

text \<open>The identity of a staged memory is its \<open>session_key\<close>, which has to be a text.  Staged payloads are
  objects; serde would also read the struct from an array of one text, which no code stages.\<close>

definition memory_identity :: "Codec \<Rightarrow> string \<Rightarrow> OmonError + string" where
  "memory_identity co payload =
     (case json_read co payload of
        Inl e \<Rightarrow> Inl (Database e)
      | Inr v \<Rightarrow> ok_or (Database ''missing field session_key'') (get_str ''session_key'' v))"

definition permits :: "Codec \<Rightarrow> PendingWriteScope \<Rightarrow> PendingWrite \<Rightarrow> OmonError + bool" where
  "permits co scope w =
     (if pw_kind w \<noteq> scope_kind scope then Inr False
      else case scope of
        Skills \<Rightarrow> Inr True
      | Memory s \<Rightarrow> and_then (memory_identity co (pw_payload w)) (\<lambda>k. Inr (k = s)))"

fun permitted_rows :: "Codec \<Rightarrow> PendingWriteScope \<Rightarrow> PendingWrite list \<Rightarrow> OmonError + PendingWrite list" where
  "permitted_rows co scope [] = Inr []"
| "permitted_rows co scope (w # ws) =
     and_then (permits co scope w) (\<lambda>ok.
     and_then (permitted_rows co scope ws) (\<lambda>rest. Inr (if ok then w # rest else rest)))"

definition list_pending_writes_scoped :: "Codec \<Rightarrow> PendingWriteScope \<Rightarrow> Store \<Rightarrow> OmonError + PendingWrite list" where
  "list_pending_writes_scoped co scope db =
     permitted_rows co scope (list_pending_writes (Some (scope_kind scope)) db)"

definition get_pending_write_scoped ::
  "Codec \<Rightarrow> string \<Rightarrow> PendingWriteScope \<Rightarrow> Store \<Rightarrow> OmonError + PendingWrite" where
  "get_pending_write_scoped co i scope db =
     (let refuse = Inl (Approval ''pending write unavailable in this scope'') in
      case get_pending_write i db of
        None \<Rightarrow> refuse
      | Some w \<Rightarrow> and_then (permits co scope w) (\<lambda>ok. if ok then Inr w else refuse))"

text \<open>Claiming a row: it is deleted only where it still is what was read.\<close>

definition same_write :: "PendingWrite \<Rightarrow> PendingWrite \<Rightarrow> bool" where
  "same_write item w \<longleftrightarrow> pw_id w = pw_id item \<and> pw_kind w = pw_kind item \<and> pw_payload w = pw_payload item"

definition claim_write :: "PendingWrite \<Rightarrow> Store \<Rightarrow> Store \<times> nat" where
  "claim_write item db =
     (case sql_delete (same_write item) (so_pending_writes db) of (t, n) \<Rightarrow> (db\<lparr>so_pending_writes := t\<rparr>, n))"

definition reject_pending_write_scoped ::
  "Codec \<Rightarrow> string \<Rightarrow> PendingWriteScope \<Rightarrow> Store \<Rightarrow> OmonError + (Store \<times> bool)" where
  "reject_pending_write_scoped co i scope db =
     and_then (get_pending_write_scoped co i scope db) (\<lambda>item.
       case claim_write item db of (db', n) \<Rightarrow> Inr (db', n = 1))"

subsection \<open>The place of a skill\<close>

definition skill_byte :: "char \<Rightarrow> bool" where
  "skill_byte c \<longleftrightarrow> (let b = byte_val c in (65 \<le> b \<and> b \<le> 90) \<or> (97 \<le> b \<and> b \<le> 122) \<or> (48 \<le> b \<and> b \<le> 57)) \<or>
     c \<in> {CHR ''-'', CHR ''_'', CHR ''.''}"

definition skill_error :: "string + 'a \<Rightarrow> OmonError + 'a" where
  "skill_error r = (case r of Inl e \<Rightarrow> Inl (ToolExecution (''invalid skill destination: '' @ e)) | Inr x \<Rightarrow> Inr x)"

text \<open>\<open>std::path::absolute\<close> below the working directory, and \<open>Path::ancestors\<close>, nearest first.\<close>

definition path_absolute :: "string + path \<Rightarrow> path \<Rightarrow> string + path" where
  "path_absolute cwd p =
     (if p = [] then Inl ''cannot make an empty path absolute''
      else if path_is_absolute p then Inr p else and_then cwd (\<lambda>c. Inr (path_push c p)))"

definition path_ancestors :: "path \<Rightarrow> path list" where
  "path_ancestors p = map (\<lambda>n. take n p) (rev [1..<Suc (length p)])"

text \<open>One component of the destination: where something is there already, its real place has to stay
  below the root.\<close>

definition skill_component :: "'f Fs \<Rightarrow> 'f \<Rightarrow> path \<Rightarrow> string \<Rightarrow> path \<Rightarrow> OmonError + path" where
  "skill_component F f base name target =
     (let t = path_push target [name] in
      case fs_stat F f t of
        NotFound \<Rightarrow> Inr t
      | StatError e \<Rightarrow> Inl (ToolExecution (''invalid skill destination: '' @ e))
      | Found _ \<Rightarrow> and_then (skill_error (fs_canon F f t)) (\<lambda>c.
          if prefix base c then Inr c else Inl (ToolExecution ''skill destination escapes root'')))"

text \<open>The real place of the root, which need not exist yet.\<close>

definition skill_root :: "string + path \<Rightarrow> 'f Fs \<Rightarrow> 'f \<Rightarrow> path \<Rightarrow> OmonError + path" where
  "skill_root cwd F f root =
     and_then (skill_error (path_absolute cwd root)) (\<lambda>abs.
     and_then (ok_or (ToolExecution ''skill root has no existing ancestor'')
                 (List.find (fs_exists F f) (path_ancestors abs))) (\<lambda>ancestor.
     and_then (skill_error (fs_canon F f ancestor)) (\<lambda>c.
       Inr (path_push c (drop (length ancestor) abs)))))"

definition skill_name_ok :: "string \<Rightarrow> bool" where
  "skill_name_ok name \<longleftrightarrow> \<not> (name = '''' \<or> name \<in> {''.'', ''..''} \<or> \<not> list_all skill_byte name)"

definition validated_write_path :: "string + path \<Rightarrow> 'f Fs \<Rightarrow> 'f \<Rightarrow> path \<Rightarrow> string \<Rightarrow> OmonError + path" where
  "validated_write_path cwd F f root name =
     (if \<not> skill_name_ok name then Inl (ToolExecution ''invalid skill name'')
      else
        and_then (skill_root cwd F f root) (\<lambda>base.
        and_then (skill_component F f base name base) (skill_component F f base ''SKILL.md'')))"

subsection \<open>Applying\<close>

text \<open>What surrounds an approval: the ids and file system it uses, and the directory of the skills.\<close>

record 'f ApplyEnv =
  ae_codec :: Codec
  ae_uuid :: string
  ae_fs :: "'f Fs"
  ae_cwd :: "string + path"
  ae_mkdir_all :: "path \<Rightarrow> 'f \<Rightarrow> string + 'f"
  ae_home :: "string option"
  ae_skills_dir :: "path option"

definition text_member :: "string \<Rightarrow> json \<Rightarrow> string" where
  "text_member k v = (case get_str k v of Some s \<Rightarrow> s | None \<Rightarrow> '''')"

text \<open>The insert checks the key and the foreign key of the session.\<close>

definition insert_memory :: "MemoryRow \<Rightarrow> Store \<Rightarrow> OmonError + Store" where
  "insert_memory m db =
     (if me_id m \<in> me_id ` set (so_memories db) then Inl (Database ''UNIQUE constraint failed: memories.id'')
      else if me_session_key m \<notin> st_key ` set (so_sessions db) then Inl (Database ''FOREIGN KEY constraint failed'')
      else Inr (db\<lparr>so_memories := so_memories db @ [m]\<rparr>))"

definition apply_memory :: "'f ApplyEnv \<Rightarrow> PendingWrite \<Rightarrow> Store \<Rightarrow> OmonError + (Store \<times> string)" where
  "apply_memory env item db =
     (case json_read (ae_codec env) (pw_payload item) of
        Inl e \<Rightarrow> Inl (Database (''invalid memory payload: '' @ e))
      | Inr v \<Rightarrow>
          let k = text_member ''session_key'' v; content = text_member ''content'' v;
              meta = (case json_get ''metadata'' v of Some m \<Rightarrow> m | None \<Rightarrow> JObj [])
          in and_then (insert_memory \<lparr>me_id = ae_uuid env, me_session_key = k, me_content = content,
                me_metadata_json = json_write (ae_codec env) meta\<rparr> db) (\<lambda>db.
             Inr (db, ''Approved memory write ['' @ pw_id item @ '']: '' @ [CHR 0x22] @ content @ [CHR 0x22])))"

text \<open>The directory of skills where nothing else is configured.\<close>

definition skills_home :: "'f ApplyEnv \<Rightarrow> path" where
  "skills_home env = (case ae_home env of
     Some home \<Rightarrow> path_components home @ [''.omon'', ''skills''] | None \<Rightarrow> [''.omon'', ''skills''])"

definition skill_base :: "'f ApplyEnv \<Rightarrow> json \<Rightarrow> path" where
  "skill_base env v =
     (case get_str ''skills_root'' v of
        Some root \<Rightarrow> path_components root
      | None \<Rightarrow> (case ae_skills_dir env of Some d \<Rightarrow> d | None \<Rightarrow> skills_home env))"

definition write_skill :: "'f ApplyEnv \<Rightarrow> path \<Rightarrow> string \<Rightarrow> 'f fs_state \<Rightarrow> 'f fs_state \<times> (OmonError + unit)" where
  "write_skill env file content s =
     (case ae_mkdir_all env (butlast file) (fst s) of
        Inl e \<Rightarrow> (s, Inl (ToolExecution (''failed to create skill dir: '' @ e)))
      | Inr f1 \<Rightarrow>
          let s1 = (f1, snd s @ [Created (butlast file)]) in
          (case fs_put (ae_fs env) file content f1 of
             Inl e \<Rightarrow> (s1, Inl (ToolExecution (''failed to write SKILL.md: '' @ e)))
           | Inr f2 \<Rightarrow> ((f2, snd s1 @ [Wrote file content]), Inr ())))"

definition apply_skill :: "'f ApplyEnv \<Rightarrow> PendingWrite \<Rightarrow> 'f fs_state \<Rightarrow> 'f fs_state \<times> (OmonError + string)" where
  "apply_skill env item s =
     (case json_read (ae_codec env) (pw_payload item) of
        Inl e \<Rightarrow> (s, Inl (Database (''invalid skill payload: '' @ e)))
      | Inr v \<Rightarrow>
          let name = text_member ''name'' v; content = text_member ''content'' v in
          if name = '''' then (s, Inl (ToolExecution ''empty skill name in payload''))
          else
            (case validated_write_path (ae_cwd env) (ae_fs env) (fst s) (skill_base env v) name of
               Inl e \<Rightarrow> (s, Inl e)
             | Inr file \<Rightarrow>
                 if (case get_str ''destination'' v of None \<Rightarrow> False | Some d \<Rightarrow> file \<noteq> path_components d)
                 then (s, Inl (ToolExecution ''staged skill destination changed before approval''))
                 else
                   (case write_skill env file content s of
                      (s', Inl e) \<Rightarrow> (s', Inl e)
                    | (s', Inr _) \<Rightarrow>
                        (s', Inr (''Approved skill write ['' @ pw_id item @ '']: skill '' @ [CHR 0x27] @ name @ [CHR 0x27] @
                           '' written to '' @ path_text file)))))"

type_synonym 'f world = "Store \<times> 'f fs_state"

definition apply_pending_write :: "'f ApplyEnv \<Rightarrow> PendingWrite \<Rightarrow> 'f world \<Rightarrow> 'f world \<times> (OmonError + string option)" where
  "apply_pending_write env item w =
     (case w of (db, s) \<Rightarrow>
        case claim_write item db of (claimed, n) \<Rightarrow>
          if n = 0 then (w, Inr None)
          else if pw_kind item = ''memory'' then
            (case apply_memory env item claimed of
               Inl e \<Rightarrow> (w, Inl e)
             | Inr (db', receipt) \<Rightarrow> ((db', s), Inr (Some receipt)))
          else if pw_kind item = ''skill'' then
            (case apply_skill env item s of
               (s', Inl e) \<Rightarrow> ((db, s'), Inl e)
             | (s', Inr receipt) \<Rightarrow> ((claimed, s'), Inr (Some receipt)))
          else ((claimed, s), Inr (Some (''Discarded unknown pending write kind: '' @ pw_kind item))))"

definition approve_pending_write :: "'f ApplyEnv \<Rightarrow> string \<Rightarrow> 'f world \<Rightarrow> 'f world \<times> (OmonError + string option)" where
  "approve_pending_write env i w =
     (case get_pending_write i (fst w) of
        None \<Rightarrow> (w, Inr None)
      | Some item \<Rightarrow> apply_pending_write env item w)"

definition approve_pending_write_scoped ::
  "'f ApplyEnv \<Rightarrow> string \<Rightarrow> PendingWriteScope \<Rightarrow> 'f world \<Rightarrow> 'f world \<times> (OmonError + string option)" where
  "approve_pending_write_scoped env i scope w =
     (case get_pending_write_scoped (ae_codec env) i scope (fst w) of
        Inl e \<Rightarrow> (w, Inl e)
      | Inr item \<Rightarrow> apply_pending_write (env\<lparr>ae_skills_dir := None\<rparr>) item w)"

subsection \<open>Memories\<close>

text \<open>\<open>memory/store.rs\<close>.  A memory as its reader sees it, without its times and search score.\<close>

record StoredMemory =
  sm_id :: string
  sm_session_key :: string
  sm_content :: string
  sm_metadata :: json

definition into_memory :: "Codec \<Rightarrow> MemoryRow \<Rightarrow> OmonError + StoredMemory" where
  "into_memory co row =
     (case json_read co (me_metadata_json row) of
        Inl e \<Rightarrow> Inl (Database e)
      | Inr v \<Rightarrow> Inr \<lparr>sm_id = me_id row, sm_session_key = me_session_key row, sm_content = me_content row, sm_metadata = v\<rparr>)"

definition memory_get :: "Codec \<Rightarrow> string \<Rightarrow> Store \<Rightarrow> OmonError + StoredMemory option" where
  "memory_get co i db =
     (case sql_get me_id i (so_memories db) of
        None \<Rightarrow> Inr None
      | Some row \<Rightarrow> and_then (into_memory co row) (\<lambda>m. Inr (Some m)))"

definition memory_delete :: "string \<Rightarrow> Store \<Rightarrow> Store \<times> bool" where
  "memory_delete i db =
     (case sql_delete (\<lambda>r. me_id r = i) (so_memories db) of (t, n) \<Rightarrow> (db\<lparr>so_memories := t\<rparr>, n = 1))"

definition ensure_memory_session :: "Codec \<Rightarrow> int \<Rightarrow> SessionKey \<Rightarrow> Store \<Rightarrow> OmonError + Store" where
  "ensure_memory_session co now key db =
     (case insert_session (stored_session key (state_write co session_state_default) now) db of
        Inl e \<Rightarrow> Inl (Database e) | Inr db' \<Rightarrow> Inr db')"

definition memory_payload :: "SessionKey \<Rightarrow> string \<Rightarrow> json \<Rightarrow> json" where
  "memory_payload key content meta =
     JObj [(''session_key'', JStr (storage_key key)), (''content'', JStr content), (''metadata'', meta)]"

text \<open>\<open>remember\<close> takes the setting of the approval; what was written before an error stays.\<close>

definition remember ::
  "'f ApplyEnv \<Rightarrow> string option \<Rightarrow> int \<Rightarrow> SessionKey \<Rightarrow> string \<Rightarrow> json \<Rightarrow> Store \<Rightarrow> Store \<times> (OmonError + StoredMemory)" where
  "remember env setting now key content meta db =
     (case ensure_memory_session (ae_codec env) now key db of
        Inl e \<Rightarrow> (db, Inl e)
      | Inr db1 \<Rightarrow>
          if write_approval_enabled setting then
            (case stage_pending_write (ae_uuid env) now ''memory'' (json_write (ae_codec env) (memory_payload key content meta)) db1 of
               Inl e \<Rightarrow> (db1, Inl e)
             | Inr (db2, i) \<Rightarrow>
                 (db2, Inr \<lparr>sm_id = i, sm_session_key = storage_key key, sm_content = content, sm_metadata = meta\<rparr>))
          else
            (case insert_memory \<lparr>me_id = ae_uuid env, me_session_key = storage_key key, me_content = content,
                    me_metadata_json = json_write (ae_codec env) meta\<rparr> db1 of
               Inl e \<Rightarrow> (db1, Inl e)
             | Inr db2 \<Rightarrow> (db2, and_then (memory_get (ae_codec env) (ae_uuid env) db2)
                 (ok_or (Database ''inserted memory could not be read'')))))"

subsection \<open>Claiming\<close>

lemma claim_write_simps:
  "so_pending_writes (fst (claim_write item db)) = filter (\<lambda>w. \<not> same_write item w) (so_pending_writes db)"
  "snd (claim_write item db) = length (filter (same_write item) (so_pending_writes db))"
  by (simp_all add: claim_write_def sql_delete_def)

lemma claim_write_frame: "\<exists>t. fst (claim_write item db) = db\<lparr>so_pending_writes := t\<rparr>"
  by (auto simp: claim_write_def sql_delete_def)

lemma claimed_is_gone:
  assumes "so_pending_writes db' = so_pending_writes (fst (claim_write item db))"
  shows "claim_write item db' = (db', 0)"
proof -
  have "filter (same_write item) (so_pending_writes db') = []"
    by (simp add: assms claim_write_simps filter_empty_conv)
  then show ?thesis
    by (simp add: claim_write_def sql_delete_def assms claim_write_simps)
qed

lemma insert_memory_Inr:
  "insert_memory m db = Inr db' \<Longrightarrow> db' = db\<lparr>so_memories := so_memories db @ [m]\<rparr>"
  by (simp add: insert_memory_def split: if_splits)

lemma apply_memory_Inr:
  assumes "apply_memory env item db = Inr (db', r)"
  obtains v where "json_read (ae_codec env) (pw_payload item) = Inr v"
    "db' = db\<lparr>so_memories := so_memories db @ [\<lparr>me_id = ae_uuid env, me_session_key = text_member ''session_key'' v,
       me_content = text_member ''content'' v, me_metadata_json = json_write (ae_codec env)
         (case json_get ''metadata'' v of Some m \<Rightarrow> m | None \<Rightarrow> JObj [])\<rparr>]\<rparr>"
  using assms by (auto simp: apply_memory_def Let_def and_then_Inr_iff dest!: insert_memory_Inr split: sum.splits)

text \<open>The outcomes of an application: nothing was claimed; an error; a receipt.\<close>

lemma apply_pending_write_cases:
  assumes "apply_pending_write env item (db, s) = ((db', s'), res)"
  obtains (taken) "db' = db" "s' = s" "res = Inr None" "snd (claim_write item db) = 0"
  | (failed) e where "db' = db" "res = Inl e" "pw_kind item \<noteq> ''skill'' \<longrightarrow> s' = s" "snd (claim_write item db) \<noteq> 0"
      "pw_kind item = ''skill'' \<longrightarrow> apply_skill env item s = (s', Inl e)"
  | (memory) r where "pw_kind item = ''memory''" "apply_memory env item (fst (claim_write item db)) = Inr (db', r)" "s' = s"
      "res = Inr (Some r)" "snd (claim_write item db) \<noteq> 0"
  | (skill) r where "pw_kind item = ''skill''" "apply_skill env item s = (s', Inr r)" "db' = fst (claim_write item db)"
      "res = Inr (Some r)" "snd (claim_write item db) \<noteq> 0"
  | (unknown) r where "pw_kind item \<notin> {''memory'', ''skill''}" "s' = s" "db' = fst (claim_write item db)"
      "res = Inr (Some r)" "snd (claim_write item db) \<noteq> 0"
proof (cases "claim_write item db")
  case (Pair claimed n)
  show ?thesis
    using assms that unfolding apply_pending_write_def
    by (auto simp: Pair split: if_splits sum.splits prod.splits)
qed

lemma applied_is_gone:
  assumes "apply_pending_write env item (db, s) = ((db', s'), Inr (Some r))"
  shows "so_pending_writes db' = filter (\<lambda>w. \<not> same_write item w) (so_pending_writes db)"
  using assms by (cases rule: apply_pending_write_cases) (auto simp: claim_write_simps elim!: apply_memory_Inr)


subsection \<open>Scopes confine\<close>

lemma skill_byte_slash: "\<not> skill_byte (CHR ''/'')"
  by (simp add: skill_byte_def byte_val_def)

lemma skill_name_plain: "skill_name_ok name \<Longrightarrow> plain_name name"
  using skill_byte_slash by (auto simp: skill_name_ok_def plain_name_def)

lemma skill_component_below:
  assumes "skill_component F f base name target = Inr t" and "plain_name name" and "prefix base target"
  shows "prefix base t \<and>
    (t = target @ [name] \<and> fs_stat F f t = NotFound \<or> fs_canon F f (target @ [name]) = Inr t)"
  using assms
  by (auto simp: skill_component_def Let_def path_push_name skill_error_def and_then_Inr_iff
      split: Stat.splits if_splits sum.splits)

lemma validated_write_path_below:
  assumes "validated_write_path cwd F f root name = Inr file"
  shows "skill_name_ok name \<and> (\<exists>base. skill_root cwd F f root = Inr base \<and> prefix base file)"
proof -
  from assms obtain base mid where name: "skill_name_ok name" and base: "skill_root cwd F f root = Inr base"
    and mid: "skill_component F f base name base = Inr mid" and fin: "skill_component F f base ''SKILL.md'' mid = Inr file"
    by (auto simp: validated_write_path_def and_then_Inr_iff split: if_splits)
  have "prefix base mid" using skill_component_below [OF mid skill_name_plain [OF name]] by simp
  then have "prefix base file" using skill_component_below [OF fin] by (simp add: plain_name_def)
  with name base show ?thesis by blast
qed

lemma write_skill_log:
  assumes "write_skill env file content s = (s', res)"
  shows "snd s' = snd s @ (case res of Inr _ \<Rightarrow> [Created (butlast file), Wrote file content]
    | Inl _ \<Rightarrow> drop (length (snd s)) (snd s')) \<and>
    (\<forall>e. res = Inl e \<longrightarrow> snd s' \<in> {snd s, snd s @ [Created (butlast file)]})"
  using assms by (auto simp: write_skill_def Let_def split: sum.splits)

lemma apply_skill_Inr:
  assumes "apply_skill env item s = (s', Inr r)"
  obtains v dst where "json_read (ae_codec env) (pw_payload item) = Inr v"
    "validated_write_path (ae_cwd env) (ae_fs env) (fst s) (skill_base env v) (text_member ''name'' v) = Inr dst"
    "\<And>d. get_str ''destination'' v = Some d \<Longrightarrow> dst = path_components d"
    "snd s' = snd s @ [Created (butlast dst), Wrote dst (text_member ''content'' v)]"
proof -
  from assms obtain v dst where *: "json_read (ae_codec env) (pw_payload item) = Inr v"
    "validated_write_path (ae_cwd env) (ae_fs env) (fst s) (skill_base env v) (text_member ''name'' v) = Inr dst"
    "write_skill env dst (text_member ''content'' v) s = (s', Inr ())"
    "\<forall>d. get_str ''destination'' v = Some d \<longrightarrow> dst = path_components d"
    by (auto simp: apply_skill_def Let_def split: sum.splits if_splits prod.splits option.splits)
  show thesis using that [OF *(1,2)] *(4) write_skill_log [OF *(3)] by simp
qed

lemma apply_skill_Inl:
  assumes "apply_skill env item s = (s', Inl e)"
  shows "s' = s \<or> (\<exists>v file. validated_write_path (ae_cwd env) (ae_fs env) (fst s) (skill_base env v) (text_member ''name'' v) = Inr file \<and>
    snd s' \<in> {snd s, snd s @ [Created (butlast file)]})"
  using assms
  by (auto simp: apply_skill_def Let_def dest!: write_skill_log split: sum.splits if_splits prod.splits option.splits)

lemma get_scoped_Inr:
  assumes "get_pending_write_scoped co i scope db = Inr item"
  shows "item \<in> set (so_pending_writes db) \<and> pw_id item = i \<and> permits co scope item = Inr True"
  using assms sql_get_SomeD [of pw_id i "so_pending_writes db" item]
  by (auto simp: get_pending_write_scoped_def get_pending_write_def Let_def and_then_Inr_iff split: option.splits if_splits)

lemma permits_kind: "permits co scope item = Inr True \<Longrightarrow> pw_kind item = scope_kind scope"
  by (simp add: permits_def split: if_splits)

lemma permits_memory:
  "permits co (Memory k) item = Inr True \<Longrightarrow> \<exists>v. json_read co (pw_payload item) = Inr v \<and> text_member ''session_key'' v = k"
  by (auto simp: permits_def memory_identity_def and_then_Inr_iff text_member_def ok_or_def split: if_splits sum.splits option.splits)

text \<open>What an approval in a scope may have done: one memory of the session, or one file of a skill whose
  real place lies below the root of the skills.\<close>

fun scope_effect :: "'f ApplyEnv \<Rightarrow> PendingWriteScope \<Rightarrow> 'f world \<Rightarrow> 'f world \<Rightarrow> bool" where
  "scope_effect env (Memory k) (db, s) (db', s') \<longleftrightarrow>
     s' = s \<and> (\<exists>m. so_memories db' = so_memories db @ [m] \<and> me_session_key m = k \<and> me_id m = ae_uuid env)"
| "scope_effect env Skills (db, s) (db', s') \<longleftrightarrow>
     so_memories db' = so_memories db \<and>
     (\<exists>root base file content. skill_root (ae_cwd env) (ae_fs env) (fst s) root = Inr base \<and> prefix base file \<and>
        snd s' = snd s @ [Created (butlast file), Wrote file content])"



subsection \<open>A staged memory comes back\<close>

lemma stage_pending_write_Inr:
  assumes "stage_pending_write uuid now kind payload db = Inr (db', i)"
  shows "i = short_id uuid \<and> i \<notin> pw_id ` set (so_pending_writes db) \<and>
    db' = db\<lparr>so_pending_writes := so_pending_writes db @ [\<lparr>pw_id = i, pw_kind = kind, pw_payload = payload, pw_created_at = now\<rparr>]\<rparr>"
  using assms by (auto simp: stage_pending_write_def list_ex_iff split: if_splits)

lemma staged_is_read:
  assumes "i \<notin> pw_id ` set t"
  shows "get_pending_write i (db\<lparr>so_pending_writes := t @ [\<lparr>pw_id = i, pw_kind = kind, pw_payload = p, pw_created_at = n\<rparr>]\<rparr>) =
    Some \<lparr>pw_id = i, pw_kind = kind, pw_payload = p, pw_created_at = n\<rparr>"
  using assms by (simp add: get_pending_write_def sql_get_append sql_get_None_iff [THEN iffD2])

lemma staged_is_claimed:
  assumes "i \<notin> pw_id ` set t"
  shows "claim_write \<lparr>pw_id = i, pw_kind = kind, pw_payload = p, pw_created_at = n\<rparr>
      (db\<lparr>so_pending_writes := t @ [\<lparr>pw_id = i, pw_kind = kind, pw_payload = p, pw_created_at = n\<rparr>]\<rparr>) = (db\<lparr>so_pending_writes := t\<rparr>, 1)"
proof -
  let ?item = "\<lparr>pw_id = i, pw_kind = kind, pw_payload = p, pw_created_at = n\<rparr>"
  have other: "\<not> same_write ?item w" if "w \<in> set t" for w
    using assms that by (auto simp: same_write_def)
  have "same_write ?item ?item" by (simp add: same_write_def)
  moreover have "filter (\<lambda>w. \<not> same_write ?item w) t = t" "filter (same_write ?item) t = []"
    using other by (simp_all add: filter_id_conv filter_empty_conv)
  ultimately show ?thesis
    by (simp add: claim_write_def sql_delete_def)
qed

lemma ensure_memory_session_Inr:
  assumes "ensure_memory_session co now key db = Inr db'"
  shows "db' = db\<lparr>so_sessions := so_sessions db'\<rparr> \<and> storage_key key \<in> st_key ` set (so_sessions db')"
  using assms
  by (auto simp: ensure_memory_session_def insert_session_def sql_insert_ignore_def stored_session_def list_ex_iff
      intro: rev_image_eqI split: sum.splits if_splits)

lemma memory_payload_members [simp]:
  "get_str ''session_key'' (memory_payload key content meta) = Some (storage_key key)"
  "text_member ''session_key'' (memory_payload key content meta) = storage_key key"
  "text_member ''content'' (memory_payload key content meta) = content"
  "json_get ''metadata'' (memory_payload key content meta) = Some meta"
  by (simp_all add: memory_payload_def text_member_def)

text \<open>C35: with approval switched on, remembering changes no memory; approving the staged write in its
  session adds exactly the memory that was asked for, which reads back, and leaves the other staged
  writes as they were; in the scope of any other session it is unavailable and nothing changes.\<close>

theorem staged_memory_round_trip:
  assumes codec: "json_ok (ae_codec env)" "ae_codec env' = ae_codec env"
    and on: "write_approval_enabled setting"
    and staged: "remember env setting now key content meta db = (db1, Inr m)"
    and fresh: "ae_uuid env' \<notin> me_id ` set (so_memories db)"
  shows "so_memories db1 = so_memories db \<and>
    (\<exists>db2 r. approve_pending_write_scoped env' (sm_id m) (Memory (storage_key key)) (db1, s) = ((db2, s), Inr (Some r)) \<and>
       so_pending_writes db2 = so_pending_writes db \<and>
       (\<exists>row. so_memories db2 = so_memories db @ [row] \<and> me_session_key row = storage_key key \<and> me_content row = content) \<and>
       memory_get (ae_codec env) (ae_uuid env') db2 = Inr (Some (m\<lparr>sm_id := ae_uuid env'\<rparr>))) \<and>
    (\<forall>k. k \<noteq> storage_key key \<longrightarrow> approve_pending_write_scoped env' (sm_id m) (Memory k) (db1, s) =
       ((db1, s), Inl (Approval ''pending write unavailable in this scope'')))"
proof -
  let ?payload = "json_write (ae_codec env) (memory_payload key content meta)"
  from staged on obtain db0 i where ens: "ensure_memory_session (ae_codec env) now key db = Inr db0"
    and st: "stage_pending_write (ae_uuid env) now ''memory'' ?payload db0 = Inr (db1, i)"
    and m: "m = \<lparr>sm_id = i, sm_session_key = storage_key key, sm_content = content, sm_metadata = meta\<rparr>"
    by (auto simp: remember_def split: sum.splits prod.splits)
  from ensure_memory_session_Inr [OF ens] obtain t where db0: "db0 = db\<lparr>so_sessions := t\<rparr>"
    and sess: "storage_key key \<in> st_key ` set t" by blast
  let ?item = "\<lparr>pw_id = i, pw_kind = ''memory'', pw_payload = ?payload, pw_created_at = now\<rparr>"
  from stage_pending_write_Inr [OF st] have i: "i \<notin> pw_id ` set (so_pending_writes db0)"
    and db1: "db1 = db0\<lparr>so_pending_writes := so_pending_writes db0 @ [?item]\<rparr>" by auto
  note got = staged_is_read [OF i, where db = db0 and kind = "''memory''" and p = ?payload and n = now, folded db1]
  note claimed = staged_is_claimed [OF i, where db = db0 and kind = "''memory''" and p = ?payload and n = now, folded db1]
  have read: "json_read (ae_codec env) ?payload = Inr (memory_payload key content meta)"
    using codec(1) by (simp add: json_ok_def)
  have kept: "json_read (ae_codec env) (json_write (ae_codec env) meta) = Inr meta"
    using codec(1) by (simp add: json_ok_def)
  have perm: "permits (ae_codec env) (Memory k) ?item = Inr (storage_key key = k)" for k
    by (simp add: permits_def memory_identity_def read ok_or_def)
  have others: "approve_pending_write_scoped env' i (Memory k) (db1, s) =
      ((db1, s), Inl (Approval ''pending write unavailable in this scope''))" if "k \<noteq> storage_key key" for k
    using that by (simp add: approve_pending_write_scoped_def get_pending_write_scoped_def got perm codec(2) Let_def)
  let ?row = "\<lparr>me_id = ae_uuid env', me_session_key = storage_key key, me_content = content, me_metadata_json = json_write (ae_codec env) meta\<rparr>"
  let ?db2 = "db0\<lparr>so_memories := so_memories db @ [?row]\<rparr>"
  have "insert_memory ?row db0 = Inr ?db2" using fresh sess by (simp add: insert_memory_def db0)
  then obtain r where "approve_pending_write_scoped env' i (Memory (storage_key key)) (db1, s) = ((?db2, s), Inr (Some r))"
    by (simp add: approve_pending_write_scoped_def get_pending_write_scoped_def got perm codec(2) Let_def
        apply_pending_write_def claimed apply_memory_def read)
  moreover have "memory_get (ae_codec env) (ae_uuid env') ?db2 = Inr (Some (m\<lparr>sm_id := ae_uuid env'\<rparr>))"
    using fresh by (simp add: memory_get_def sql_get_append sql_get_None_iff [THEN iffD2] into_memory_def kept m)
  ultimately show ?thesis
    using others by (auto simp: m db1 db0)
qed

subsection \<open>Concrete runs\<close>

text \<open>A codec that writes every value as its number: JSON values are countable.\<close>

instance char :: countable
  by (rule countable_classI [of "of_char :: char \<Rightarrow> nat"]) simp

instance json :: countable
  by countable_datatype

definition number_codec :: Codec where
  "number_codec = \<lparr>state_read = (\<lambda>_. Inr session_state_default), state_write = (\<lambda>_. ''{}''),
     json_read = (\<lambda>t. Inr (from_nat (length t))), json_write = (\<lambda>v. replicate (to_nat v) (CHR ''x''))\<rparr>"

lemma number_codec_ok: "json_ok number_codec"
  by (simp add: json_ok_def number_codec_def)

definition write_env :: "string \<Rightarrow> (path \<times> string) list ApplyEnv" where
  "write_env uuid = \<lparr>ae_codec = number_codec, ae_uuid = uuid, ae_fs = sample_fs, ae_cwd = Inr [''/'', ''w''],
     ae_mkdir_all = (\<lambda>p f. Inr f), ae_home = None, ae_skills_dir = None\<rparr>"

definition sample_session :: SessionKey where
  "sample_session = session_key_new ''discord'' (Some ''g'') ''c'' None ''u''"

lemma approval_on: "write_approval_enabled (Some '' On '')"
  by code_simp

lemma sample_remember:
  "\<exists>db1 m. remember (write_env ''11111111-2'') (Some '' On '') 0 sample_session ''hi'' JNull store_empty = (db1, Inr m)"
  by (simp add: remember_def approval_on ensure_memory_session_def insert_session_def deferred_lane_def store_empty_def
      stage_pending_write_def stored_session_def)

theorem staged_memory_round_trip_witness:
  "\<exists>db1 db2 m r. approve_pending_write_scoped (write_env ''22'') (sm_id m) (Memory (storage_key sample_session)) (db1, ([], [])) =
     ((db2, ([], [])), Inr (Some r)) \<and> memory_get number_codec ''22'' db2 = Inr (Some (m\<lparr>sm_id := ''22''\<rparr>))"
proof -
  obtain db1 m where "remember (write_env ''11111111-2'') (Some '' On '') 0 sample_session ''hi'' JNull store_empty = (db1, Inr m)"
    using sample_remember by blast
  from staged_memory_round_trip [OF _ _ approval_on this, of "write_env ''22''" "([], [])"] show ?thesis
    by (auto simp: write_env_def number_codec_ok store_empty_def)
qed

definition sample_item :: PendingWrite where
  "sample_item = \<lparr>pw_id = ''a1'', pw_kind = ''memory'',
     pw_payload = json_write number_codec (memory_payload sample_session ''hi'' JNull), pw_created_at = 0\<rparr>"

definition pending_store :: Store where
  "pending_store = store_empty\<lparr>so_sessions := [stored_session sample_session ''{}'' 0], so_pending_writes := [sample_item]\<rparr>"

lemma number_read: "json_read number_codec (json_write number_codec v) = Inr v"
  using number_codec_ok by (simp add: json_ok_def)

lemma sample_get:
  "get_pending_write_scoped number_codec ''a1'' (Memory (storage_key sample_session)) (pending_store\<lparr>so_sessions := t\<rparr>) = Inr sample_item"
  by (simp add: get_pending_write_scoped_def get_pending_write_def pending_store_def sample_item_def permits_def
      memory_identity_def number_read ok_or_def)

lemma sample_claim:
  "claim_write sample_item (pending_store\<lparr>so_sessions := t\<rparr>) = (pending_store\<lparr>so_sessions := t, so_pending_writes := []\<rparr>, 1)"
  by (simp add: claim_write_def sql_delete_def pending_store_def same_write_def)

lemma sample_sessions: "pending_store\<lparr>so_sessions := [stored_session sample_session ''{}'' 0]\<rparr> = pending_store"
  by (simp add: pending_store_def)

lemmas sample_get_claim = sample_get sample_get [of "[stored_session sample_session ''{}'' 0]", unfolded sample_sessions]
  sample_claim sample_claim [of "[stored_session sample_session ''{}'' 0]", unfolded sample_sessions]

lemma sample_applied:
  "\<exists>db' r. apply_pending_write (write_env ''22'') sample_item (pending_store, ([], [])) = ((db', ([], [])), Inr (Some r))"
  by (simp add: apply_pending_write_def sample_get_claim)
    (simp add: write_env_def apply_memory_def sample_item_def number_read insert_memory_def pending_store_def store_empty_def Let_def
      stored_session_def)

lemma write_env_dir: "write_env u\<lparr>ae_skills_dir := None\<rparr> = write_env u"
  by (simp add: write_env_def)

lemma write_env_codec: "ae_codec (write_env u) = number_codec"
  by (simp add: write_env_def)



lemma sample_refused:
  "approve_pending_write_scoped (write_env ''22'') ''a1'' (Memory (storage_key sample_session)) (pending_store\<lparr>so_sessions := []\<rparr>, ([], [])) =
     ((pending_store\<lparr>so_sessions := []\<rparr>, ([], [])), Inl (Database ''FOREIGN KEY constraint failed''))"
  by (simp add: approve_pending_write_scoped_def sample_get_claim write_env_dir write_env_codec apply_pending_write_def)
    (simp add: apply_memory_def write_env_codec sample_item_def number_read insert_memory_def pending_store_def store_empty_def)


end
