(* ===== verification/Skills_Tool.thy ===== *)
theory Skills_Tool
  imports Pending_Writes
begin

section \<open>The skills tool\<close>

text \<open>
  \<open>src/tools/skills.rs\<close>: finding the skills below the configured directories, and listing, searching,
  reading and writing them.  With write approval switched on a write is staged with its destination, and
  an approval writes there or nowhere.  Paths are taken to be valid UTF-8; lower-casing is a parameter.
\<close>

record SkillsTool =
  sk_dirs :: "path list"
  sk_pool :: bool

definition skills_default :: "string option \<Rightarrow> SkillsTool" where
  "skills_default home = \<lparr>sk_dirs = (case home of None \<Rightarrow> []
     | Some h \<Rightarrow> [path_components h @ [''.hermes'', ''skills''], path_components h @ [''.omon'', ''skills'']]), sk_pool = False\<rparr>"

definition skills_new :: "path list \<Rightarrow> SkillsTool" where
  "skills_new dirs = \<lparr>sk_dirs = dirs, sk_pool = False\<rparr>"

definition skills_with_pool :: "SkillsTool \<Rightarrow> SkillsTool" where
  "skills_with_pool T = T\<lparr>sk_pool := True\<rparr>"

subsection \<open>Finding\<close>

text \<open>\<open>Path::is_dir\<close> follows links.\<close>

definition is_dir :: "'f Fs \<Rightarrow> 'f \<Rightarrow> path \<Rightarrow> bool" where
  "is_dir F f p =
     (case fs_canon F f p of
        Inl _ \<Rightarrow> False
      | Inr c \<Rightarrow> (case fs_stat F f c of Found md \<Rightarrow> md_dir md | _ \<Rightarrow> False))"

definition entry_paths :: "'f Fs \<Rightarrow> 'f \<Rightarrow> path \<Rightarrow> path list" where
  "entry_paths F f dir = (case fs_entries F f dir of Inl _ \<Rightarrow> [] | Inr ds \<Rightarrow> map de_path ds)"

text \<open>\<open>scan_dir\<close> with its call stack written out: the entries still to be visited, those of a directory
  without a skill in place of it.\<close>

definition visit_entry :: "'f Fs \<Rightarrow> 'f \<Rightarrow> path \<Rightarrow> path list \<times> (string \<times> path) list" where
  "visit_entry F f p =
     (if \<not> is_dir F f p then ([], [])
      else if fs_exists F f (path_push p [''SKILL.md''])
      then ([], [(case path_file_name p of Some n \<Rightarrow> n | None \<Rightarrow> '''', path_push p [''SKILL.md''])])
      else (entry_paths F f p, []))"

partial_function (option) scan_dir :: "'f Fs \<Rightarrow> 'f \<Rightarrow> path list \<Rightarrow> (string \<times> path) list \<Rightarrow> (string \<times> path) list option" where
  "scan_dir F f todo acc =
     (case todo of
        [] \<Rightarrow> Some acc
      | p # rest \<Rightarrow> (case visit_entry F f p of (inner, found) \<Rightarrow> scan_dir F f (inner @ rest) (acc @ found)))"

text \<open>\<open>dedup_by\<close> keeps the first of neighbours with one name.\<close>

fun dedup_names :: "(string \<times> path) list \<Rightarrow> (string \<times> path) list" where
  "dedup_names (a # b # xs) = (if fst b = fst a then dedup_names (a # xs) else a # dedup_names (b # xs))"
| "dedup_names xs = xs"

definition find_all_skills :: "'f Fs \<Rightarrow> 'f \<Rightarrow> SkillsTool \<Rightarrow> (string \<times> path) list option" where
  "find_all_skills F f T =
     map_option (\<lambda>found. dedup_names (sort_key fst found))
       (scan_dir F f (concat (map (entry_paths F f) (filter (fs_exists F f) (sk_dirs T)))) [])"

subsection \<open>The actions\<close>

definition skills_list :: "(string \<times> path) list \<Rightarrow> json" where
  "skills_list skills = JObj [(''total_skills'', JNum (int (length skills))), (''skills'', JArr (map (JStr \<circ> fst) skills))]"

definition skills_search :: "(string \<Rightarrow> string) \<Rightarrow> (string \<times> path) list \<Rightarrow> json \<Rightarrow> json" where
  "skills_search lower skills args =
     (let query = lower (case get_str ''query'' args of Some q \<Rightarrow> q | None \<Rightarrow> '''');
          matches = map fst (filter (\<lambda>(n, _). contains query (lower n)) skills)
      in JObj [(''query'', JStr query), (''count'', JNum (int (length matches))), (''matches'', JArr (map JStr matches))])"

definition skills_read :: "Utf8 \<Rightarrow> 'f Fs \<Rightarrow> 'f \<Rightarrow> (string \<times> path) list \<Rightarrow> json \<Rightarrow> OmonError + json" where
  "skills_read U F f skills args =
     and_then (ok_or (ToolExecution (''missing '' @ [CHR 0x27] @ ''name'' @ [CHR 0x27])) (get_str ''name'' args)) (\<lambda>name.
       case List.find (\<lambda>(n, _). n = name) skills of
         None \<Rightarrow> Inl (ToolExecution (''skill '' @ [CHR 0x27] @ name @ [CHR 0x27] @ '' not found. Use action='' @ [CHR 0x27] @ ''list'' @
           [CHR 0x27] @ '' to see all skills.''))
       | Some (_, p) \<Rightarrow>
           (case fs_bytes F f p of
              Inl e \<Rightarrow> Inl (ToolExecution (''failed to read skill '' @ name @ '': '' @ e))
            | Inr bytes \<Rightarrow>
                if valid_utf8 U bytes
                then Inr (JObj [(''name'', JStr name), (''path'', JStr (path_text p)), (''content'', JStr bytes)])
                else Inl (ToolExecution (''failed to read skill '' @ name @ '': stream did not contain valid UTF-8''))))"

definition target_dir :: "'f ApplyEnv \<Rightarrow> SkillsTool \<Rightarrow> path" where
  "target_dir env T = (case sk_dirs T of d # _ \<Rightarrow> d | [] \<Rightarrow> skills_home env)"

definition skill_payload :: "string \<Rightarrow> string \<Rightarrow> path \<Rightarrow> path \<Rightarrow> json" where
  "skill_payload name content root dst =
     JObj [(''name'', JStr name), (''content'', JStr content), (''skills_root'', JStr (path_text root)),
       (''destination'', JStr (path_text dst))]"

definition stage_skill ::
  "'f ApplyEnv \<Rightarrow> int \<Rightarrow> SkillsTool \<Rightarrow> string \<Rightarrow> string \<Rightarrow> path \<Rightarrow> Store \<Rightarrow> OmonError + (Store \<times> string)" where
  "stage_skill env now T name content dst db =
     (case path_absolute (ae_cwd env) (target_dir env T) of
        Inl e \<Rightarrow> Inl (ToolExecution (''invalid skill root: '' @ e))
      | Inr root \<Rightarrow>
          stage_pending_write (ae_uuid env) now ''skill''
            (json_write (ae_codec env) (skill_payload name content root dst)) db)"

definition staged_reply :: "string \<Rightarrow> string \<Rightarrow> json" where
  "staged_reply name i =
     JObj [(''name'', JStr name), (''status'', JStr ''staged''), (''id'', JStr i),
       (''message'', JStr (''Skill '' @ [CHR 0x27] @ name @ [CHR 0x27] @ '' write staged for approval with id '' @ i @
          ''. Run /skills approve '' @ i @ '' to apply.''))]"

text \<open>\<open>save_skill\<close> creates the directory and writes the file.\<close>

definition save_skill :: "'f ApplyEnv \<Rightarrow> path \<Rightarrow> string \<Rightarrow> 'f fs_state \<Rightarrow> 'f fs_state \<times> (OmonError + unit)" where
  "save_skill env dst content s =
     (case ae_mkdir_all env (butlast dst) (fst s) of
        Inl e \<Rightarrow> (s, Inl (ToolExecution (''failed to create skill directory: '' @ e)))
      | Inr f1 \<Rightarrow>
          let s1 = (f1, snd s @ [Created (butlast dst)]) in
          (case fs_put (ae_fs env) dst content f1 of
             Inl e \<Rightarrow> (s1, Inl (ToolExecution (''failed to write SKILL.md: '' @ e)))
           | Inr f2 \<Rightarrow> ((f2, snd s1 @ [Wrote dst content]), Inr ())))"

text \<open>What a write asks for, and the checks before it has an effect.\<close>

definition checked_skill ::
  "'f ApplyEnv \<Rightarrow> string option \<Rightarrow> SkillsTool \<Rightarrow> json \<Rightarrow> 'f \<Rightarrow> OmonError + (string \<times> string \<times> path)" where
  "checked_skill env setting T args f =
     and_then (ok_or (ToolExecution (''missing '' @ [CHR 0x27] @ ''name'' @ [CHR 0x27])) (get_str ''name'' args)) (\<lambda>name.
     and_then (ok_or (ToolExecution (''missing '' @ [CHR 0x27] @ ''content'' @ [CHR 0x27])) (get_str ''content'' args)) (\<lambda>content.
       if write_approval_enabled setting \<and> \<not> sk_pool T
       then Inl (ToolExecution ''write approval requires a pending-write store'')
       else
         and_then (validated_write_path (ae_cwd env) (ae_fs env) f (target_dir env T) name) (\<lambda>dst.
         Inr (name, content, dst))))"

definition skills_write ::
  "'f ApplyEnv \<Rightarrow> string option \<Rightarrow> int \<Rightarrow> SkillsTool \<Rightarrow> json \<Rightarrow> 'f world \<Rightarrow> 'f world \<times> (OmonError + json)" where
  "skills_write env setting now T args w =
     (case checked_skill env setting T args (fst (snd w)) of
        Inl e \<Rightarrow> (w, Inl e)
      | Inr (name, content, dst) \<Rightarrow>
          if write_approval_enabled setting then
            (case stage_skill env now T name content dst (fst w) of
               Inl e \<Rightarrow> (w, Inl e)
             | Inr (db', i) \<Rightarrow> ((db', snd w), Inr (staged_reply name i)))
          else
            (case save_skill env dst content (snd w) of
               (s', Inl e) \<Rightarrow> ((fst w, s'), Inl e)
             | (s', Inr _) \<Rightarrow> ((fst w, s'), Inr (JObj [(''name'', JStr name), (''status'', JStr ''saved''), (''path'', JStr (path_text dst))]))))"

definition skills_execute ::
  "Utf8 \<Rightarrow> (string \<Rightarrow> string) \<Rightarrow> 'f ApplyEnv \<Rightarrow> string option \<Rightarrow> int \<Rightarrow> SkillsTool \<Rightarrow> json \<Rightarrow> 'f world \<Rightarrow>
     ('f world \<times> (OmonError + json)) option" where
  "skills_execute U lower env setting now T args w =
     (case get_str ''action'' args of
        None \<Rightarrow> Some (w, Inl (ToolExecution (''missing '' @ [CHR 0x27] @ ''action'' @ [CHR 0x27])))
      | Some action \<Rightarrow>
          map_option (\<lambda>skills.
            if action = ''list'' then (w, Inr (skills_list skills))
            else if action = ''search'' then (w, Inr (skills_search lower skills args))
            else if action = ''read'' then (w, skills_read U (ae_fs env) (fst (snd w)) skills args)
            else if action = ''write'' then skills_write env setting now T args w
            else (w, Inl (ToolExecution (''unknown skills action: '' @ action))))
          (find_all_skills (ae_fs env) (fst (snd w)) T))"

subsection \<open>Which skills are found\<close>

lemma dedup_names_map_of: "map_of (dedup_names xs) = map_of xs"
  by (induction xs rule: dedup_names.induct) (auto simp: fun_eq_iff)

lemma dedup_names_set: "fst ` set (dedup_names xs) = fst ` set xs"
  by (induction xs rule: dedup_names.induct) auto

lemma dedup_names_sorted:
  "sorted (map fst xs) \<Longrightarrow> sorted (map fst (dedup_names xs)) \<and> distinct (map fst (dedup_names xs))"
proof (induction xs rule: dedup_names.induct)
  case (1 a b xs)
  show ?case
  proof (cases "fst b = fst a")
    case True
    with 1 show ?thesis by auto
  next
    case False
    have less: "fst a < fst y" if "y \<in> set (b # xs)" for y
      using 1(3) False that by (auto simp: less_le)
    have "\<forall>n \<in> fst ` set (dedup_names (b # xs)). fst a < n"
      using less unfolding dedup_names_set by auto
    with 1(2) [OF False] 1(3) False show ?thesis by (auto simp: less_le)
  qed
qed auto

lemma map_of_insort: "map_of (insort_key fst x xs) = map_of (x # xs)" if "sorted (map fst xs)"
  using that
proof (induction xs)
  case (Cons y ys)
  then show ?case by (auto simp: fun_eq_iff)
qed simp

lemma map_of_sort_key: "map_of (sort_key fst xs) = map_of (xs :: ('k :: linorder \<times> 'v) list)"
  by (induction xs) (simp_all add: map_of_insort)

lemma find_name: "List.find (\<lambda>(n, _). n = name) xs = map_option (Pair name) (map_of xs name)"
  by (induction xs) auto

lemma visit_entry_shrinks:
  assumes "weighted F f w" and "visit_entry F f p = (inner, found)"
  shows "sum_list (map w inner) < w p"
  using assms by (auto simp: visit_entry_def entry_paths_def weighted_def comp_def split: if_splits sum.splits)

lemma visit_entry_found:
  assumes "visit_entry F f p = (inner, found)" and "(n, sf) \<in> set found"
  shows "fs_exists F f sf \<and> is_dir F f p \<and> sf = path_push p [''SKILL.md'']"
  using assms by (auto simp: visit_entry_def split: if_splits)

lemma scan_dir_ends:
  assumes "weighted F f w"
  shows "\<exists>found. scan_dir F f todo acc = Some (acc @ found) \<and> (\<forall>(n, sf) \<in> set found. fs_exists F f sf)"
proof (induction "sum_list (map w todo)" arbitrary: todo acc rule: less_induct)
  case less
  show ?case
  proof (cases todo)
    case Nil
    then show ?thesis by (subst scan_dir.simps) simp
  next
    case (Cons p rest)
    obtain inner new where v: "visit_entry F f p = (inner, new)" by fastforce
    have "sum_list (map w (inner @ rest)) < sum_list (map w todo)"
      using visit_entry_shrinks [OF assms v] by (simp add: Cons)
    from less [OF this, of "acc @ new"] obtain found
      where "scan_dir F f (inner @ rest) (acc @ new) = Some (acc @ new @ found)" "\<forall>(n, sf) \<in> set found. fs_exists F f sf"
      by auto
    moreover have "\<forall>(n, sf) \<in> set new. fs_exists F f sf" using visit_entry_found [OF v] by blast
    ultimately show ?thesis
      by (subst scan_dir.simps) (auto simp: Cons v intro!: exI [of _ "new @ found"])
  qed
qed

text \<open>On directories that are finite trees the search for skills ends; the skills come sorted with one
  entry per name, which is the first that the scan met, so that an earlier configured directory wins; and
  each entry is a file that is there.\<close>

theorem skills_found:
  assumes "weighted F f w"
  shows "\<exists>found skills. scan_dir F f (concat (map (entry_paths F f) (filter (fs_exists F f) (sk_dirs T)))) [] = Some found \<and>
    find_all_skills F f T = Some skills \<and> sorted (map fst skills) \<and> distinct (map fst skills) \<and>
    (\<forall>name. List.find (\<lambda>(n, _). n = name) skills = List.find (\<lambda>(n, _). n = name) found) \<and>
    (\<forall>(n, sf) \<in> set skills. fs_exists F f sf)"
proof -
  obtain found where found: "scan_dir F f (concat (map (entry_paths F f) (filter (fs_exists F f) (sk_dirs T)))) [] = Some found"
    and ex: "\<forall>(n, sf) \<in> set found. fs_exists F f sf" using scan_dir_ends [OF assms, where acc = "[]"] by fastforce
  let ?skills = "dedup_names (sort_key fst found)"
  have of: "map_of ?skills = map_of found" by (simp add: dedup_names_map_of map_of_sort_key)
  have ok: "sorted (map fst ?skills) \<and> distinct (map fst ?skills)" by (rule dedup_names_sorted) simp
  have "fs_exists F f sf" if "(n, sf) \<in> set ?skills" for n sf
    using that ok of ex by (metis (mono_tags, lifting) case_prodD map_of_SomeD map_of_is_SomeI)
  with found ok show ?thesis by (auto simp: find_all_skills_def find_name of)
qed

subsection \<open>A staged skill is written where it was staged, or not at all\<close>

text \<open>An absolute path as the operating system hands it out: no empty component, none that is a dot, none
  with a slash.\<close>

definition clean_path :: "path \<Rightarrow> bool" where
  "clean_path p \<longleftrightarrow> p \<noteq> [] \<and> hd p = ''/'' \<and> (\<forall>c \<in> set (tl p). c \<noteq> [] \<and> c \<noteq> ''.'' \<and> CHR ''/'' \<notin> set c)"

lemma split_on_join:
  "xs \<noteq> [] \<Longrightarrow> \<forall>x \<in> set xs. c \<notin> set x \<Longrightarrow> split_on c (join [c] xs) = xs"
proof (induction "[c]" xs rule: join.induct)
  case (3 x y ys)
  then show ?case by (simp add: split_on_append)
qed (simp_all add: split_on_no_sep)

lemma path_text_clean: "clean_path p \<Longrightarrow> path_components (path_text p) = p"
proof -
  assume p: "clean_path p"
  then obtain cs where cs: "p = ''/'' # cs" "\<forall>c \<in> set cs. c \<noteq> [] \<and> c \<noteq> ''.'' \<and> CHR ''/'' \<notin> set c"
    by (cases p) (auto simp: clean_path_def)
  show ?thesis
  proof (cases "cs = []")
    case True
    then show ?thesis by (simp add: cs path_text_def path_components_def)
  next
    case False
    have "split_on (CHR ''/'') (join [CHR ''/''] cs) = cs" by (rule split_on_join) (use False cs(2) in auto)
    moreover have "filter (\<lambda>c. c \<noteq> [] \<and> c \<noteq> ''.'') cs = cs" using cs(2) by (simp add: filter_id_conv)
    ultimately show ?thesis
      by (simp add: cs(1) path_text_def path_components_def)
  qed
qed

lemma skill_payload_members [simp]:
  "text_member ''name'' (skill_payload name content root dst) = name"
  "text_member ''content'' (skill_payload name content root dst) = content"
  "get_str ''skills_root'' (skill_payload name content root dst) = Some (path_text root)"
  "get_str ''destination'' (skill_payload name content root dst) = Some (path_text dst)"
  by (simp_all add: skill_payload_def text_member_def)

lemma skills_write_staged:
  assumes "skills_write env setting now T args (db, s) = ((db1, s1), Inr reply)" and "write_approval_enabled setting"
  obtains name content dst root i where "get_str ''name'' args = Some name" "get_str ''content'' args = Some content"
    "path_absolute (ae_cwd env) (target_dir env T) = Inr root"
    "validated_write_path (ae_cwd env) (ae_fs env) (fst s) (target_dir env T) name = Inr dst"
    "stage_pending_write (ae_uuid env) now ''skill'' (json_write (ae_codec env) (skill_payload name content root dst)) db = Inr (db1, i)"
    "s1 = s" "reply = staged_reply name i"
proof (cases "checked_skill env setting T args (fst s)")
  case (Inl e)
  with assms that show thesis by (simp add: skills_write_def)
next
  case (Inr q)
  obtain name content dst where q: "q = (name, content, dst)" by (cases q)
  from Inr q have args: "get_str ''name'' args = Some name" "get_str ''content'' args = Some content"
      "validated_write_path (ae_cwd env) (ae_fs env) (fst s) (target_dir env T) name = Inr dst"
    by (auto simp: checked_skill_def and_then_Inr_iff ok_or_def split: if_splits option.splits)
  from assms Inr q obtain i where st: "stage_skill env now T name content dst db = Inr (db1, i)" "s1 = s" "reply = staged_reply name i"
    by (auto simp: skills_write_def split: sum.splits)
  with that [OF args(1,2) _ args(3)] show thesis by (auto simp: stage_skill_def split: sum.splits)
qed


subsection \<open>Concrete runs of the tool\<close>

definition skill_fs :: "unit Fs" where
  "skill_fs = \<lparr>fs_canon = (\<lambda>f p. Inr p), fs_exists = (\<lambda>f p. p \<in> {[''/'', ''w''], [''/'', ''w'', ''a''], [''/'', ''w'', ''a'', ''SKILL.md'']}),
     fs_stat = (\<lambda>f p. Found \<lparr>md_symlink = False, md_dir = p \<in> {[''/'', ''w''], [''/'', ''w'', ''a'']}, md_file = False, md_len = 0, md_nlink = 2\<rparr>),
     fs_bytes = (\<lambda>f p. Inr ''do it''),
     fs_entries = (\<lambda>f p. if p = [''/'', ''w''] then Inr [\<lparr>de_name = ''a'', de_path = [''/'', ''w'', ''a''], de_is_dir = True, de_size = 0\<rparr>] else Inl ''none''),
     fs_mkdir = (\<lambda>p f. Inl ''no''), fs_put = (\<lambda>p c f. Inl ''no'')\<rparr>"

lemma skill_fs_scan:
  "scan_dir skill_fs () (concat (map (entry_paths skill_fs ()) (filter (fs_exists skill_fs ()) [[''/'', ''w'']]))) [] =
     Some [(''a'', [''/'', ''w'', ''a'', ''SKILL.md''])]"
  by (simp add: entry_paths_def skill_fs_def scan_dir.simps visit_entry_def is_dir_def path_push_def path_is_absolute_def path_file_name_def)

theorem skills_found_witness:
  "\<exists>skills. find_all_skills skill_fs () (skills_new [[''/'', ''w'']]) = Some skills \<and>
     List.find (\<lambda>(n, _). n = ''a'') skills = Some (''a'', [''/'', ''w'', ''a'', ''SKILL.md''])"
proof -
  have "weighted skill_fs () (\<lambda>p. if p = [''/'', ''w''] then 2 else 1)"
    by (simp add: weighted_def skill_fs_def)
  from skills_found [OF this, of "skills_new [[''/'', ''w'']]"] skill_fs_scan show ?thesis
    by (auto simp: skills_new_def)
qed

definition skill_args :: json where
  "skill_args = JObj [(''name'', JStr ''a''), (''content'', JStr ''hi'')]"

definition skill_tool :: SkillsTool where
  "skill_tool = skills_with_pool (skills_new [[''/'', ''w'']])"

lemma sample_validated:
  "validated_write_path (Inr [''/'', ''w'']) sample_fs [] [''/'', ''w''] ''a'' = Inr [''/'', ''w'', ''a'', ''SKILL.md'']"
  by code_simp

lemma sample_skill_env:
  "target_dir (write_env u) skill_tool = [''/'', ''w'']" "ae_cwd (write_env u) = Inr [''/'', ''w'']"
  "ae_fs (write_env u) = sample_fs" "ae_uuid (write_env u) = u"
  by (simp_all add: target_dir_def skill_tool_def skills_with_pool_def skills_new_def write_env_def)

lemma sample_staged:
  "\<exists>db1 s1 reply. skills_write (write_env ''11111111-2'') (Some '' On '') 0 skill_tool skill_args (store_empty, ([], [])) =
     ((db1, s1), Inr reply)"
  by (simp add: skills_write_def checked_skill_def skill_args_def approval_on sample_skill_env sample_validated ok_or_def
      stage_skill_def path_absolute_def path_is_absolute_def stage_pending_write_def store_empty_def)
    (simp add: skill_tool_def skills_with_pool_def)


end
