(* ===== verification/Restart_Recovery.thy ===== *)
theory Restart_Recovery
  imports Session_Upgrade
begin

section \<open>Resuming interrupted turns after a restart\<close>

text \<open>
  The recovery of interrupted turns at start (\<open>src/main.rs\<close>): the sessions marked as pending whose last
  transcript row is a user message are dispatched again, after the author of that message has passed the
  current authorization; the same test counts the recoveries for the restart breaker.  The multiplexer is
  a parameter that says whether an event was routed, as are the clock, the fresh event ids and the codec of
  the stored attachments.
\<close>

subsection \<open>Authorization\<close>

record StartupAuthorization =
  allowed_users :: "nat list"
  allow_all_users :: bool
  allowed_channels :: "nat list"
  ignored_channels :: "nat list"

definition channel_open :: "StartupAuthorization \<Rightarrow> nat \<Rightarrow> bool" where
  "channel_open auth chan \<longleftrightarrow>
     \<not> (ignored_channels auth \<noteq> [] \<and> chan \<in> set (ignored_channels auth)) \<and>
     \<not> (allowed_channels auth \<noteq> [] \<and> chan \<notin> set (allowed_channels auth))"

definition is_authorized_actor :: "StartupAuthorization \<Rightarrow> SessionKey \<Rightarrow> string option \<Rightarrow> bool" where
  "is_authorized_actor auth key actor \<longleftrightarrow>
     (case parse_u64 (channel_id key) of None \<Rightarrow> True | Some chan \<Rightarrow> channel_open auth chan) \<and>
     (allow_all_users auth \<or>
      (case Option.bind actor parse_u64 of None \<Rightarrow> False | Some i \<Rightarrow> i \<in> set (allowed_users auth)))"

definition is_authorized :: "StartupAuthorization \<Rightarrow> SessionKey \<Rightarrow> bool" where
  "is_authorized auth key = is_authorized_actor auth key (Some (user_id key))"

text \<open>Whose turn it is: the author the platform reported for exactly this message, in a direct
  conversation its user, in a guild the author an upgrade vouched for.\<close>

definition rest_author :: "SessionKey \<Rightarrow> UnfinishedTurn \<Rightarrow> Store \<Rightarrow> string option" where
  "rest_author key ut db =
     (if platform key = ''discord'' then
        Option.bind (ut_platform_message_id ut) (\<lambda>mid.
          map_option sd_author_id (List.find (\<lambda>d. sd_platform d = ''discord'' \<and> sd_guild_id d = guild_id key \<and>
             sd_channel_id d = (case thread_id key of Some t \<Rightarrow> t | None \<Rightarrow> channel_id key) \<and>
             sd_message_id d = mid \<and> sd_source d = Some ''discord_rest'') (so_documents db)))
      else None)"

definition pending_recovery_actor :: "SessionKey \<Rightarrow> UnfinishedTurn \<Rightarrow> Store \<Rightarrow> string option" where
  "pending_recovery_actor key ut db =
     (case rest_author key ut db of
        Some author \<Rightarrow> Some author
      | None \<Rightarrow>
          if guild_id key = None then Some (user_id key)
          else map_option pa_author_id (List.find (\<lambda>p. list_ex (\<lambda>m. tr_id m = pa_message_id p \<and>
                 tr_sequence m = pa_message_sequence p \<and> tr_id m = ut_message_id ut \<and>
                 tr_session_key m = storage_key key \<and> pa_canonical_key p = tr_session_key m \<and>
                 tr_role m = ''user'') (so_messages db)) (so_pending_auth db)))"

subsection \<open>Counting and resuming\<close>

definition count_authorized_pending_recoveries :: "Codec \<Rightarrow> StartupAuthorization \<Rightarrow> Store \<Rightarrow> nat" where
  "count_authorized_pending_recoveries co a db =
     fold (\<lambda>key n.
       if is_session_suspended co (storage_key key) db then n
       else case find_last_unfinished_user_turn (storage_key key) db of
         None \<Rightarrow> n
       | Some ut \<Rightarrow> if is_authorized_actor a key (pending_recovery_actor key ut db) then n + 1 else n)
     (fetch_resume_pending_session_keys db) 0"

record RecoveryEnv =
  re_codec :: Codec
  re_attachments :: "string \<Rightarrow> MessageAttachment list"
  re_fresh :: "SessionKey \<Rightarrow> string"
  re_now :: int
  re_route :: "InboundEvent \<Rightarrow> bool"

definition resumed_event :: "RecoveryEnv \<Rightarrow> SessionKey \<Rightarrow> UnfinishedTurn \<Rightarrow> InboundEvent" where
  "resumed_event env key ut =
     \<lparr>ev_id = re_fresh env key, ev_session = key, ev_platform_message_id = '''', ev_delivery_id = None,
      ev_content = ut_content ut, ev_attachments = re_attachments env (ut_metadata_json ut),
      ev_received_at = re_now env\<rparr>"

definition recover_session ::
  "RecoveryEnv \<Rightarrow> StartupAuthorization option \<Rightarrow> SessionKey \<Rightarrow> Store \<times> InboundEvent list \<times> nat \<Rightarrow>
   Store \<times> InboundEvent list \<times> nat" where
  "recover_session env auth key s =
     (case s of (db, evs, n) \<Rightarrow>
        let k = storage_key key in
        if is_session_suspended (re_codec env) k db
        then (fst (clear_session_resume_pending (re_now env) k db), evs, n)
        else case find_last_unfinished_user_turn k db of
          None \<Rightarrow> (fst (clear_session_resume_pending (re_now env) k db), evs, n)
        | Some ut \<Rightarrow>
            if (case auth of None \<Rightarrow> False
                | Some a \<Rightarrow> \<not> is_authorized_actor a key (pending_recovery_actor key ut db))
            then (db, evs, n)
            else
              (case clear_session_resume_pending (re_now env) k db of
                 (db, cleared) \<Rightarrow>
                   if \<not> cleared then (db, evs, n)
                   else let ev = resumed_event env key ut
                        in (db, evs @ [ev], if re_route env ev then n + 1 else n)))"

definition recover_resume_pending_sessions_with_auth ::
  "RecoveryEnv \<Rightarrow> StartupAuthorization option \<Rightarrow> Store \<Rightarrow> Store \<times> InboundEvent list \<times> nat" where
  "recover_resume_pending_sessions_with_auth env auth db =
     fold (recover_session env auth) (fetch_resume_pending_session_keys db) (db, [], 0)"

definition recover_resume_pending_sessions :: "RecoveryEnv \<Rightarrow> Store \<Rightarrow> Store \<times> InboundEvent list \<times> nat" where
  "recover_resume_pending_sessions env db = recover_resume_pending_sessions_with_auth env None db"

subsection \<open>What a recovery decides, session by session\<close>

text \<open>A session is held back when its turn waits for an author that is not authorized; otherwise it is
  resumed with its unfinished turn, if it has one and is not suspended.\<close>

definition held :: "Codec \<Rightarrow> StartupAuthorization option \<Rightarrow> SessionKey \<Rightarrow> Store \<Rightarrow> bool" where
  "held co auth key db \<longleftrightarrow> \<not> is_session_suspended co (storage_key key) db \<and>
     (case (find_last_unfinished_user_turn (storage_key key) db, auth) of
        (Some ut, Some a) \<Rightarrow> \<not> is_authorized_actor a key (pending_recovery_actor key ut db) | _ \<Rightarrow> False)"

definition resumes :: "Codec \<Rightarrow> StartupAuthorization option \<Rightarrow> SessionKey \<Rightarrow> Store \<Rightarrow> UnfinishedTurn option" where
  "resumes co auth key db =
     (if is_session_suspended co (storage_key key) db \<or> held co auth key db then None
      else find_last_unfinished_user_turn (storage_key key) db)"

lemma recover_session_eq:
  "recover_session env auth key (db, evs, n) =
     (if held (re_codec env) auth key db then (db, evs, n)
      else (case clear_session_resume_pending (re_now env) (storage_key key) db of (db', cleared) \<Rightarrow>
        (case resumes (re_codec env) auth key db of
           None \<Rightarrow> (db', evs, n)
         | Some ut \<Rightarrow> if cleared then (db', evs @ [resumed_event env key ut],
             if re_route env (resumed_event env key ut) then n + 1 else n) else (db', evs, n))))"
  by (auto simp: recover_session_def held_def resumes_def Let_def split: option.splits prod.splits)

text \<open>The decision does not depend on the flags the recovery itself clears.\<close>

definition same_turns :: "Store \<Rightarrow> Store \<Rightarrow> bool" where
  "same_turns db db' \<longleftrightarrow> so_messages db' = so_messages db \<and> so_pending_auth db' = so_pending_auth db \<and>
     so_documents db' = so_documents db \<and> so_conflicts db' = so_conflicts db \<and>
     (\<forall>k. map_option st_state_json (session_row k db') = map_option st_state_json (session_row k db))"

lemma same_turns_decisions:
  assumes "same_turns db db'"
  shows "held co auth key db' = held co auth key db" and "resumes co auth key db' = resumes co auth key db"
proof -
  have s: "is_session_suspended co k db' = is_session_suspended co k db" for k
    using assms unfolding same_turns_def is_session_suspended_def
    by (auto split: option.splits dest!: spec [of _ k])
  have f: "find_last_unfinished_user_turn k db' = find_last_unfinished_user_turn k db" for k
    using assms by (simp add: same_turns_def find_last_unfinished_user_turn_def last_message_def)
  have t: "so_messages db' = so_messages db" "so_pending_auth db' = so_pending_auth db" "so_documents db' = so_documents db"
    using assms by (simp_all add: same_turns_def)
  have "pending_recovery_actor key ut db' = pending_recovery_actor key ut db" for ut
    unfolding pending_recovery_actor_def rest_author_def t ..
  with s f show "held co auth key db' = held co auth key db" by (simp add: held_def split: option.splits)
  with s f show "resumes co auth key db' = resumes co auth key db" by (simp add: resumes_def)
qed

lemma same_turns_refl [simp]: "same_turns db db"
  by (simp add: same_turns_def)

lemma same_turns_trans: "same_turns a b \<Longrightarrow> same_turns b c \<Longrightarrow> same_turns a c"
  by (simp add: same_turns_def)

lemma same_turns_clear: "same_turns db (fst (clear_session_resume_pending now k db))"
  unfolding same_turns_def session_row_clear
  by (auto simp: option.map_comp comp_def set_resume_def intro!: option.map_cong)

lemma same_turns_recover: "same_turns db (fst (recover_session env auth key (db, evs, n)))"
  using same_turns_clear [of db "re_now env" "storage_key key"]
  by (auto simp: recover_session_eq split: option.splits prod.splits)

text \<open>Every event of a recovery is a decision taken on the store it began with.\<close>

lemma recovered_events:
  assumes "ev \<in> set (fst (snd (fold (recover_session env auth) ks (db, evs, n))))"
  shows "ev \<in> set evs \<or> (\<exists>key \<in> set ks. \<exists>ut. resumes (re_codec env) auth key db = Some ut \<and> ev = resumed_event env key ut)"
  using assms
proof (induction ks arbitrary: db evs n)
  case (Cons key ks)
  obtain db1 evs1 n1 where s: "recover_session env auth key (db, evs, n) = (db1, evs1, n1)" by (metis prod_cases3)
  have "same_turns db db1" using same_turns_recover [of db env auth key evs n] by (simp add: s)
  note same = same_turns_decisions(2) [OF this]
  have "ev \<in> set evs1 \<or> (\<exists>key \<in> set ks. \<exists>ut. resumes (re_codec env) auth key db = Some ut \<and> ev = resumed_event env key ut)"
    using Cons.IH [of db1 evs1 n1] Cons.prems by (simp add: s same)
  moreover have "ev \<in> set evs1 \<Longrightarrow> ev \<in> set evs \<or> (\<exists>ut. resumes (re_codec env) auth key db = Some ut \<and> ev = resumed_event env key ut)"
    using s by (auto simp: recover_session_eq split: if_splits option.splits prod.splits)
  ultimately show ?case by auto
qed simp

subsection \<open>The whole recovery\<close>

text \<open>The rows that are stored under the key the recovery derives from them; the legacy upgrade leaves only
  such guild rows outside the deferred lanes.\<close>

definition key_faithful :: "StoredSession \<Rightarrow> bool" where
  "key_faithful r \<longleftrightarrow> storage_key (row_session_key r) = st_key r"

definition flags_cleared :: "int \<Rightarrow> string set \<Rightarrow> Store \<Rightarrow> Store" where
  "flags_cleared now ks db = db\<lparr>so_sessions :=
     map (\<lambda>r. if st_key r \<in> ks then set_resume now 0 r else r) (so_sessions db)\<rparr>"

definition dispatched :: "RecoveryEnv \<Rightarrow> StartupAuthorization option \<Rightarrow> Store \<Rightarrow> SessionKey list \<Rightarrow> InboundEvent list" where
  "dispatched env auth db ks = List.map_filter (\<lambda>key. map_option (resumed_event env key) (resumes (re_codec env) auth key db)) ks"

definition pending_row :: "string \<Rightarrow> Store \<Rightarrow> bool" where
  "pending_row k db \<longleftrightarrow> (\<exists>r. session_row k db = Some r \<and> st_resume_pending r = 1)"

lemma clear_pending:
  assumes d: "distinct (map st_key (so_sessions db))" and p: "pending_row k db"
  shows "clear_session_resume_pending now k db = (flags_cleared now {k} db, True)"
proof -
  obtain r where r: "r \<in> set (so_sessions db)" "st_key r = k" "st_resume_pending r = 1"
    using p by (auto simp: pending_row_def session_row_def dest: sql_get_SomeD)
  have "map (\<lambda>s. if st_key s = k \<and> st_resume_pending s = 1 then set_resume now 0 s else s) (so_sessions db) =
      map (\<lambda>s. if st_key s \<in> {k} then set_resume now 0 s else s) (so_sessions db)"
  proof (rule map_cong [OF refl])
    fix s assume "s \<in> set (so_sessions db)"
    then have "st_key s = k \<Longrightarrow> s = r" using row_by_key [OF d _ r(1)] r(2) by simp
    then show "(if st_key s = k \<and> st_resume_pending s = 1 then set_resume now 0 s else s) =
        (if st_key s \<in> {k} then set_resume now 0 s else s)" using r(3) by auto
  qed
  then have "fst (clear_session_resume_pending now k db) = flags_cleared now {k} db"
    by (simp add: clear_session_resume_pending_def sql_update_def flags_cleared_def)
  moreover have "snd (clear_session_resume_pending now k db)" using cleared_iff [OF d] p by (simp add: pending_row_def)
  ultimately show ?thesis by (metis prod.collapse)
qed

lemma flags_cleared_facts:
  "map st_key (so_sessions (flags_cleared now ks db)) = map st_key (so_sessions db)"
  "flags_cleared now {} db = db"
  "flags_cleared now ks (flags_cleared now {k} db) = flags_cleared now (insert k ks) db"
  "same_turns db (flags_cleared now ks db)"
proof -
  show "map st_key (so_sessions (flags_cleared now ks db)) = map st_key (so_sessions db)"
    by (simp add: flags_cleared_def set_resume_def)
  show "flags_cleared now {} db = db" by (simp add: flags_cleared_def)
  show "flags_cleared now ks (flags_cleared now {k} db) = flags_cleared now (insert k ks) db"
    by (simp add: flags_cleared_def set_resume_def)
  have "session_row k (flags_cleared now ks db) =
      map_option (\<lambda>r. if st_key r \<in> ks then set_resume now 0 r else r) (session_row k db)" for k
    using set_resume.get_update [of k "\<lambda>r. st_key r \<in> ks" now 0 "so_sessions db"]
    by (simp add: flags_cleared_def session_row_def sql_update_def)
  then show "same_turns db (flags_cleared now ks db)"
    by (auto simp: same_turns_def flags_cleared_def option.map_comp comp_def set_resume_def intro!: option.map_cong)
qed

lemma pending_row_cleared: "k \<noteq> k' \<Longrightarrow> pending_row k (flags_cleared now {k'} db) = pending_row k db"
  using set_resume.get_update [of k "\<lambda>r. st_key r \<in> {k'}" now 0 "so_sessions db"]
  by (auto simp: pending_row_def flags_cleared_def session_row_def sql_update_def dest: sql_get_SomeD)

lemma recover_fold:
  assumes "distinct (map st_key (so_sessions db))" and "distinct (map storage_key ks)"
    and "list_all (\<lambda>key. pending_row (storage_key key) db) ks"
  shows "fold (recover_session env auth) ks (db, evs, n) =
    (flags_cleared (re_now env) (storage_key ` {key \<in> set ks. \<not> held (re_codec env) auth key db}) db,
     evs @ dispatched env auth db ks, n + length (filter (re_route env) (dispatched env auth db ks)))"
  using assms
proof (induction ks arbitrary: db evs n)
  case Nil
  then show ?case by (simp add: flags_cleared_facts dispatched_def)
next
  case (Cons key ks)
  let ?co = "re_codec env" and ?k = "storage_key key"
  let ?db = "flags_cleared (re_now env) {?k} db"
  have other: "pending_row (storage_key q) ?db = pending_row (storage_key q) db" if "q \<in> set ks" for q
    using that Cons.prems(2) by (intro pending_row_cleared) (metis distinct.simps(2) image_eqI list.simps(9) set_map)
  note same = same_turns_decisions [OF flags_cleared_facts(4) [of db "re_now env" "{?k}"]]
  have disp: "dispatched env auth ?db ks = dispatched env auth db ks" by (simp add: dispatched_def same)
  have IH: "fold (recover_session env auth) ks (?db, evs', n') =
      (flags_cleared (re_now env) (insert ?k (storage_key ` {key \<in> set ks. \<not> held ?co auth key db})) db,
       evs' @ dispatched env auth db ks, n' + length (filter (re_route env) (dispatched env auth db ks)))" for evs' n'
    using Cons.IH [of ?db evs' n'] Cons.prems other
    by (simp add: same disp flags_cleared_facts list_all_iff)
  have set: "storage_key ` {q \<in> set (key # ks). \<not> held ?co auth q db} =
      (if held ?co auth key db then {} else {?k}) \<union> storage_key ` {q \<in> set ks. \<not> held ?co auth q db}" by auto
  show ?case
  proof (cases "held ?co auth key db")
    case True
    then have "resumes ?co auth key db = None" by (simp add: resumes_def)
    then show ?thesis unfolding set using True Cons.IH [of db evs n] Cons.prems
      by (simp add: recover_session_eq dispatched_def List.map_filter_simps)
  next
    case False
    have "clear_session_resume_pending (re_now env) ?k db = (?db, True)" using Cons.prems by (intro clear_pending) auto
    then show ?thesis unfolding set using False IH
      by (cases "resumes ?co auth key db") (simp_all add: recover_session_eq dispatched_def List.map_filter_simps)
  qed
qed

text \<open>The keys the recovery walks over.\<close>

lemma fetched_keys:
  assumes d: "distinct (map st_key (so_sessions db))" and f: "list_all (\<lambda>r. resumable db r \<longrightarrow> key_faithful r) (so_sessions db)"
  shows "distinct (map storage_key (fetch_resume_pending_session_keys db))"
    and "list_all (\<lambda>key. pending_row (storage_key key) db) (fetch_resume_pending_session_keys db)"
    and "storage_key ` {key \<in> set (fetch_resume_pending_session_keys db). P key} =
      {st_key r | r. r \<in> set (so_sessions db) \<and> resumable db r \<and> P (row_session_key r)}"
proof -
  let ?rows = "sort_key st_updated_at (filter (resumable db) (so_sessions db))"
  have faithful: "storage_key (row_session_key r) = st_key r" if "r \<in> set (so_sessions db)" "resumable db r" for r
    using f that by (simp add: list_all_iff key_faithful_def)
  then have "map storage_key (fetch_resume_pending_session_keys db) = map st_key ?rows"
    by (simp add: fetch_resume_pending_session_keys_def)
  moreover have "distinct (map st_key ?rows)"
    using d by (auto simp: distinct_map inj_on_def)
  ultimately show "distinct (map storage_key (fetch_resume_pending_session_keys db))" by simp
  show "list_all (\<lambda>key. pending_row (storage_key key) db) (fetch_resume_pending_session_keys db)"
    using faithful sql_get_mem [OF d]
    by (auto simp: list_all_iff fetch_resume_pending_session_keys_def pending_row_def session_row_def resumable_def)
  show "storage_key ` {key \<in> set (fetch_resume_pending_session_keys db). P key} =
      {st_key r | r. r \<in> set (so_sessions db) \<and> resumable db r \<and> P (row_session_key r)}"
    using faithful by (force simp: fetch_resume_pending_session_keys_def)
qed

lemma recovery_eq:
  assumes "distinct (map st_key (so_sessions db))" and "list_all (\<lambda>r. resumable db r \<longrightarrow> key_faithful r) (so_sessions db)"
  shows "recover_resume_pending_sessions_with_auth env auth db =
    (flags_cleared (re_now env) {st_key r | r. r \<in> set (so_sessions db) \<and> resumable db r \<and>
        \<not> held (re_codec env) auth (row_session_key r) db} db,
     dispatched env auth db (fetch_resume_pending_session_keys db),
     length (filter (re_route env) (dispatched env auth db (fetch_resume_pending_session_keys db))))"
  unfolding recover_resume_pending_sessions_with_auth_def
    recover_fold [OF assms(1) fetched_keys(1,2) [OF assms]] fetched_keys(3) [OF assms] by simp

text \<open>What is left pending was held back.\<close>

lemma resumable_after:
  fixes db env auth
  defines "ks \<equiv> {st_key r | r. r \<in> set (so_sessions db) \<and> resumable db r \<and> \<not> held (re_codec env) auth (row_session_key r) db}"
  assumes "r \<in> set (so_sessions (flags_cleared now ks db))" and "resumable (flags_cleared now ks db) r"
  shows "r \<in> set (so_sessions db) \<and> resumable db r \<and> held (re_codec env) auth (row_session_key r) db"
proof -
  obtain s where s: "s \<in> set (so_sessions db)" "r = (if st_key s \<in> ks then set_resume now 0 s else s)"
    using assms(2) by (auto simp: flags_cleared_def)
  have "st_key s \<notin> ks" using assms(3) s(2) by (auto simp: resumable_def set_resume_def split: if_splits)
  then have "r = s" using s(2) by simp
  moreover have "resumable db s" using assms(3) \<open>r = s\<close> by (simp add: resumable_def deferred_lane_def flags_cleared_def)
  ultimately show ?thesis using s(1) \<open>st_key s \<notin> ks\<close> by (auto simp: ks_def)
qed

lemma length_dispatched_count:
  "length (dispatched env (Some a) db ks) = length (filter (\<lambda>key. resumes (re_codec env) (Some a) key db \<noteq> None) ks)"
  by (induction ks) (auto simp: dispatched_def List.map_filter_simps split: option.splits)

lemma count_eq:
  "count_authorized_pending_recoveries co a db =
     length (filter (\<lambda>key. resumes co (Some a) key db \<noteq> None) (fetch_resume_pending_session_keys db))"
proof -
  have "fold (\<lambda>key n. if is_session_suspended co (storage_key key) db then n
       else case find_last_unfinished_user_turn (storage_key key) db of None \<Rightarrow> n
       | Some ut \<Rightarrow> if is_authorized_actor a key (pending_recovery_actor key ut db) then n + 1 else n) ks m =
     m + length (filter (\<lambda>key. resumes co (Some a) key db \<noteq> None) ks)" for ks m
    by (induction ks arbitrary: m) (auto simp: resumes_def held_def split: option.splits)
  then show ?thesis by (simp add: count_authorized_pending_recoveries_def)
qed

subsection \<open>Properties\<close>

text \<open>C14: a turn is resumed only for a session that is marked as pending, not deferred by the legacy upgrade
  and not suspended, whose transcript ends with a user message; the event carries that message, and its
  author passes the current authorization.\<close>

theorem resumed_turns_authorized:
  assumes "recover_resume_pending_sessions_with_auth env (Some a) db = (db', evs, n)" and "ev \<in> set evs"
  shows "\<exists>row ut. row \<in> set (so_sessions db) \<and> st_resume_pending row = 1 \<and> \<not> deferred_lane (st_key row) db \<and>
    ev_session ev = row_session_key row \<and> \<not> is_session_suspended (re_codec env) (storage_key (ev_session ev)) db \<and>
    find_last_unfinished_user_turn (storage_key (ev_session ev)) db = Some ut \<and> ev_content ev = ut_content ut \<and>
    is_authorized_actor a (ev_session ev) (pending_recovery_actor (ev_session ev) ut db)"
proof -
  obtain key ut where k: "key \<in> set (fetch_resume_pending_session_keys db)"
      "resumes (re_codec env) (Some a) key db = Some ut" "ev = resumed_event env key ut"
    using recovered_events [of ev env "Some a" "fetch_resume_pending_session_keys db" db "[]" 0] assms
    by (auto simp: recover_resume_pending_sessions_with_auth_def)
  then obtain row where "row \<in> set (so_sessions db)" "resumable db row" "key = row_session_key row"
    by (auto simp: fetch_resume_pending_session_keys_def)
  moreover have "ev_session ev = key" "ev_content ev = ut_content ut" using k(3) by (simp_all add: resumed_event_def)
  ultimately show ?thesis using k(2) by (auto simp: resumes_def held_def resumable_def split: if_splits)
qed


text \<open>One direct conversation with an interrupted turn of user 7.\<close>

definition sample_pending :: Store where
  "sample_pending = store_empty\<lparr>
     so_sessions := [\<lparr>st_key = ''7:discord|-|1:c|-|1:7'', st_platform = ''discord'', st_guild_id = None,
       st_channel_id = ''c'', st_thread_id = None, st_user_id = ''7'', st_state_json = ''{}'',
       st_resume_pending = 1, st_updated_at = 0\<rparr>],
     so_messages := [sample_message ''m1'' ''7:discord|-|1:c|-|1:7'' 1]\<rparr>"

definition sample_auth :: StartupAuthorization where
  "sample_auth = \<lparr>allowed_users = [7], allow_all_users = False, allowed_channels = [], ignored_channels = []\<rparr>"

definition sample_env :: RecoveryEnv where
  "sample_env = \<lparr>re_codec = sample_codec, re_attachments = (\<lambda>_. []), re_fresh = (\<lambda>_. ''e''), re_now = 9,
     re_route = (\<lambda>_. True)\<rparr>"

lemma sample_key: "from_storage_key ''7:discord|-|1:c|-|1:7'' = Inr (session_key_new ''discord'' None ''c'' None ''7'')"
  by (simp add: from_storage_key_eval)

lemma sample_storage_key: "storage_key (session_key_new ''discord'' None ''c'' None ''7'') = ''7:discord|-|1:c|-|1:7''"
  by (simp add: storage_key_def session_key_new_def component_def sample_dec)

lemma sample_parse: "parse_u64 ''7'' = Some 7" "parse_u64 ''c'' = None"
  by (simp_all add: from_storage_key_eval)

lemma sample_resumes:
  "resumes sample_codec (Some sample_auth) (session_key_new ''discord'' None ''c'' None ''7'') sample_pending =
     Some \<lparr>ut_message_id = ''m1'', ut_content = ''hi'', ut_metadata_json = ''[]'', ut_created_at = 0, ut_platform_message_id = None\<rparr>"
proof -
  have "rest_author k \<lparr>ut_message_id = ''m1'', ut_content = ''hi'', ut_metadata_json = ''[]'', ut_created_at = 0,
      ut_platform_message_id = None\<rparr> sample_pending = None" for k
    by (simp add: rest_author_def)
  moreover have "find_last_unfinished_user_turn ''7:discord|-|1:c|-|1:7'' sample_pending =
      Some \<lparr>ut_message_id = ''m1'', ut_content = ''hi'', ut_metadata_json = ''[]'', ut_created_at = 0, ut_platform_message_id = None\<rparr>"
    by (simp add: find_last_unfinished_user_turn_def last_message_def sample_pending_def sample_message_def store_empty_def)
  moreover have "\<not> is_session_suspended sample_codec ''7:discord|-|1:c|-|1:7'' sample_pending"
    by (simp add: is_session_suspended_def session_row_def sample_pending_def store_empty_def sample_codec_def)
  moreover have "channel_id (session_key_new ''discord'' None ''c'' None ''7'') = ''c''"
      "guild_id (session_key_new ''discord'' None ''c'' None ''7'') = None"
      "user_id (session_key_new ''discord'' None ''c'' None ''7'') = ''7''"
    by (simp_all add: session_key_new_def)
  ultimately show ?thesis
    by (simp add: resumes_def held_def sample_storage_key pending_recovery_actor_def is_authorized_actor_def sample_parse sample_auth_def)
qed

lemma sample_fetched: "fetch_resume_pending_session_keys sample_pending = [session_key_new ''discord'' None ''c'' None ''7'']"
  by (simp add: fetch_resume_pending_session_keys_def sample_pending_def store_empty_def resumable_def deferred_lane_def
      row_session_key_def sample_key)

lemma sample_ready:
  "distinct (map st_key (so_sessions sample_pending))"
  "list_all (\<lambda>r. resumable sample_pending r \<longrightarrow> key_faithful r) (so_sessions sample_pending)"
  by (simp_all add: sample_pending_def store_empty_def key_faithful_def row_session_key_def sample_key sample_storage_key)


theorem resumed_turns_authorized_witness:
  "\<exists>ev row. ev \<in> set (fst (snd (recover_resume_pending_sessions_with_auth sample_env (Some sample_auth) sample_pending))) \<and>
    row \<in> set (so_sessions sample_pending) \<and> st_resume_pending row = 1 \<and> ev_session ev = row_session_key row"
proof -
  let ?ev = "resumed_event sample_env (session_key_new ''discord'' None ''c'' None ''7'') \<lparr>ut_message_id = ''m1'', ut_content = ''hi'',
      ut_metadata_json = ''[]'', ut_created_at = 0, ut_platform_message_id = None\<rparr>"
  obtain db' evs n where r: "recover_resume_pending_sessions_with_auth sample_env (Some sample_auth) sample_pending = (db', evs, n)"
    by (metis prod_cases3)
  have "evs = dispatched sample_env (Some sample_auth) sample_pending [session_key_new ''discord'' None ''c'' None ''7'']"
    using r recovery_eq [OF sample_ready] by (simp add: sample_fetched)
  then have "?ev \<in> set evs" by (simp add: dispatched_def List.map_filter_simps sample_env_def sample_resumes)
  with resumed_turns_authorized [OF r this] r show ?thesis by auto
qed

text \<open>The upgrade and the recovery together.\<close>

lemma storage_key_lane:
  assumes "from_storage_key raw = Inr key" and "lane_of c = Some c" and "storage_key key = c"
  shows "lane_of raw = Some c"
proof -
  have "from_storage_key c = Inr key"
    using outcome_InrD [OF from_storage_key_outcome assms(1)] assms(3) by (auto simp: sk.decode_encode)
  then have "guild_id key \<noteq> None" using assms(2) by (auto simp: lane_of_def split: if_splits)
  then show ?thesis using assms by (simp add: lane_of_def)
qed

lemma parses_new_key: "lane_of k = Some c \<Longrightarrow> \<exists>key. from_storage_key k = Inr key"
  by (cases "from_storage_key k") (auto simp: lane_of_def)



end
