(* ===== verification/Discord_Intake.thy ===== *)
theory Discord_Intake
  imports Command_Policy Session_Store Pairing_Store
begin

section \<open>Which Discord messages become events\<close>

text \<open>
  The intake of \<open>src/discord/adapter.rs\<close> with the authorization of \<open>src/discord/commands.rs\<close>: the filter
  that turns a message into an inbound event of one bot, the merging of messages a client split, and the
  buffer that waits for them.  A message carries the fields the code reads; the fresh id of the event is
  an argument.
\<close>

subsection \<open>Messages\<close>

record DiscordUser =
  du_id :: nat
  du_bot :: bool
  du_name :: string

datatype ChannelType = TextChannel | Private | NewsThread | PublicThread | PrivateThread | OtherChannel

datatype MessageType = Regular | InlineReply | SystemMessage

record DiscordAttachment =
  da_id :: nat
  da_filename :: string
  da_url :: string
  da_content_type :: "string option"
  da_size :: nat

record MessageSnapshot =
  ms_content :: string
  ms_attachments :: "DiscordAttachment list"

record ReferencedMessage =
  rm_author_name :: string
  rm_content :: string
  rm_attachments :: "DiscordAttachment list"

record DiscordMessage =
  dm_id :: nat
  dm_webhook_id :: "nat option"
  dm_author :: DiscordUser
  dm_kind :: MessageType
  dm_guild_id :: "nat option"
  dm_channel_id :: nat
  dm_mentions :: "DiscordUser list"
  dm_content :: string
  dm_attachments :: "DiscordAttachment list"
  dm_snapshots :: "MessageSnapshot list"
  dm_referenced :: "ReferencedMessage option"
  dm_timestamp :: int
  dm_member_roles :: "nat list option"

datatype AllowBotsMode = BotsNone | BotsMentions | BotsAll

definition allow_bots_parse :: "string option \<Rightarrow> AllowBotsMode" where
  "allow_bots_parse s =
     (case map_option (\<lambda>v. to_ascii_lowercase (trim v)) s of
        None \<Rightarrow> BotsNone
      | Some v \<Rightarrow> if v = ''all'' then BotsAll else if v \<in> {''mentions'', ''mention''} then BotsMentions else BotsNone)"

record InboundFilterConfig =
  free_response_channels :: "nat list"
  allowed_users :: "nat list"
  allowed_roles :: "nat list"
  user_roles :: "nat list"
  allow_all_users :: bool
  thread_sessions_per_user :: bool
  active_threads :: "nat list"
  thread_owners :: "(nat \<times> nat) list"
  allowed_channels :: "nat list"
  ignored_channels :: "nat list"
  primary_bot_id :: "nat option"
  thread_require_mention :: bool
  allow_bots :: AllowBotsMode
  paired_users :: "nat list"
  parent_channel_id :: "nat option"

definition filter_default :: InboundFilterConfig where
  "filter_default = \<lparr>free_response_channels = [], allowed_users = [], allowed_roles = [], user_roles = [],
     allow_all_users = False, thread_sessions_per_user = True, active_threads = [], thread_owners = [],
     allowed_channels = [], ignored_channels = [], primary_bot_id = None, thread_require_mention = False,
     allow_bots = BotsNone, paired_users = [], parent_channel_id = None\<rparr>"

subsection \<open>Authorization\<close>

definition is_user_authorized :: "nat \<Rightarrow> nat list \<Rightarrow> nat list \<Rightarrow> nat list \<Rightarrow> bool \<Rightarrow> bool" where
  "is_user_authorized user roles users allowed allow_all =
     (if allow_all then True
      else if users \<noteq> [] \<and> user \<in> set users then True
      else if allowed \<noteq> [] \<and> list_ex (\<lambda>r. r \<in> set allowed) roles then True
      else False)"

definition is_user_allowed :: "nat list \<Rightarrow> nat \<Rightarrow> bool" where
  "is_user_allowed users user = is_user_authorized user [] users [] False"

definition is_channel_authorized :: "nat \<Rightarrow> nat option \<Rightarrow> nat list \<Rightarrow> nat list \<Rightarrow> bool \<Rightarrow> bool" where
  "is_channel_authorized chan parent allowed ignored is_dm =
     (if chan \<in> set ignored then False
      else if (case parent of Some p \<Rightarrow> p \<in> set ignored | None \<Rightarrow> False) then False
      else if \<not> is_dm \<and> allowed \<noteq> [] \<and> chan \<notin> set allowed \<and> \<not> (case parent of Some p \<Rightarrow> p \<in> set allowed | None \<Rightarrow> False)
      then False
      else True)"

datatype CommandAdmissionResult = Allowed | UnauthorizedUser | UnauthorizedChannel | MissingGuildMetadata

record CommandChannelScope =
  cs_channel_id :: nat
  cs_parent_channel_id :: "nat option"
  cs_is_dm :: bool
  cs_guild_metadata_available :: bool

definition scope_guild :: "nat \<Rightarrow> nat option \<Rightarrow> CommandChannelScope" where
  "scope_guild chan parent = \<lparr>cs_channel_id = chan, cs_parent_channel_id = parent, cs_is_dm = False, cs_guild_metadata_available = True\<rparr>"

definition scope_dm :: "nat \<Rightarrow> CommandChannelScope" where
  "scope_dm chan = \<lparr>cs_channel_id = chan, cs_parent_channel_id = None, cs_is_dm = True, cs_guild_metadata_available = True\<rparr>"

definition scope_missing :: "nat \<Rightarrow> CommandChannelScope" where
  "scope_missing chan = \<lparr>cs_channel_id = chan, cs_parent_channel_id = None, cs_is_dm = False, cs_guild_metadata_available = False\<rparr>"

definition check_slash_admission :: "nat \<Rightarrow> bool \<Rightarrow> CommandChannelScope \<Rightarrow> InboundFilterConfig \<Rightarrow> CommandAdmissionResult" where
  "check_slash_admission user is_paired chan config =
     (if \<not> cs_guild_metadata_available chan then MissingGuildMetadata
      else if \<not> (is_paired \<or> user \<in> set (paired_users config) \<or>
         is_user_authorized user (user_roles config) (allowed_users config) (allowed_roles config) (allow_all_users config))
      then UnauthorizedUser
      else if \<not> is_channel_authorized (cs_channel_id chan) (or_else (cs_parent_channel_id chan) (parent_channel_id config))
         (allowed_channels config) (ignored_channels config) (cs_is_dm chan)
      then UnauthorizedChannel
      else Allowed)"

definition should_prompt_unauthorized_dm :: "bool \<Rightarrow> bool \<Rightarrow> bool \<Rightarrow> bool \<Rightarrow> nat list \<Rightarrow> nat list \<Rightarrow> bool" where
  "should_prompt_unauthorized_dm is_dm is_bot is_paired allow_all users roles =
     (if \<not> is_dm \<or> is_bot \<or> allow_all \<or> is_paired then False else users = [] \<and> roles = [])"

text \<open>\<open>bytes\<close> and the character tables are what the pairing store takes; a failing store gives no code.\<close>

definition decide_unauthorized_dm ::
  "(string \<Rightarrow> bool) \<Rightarrow> (string \<Rightarrow> string) \<Rightarrow> nat list \<Rightarrow> bool \<Rightarrow> bool \<Rightarrow> nat \<Rightarrow> bool \<Rightarrow> nat list \<Rightarrow> nat list \<Rightarrow> int \<Rightarrow>
   PairingStore \<Rightarrow> PairingStore \<times> string option" where
  "decide_unauthorized_dm ualnum uupper bytes is_dm is_bot user allow_all users roles now db =
     (if \<not> should_prompt_unauthorized_dm is_dm is_bot (is_user_paired user db) allow_all users roles then (db, None)
      else case check_and_record_notification ualnum uupper bytes user now db of
        Inl _ \<Rightarrow> (db, None)
      | Inr (db', code) \<Rightarrow> (db', code))"

subsection \<open>From a message to an event\<close>

fun is_thread :: "ChannelType \<Rightarrow> bool" where
  "is_thread NewsThread = True"
| "is_thread PublicThread = True"
| "is_thread PrivateThread = True"
| "is_thread _ = False"

definition strip_bot_mention :: "string \<Rightarrow> nat \<Rightarrow> string" where
  "strip_bot_mention content b =
     trim (str_replace (''<@!'' @ dec b @ ''>'') '''' (str_replace (''<@'' @ dec b @ ''>'') '''' content))"

definition to_attachment :: "DiscordAttachment \<Rightarrow> MessageAttachment" where
  "to_attachment a = \<lparr>at_id = dec (da_id a), at_filename = da_filename a, at_url = da_url a,
     at_content_type = da_content_type a, at_size_bytes = Some (da_size a), at_local_path = None, at_text_content = None\<rparr>"

definition attachment_summary :: "DiscordAttachment list \<Rightarrow> string" where
  "attachment_summary as =
     (case as of
        [a] \<Rightarrow> ''[Attachment: '' @ da_filename a @ '']''
      | _ \<Rightarrow> ''[Attachments: '' @ join '', '' (map da_filename as) @ '']'')"

definition with_summary :: "string \<Rightarrow> DiscordAttachment list \<Rightarrow> string" where
  "with_summary part as =
     (if as = [] then part
      else if part = '''' then attachment_summary as else part @ '' '' @ attachment_summary as)"

definition extract_forwarded_snapshots :: "MessageSnapshot list \<Rightarrow> string \<times> MessageAttachment list" where
  "extract_forwarded_snapshots snaps =
     (let parts = filter (\<lambda>p. p \<noteq> '''') (map (\<lambda>s. with_summary (trim (ms_content s)) (ms_attachments s)) snaps);
          atts = concat (map (\<lambda>s. map to_attachment (ms_attachments s)) snaps);
          joined = join [nl] parts
      in (if joined = '''' then '''' else ''[Forwarded]'' @ [nl] @ joined, atts))"

definition referenced_content_cap :: nat where
  "referenced_content_cap = 500"

definition compose_reply_context :: "string \<Rightarrow> string \<Rightarrow> string \<Rightarrow> string" where
  "compose_reply_context author content body =
     (let cut = (if referenced_content_cap < length (chars content)
                 then concat (take referenced_content_cap (chars content)) @ ''...'' else content);
          clean = trim cut; head = ''> [Replying to @'' @ author @ '']''
      in if clean = '''' then (if body = '''' then head else head @ [nl, nl] @ body)
         else if body = '''' then head @ '': '' @ clean
         else head @ '': '' @ clean @ [nl, nl] @ body)"

text \<open>The gate of the filter: author, kind and channel, in the order of the early returns.\<close>

definition mentioned_bots :: "DiscordMessage \<Rightarrow> nat list" where
  "mentioned_bots m = map du_id (filter du_bot (dm_mentions m))"

definition bot_author_admitted :: "DiscordMessage \<Rightarrow> nat \<Rightarrow> InboundFilterConfig \<Rightarrow> bool" where
  "bot_author_admitted m b config =
     (if \<not> du_bot (dm_author m) then True
      else case allow_bots config of
        BotsNone \<Rightarrow> False
      | BotsMentions \<Rightarrow> b \<in> set (mentioned_bots m)
      | BotsAll \<Rightarrow> True)"

definition message_is_dm :: "DiscordMessage \<Rightarrow> ChannelType option \<Rightarrow> bool" where
  "message_is_dm m kind \<longleftrightarrow> dm_guild_id m = None \<or> kind = Some Private"

definition message_admitted :: "DiscordMessage \<Rightarrow> nat \<Rightarrow> ChannelType option \<Rightarrow> InboundFilterConfig \<Rightarrow> bool" where
  "message_admitted m b kind config \<longleftrightarrow>
     dm_webhook_id m = None \<and> du_id (dm_author m) \<noteq> b \<and> bot_author_admitted m b config \<and>
     dm_kind m \<in> {Regular, InlineReply} \<and> \<not> (dm_guild_id m \<noteq> None \<and> kind = None) \<and>
     is_channel_authorized (dm_channel_id m) (parent_channel_id config) (allowed_channels config) (ignored_channels config)
       (message_is_dm m kind) \<and>
     (du_id (dm_author m) \<in> set (paired_users config) \<or>
      is_user_authorized (du_id (dm_author m)) (user_roles config) (allowed_users config) (allowed_roles config)
        (allow_all_users config))"

text \<open>Whether the message is addressed to this bot: by a mention, or without one because the channel is
  answered implicitly and this bot is the one that answers there.\<close>

definition parent_is_free :: "InboundFilterConfig \<Rightarrow> bool" where
  "parent_is_free config = (case parent_channel_id config of Some p \<Rightarrow> p \<in> set (free_response_channels config) | None \<Rightarrow> False)"

definition thread_owner_of :: "DiscordMessage \<Rightarrow> bool \<Rightarrow> InboundFilterConfig \<Rightarrow> nat option" where
  "thread_owner_of m thread config =
     (if thread then map_option snd (List.find (\<lambda>(t, _). t = dm_channel_id m) (thread_owners config)) else None)"

definition implicitly_answered :: "DiscordMessage \<Rightarrow> bool \<Rightarrow> bool \<Rightarrow> InboundFilterConfig \<Rightarrow> bool" where
  "implicitly_answered m is_dm thread config \<longleftrightarrow>
     is_dm \<or>
     (thread \<and> \<not> thread_require_mention config \<and>
      (parent_is_free config \<or> thread_owner_of m thread config \<noteq> None \<or> dm_channel_id m \<in> set (active_threads config))) \<or>
     dm_channel_id m \<in> set (free_response_channels config) \<or> parent_is_free config"

definition answers_here :: "DiscordMessage \<Rightarrow> nat \<Rightarrow> bool \<Rightarrow> bool \<Rightarrow> InboundFilterConfig \<Rightarrow> bool" where
  "answers_here m b is_dm thread config =
     (is_dm \<or>
      (case thread_owner_of m thread config of
         Some owner \<Rightarrow> owner = b
       | None \<Rightarrow> primary_bot_id config = Some b))"

definition message_addressed :: "DiscordMessage \<Rightarrow> nat \<Rightarrow> ChannelType option \<Rightarrow> InboundFilterConfig \<Rightarrow> bool" where
  "message_addressed m b kind config =
     (let thread = (case kind of Some k \<Rightarrow> is_thread k | None \<Rightarrow> False); is_dm = message_is_dm m kind in
      if mentioned_bots m \<noteq> [] then b \<in> set (mentioned_bots m)
      else implicitly_answered m is_dm thread config \<and> answers_here m b is_dm thread config)"

text \<open>The text and attachments of the event, and the session it belongs to.\<close>

definition raw_content :: "DiscordMessage \<Rightarrow> nat \<Rightarrow> string" where
  "raw_content m b =
     (let text_part = strip_bot_mention (dm_content m) b; block = fst (extract_forwarded_snapshots (dm_snapshots m)) in
      if block = '''' then text_part
      else if trim text_part = '''' then block else text_part @ [nl, nl] @ block)"

fun union_attachments :: "MessageAttachment list \<Rightarrow> DiscordAttachment list \<Rightarrow> MessageAttachment list" where
  "union_attachments as [] = as"
| "union_attachments as (p # ps) =
     union_attachments (if list_ex (\<lambda>a. at_id a = dec (da_id p)) as then as else as @ [to_attachment p]) ps"

definition message_attachments :: "DiscordMessage \<Rightarrow> MessageAttachment list" where
  "message_attachments m =
     (let own = map to_attachment (dm_attachments m) @ snd (extract_forwarded_snapshots (dm_snapshots m)) in
      case dm_referenced m of None \<Rightarrow> own | Some parent \<Rightarrow> union_attachments own (rm_attachments parent))"

definition message_content :: "DiscordMessage \<Rightarrow> nat \<Rightarrow> string" where
  "message_content m b =
     (case dm_referenced m of
        None \<Rightarrow> raw_content m b
      | Some parent \<Rightarrow>
          compose_reply_context (rm_author_name parent) (with_summary (trim (rm_content parent)) (rm_attachments parent)) (raw_content m b))"

definition message_session :: "DiscordMessage \<Rightarrow> nat \<Rightarrow> ChannelType option \<Rightarrow> InboundFilterConfig \<Rightarrow> SessionKey" where
  "message_session m b kind config =
     (let thread = (case kind of Some k \<Rightarrow> is_thread k | None \<Rightarrow> False); is_dm = message_is_dm m kind in
      with_bot_id (session_key_new ''discord'' (if is_dm then None else map_option dec (dm_guild_id m))
        (if thread then (case parent_channel_id config of Some p \<Rightarrow> dec p | None \<Rightarrow> dec (dm_channel_id m)) else dec (dm_channel_id m))
        (if thread then Some (dec (dm_channel_id m)) else None)
        (if is_dm then dec (du_id (dm_author m)) else '''')) (dec b))"

definition message_delivery_id :: "DiscordMessage \<Rightarrow> nat \<Rightarrow> string" where
  "message_delivery_id m b =
     (if 1 < length (mentioned_bots m) then ''discord:'' @ dec (dm_id m) @ '':'' @ dec b else ''discord:'' @ dec (dm_id m))"

definition message_to_inbound_with_config ::
  "string \<Rightarrow> DiscordMessage \<Rightarrow> nat \<Rightarrow> ChannelType option \<Rightarrow> InboundFilterConfig \<Rightarrow> InboundEvent option" where
  "message_to_inbound_with_config uuid m b kind config =
     (if \<not> message_admitted m b kind config then None
      else if \<not> message_addressed m b kind config then None
      else if trim (raw_content m b) = '''' \<and> message_attachments m = [] then None
      else Some \<lparr>ev_id = uuid, ev_session = message_session m b kind config, ev_platform_message_id = dec (dm_id m),
             ev_delivery_id = Some (message_delivery_id m b), ev_content = message_content m b,
             ev_attachments = message_attachments m, ev_received_at = dm_timestamp m\<rparr>)"

definition message_to_inbound :: "string \<Rightarrow> DiscordMessage \<Rightarrow> nat \<Rightarrow> ChannelType option \<Rightarrow> InboundEvent option" where
  "message_to_inbound uuid m b kind = message_to_inbound_with_config uuid m b kind (filter_default\<lparr>primary_bot_id := Some b\<rparr>)"

subsection \<open>Merging split messages\<close>

definition constituent_key :: "InboundEvent \<Rightarrow> string" where
  "constituent_key e =
     (if ev_platform_message_id e \<noteq> '''' then ev_platform_message_id e
      else case ev_delivery_id e of Some d \<Rightarrow> d | None \<Rightarrow> ev_id e)"

text \<open>Keeping the first of each key, as the loops over a \<open>HashSet\<close> of seen keys do.\<close>

fun first_by :: "('a \<Rightarrow> string) \<Rightarrow> string list \<Rightarrow> 'a list \<Rightarrow> 'a list" where
  "first_by k seen [] = []"
| "first_by k seen (x # xs) = (if k x \<in> set seen then first_by k seen xs else x # first_by k (k x # seen) xs)"

definition merged_content :: "InboundEvent list \<Rightarrow> string" where
  "merged_content es = join [nl] (filter (\<lambda>s. trim s \<noteq> '''') (map ev_content es))"

definition coalesce_inbound_events :: "InboundEvent list \<Rightarrow> InboundEvent option" where
  "coalesce_inbound_events events =
     (case first_by constituent_key [] events of
        [] \<Rightarrow> None
      | [e] \<Rightarrow> Some e
      | first # rest \<Rightarrow>
          let es = first # rest; newest = last rest in
          Some \<lparr>ev_id = ev_id first, ev_session = ev_session first, ev_platform_message_id = ev_platform_message_id newest,
             ev_delivery_id = (case ev_delivery_id newest of Some d \<Rightarrow> Some d
               | None \<Rightarrow> Some (''discord:'' @ ev_platform_message_id newest)),
             ev_content = merged_content es, ev_attachments = first_by at_id [] (concat (map ev_attachments es)),
             ev_received_at = ev_received_at first\<rparr>)"

definition delivery_key :: "InboundEvent \<Rightarrow> string" where
  "delivery_key e = (case ev_delivery_id e of Some d \<Rightarrow> d | None \<Rightarrow> ''discord:'' @ ev_platform_message_id e)"

definition constituent_ids :: "InboundEvent list \<Rightarrow> string list" where
  "constituent_ids es = map delivery_key (first_by delivery_key [] es)"

subsection \<open>The debounce buffer\<close>

text \<open>The buffer as the program runs it: every enqueued event starts a timer with a fresh token, and only
  the timer of a batch's last event flushes it.  \<open>deb_timers\<close> are the sleeping tasks.\<close>

record DebounceBatch =
  bt_events :: "InboundEvent list"
  bt_token :: nat

record Debouncer =
  deb_buffer :: "SessionKey \<rightharpoonup> DebounceBatch"
  deb_next :: nat
  deb_timers :: "(SessionKey \<times> nat) list"

definition debouncer_new :: Debouncer where
  "debouncer_new = \<lparr>deb_buffer = Map.empty, deb_next = 1, deb_timers = []\<rparr>"

definition enqueue :: "InboundEvent \<Rightarrow> Debouncer \<Rightarrow> Debouncer" where
  "enqueue e d =
     (let s = ev_session e; token = deb_next d;
          old = (case deb_buffer d s of None \<Rightarrow> [] | Some b \<Rightarrow> bt_events b)
      in d\<lparr>deb_buffer := (deb_buffer d)(s \<mapsto> \<lparr>bt_events = old @ [e], bt_token = token\<rparr>), deb_next := token + 1,
           deb_timers := deb_timers d @ [(s, token)]\<rparr>)"

definition fire :: "SessionKey \<times> nat \<Rightarrow> Debouncer \<Rightarrow> Debouncer \<times> InboundEvent list option" where
  "fire timer d =
     (case timer of (s, token) \<Rightarrow>
        let d = d\<lparr>deb_timers := remove1 timer (deb_timers d)\<rparr> in
        case deb_buffer d s of
          None \<Rightarrow> (d, None)
        | Some b \<Rightarrow>
            if bt_token b = token then (d\<lparr>deb_buffer := (deb_buffer d)(s := None)\<rparr>, Some (bt_events b)) else (d, None))"

definition cancel_batch :: "SessionKey \<Rightarrow> Debouncer \<Rightarrow> Debouncer \<times> InboundEvent list option" where
  "cancel_batch s d = (d\<lparr>deb_buffer := (deb_buffer d)(s := None)\<rparr>, map_option bt_events (deb_buffer d s))"

definition debouncer_is_empty :: "Debouncer \<Rightarrow> bool" where
  "debouncer_is_empty d \<longleftrightarrow> dom (deb_buffer d) = {}"

subsection \<open>Claiming and routing\<close>

text \<open>The multiplexer and the attachment downloader are parameters: what routing an event returns, the
  outcome of its turn, and the attachment after the download (unchanged where it fails).\<close>

record IntakeEnv =
  ie_stop :: "SessionKey \<Rightarrow> OmonError + bool"
  ie_route :: "InboundEvent \<Rightarrow> OmonError + unit"
  ie_turn :: "InboundEvent \<Rightarrow> OmonError + unit"
  ie_hydrate :: "MessageAttachment \<Rightarrow> MessageAttachment"
  ie_jd :: "int \<Rightarrow> int \<Rightarrow> int"
  ie_now :: int

definition is_stop_text :: "InboundEvent \<Rightarrow> bool" where
  "is_stop_text e = eq_ignore_ascii_case (trim (ev_content e)) ''/stop''"

definition routed_event :: "IntakeEnv \<Rightarrow> InboundEvent \<Rightarrow> InboundEvent" where
  "routed_event env e = e\<lparr>ev_attachments := map (ie_hydrate env) (ev_attachments e), ev_delivery_id := Some (delivery_key e)\<rparr>"

text \<open>A failure to route marks the claim as failed; an error of that statement replaces the first one.\<close>

definition settle_route :: "IntakeEnv \<Rightarrow> string \<Rightarrow> OmonError + unit \<Rightarrow> Db \<Rightarrow> Db \<times> (OmonError + bool)" where
  "settle_route env d r db =
     (case r of
        Inr _ \<Rightarrow> (db, Inr True)
      | Inl e \<Rightarrow>
          (case mark_failed (ie_jd env) (ie_now env) d (error_to_string e) db of
             Inl e' \<Rightarrow> (db, Inl (Database e'))
           | Inr db' \<Rightarrow> (db', Inl e)))"

definition route_claimed_event_with_constituents ::
  "IntakeEnv \<Rightarrow> InboundEvent \<Rightarrow> string list \<Rightarrow> Db \<Rightarrow> Db \<times> (OmonError + bool)" where
  "route_claimed_event_with_constituents env e cs db =
     (if is_stop_text e then (db, and_then (ie_stop env (ev_session e)) (\<lambda>_. Inr True))
      else
        case (if cs = [] then record_incoming_as e (delivery_key e) db
              else record_incoming_with_constituents e (delivery_key e) cs db) of
          (db', recorded) \<Rightarrow>
            if \<not> recorded then (db', Inr False)
            else settle_route env (delivery_key e) (ie_route env (routed_event env e)) db')"

definition route_claimed_event :: "IntakeEnv \<Rightarrow> InboundEvent \<Rightarrow> Db \<Rightarrow> Db \<times> (OmonError + bool)" where
  "route_claimed_event env e db = route_claimed_event_with_constituents env e [] db"

text \<open>The backfill's variant waits for the turn; when it fails, the stored message is deleted, so that the
  retry stores it again.\<close>

definition drop_message :: "InboundEvent \<Rightarrow> TranscriptRow list \<Rightarrow> TranscriptRow list" where
  "drop_message e ts = fst (sql_delete (\<lambda>r. tr_session_key r = storage_key (ev_session e) \<and>
     (tr_id r = ev_id e \<or> (case tr_platform_message_id r of None \<Rightarrow> False
        | Some p \<Rightarrow> p \<noteq> '''' \<and> p = ev_platform_message_id e))) ts)"

definition route_claimed_event_awaiting_turn ::
  "IntakeEnv \<Rightarrow> InboundEvent \<Rightarrow> Db \<times> TranscriptRow list \<Rightarrow> (Db \<times> TranscriptRow list) \<times> (OmonError + bool)" where
  "route_claimed_event_awaiting_turn env e w =
     (case w of (db, ts) \<Rightarrow>
        case record_incoming_as e (delivery_key e) db of
          (db', recorded) \<Rightarrow>
            if \<not> recorded then ((db', ts), Inr False)
            else
              case ie_turn env (routed_event env e) of
                Inr _ \<Rightarrow> ((db', ts), Inr True)
              | Inl err \<Rightarrow>
                  (case mark_failed (ie_jd env) (ie_now env) (delivery_key e) (error_to_string err) db' of
                     Inl e' \<Rightarrow> ((db', ts), Inl (Database e'))
                   | Inr db'' \<Rightarrow> ((db'', drop_message e ts), Inl err)))"

definition flush_batch :: "IntakeEnv \<Rightarrow> InboundEvent list \<Rightarrow> Db \<Rightarrow> Db \<times> (OmonError + bool)" where
  "flush_batch env es db =
     (case coalesce_inbound_events es of
        None \<Rightarrow> (db, Inr False)
      | Some e \<Rightarrow> route_claimed_event_with_constituents env e (constituent_ids es) db)"

subsection \<open>Who is let in\<close>

lemma message_to_inbound_Some:
  "message_to_inbound_with_config uuid m b kind config = Some ev \<longleftrightarrow>
     message_admitted m b kind config \<and> message_addressed m b kind config \<and>
     (trim (raw_content m b) \<noteq> '''' \<or> message_attachments m \<noteq> []) \<and>
     ev = \<lparr>ev_id = uuid, ev_session = message_session m b kind config, ev_platform_message_id = dec (dm_id m),
       ev_delivery_id = Some (message_delivery_id m b), ev_content = message_content m b,
       ev_attachments = message_attachments m, ev_received_at = dm_timestamp m\<rparr>"
  by (auto simp: message_to_inbound_with_config_def)

lemma user_authorized_iff:
  "is_user_authorized user roles users allowed allow_all \<longleftrightarrow>
     allow_all \<or> user \<in> set users \<or> set roles \<inter> set allowed \<noteq> {}"
  by (auto simp: is_user_authorized_def list_ex_iff)

lemma channel_authorized_iff:
  "is_channel_authorized chan parent allowed ignored is_dm \<longleftrightarrow>
     (let cs = insert chan (set_option parent) in
      cs \<inter> set ignored = {} \<and> (is_dm \<or> allowed = [] \<or> cs \<inter> set allowed \<noteq> {}))"
  by (auto simp: is_channel_authorized_def Let_def split: option.splits)

text \<open>A message becomes an event of a bot only where its author is a person or an admitted bot that is
  not this bot itself and is paired, listed, or holds a listed role (or everybody is admitted), where
  neither the channel nor its parent is ignored and a non-empty list of channels names one of them, and
  where it mentions this bot or mentions none.  The event carries the author's identity only in a direct
  conversation and is kept apart by bot.\<close>

theorem intake_is_authorized:
  assumes "message_to_inbound_with_config uuid m b kind config = Some ev"
  shows "du_id (dm_author m) \<noteq> b \<and> dm_webhook_id m = None \<and>
    (du_bot (dm_author m) \<longrightarrow> allow_bots config = BotsAll \<or> allow_bots config = BotsMentions \<and> b \<in> set (mentioned_bots m)) \<and>
    (allow_all_users config \<or> du_id (dm_author m) \<in> set (paired_users config) \<union> set (allowed_users config) \<or>
      set (user_roles config) \<inter> set (allowed_roles config) \<noteq> {}) \<and>
    insert (dm_channel_id m) (set_option (parent_channel_id config)) \<inter> set (ignored_channels config) = {} \<and>
    (guild_id (ev_session ev) \<noteq> None \<longrightarrow> allowed_channels config \<noteq> [] \<longrightarrow>
      insert (dm_channel_id m) (set_option (parent_channel_id config)) \<inter> set (allowed_channels config) \<noteq> {}) \<and>
    (b \<in> set (mentioned_bots m) \<or> mentioned_bots m = []) \<and>
    bot_id (ev_session ev) = Some (dec b) \<and>
    user_id (ev_session ev) = (if guild_id (ev_session ev) = None then dec (du_id (dm_author m)) else '''')"
proof -
  from assms have adm: "message_admitted m b kind config" and addr: "message_addressed m b kind config"
    and ev: "ev_session ev = message_session m b kind config"
    by (auto simp: message_to_inbound_Some)
  have guild: "guild_id (ev_session ev) = (if message_is_dm m kind then None else map_option dec (dm_guild_id m))"
    "bot_id (ev_session ev) = Some (dec b)"
    "user_id (ev_session ev) = (if guild_id (ev_session ev) = None then if message_is_dm m kind then dec (du_id (dm_author m)) else '''' else '''')"
    by (simp_all add: ev message_session_def Let_def with_bot_id_def session_key_new_def)
  have dm: "message_is_dm m kind" if "dm_guild_id m = None" using that by (simp add: message_is_dm_def)
  have "b \<in> set (mentioned_bots m) \<or> mentioned_bots m = []"
    using addr by (auto simp: message_addressed_def Let_def split: if_splits)
  moreover have "du_bot (dm_author m) \<longrightarrow> allow_bots config = BotsAll \<or> allow_bots config = BotsMentions \<and> b \<in> set (mentioned_bots m)"
    using adm by (auto simp: message_admitted_def bot_author_admitted_def split: AllowBotsMode.splits if_splits)
  moreover note adm [unfolded message_admitted_def user_authorized_iff channel_authorized_iff Let_def]
  ultimately show ?thesis using guild dm by (auto split: if_splits)
qed

text \<open>C18: two different bots never both answer a message of a guild unless it mentions both of them; then
  their events are in different sessions and under different delivery ids, so that neither claim blocks
  the other.\<close>

theorem one_bot_answers:
  assumes "message_to_inbound_with_config uuid m b kind config = Some ev"
    and "message_to_inbound_with_config uuid' m b' kind config = Some ev'"
    and "b \<noteq> b'" and "guild_id (ev_session ev) \<noteq> None" and "sized (ev_session ev)" and "sized (ev_session ev')"
  shows "{b, b'} \<subseteq> set (mentioned_bots m) \<and> ev_session ev \<noteq> ev_session ev' \<and>
    delivery_key ev \<noteq> delivery_key ev' \<and> storage_key (ev_session ev) \<noteq> storage_key (ev_session ev')"
proof -
  have guild: "\<not> message_is_dm m kind"
    using assms(1,4) by (auto simp: message_to_inbound_Some message_session_def Let_def with_bot_id_def session_key_new_def)
  have addr: "message_addressed m b kind config" "message_addressed m b' kind config"
    using assms(1,2) by (auto simp: message_to_inbound_Some)
  have mentioned: "mentioned_bots m \<noteq> []"
    using addr assms(3) guild by (auto simp: message_addressed_def answers_here_def Let_def split: if_splits option.splits)
  then have both: "{b, b'} \<subseteq> set (mentioned_bots m)"
    using addr by (simp add: message_addressed_def Let_def)
  have "\<not> length (mentioned_bots m) \<le> 1"
  proof
    assume "length (mentioned_bots m) \<le> 1"
    then have "card (set (mentioned_bots m)) \<le> 1" using card_length le_trans by blast
    moreover have "card {b, b'} \<le> card (set (mentioned_bots m))" using both by (intro card_mono) auto
    ultimately show False using assms(3) by simp
  qed
  then have "delivery_key ev \<noteq> delivery_key ev'"
    using assms(1-3) by (auto simp: message_to_inbound_Some delivery_key_def message_delivery_id_def)
  moreover have ids: "bot_id (ev_session ev) = Some (dec b)" "bot_id (ev_session ev') = Some (dec b')"
    using assms(1,2) by (auto simp: message_to_inbound_Some message_session_def Let_def with_bot_id_def)
  moreover have "guild_lane (ev_session ev)" "guild_lane (ev_session ev')"
    using assms(1,2) by (auto simp: message_to_inbound_Some message_session_def Let_def with_bot_id_def session_key_new_def guild_lane_def)
  ultimately show ?thesis
    using both assms(3,5,6) sk.encode_inject [of "ev_session ev" "ev_session ev'"] by auto
qed

subsection \<open>The buffer loses nothing\<close>

text \<open>The events of the buffer as one step function over the buffer and the batches it has released, each
  with its session.\<close>

datatype DebounceOp = Enqueue InboundEvent | Fire "SessionKey \<times> nat" | Cancel SessionKey

type_synonym debounce_state = "Debouncer \<times> (SessionKey \<times> InboundEvent list) list"

definition log_batch :: "SessionKey \<Rightarrow> Debouncer \<times> InboundEvent list option \<Rightarrow>
    (SessionKey \<times> InboundEvent list) list \<Rightarrow> debounce_state" where
  "log_batch s r rs = (fst r, case snd r of None \<Rightarrow> rs | Some es \<Rightarrow> rs @ [(s, es)])"

fun debounce_step :: "DebounceOp \<Rightarrow> debounce_state \<Rightarrow> debounce_state" where
  "debounce_step (Enqueue e) (d, rs) = (enqueue e d, rs)"
| "debounce_step (Fire t) (d, rs) = (if t \<in> set (deb_timers d) then log_batch (fst t) (fire t d) rs else (d, rs))"
| "debounce_step (Cancel s) (d, rs) = log_batch s (cancel_batch s d) rs"

definition waiting :: "SessionKey \<Rightarrow> Debouncer \<Rightarrow> InboundEvent list" where
  "waiting s d = (case deb_buffer d s of None \<Rightarrow> [] | Some b \<Rightarrow> bt_events b)"

definition arrived :: "SessionKey \<Rightarrow> DebounceOp list \<Rightarrow> InboundEvent list" where
  "arrived s ops = concat (map (\<lambda>op. case op of Enqueue e \<Rightarrow> if ev_session e = s then [e] else [] | _ \<Rightarrow> []) ops)"

definition released :: "SessionKey \<Rightarrow> (SessionKey \<times> InboundEvent list) list \<Rightarrow> InboundEvent list" where
  "released s rs = concat (map snd (filter (\<lambda>r. fst r = s) rs))"

text \<open>Every batch has its timer, and tokens are never used twice.\<close>

definition debouncer_ok :: "Debouncer \<Rightarrow> bool" where
  "debouncer_ok d \<longleftrightarrow> (\<forall>s b. deb_buffer d s = Some b \<longrightarrow> (s, bt_token b) \<in> set (deb_timers d) \<and> bt_events b \<noteq> []) \<and>
     (\<forall>t \<in> set (deb_timers d). snd t < deb_next d) \<and> distinct (map snd (deb_timers d))"

lemma debouncer_ok_new: "debouncer_ok debouncer_new"
  by (simp add: debouncer_ok_def debouncer_new_def)

lemma enqueue_ok: "debouncer_ok d \<Longrightarrow> debouncer_ok (enqueue e d)"
  by (auto simp: debouncer_ok_def enqueue_def Let_def)

lemma fire_ok:
  assumes "debouncer_ok d" and "t \<in> set (deb_timers d)"
  shows "debouncer_ok (fst (fire t d))"
proof -
  obtain s n where t: "t = (s, n)" by (cases t)
  have dist: "distinct (map snd (deb_timers d))" and timed: "\<And>s b. deb_buffer d s = Some b \<Longrightarrow> (s, bt_token b) \<in> set (deb_timers d) \<and> bt_events b \<noteq> []"
    using assms(1) by (auto simp: debouncer_ok_def)
  have other: "bt_token b \<noteq> n" if "deb_buffer d s' = Some b" "s' \<noteq> s" for s' b
    using inj_onD [of snd "set (deb_timers d)" "(s', bt_token b)" "(s, n)"] dist timed [OF that(1)] assms(2) that(2) t
    by (auto simp: distinct_map)
  have keep: "x \<in> set (remove1 t (deb_timers d)) \<longleftrightarrow> x \<in> set (deb_timers d) \<and> x \<noteq> t" for x
    using dist by (simp add: distinct_map)
  have d': "distinct (map snd (remove1 t (deb_timers d)))"
    using dist distinct_remove1 [of "deb_timers d" t] by (auto simp: distinct_map intro: inj_on_diff)
  show ?thesis
    using assms(1) other d' timed keep
    by (auto simp: debouncer_ok_def fire_def t Let_def split: option.splits if_splits)
qed

lemma cancel_ok: "debouncer_ok d \<Longrightarrow> debouncer_ok (fst (cancel_batch s d))"
  by (auto simp: debouncer_ok_def cancel_batch_def split: if_splits)

lemma debounce_step_ok: "debouncer_ok (fst w) \<Longrightarrow> debouncer_ok (fst (debounce_step op w))"
  by (cases w; cases op) (auto simp: enqueue_ok fire_ok cancel_ok log_batch_def)

interpretation debounce: run_invariant debounce_step "\<lambda>_. True" "\<lambda>w. debouncer_ok (fst w)"
  by unfold_locales (rule debounce_step_ok)

lemma debounce_step_events:
  "released s (snd (debounce_step op w)) @ waiting s (fst (debounce_step op w)) =
     released s (snd w) @ waiting s (fst w) @ arrived s [op]"
  by (cases w; cases op)
    (auto simp: released_def waiting_def arrived_def enqueue_def fire_def cancel_batch_def log_batch_def Let_def
      split: option.splits prod.splits if_splits)

lemma debounce_run_events:
  "released s (snd (fold debounce_step ops w)) @ waiting s (fst (fold debounce_step ops w)) =
     released s (snd w) @ waiting s (fst w) @ arrived s ops"
proof (induction ops arbitrary: w)
  case (Cons op ops)
  have "arrived s (op # ops) = arrived s [op] @ arrived s ops" by (simp add: arrived_def)
  then show ?case using Cons.IH [of "debounce_step op w"] debounce_step_events [of s op w] by simp
qed (simp add: arrived_def)

text \<open>C22: whatever arrives, fires and is cancelled in whatever order, of each session the messages that
  arrived are those released, in the order of their arrival and each once, followed by those still
  waiting; a timer is running that will release what waits; and once no timer is left nothing waits.\<close>

theorem debounce_releases_in_order:
  "let (d, rs) = fold debounce_step ops (debouncer_new, []) in
    released s rs @ waiting s d = arrived s ops \<and>
    (waiting s d = [] \<or> (\<exists>t. t \<in> set (deb_timers d) \<and> fst t = s \<and> snd (fire t d) = Some (waiting s d))) \<and>
    (deb_timers d \<noteq> [] \<or> debouncer_is_empty d)"
proof -
  obtain d rs where run: "fold debounce_step ops (debouncer_new, []) = (d, rs)" by fastforce
  have "waiting s debouncer_new = []" "released s [] = []" by (simp_all add: waiting_def debouncer_new_def released_def)
  then have order: "released s rs @ waiting s d = arrived s ops"
    using debounce_run_events [of s ops "(debouncer_new, [])"] by (simp add: run)
  have ok: "debouncer_ok d"
    using debounce.run [of "(debouncer_new, [])" ops] by (simp add: run debouncer_ok_new list_all_iff)
  then have timed: "(s, bt_token b) \<in> set (deb_timers d)" if "deb_buffer d s = Some b" for s b
    using that by (simp add: debouncer_ok_def)
  have "snd (fire (s, bt_token b) d) = Some (waiting s d)" if "deb_buffer d s = Some b" for b
    using that by (simp add: fire_def waiting_def Let_def)
  then have "waiting s d = [] \<or> (\<exists>t. t \<in> set (deb_timers d) \<and> fst t = s \<and> snd (fire t d) = Some (waiting s d))"
    using timed [of s] by (cases "deb_buffer d s") (auto simp: waiting_def)
  moreover have "dom (deb_buffer d) = {}" if "deb_timers d = []"
    using timed that by (fastforce simp: dom_def)
  ultimately show ?thesis using order by (auto simp: run debouncer_is_empty_def)
qed

subsection \<open>One message, one turn\<close>

lemma first_by_keys: "k ` set (first_by k seen xs) = k ` set xs - set seen"
  by (induction k seen xs rule: first_by.induct) auto

lemma first_by_distinct: "distinct (map k (first_by k seen xs))"
proof (induction k seen xs rule: first_by.induct)
  case (2 k seen x xs)
  then show ?case using first_by_keys [of k "k x # seen" xs] by (auto simp: image_iff)
qed simp

lemma set_constituent_ids: "set (constituent_ids es) = delivery_key ` set es"
  using first_by_keys [of delivery_key "[]" es] by (simp add: constituent_ids_def)

lemma claimed_live_constituents:
  "c \<in> set cs \<Longrightarrow> c \<noteq> m \<Longrightarrow> \<not> listed c db \<Longrightarrow> claimed_live c (fold (record_constituent ev m) cs db)"
proof (induction cs arbitrary: db)
  case (Cons x cs)
  show ?case
  proof (cases "x = c")
    case True
    have "claimed_live c (record_constituent ev m c db)"
      using Cons.prems by (simp add: record_constituent_def)
        (simp add: claimed_live_def listed_def sql_get_insert_ignore)
    then show ?thesis using True by (simp add: claimed_live_fold_constituents)
  next
    case False
    then show ?thesis using Cons by (simp add: record_constituent_get)
  qed
qed simp

lemma merged_claims:
  assumes "record_incoming_with_constituents ev m cs db = (db', True)" and "c \<in> set (m # cs)"
  shows "claimed_live c db'"
proof -
  have no_dup: "\<not> list_ex (\<lambda>c. is_duplicate c db) (m # cs)"
    using merged_delivery [of ev m cs db] assms(1) by auto
  let ?db1 = "link_constituent m m (fst (record_incoming_as ev m (ensure_session (ev_session ev) db)))"
  have db': "db' = fold (record_constituent ev m) cs ?db1"
    using record_merged_eq [OF no_dup, of ev] assms(1) by simp
  show ?thesis
  proof (cases "c = m")
    case True
    then show ?thesis
      unfolding db' by (intro claimed_live_fold_constituents) (simp add: claimed_live_record_incoming_as)
  next
    case False
    have "\<not> listed c db"
      using no_dup assms(2) listed_is_duplicate [of c db] by (auto simp: list_ex_iff)
    then have "\<not> listed c ?db1"
      using False by (simp add: listed_def link_constituent_def record_incoming_as_tables reclaim.get_upsert ensure_session_def)
    then show ?thesis unfolding db' using False assms(2) by (intro claimed_live_constituents) auto
  qed
qed

lemma flush_batch_claims:
  assumes "flush_batch env es db = (db', Inr True)" and "coalesce_inbound_events es = Some e" and "\<not> is_stop_text e"
    and "c \<in> delivery_key ` set es" and "db_wf db"
  shows "claimed_live c db' \<and> db_wf db'"
proof -
  have cs: "constituent_ids es \<noteq> []" using assms(4) set_constituent_ids [of es] by auto
  obtain db1 recorded where r: "record_incoming_with_constituents e (delivery_key e) (constituent_ids es) db = (db1, recorded)" by fastforce
  with assms(1-3) cs have rec: "recorded" and settle: "settle_route env (delivery_key e) (ie_route env (routed_event env e)) db1 = (db', Inr True)"
    by (auto simp: flush_batch_def route_claimed_event_with_constituents_def split: if_splits)
  from settle have "db' = db1" by (auto simp: settle_route_def split: sum.splits)
  moreover have "claimed_live c db1"
    using merged_claims [of e "delivery_key e" "constituent_ids es" db db1 c] r rec assms(4) set_constituent_ids [of es] by simp
  moreover have "db_wf db1"
    using db_wf_step [OF assms(5), of undefined "RecordMerged e (delivery_key e) (constituent_ids es)"] r by simp
  ultimately show ?thesis by simp
qed

text \<open>C7: once a batch of messages was claimed and routed, and whatever the ledger does afterwards short of
  marking that message failed, each message of the batch is ignored when it is delivered again: by the
  live path, by the backfill, or within another batch.\<close>

theorem message_runs_once:
  assumes "flush_batch env es db = (db1, Inr True)" and "coalesce_inbound_events es = Some e" and "\<not> is_stop_text e"
    and "db_wf db" and "x \<in> set es" and "failure_free jd (delivery_key x) ops db1"
    and "db' = fold (ledger_step jd) ops db1" and "delivery_key y = delivery_key x"
  shows "snd (route_claimed_event_awaiting_turn env' y (db', ts)) = Inr False \<and>
    (\<not> is_stop_text y \<longrightarrow> snd (route_claimed_event env' y db') = Inr False) \<and>
    (\<forall>es' e'. y \<in> set es' \<longrightarrow> coalesce_inbound_events es' = Some e' \<longrightarrow> \<not> is_stop_text e' \<longrightarrow>
       snd (flush_batch env' es' db') = Inr False)"
proof -
  have live1: "claimed_live (delivery_key x) db1" "db_wf db1"
    using flush_batch_claims [OF assms(1-3) _ assms(4), of "delivery_key x"] assms(5) by auto
  have live: "claimed_live (delivery_key y) db'"
    using claimed_live_run [OF live1(1) assms(6)] assms(7,8) by simp
  have wf: "db_wf db'" using ledger.run [OF live1(2), of ops] assms(7) by (simp add: list_all_iff)
  obtain db2 where refused: "record_incoming_as y (delivery_key y) db' = (db2, False)"
    using record_incoming_as_accepts [OF wf, of y "delivery_key y"] live by (cases "record_incoming_as y (delivery_key y) db'") simp
  have dup: "is_duplicate (delivery_key y) db'"
    using live listed_is_duplicate [of "delivery_key y" db'] by (auto simp: claimed_live_def listed_def split: option.splits)
  have "snd (flush_batch env' es' db') = Inr False"
    if es': "y \<in> set es'" "coalesce_inbound_events es' = Some e'" "\<not> is_stop_text e'" for es' e'
  proof -
    have "delivery_key y \<in> set (constituent_ids es')" using es'(1) set_constituent_ids [of es'] by simp
    then have "list_ex (\<lambda>c. is_duplicate c db') (delivery_key e' # constituent_ids es')" "constituent_ids es' \<noteq> []"
      using dup by (auto simp: list_ex_iff)
    moreover from this obtain db3 where "record_incoming_with_constituents e' (delivery_key e') (constituent_ids es') db' = (db3, False)"
      using merged_delivery [of e' "delivery_key e'" "constituent_ids es'" db']
      by (cases "record_incoming_with_constituents e' (delivery_key e') (constituent_ids es') db'") auto
    ultimately show ?thesis
      using es'(2,3) by (simp add: flush_batch_def route_claimed_event_with_constituents_def)
  qed
  then show ?thesis
    by (auto simp: route_claimed_event_awaiting_turn_def route_claimed_event_def route_claimed_event_with_constituents_def refused)
qed

text \<open>A text \<open>/stop\<close> is acted on without being claimed, so that the backfill, which does not know the
  command, takes it for a message that was missed and runs a turn on it.\<close>

lemma stop_is_replayed:
  assumes "is_stop_text e" and "db_wf db" and "\<not> claimed_live (delivery_key e) db" and "ie_turn env' (routed_event env' e) = Inr u"
  shows "fst (route_claimed_event env e db) = db \<and>
    snd (route_claimed_event_awaiting_turn env' e (fst (route_claimed_event env e db), ts)) = Inr True"
proof -
  obtain db' where "record_incoming_as e (delivery_key e) db = (db', True)"
    using record_incoming_as_accepts [OF assms(2), of e "delivery_key e"] assms(3) by (cases "record_incoming_as e (delivery_key e) db") simp
  then show ?thesis
    using assms(1,4) by (simp add: route_claimed_event_def route_claimed_event_with_constituents_def route_claimed_event_awaiting_turn_def)
qed

subsection \<open>Concrete messages\<close>

definition sample_config :: InboundFilterConfig where
  "sample_config = filter_default\<lparr>allowed_users := [7], primary_bot_id := Some 1\<rparr>"

definition sample_post :: DiscordMessage where
  "sample_post = \<lparr>dm_id = 5, dm_webhook_id = None, dm_author = \<lparr>du_id = 7, du_bot = False, du_name = ''a''\<rparr>, dm_kind = Regular,
     dm_guild_id = Some 3, dm_channel_id = 4,
     dm_mentions = [\<lparr>du_id = 1, du_bot = True, du_name = ''b''\<rparr>, \<lparr>du_id = 2, du_bot = True, du_name = ''c''\<rparr>],
     dm_content = ''<@1> hi'', dm_attachments = [], dm_snapshots = [], dm_referenced = None, dm_timestamp = 0, dm_member_roles = None\<rparr>"

lemma sample_inbound:
  "message_to_inbound_with_config ''e'' sample_post 1 (Some TextChannel) sample_config =
     Some \<lparr>ev_id = ''e'', ev_session = \<lparr>platform = ''discord'', guild_id = Some ''3'', channel_id = ''4'', thread_id = None,
       user_id = '''', bot_id = Some ''1''\<rparr>, ev_platform_message_id = ''5'', ev_delivery_id = Some ''discord:5:1'',
       ev_content = ''hi'', ev_attachments = [], ev_received_at = 0\<rparr>"
  "message_to_inbound_with_config ''f'' sample_post 2 (Some TextChannel) sample_config =
     Some \<lparr>ev_id = ''f'', ev_session = \<lparr>platform = ''discord'', guild_id = Some ''3'', channel_id = ''4'', thread_id = None,
       user_id = '''', bot_id = Some ''2''\<rparr>, ev_platform_message_id = ''5'', ev_delivery_id = Some ''discord:5:2'',
       ev_content = ''<@1> hi'', ev_attachments = [], ev_received_at = 0\<rparr>"
  by code_simp+

theorem intake_is_authorized_witness:
  "du_id (dm_author sample_post) \<in> set (paired_users sample_config) \<union> set (allowed_users sample_config) \<or>
   set (user_roles sample_config) \<inter> set (allowed_roles sample_config) \<noteq> {}"
  using intake_is_authorized [OF sample_inbound(1)] by (auto simp: sample_config_def filter_default_def)

theorem one_bot_answers_witness:
  "{1, 2} \<subseteq> set (mentioned_bots sample_post)"
  using one_bot_answers [OF sample_inbound] by (simp add: sized_def opt_sized_def)

definition sample_part :: "string \<Rightarrow> InboundEvent" where
  "sample_part i = event_message i 0 (session_key_new ''discord'' None ''c'' None ''u'') i ''hello''"

definition sample_intake :: IntakeEnv where
  "sample_intake = \<lparr>ie_stop = (\<lambda>_. Inr True), ie_route = (\<lambda>_. Inr ()), ie_turn = (\<lambda>_. Inr ()), ie_hydrate = (\<lambda>a. a),
     ie_jd = (\<lambda>a b. a - b), ie_now = 0\<rparr>"

theorem debounce_releases_in_order_witness:
  "let (d, rs) = fold debounce_step [Enqueue (sample_part ''1''), Enqueue (sample_part ''2''),
       Fire (ev_session (sample_part ''1''), 1), Fire (ev_session (sample_part ''1''), 2)] (debouncer_new, [])
   in released (ev_session (sample_part ''1'')) rs = [sample_part ''1'', sample_part ''2''] \<and> debouncer_is_empty d"
proof -
  let ?s = "ev_session (sample_part ''1'')"
  let ?ops = "[Enqueue (sample_part ''1''), Enqueue (sample_part ''2''), Fire (?s, 1), Fire (?s, 2)]"
  have s: "ev_session (sample_part i) = session_key_new ''discord'' None ''c'' None ''u''" for i
    by (simp add: sample_part_def event_message_def)
  obtain d rs where run: "fold debounce_step ?ops (debouncer_new, []) = (d, rs)" by fastforce
  have "deb_timers d = []"
    using run by (auto simp: s enqueue_def debouncer_new_def fire_def log_batch_def Let_def split: if_splits)
  moreover have "arrived ?s ?ops = [sample_part ''1'', sample_part ''2'']" by (simp add: arrived_def s)
  moreover note debounce_releases_in_order [of ?ops ?s, unfolded run]
  ultimately have "released ?s rs = [sample_part ''1'', sample_part ''2''] \<and> debouncer_is_empty d"
    by (auto simp: debouncer_is_empty_def waiting_def)
  then show ?thesis unfolding run by simp
qed

lemma sample_parts:
  "coalesce_inbound_events [sample_part ''1'', sample_part ''2''] = Some \<lparr>ev_id = ''1'', ev_session = session_key_new ''discord'' None ''c'' None ''u'',
     ev_platform_message_id = ''2'', ev_delivery_id = Some ''discord:2'', ev_content = ''hello'' @ [nl] @ ''hello'', ev_attachments = [],
     ev_received_at = 0\<rparr>"
  "constituent_ids [sample_part ''1'', sample_part ''2''] = [''discord:1'', ''discord:2'']"
  by code_simp+

lemma sample_flush:
  "\<exists>db1. flush_batch sample_intake [sample_part ''1'', sample_part ''2''] db_empty = (db1, Inr True)"
proof -
  let ?e = "the (coalesce_inbound_events [sample_part ''1'', sample_part ''2''])"
  have "\<not> list_ex (\<lambda>c. is_duplicate c db_empty) [''discord:2'', ''discord:1'', ''discord:2'']"
    by (simp add: is_duplicate_def db_empty_def)
  then obtain db1 where "record_incoming_with_constituents ?e ''discord:2'' [''discord:1'', ''discord:2''] db_empty = (db1, True)"
    using record_merged_eq [of db_empty "''discord:2''"] by blast
  moreover have "\<not> is_stop_text ?e" by code_simp
  ultimately show ?thesis
    by (simp add: flush_batch_def sample_parts route_claimed_event_with_constituents_def delivery_key_def settle_route_def sample_intake_def)
qed

theorem message_runs_once_witness:
  "\<exists>db1. flush_batch sample_intake [sample_part ''1'', sample_part ''2''] db_empty = (db1, Inr True) \<and>
     snd (route_claimed_event_awaiting_turn sample_intake (sample_part ''1'') (db1, [])) = Inr False"
proof -
  obtain db1 where flush: "flush_batch sample_intake [sample_part ''1'', sample_part ''2''] db_empty = (db1, Inr True)"
    using sample_flush by blast
  have "\<not> is_stop_text (the (coalesce_inbound_events [sample_part ''1'', sample_part ''2'']))" by code_simp
  moreover have "db_wf db_empty" by (simp add: db_wf_def db_empty_def)
  ultimately show ?thesis
    using message_runs_once [OF flush sample_parts(1), of "sample_part ''1''" _ "[]" db1 "sample_part ''1''" sample_intake "[]"] flush
    by (auto simp: sample_parts(1))
qed

end
