(* ===== verification/Discord_Backfill.thy ===== *)
theory Discord_Backfill
  imports Discord_Intake
begin

section \<open>Cursors and the backfill of missed messages\<close>

text \<open>
  The durable cursors and the backfill of \<open>src/discord/adapter.rs\<close>: at every connection the history of the
  known channels is read from the bot's cursor on, page by page; each message goes through the intake
  filter and runs its turn to the end before the cursor moves past it; the first message that cannot be
  handled stops its channel.  The history, the channel metadata and the roles are a parameter.
\<close>

subsection \<open>Cursors\<close>

record Cursors =
  cu_channel :: "(string \<times> string) list"
  cu_bot :: "((string \<times> string) \<times> string) list"

definition should_advance_cursor :: "string option \<Rightarrow> string \<Rightarrow> bool" where
  "should_advance_cursor current candidate =
     (case parse_u64 (trim candidate) of
        None \<Rightarrow> False
      | Some new \<Rightarrow>
          (case current of
             None \<Rightarrow> True
           | Some s \<Rightarrow>
               if trim s = '''' then True
               else (case parse_u64 (trim s) of Some old \<Rightarrow> old < new | None \<Rightarrow> True)))"

definition put_cursor :: "'k \<Rightarrow> string \<Rightarrow> ('k \<times> string) list \<Rightarrow> ('k \<times> string) list" where
  "put_cursor k m t = fst (sql_upsert fst (\<lambda>_. True) (\<lambda>r. (fst r, m)) (k, m) t)"

definition get_channel_cursor :: "string \<Rightarrow> Cursors \<Rightarrow> string option" where
  "get_channel_cursor chan cu = map_option snd (sql_get fst chan (cu_channel cu))"

definition update_channel_cursor :: "string \<Rightarrow> string \<Rightarrow> Cursors \<Rightarrow> Cursors \<times> bool" where
  "update_channel_cursor chan m cu =
     (if trim chan = '''' \<or> trim m = '''' then (cu, False)
      else if (case get_channel_cursor chan cu of None \<Rightarrow> True | Some old \<Rightarrow> should_advance_cursor (Some old) m)
      then (cu\<lparr>cu_channel := put_cursor chan m (cu_channel cu)\<rparr>, True)
      else (cu, False))"

definition stored_bot_cursor :: "string \<Rightarrow> string \<Rightarrow> Cursors \<Rightarrow> string option" where
  "stored_bot_cursor b chan cu = map_option snd (sql_get fst (b, chan) (cu_bot cu))"

definition update_bot_channel_cursor :: "string \<Rightarrow> string \<Rightarrow> string \<Rightarrow> Cursors \<Rightarrow> Cursors \<times> bool" where
  "update_bot_channel_cursor b chan m cu =
     (if trim chan = '''' \<or> trim m = '''' then (cu, False)
      else if parse_u64 (trim m) = None then (cu, False)
      else if (case stored_bot_cursor b chan cu of None \<Rightarrow> True | Some old \<Rightarrow> should_advance_cursor (Some old) m)
      then (let cu = cu\<lparr>cu_bot := put_cursor (b, chan) m (cu_bot cu)\<rparr>
            in (if b = '''' then cu\<lparr>cu_channel := put_cursor chan m (cu_channel cu)\<rparr> else cu, True))
      else (cu, False))"

definition get_bot_channel_cursor :: "string \<Rightarrow> string \<Rightarrow> Cursors \<Rightarrow> string option" where
  "get_bot_channel_cursor b chan cu =
     (case stored_bot_cursor b chan cu of
        None \<Rightarrow> if b = '''' then get_channel_cursor chan cu else None
      | Some m \<Rightarrow> Some m)"

subsection \<open>One message\<close>

datatype ChannelInfo = GuildChannel ChannelType "nat option" nat | PrivateChannel | UnsupportedChannel | NoChannel | LookupFailed

text \<open>What surrounds a backfill: the fetcher, the identity of new events and the routing.\<close>

record BackfillEnv =
  bf_fetch :: "nat \<Rightarrow> nat option \<Rightarrow> nat \<Rightarrow> string + DiscordMessage list"
  bf_channel :: "nat \<Rightarrow> ChannelInfo"
  bf_roles :: "nat \<Rightarrow> nat \<Rightarrow> string + nat list"
  bf_fresh :: "DiscordMessage \<Rightarrow> string"
  bf_intake :: IntakeEnv

definition message_roles :: "BackfillEnv \<Rightarrow> nat option \<Rightarrow> DiscordMessage \<Rightarrow> nat list" where
  "message_roles env guild m =
     (case guild of
        None \<Rightarrow> []
      | Some g \<Rightarrow>
          (case bf_roles env g (du_id (dm_author m)) of
             Inr roles \<Rightarrow> roles
           | Inl _ \<Rightarrow> (case dm_member_roles m of Some roles \<Rightarrow> roles | None \<Rightarrow> [])))"

text \<open>What became of a message: handled (run now, or a duplicate), skipped by the filter, or a halt.\<close>

datatype BackfillOutcome = Handled bool | Skipped | Halted

record BackfillState =
  bs_world :: "Db \<times> TranscriptRow list"
  bs_cursors :: Cursors

definition backfill_event ::
  "BackfillEnv \<Rightarrow> nat \<Rightarrow> string \<Rightarrow> DiscordMessage \<Rightarrow> InboundEvent \<Rightarrow> BackfillState \<Rightarrow> BackfillState \<times> BackfillOutcome" where
  "backfill_event env b chan m ev st =
     (case route_claimed_event_awaiting_turn (bf_intake env) ev (bs_world st) of
        (w, Inl _) \<Rightarrow> (st\<lparr>bs_world := w\<rparr>, Halted)
      | (w, Inr routed) \<Rightarrow>
          (\<lparr>bs_world = w, bs_cursors = fst (update_bot_channel_cursor (dec b) chan (dec (dm_id m)) (bs_cursors st))\<rparr>, Handled routed))"

definition backfill_message ::
  "BackfillEnv \<Rightarrow> InboundFilterConfig \<Rightarrow> nat \<Rightarrow> string \<Rightarrow> DiscordMessage \<Rightarrow> BackfillState \<Rightarrow> BackfillState \<times> BackfillOutcome" where
  "backfill_message env config b chan m st =
     (let run = (\<lambda>kind parent guild.
        case message_to_inbound_with_config (bf_fresh env m) m b (Some kind)
               (config\<lparr>user_roles := message_roles env guild m, parent_channel_id := parent\<rparr>) of
          None \<Rightarrow> (st, Skipped)
        | Some ev \<Rightarrow> backfill_event env b chan m ev st)
      in case bf_channel env (dm_channel_id m) of
        GuildChannel kind parent guild \<Rightarrow> run kind parent (Some guild)
      | PrivateChannel \<Rightarrow> run Private None None
      | _ \<Rightarrow> (st, Halted))"

subsection \<open>Pages and channels\<close>

text \<open>The ids with their outcomes are logged in the order they were processed; the flag says that the
  channel was stopped.\<close>

type_synonym backfill_log = "(nat \<times> BackfillOutcome) list"

fun backfill_page ::
  "BackfillEnv \<Rightarrow> InboundFilterConfig \<Rightarrow> nat \<Rightarrow> string \<Rightarrow> DiscordMessage list \<Rightarrow> BackfillState \<Rightarrow> backfill_log \<Rightarrow>
     BackfillState \<times> backfill_log \<times> bool" where
  "backfill_page env config b chan [] st log = (st, log, False)"
| "backfill_page env config b chan (m # ms) st log =
     (case backfill_message env config b chan m st of
        (st', out) \<Rightarrow>
          if out = Halted then (st', log @ [(dm_id m, out)], True)
          else backfill_page env config b chan ms st' (log @ [(dm_id m, out)]))"

definition page_limit :: nat where
  "page_limit = 50"

partial_function (option) backfill_pages ::
  "BackfillEnv \<Rightarrow> InboundFilterConfig \<Rightarrow> nat \<Rightarrow> nat \<Rightarrow> string option \<Rightarrow> BackfillState \<Rightarrow> backfill_log \<Rightarrow> (BackfillState \<times> backfill_log) option" where
  "backfill_pages env config b chan cursor st log =
     (case bf_fetch env chan (Option.bind cursor parse_u64) page_limit of
        Inl _ \<Rightarrow> Some (st, log)
      | Inr [] \<Rightarrow> Some (st, log)
      | Inr (m # ms) \<Rightarrow>
          (let page = sort_key dm_id (m # ms) in
           case backfill_page env config b (dec chan) page st log of
             (st', log', stopped) \<Rightarrow>
               if stopped \<or> length page < page_limit then Some (st', log')
               else backfill_pages env config b chan (Some (dec (dm_id (last page)))) st' log'))"

definition backfill_channel ::
  "BackfillEnv \<Rightarrow> InboundFilterConfig \<Rightarrow> nat \<Rightarrow> nat \<Rightarrow> BackfillState \<Rightarrow> (BackfillState \<times> backfill_log) option" where
  "backfill_channel env config b chan st =
     backfill_pages env config b chan
       (case get_bot_channel_cursor (dec b) (dec chan) (bs_cursors st) of
          Some s \<Rightarrow> if trim s = '''' then None else Some s | None \<Rightarrow> None) st []"

definition channels_to_scan :: "InboundFilterConfig \<Rightarrow> nat \<Rightarrow> Cursors \<Rightarrow> nat list" where
  "channels_to_scan config b cu =
     sort (remdups (filter (\<lambda>c. c \<notin> set (ignored_channels config))
       (List.map_filter (\<lambda>((bt, c), _). if bt = dec b then parse_u64 c else None) (cu_bot cu) @
        allowed_channels config @ free_response_channels config @ active_threads config @
        map fst (filter (\<lambda>(_, owner). owner = b) (thread_owners config)))))"

fun backfill_channels ::
  "BackfillEnv \<Rightarrow> InboundFilterConfig \<Rightarrow> nat \<Rightarrow> nat list \<Rightarrow> BackfillState \<Rightarrow> nat \<Rightarrow> (BackfillState \<times> nat) option" where
  "backfill_channels env config b [] st n = Some (st, n)"
| "backfill_channels env config b (c # cs) st n =
     (case backfill_channel env config b c st of
        None \<Rightarrow> None
      | Some (st', log) \<Rightarrow> backfill_channels env config b cs st' (n + length (filter (\<lambda>e. snd e = Handled True) log)))"

definition run_missed_message_backfill_with_fetcher ::
  "BackfillEnv \<Rightarrow> InboundFilterConfig \<Rightarrow> nat \<Rightarrow> BackfillState \<Rightarrow> (BackfillState \<times> nat) option" where
  "run_missed_message_backfill_with_fetcher env config b st =
     backfill_channels env config b (channels_to_scan config b (bs_cursors st)) st 0"

subsection \<open>The cursor as a number\<close>

definition cursor_num :: "nat \<Rightarrow> nat \<Rightarrow> Cursors \<Rightarrow> nat option" where
  "cursor_num b chan cu = Option.bind (stored_bot_cursor (dec b) (dec chan) cu) (\<lambda>s. parse_u64 (trim s))"

definition raise :: "nat \<Rightarrow> nat option \<Rightarrow> nat option" where
  "raise i c = Some (case c of None \<Rightarrow> i | Some old \<Rightarrow> max old i)"

definition reached :: "backfill_log \<Rightarrow> nat option \<Rightarrow> nat option" where
  "reached log c = fold (\<lambda>(i, out) c. case out of Handled _ \<Rightarrow> raise i c | _ \<Rightarrow> c) log c"

lemma digit_plain: "is_digit c \<Longrightarrow> \<not> is_cont c \<and> \<not> is_whitespace [c]"
  by (cases c) (auto simp: is_digit_def is_cont_def is_whitespace_def unicode_whitespace_def byte_val_def of_bool_def split: if_splits)

interpretation cursor_row: keyed_update fst "\<lambda>r. (fst r, m)" for m
  by unfold_locales simp

lemma trim_dec [simp]: "trim (dec n) = dec n"
proof (rule trim_ascii)
  have digits: "is_digit c" if "c \<in> set (dec n)" for c using dec_digits that by (auto simp: list_all_iff)
  show "list_all (\<lambda>c. \<not> is_cont c) (dec n)" using digits digit_plain by (auto simp: list_all_iff)
  show "\<not> is_whitespace [hd (dec n)]" "\<not> is_whitespace [last (dec n)]"
    using digits [of "hd (dec n)"] digits [of "last (dec n)"] digit_plain by auto
qed simp

lemma stored_put:
  "stored_bot_cursor b' chan' (cu\<lparr>cu_bot := put_cursor (b, chan) m (cu_bot cu)\<rparr>) =
     (if (b', chan') = (b, chan) then Some m else stored_bot_cursor b' chan' cu)"
  by (auto simp: stored_bot_cursor_def put_cursor_def cursor_row.get_upsert dest: sql_get_SomeD split: option.splits)

lemma update_bot_cursor_num:
  assumes "i < 2 ^ 64"
  shows "cursor_num b chan (fst (update_bot_channel_cursor (dec b) (dec chan) (dec i) cu)) = raise i (cursor_num b chan cu)"
proof -
  have i: "parse_u64 (dec i) = Some i" "parse_u64 [] = None" using assms by (simp add: parse_uint_dec) (simp add: parse_uint_def)
  show ?thesis
    by (cases "stored_bot_cursor (dec b) (dec chan) cu")
      (auto simp: update_bot_channel_cursor_def cursor_num_def raise_def should_advance_cursor_def i stored_put Let_def
        split: option.splits)
qed

lemma update_bot_cursor_other:
  "c \<noteq> chan \<Longrightarrow> cursor_num b c (fst (update_bot_channel_cursor (dec b) (dec chan) m cu)) = cursor_num b c cu"
  by (simp add: update_bot_channel_cursor_def cursor_num_def stored_put Let_def)

subsection \<open>What a page and a channel log\<close>

lemma backfill_message_cursor:
  assumes "backfill_message env config b (dec chan) m st = (st', out)" and "dm_id m < 2 ^ 64"
  shows "cursor_num b chan (bs_cursors st') = reached [(dm_id m, out)] (cursor_num b chan (bs_cursors st)) \<and>
    (\<forall>c. c \<noteq> chan \<longrightarrow> cursor_num b c (bs_cursors st') = cursor_num b c (bs_cursors st))"
proof -
  have event: "cursor_num b chan (bs_cursors st1) = reached [(dm_id m, out1)] (cursor_num b chan (bs_cursors st)) \<and>
      (\<forall>c. c \<noteq> chan \<longrightarrow> cursor_num b c (bs_cursors st1) = cursor_num b c (bs_cursors st))"
    if "backfill_event env b (dec chan) m ev st = (st1, out1)" for ev st1 out1
    using that assms(2)
    by (auto simp: backfill_event_def reached_def update_bot_cursor_num update_bot_cursor_other split: prod.splits sum.splits)
  show ?thesis
    using assms(1) event
    by (auto simp: backfill_message_def Let_def reached_def split: ChannelInfo.splits option.splits)
qed

lemma reached_append: "reached (log @ log') c = reached log' (reached log c)"
  by (simp add: reached_def)

lemma backfill_page_log:
  assumes "backfill_page env config b (dec chan) ms st log = (st', log', stopped)" and "\<forall>m \<in> set ms. dm_id m < 2 ^ 64"
  shows "\<exists>new. log' = log @ new \<and> prefix (map fst new) (map dm_id ms) \<and>
    (stopped \<longrightarrow> new \<noteq> []) \<and> (\<not> stopped \<longrightarrow> map fst new = map dm_id ms \<and> Halted \<notin> snd ` set new) \<and>
    Halted \<notin> snd ` set (butlast new) \<and>
    cursor_num b chan (bs_cursors st') = reached new (cursor_num b chan (bs_cursors st)) \<and>
    (\<forall>c. c \<noteq> chan \<longrightarrow> cursor_num b c (bs_cursors st') = cursor_num b c (bs_cursors st))"
  using assms
proof (induction ms arbitrary: st log)
  case Nil
  then show ?case by (auto simp: reached_def)
next
  case (Cons m ms)
  obtain st1 out where step: "backfill_message env config b (dec chan) m st = (st1, out)" by fastforce
  note cur = backfill_message_cursor [OF step]
  show ?case
  proof (cases "out = Halted")
    case True
    then show ?thesis using Cons.prems step cur by (auto intro!: exI [of _ "[(dm_id m, Halted)]"])
  next
    case False
    with Cons.prems step have run: "backfill_page env config b (dec chan) ms st1 (log @ [(dm_id m, out)]) = (st', log', stopped)" by simp
    from Cons.IH [OF run] Cons.prems(2) obtain new where new: "log' = (log @ [(dm_id m, out)]) @ new"
      "prefix (map fst new) (map dm_id ms)" "stopped \<longrightarrow> new \<noteq> []" "\<not> stopped \<longrightarrow> map fst new = map dm_id ms \<and> Halted \<notin> snd ` set new"
      "Halted \<notin> snd ` set (butlast new)"
      "cursor_num b chan (bs_cursors st') = reached new (cursor_num b chan (bs_cursors st1))"
      "\<forall>c. c \<noteq> chan \<longrightarrow> cursor_num b c (bs_cursors st') = cursor_num b c (bs_cursors st1)"
      by auto
    let ?new = "(dm_id m, out) # new"
    have "reached ?new c = reached new (reached [(dm_id m, out)] c)" for c
      using reached_append [of "[(dm_id m, out)]" new] by simp
    then show ?thesis
      using new False cur Cons.prems(2) by (intro exI [of _ ?new]) (auto split: if_splits)
  qed
qed

text \<open>What the code relies on of Discord's history: a page asked for after an id has only later messages,
  no message twice, and all ids lie below a bound, the newest message at the time of the scan.\<close>

definition history_ok :: "BackfillEnv \<Rightarrow> nat \<Rightarrow> nat \<Rightarrow> bool" where
  "history_ok env chan bound \<longleftrightarrow> bound \<le> 2 ^ 64 \<and>
     (\<forall>after n ms. bf_fetch env chan after n = Inr ms \<longrightarrow> distinct (map dm_id ms) \<and>
        (\<forall>m \<in> set ms. dm_id m < bound \<and> (\<forall>a. after = Some a \<longrightarrow> a < dm_id m)))"

lemma history_page:
  assumes "history_ok env chan bound" and "bf_fetch env chan after n = Inr ms"
  shows "sorted_wrt (<) (map dm_id (sort_key dm_id ms))" "\<forall>m \<in> set ms. dm_id m < bound \<and> dm_id m < 2 ^ 64"
    "after = Some a \<Longrightarrow> \<forall>m \<in> set ms. a < dm_id m"
proof -
  have fetched: "distinct (map dm_id ms)" "\<forall>m \<in> set ms. dm_id m < bound \<and> (\<forall>a. after = Some a \<longrightarrow> a < dm_id m)" "bound \<le> 2 ^ 64"
    using assms by (auto simp: history_ok_def)
  have "distinct (map dm_id (sort_key dm_id ms))"
    using fetched(1) by (metis distinct_map distinct_sort set_sort)
  then show "sorted_wrt (<) (map dm_id (sort_key dm_id ms))" by (simp add: strict_sorted_iff)
  show "\<forall>m \<in> set ms. dm_id m < bound \<and> dm_id m < 2 ^ 64" using fetched by fastforce
  show "after = Some a \<Longrightarrow> \<forall>m \<in> set ms. a < dm_id m" using fetched by blast
qed

definition ahead :: "nat \<Rightarrow> string option \<Rightarrow> nat" where
  "ahead bound cursor = (case Option.bind cursor parse_u64 of None \<Rightarrow> bound + 1 | Some c \<Rightarrow> bound - c)"

text \<open>The log so far lies behind the cursor.\<close>

definition log_behind :: "backfill_log \<Rightarrow> string option \<Rightarrow> bool" where
  "log_behind log cursor \<longleftrightarrow> sorted_wrt (<) (map fst log) \<and> Halted \<notin> snd ` set log \<and>
     (case Option.bind cursor parse_u64 of None \<Rightarrow> log = [] | Some c \<Rightarrow> \<forall>i \<in> fst ` set log. i \<le> c)"

lemma sorted_prefix: "sorted_wrt P ys \<Longrightarrow> prefix xs ys \<Longrightarrow> sorted_wrt P xs"
  by (auto simp: prefix_def sorted_wrt_append)

lemma Halted_append:
  assumes "Halted \<notin> snd ` set xs" and "Halted \<notin> snd ` set (butlast ys)"
  shows "Halted \<notin> snd ` set (butlast (xs @ ys :: backfill_log))"
proof (cases "ys = []")
  case True
  have "snd ` set (butlast xs) \<subseteq> snd ` set xs" by (auto dest: in_set_butlastD)
  with assms(1) True show ?thesis by auto
next
  case False
  with assms show ?thesis by (auto simp: butlast_append)
qed

lemma page_extends:
  assumes "history_ok env chan bound" and "log_behind log cursor"
    and "bf_fetch env chan (Option.bind cursor parse_u64) n = Inr ms"
    and "prefix (map fst new) (map dm_id (sort_key dm_id ms))"
  shows "sorted_wrt (<) (map fst (log @ new))"
proof -
  have "i < j" if "i \<in> fst ` set log" "j \<in> fst ` set new" for i j
  proof (cases "Option.bind cursor parse_u64")
    case None
    then show ?thesis using assms(2) that(1) by (simp add: log_behind_def)
  next
    case (Some c)
    have "j \<in> dm_id ` set ms" using that(2) set_mono_prefix [OF assms(4)] by auto
    then have "c < j" using history_page(3) [OF assms(1,3) Some] by auto
    moreover have "i \<le> c" using assms(2) that(1) Some by (auto simp: log_behind_def)
    ultimately show ?thesis by simp
  qed
  then show ?thesis
    using assms(2) sorted_prefix [OF history_page(1) [OF assms(1,3)] assms(4)]
    by (auto simp: sorted_wrt_append log_behind_def)
qed

lemma sorted_last:
  "sorted_wrt (<) xs \<Longrightarrow> x \<in> set xs \<Longrightarrow> x \<le> last (xs :: nat list)"
  by (induction xs) (auto split: if_splits dest: last_in_set intro: less_imp_le)

lemma page_advances:
  assumes "history_ok env chan bound" and "log_behind log cursor"
    and "bf_fetch env chan (Option.bind cursor parse_u64) n = Inr ms" and "ms \<noteq> []"
    and "map fst new = map dm_id (sort_key dm_id ms)" and "Halted \<notin> snd ` set new"
  shows "log_behind (log @ new) (Some (dec (dm_id (last (sort_key dm_id ms)))))"
    "ahead bound (Some (dec (dm_id (last (sort_key dm_id ms))))) < ahead bound cursor"
proof -
  let ?i = "dm_id (last (sort_key dm_id ms))"
  have ne: "sort_key dm_id ms \<noteq> []" using assms(4) by (metis length_0_conv length_sort)
  then have "last (sort_key dm_id ms) \<in> set ms" by (metis last_in_set set_sort)
  then have i: "?i < bound" "?i < 2 ^ 64" "\<And>a. Option.bind cursor parse_u64 = Some a \<Longrightarrow> a < ?i"
    using history_page(2,3) [OF assms(1,3)] by auto
  then have parsed: "parse_u64 (dec ?i) = Some ?i" by (simp add: parse_uint_dec)
  show "ahead bound (Some (dec ?i)) < ahead bound cursor"
    using i by (auto simp: ahead_def parsed split: option.splits intro: diff_less_mono2)
  have sorted: "sorted_wrt (<) (map fst (log @ new))" by (rule page_extends [OF assms(1-3)]) (simp add: assms(5))
  have "last (map fst (log @ new)) = last (map dm_id (sort_key dm_id ms))"
    using ne unfolding map_append assms(5) by simp
  then have "last (map fst (log @ new)) = ?i" using ne by (simp add: last_map)
  then have "\<forall>j \<in> fst ` set (log @ new). j \<le> ?i"
    using sorted_last [OF sorted] by (metis list.set_map)
  then show "log_behind (log @ new) (Some (dec ?i))"
    using sorted assms(2,6) parsed by (auto simp: log_behind_def)
qed

lemma backfill_pages_log:
  assumes "history_ok env chan bound" and "log_behind log cursor"
  shows "\<exists>st' new. backfill_pages env config b chan cursor st log = Some (st', log @ new) \<and>
    sorted_wrt (<) (map fst (log @ new)) \<and> Halted \<notin> snd ` set (butlast (log @ new)) \<and>
    cursor_num b chan (bs_cursors st') = reached new (cursor_num b chan (bs_cursors st)) \<and>
    (\<forall>c. c \<noteq> chan \<longrightarrow> cursor_num b c (bs_cursors st') = cursor_num b c (bs_cursors st))"
  using assms(2)
proof (induction "ahead bound cursor" arbitrary: cursor st log rule: less_induct)
  case less
  have log: "sorted_wrt (<) (map fst log)" "Halted \<notin> snd ` set log" using less.prems by (simp_all add: log_behind_def)
  have stay: ?case if "backfill_pages env config b chan cursor st log = Some (st, log)"
    using that log Halted_append [of log "[]"] by (intro exI [of _ st] exI [of _ "[]"]) (simp add: reached_def)
  show ?case
  proof (cases "bf_fetch env chan (Option.bind cursor parse_u64) page_limit")
    case (Inl e)
    show ?thesis by (rule stay) (subst backfill_pages.simps, simp add: Inl)
  next
    case (Inr ms)
    show ?thesis
    proof (cases ms)
      case Nil
      show ?thesis by (rule stay) (subst backfill_pages.simps, simp add: Inr Nil)
    next
      case (Cons m0 ms0)
      let ?page = "sort_key dm_id ms"
      obtain st1 log1 stopped where page: "backfill_page env config b (dec chan) ?page st log = (st1, log1, stopped)" by (metis prod_cases3)
      note hist = history_page [OF assms(1) Inr]
      from backfill_page_log [OF page] hist(2) obtain new where new: "log1 = log @ new" "prefix (map fst new) (map dm_id ?page)"
        "\<not> stopped \<longrightarrow> map fst new = map dm_id ?page \<and> Halted \<notin> snd ` set new" "Halted \<notin> snd ` set (butlast new)"
        "cursor_num b chan (bs_cursors st1) = reached new (cursor_num b chan (bs_cursors st))"
        "\<forall>c. c \<noteq> chan \<longrightarrow> cursor_num b c (bs_cursors st1) = cursor_num b c (bs_cursors st)"
        by auto
      have sorted: "sorted_wrt (<) (map fst (log @ new))" by (rule page_extends [OF assms(1) less.prems Inr new(2)])
      show ?thesis
      proof (cases "stopped \<or> length ?page < page_limit")
        case True
        then have "backfill_pages env config b chan cursor st log = Some (st1, log @ new)"
          by (subst backfill_pages.simps) (use page Inr Cons new(1) in \<open>simp add: Let_def\<close>)
        then show ?thesis using sorted Halted_append [OF log(2) new(4)] new(5,6) by blast
      next
        case False
        let ?cursor = "Some (dec (dm_id (last ?page)))"
        have "ahead bound ?cursor < ahead bound cursor" "log_behind (log @ new) ?cursor"
          using page_advances [OF assms(1) less.prems Inr, of new] new(3) False Cons by auto
        then obtain st' new' where rest: "backfill_pages env config b chan ?cursor st1 (log @ new) = Some (st', (log @ new) @ new')"
          "sorted_wrt (<) (map fst ((log @ new) @ new'))" "Halted \<notin> snd ` set (butlast ((log @ new) @ new'))"
          "cursor_num b chan (bs_cursors st') = reached new' (cursor_num b chan (bs_cursors st1))"
          "\<forall>c. c \<noteq> chan \<longrightarrow> cursor_num b c (bs_cursors st') = cursor_num b c (bs_cursors st1)"
          using less.hyps [of ?cursor "log @ new" st1] by blast
        have "backfill_pages env config b chan cursor st log = Some (st', log @ (new @ new'))"
          by (subst backfill_pages.simps) (use page Inr Cons new(1) False rest(1) in \<open>simp add: Let_def\<close>)
        then show ?thesis using rest(2-5) new(5,6) by (intro exI [of _ st'] exI [of _ "new @ new'"]) (simp add: reached_append)
      qed
    qed
  qed
qed

subsection \<open>The cursor never passes a message that was not handled\<close>

lemma reached_bounds:
  "(\<forall>i r. (i, Handled r) \<in> set log \<longrightarrow> (\<exists>j \<ge> i. reached log c = Some j)) \<and>
   (\<forall>j. reached log c = Some j \<longrightarrow> c = Some j \<or> (\<exists>r. (j, Handled r) \<in> set log)) \<and>
   (\<forall>j. c = Some j \<longrightarrow> (\<exists>j' \<ge> j. reached log c = Some j'))"
proof (induction log rule: rev_induct)
  case Nil
  then show ?case by (simp add: reached_def)
next
  case (snoc e log)
  obtain i out where e: "e = (i, out)" by (cases e)
  have "reached (log @ [e]) c = (case out of Handled _ \<Rightarrow> raise i (reached log c) | _ \<Rightarrow> reached log c)"
    by (cases out) (simp_all add: reached_def e)
  then show ?case
    using snoc by (cases out; cases "reached log c") (auto simp: e raise_def max_def split: if_splits; force)+
qed



text \<open>The whole run ends where every channel's history is as Discord keeps it.\<close>

lemma backfill_channels_end:
  "\<forall>c \<in> set cs. \<exists>bound. history_ok env c bound \<Longrightarrow> \<exists>r. backfill_channels env config b cs st n = Some r"
proof (induction cs arbitrary: st n)
  case (Cons c cs)
  then obtain bound where "history_ok env c bound" by auto
  moreover have "log_behind [] cursor" for cursor by (simp add: log_behind_def split: option.splits)
  ultimately obtain st' log where "backfill_channel env config b c st = Some (st', log)"
    unfolding backfill_channel_def using backfill_pages_log by fastforce
  then show ?case using Cons by simp
qed simp

lemma backfill_ends:
  "(\<And>c. \<exists>bound. history_ok env c bound) \<Longrightarrow> \<exists>r. run_missed_message_backfill_with_fetcher env config b st = Some r"
  unfolding run_missed_message_backfill_with_fetcher_def by (rule backfill_channels_end) simp

text \<open>Live messages move the cursor of the channel, which the backfill of a bot does not read.\<close>

lemma live_message_leaves_bot_cursor:
  "get_bot_channel_cursor (dec b) chan (fst (update_channel_cursor chan m cu)) = get_bot_channel_cursor (dec b) chan cu"
  by (simp add: get_bot_channel_cursor_def update_channel_cursor_def stored_bot_cursor_def split: option.splits)

end
