(* ===== verification/Discord_Egress.thy ===== *)
theory Discord_Egress
  imports Discord_Intake Message_Chunks File_Tool
begin

section \<open>What is sent to Discord\<close>

text \<open>
  The sending side of \<open>src/discord/adapter.rs\<close>: the texts it composes with their limits, the media paths it
  accepts, and the registry of dead channels with its table.  Regular expressions, upper-casing, the clock
  and the file system are parameters.
\<close>

subsection \<open>Context and titles\<close>

definition format_channel_context :: "PolicyLib \<Rightarrow> (string \<times> string) list \<Rightarrow> string" where
  "format_channel_context P messages =
     (let lines = List.map_filter (\<lambda>(author, content).
            let a = neutralize_untrusted_inline_text P author 64; c = neutralize_untrusted_inline_text P content 200
            in if a = '''' \<or> c = '''' then None else Some (a @ '': '' @ c)) messages
      in if lines = [] then '''' else ''[Recent channel context]'' @ [nl] @ join [nl] lines)"

definition topic_block :: "string \<Rightarrow> string option \<Rightarrow> string list" where
  "topic_block label topic =
     (case topic of None \<Rightarrow> [] | Some t \<Rightarrow> if trim t = '''' then [] else [label @ [nl] @ trim t])"

definition format_channel_topic_context :: "string option \<Rightarrow> string option \<Rightarrow> string" where
  "format_channel_topic_context channel_topic parent_topic =
     join [nl, nl] (topic_block ''[Forum Description]'' parent_topic @ topic_block ''[Channel Topic]'' channel_topic)"

text \<open>A text above its limit is cut and ends in dots.\<close>

definition capped :: "nat \<Rightarrow> nat \<Rightarrow> string \<Rightarrow> string" where
  "capped limit kept s = (if limit < length (chars s) then concat (take kept (chars s)) @ ''...'' else s)"

definition derive_auto_thread_name :: "string \<Rightarrow> nat \<Rightarrow> string" where
  "derive_auto_thread_name content b =
     (let trimmed = trim (join '' '' (split_whitespace (strip_bot_mention content b)))
      in if trimmed = '''' then ''Conversation'' else capped 80 77 trimmed)"

definition should_auto_create_thread :: "bool \<Rightarrow> bool \<Rightarrow> bool \<Rightarrow> bool \<Rightarrow> bool \<Rightarrow> bool" where
  "should_auto_create_thread enabled is_guild_text is_explicit_mention is_free_channel is_reply \<longleftrightarrow>
     enabled \<and> is_guild_text \<and> is_explicit_mention \<and> \<not> is_free_channel \<and> \<not> is_reply"

definition title_head :: "string \<Rightarrow> bool" where
  "title_head ch \<longleftrightarrow> ch \<in> set [''#'', ''>'', ''*'', ''_'', ''`'', ''~''] \<or> is_whitespace ch"

definition title_tail :: "string \<Rightarrow> bool" where
  "title_tail ch \<longleftrightarrow> ch \<in> set [''*'', ''_'', ''`'', ''~''] \<or> is_whitespace ch"

definition derive_forum_post_title :: "(string \<Rightarrow> string) \<Rightarrow> string \<Rightarrow> string" where
  "derive_forum_post_title drop_mentions content =
     (let first = (case List.find (\<lambda>l. l \<noteq> '''') (map trim (lines content)) of Some l \<Rightarrow> l | None \<Rightarrow> ''New Discussion'');
          cs = dropWhile title_head (chars (drop_mentions first));
          stripped = concat (rev (dropWhile title_tail (rev cs)));
          trimmed = trim (join '' '' (split_whitespace stripped))
      in if trimmed = '''' then ''New Discussion''
         else if 100 < length (chars trimmed) then concat (take 97 (chars trimmed)) @ ''...''
         else if length (chars trimmed) < 2 then trimmed @ '' Discussion''
         else trimmed)"

definition should_chunk_reference :: "nat \<Rightarrow> 'm option \<Rightarrow> 'm option" where
  "should_chunk_reference i reply_to = (if i = 0 then reply_to else None)"

definition footer_path :: "path option \<Rightarrow> path \<Rightarrow> string" where
  "footer_path home p =
     (case home of
        None \<Rightarrow> path_text p
      | Some h \<Rightarrow> if prefix h p then ''~/'' @ path_text (drop (length h) p) else path_text p)"

definition middle_dot :: string where
  "middle_dot = map char_of [0x20, 0xC2, 0xB7, 0x20 :: nat]"

definition format_runtime_footer :: "path option \<Rightarrow> string option \<Rightarrow> nat option \<Rightarrow> path option \<Rightarrow> string" where
  "format_runtime_footer home model pct cwd =
     join middle_dot
       ((case model of None \<Rightarrow> [] | Some m \<Rightarrow> if trim m = '''' then [] else [last (split_on (CHR ''/'') (trim m))]) @
        (case pct of None \<Rightarrow> [] | Some n \<Rightarrow> [dec (min n 100) @ ''%'']) @
        (case cwd of None \<Rightarrow> [] | Some p \<Rightarrow> if trim (footer_path home p) = '''' then [] else [trim (footer_path home p)]))"

definition append_runtime_footer :: "path option \<Rightarrow> string \<Rightarrow> string option \<Rightarrow> nat option \<Rightarrow> path option \<Rightarrow> string" where
  "append_runtime_footer home content model pct cwd =
     (let footer = format_runtime_footer home model pct cwd
      in if footer = '''' then content
         else if trim content = '''' then footer
         else content @ [nl, nl] @ ''_'' @ footer @ ''_'')"

definition completed_stream_content :: "string \<Rightarrow> bool \<Rightarrow> string option" where
  "completed_stream_content content is_final = (if is_final then Some content else None)"

subsection \<open>Media directives\<close>

text \<open>\<open>captures\<close> are the paths the directive's expression captures in a line, in order, and \<open>strip\<close> the line
  without its matches.\<close>

definition media_line ::
  "(string \<Rightarrow> string) \<Rightarrow> (string \<Rightarrow> string list) \<Rightarrow> (string \<Rightarrow> string) \<Rightarrow> string \<Rightarrow> string list \<times> string list" where
  "media_line upper captures strip line =
     (if \<not> contains ''MEDIA:'' (upper line) then ([line], [])
      else let ps = filter (\<lambda>p. p \<noteq> '''') (map trim (captures line)) in
        if ps = [] then ([line], [])
        else (if trim (strip line) = '''' then [] else [trim (strip line)], ps))"

definition extract_media_directives ::
  "(string \<Rightarrow> string) \<Rightarrow> (string \<Rightarrow> string list) \<Rightarrow> (string \<Rightarrow> string) \<Rightarrow> string \<Rightarrow> string \<times> string list" where
  "extract_media_directives upper captures strip s =
     (let pre = str_replace ''[[as_document]]'' '''' (str_replace ''[[audio_as_voice]]'' '''' s);
          parts = map (media_line upper captures strip) (lines pre)
      in (trim (join [nl] (concat (map fst parts))), concat (map snd parts)))"

text \<open>\<open>temp\<close> and \<open>cwd\<close> are the canonical temporary and working directory.\<close>

definition media_in_temp :: "path \<Rightarrow> path \<Rightarrow> bool" where
  "media_in_temp temp c \<longleftrightarrow> prefix temp c \<or> starts_with ''/tmp'' (path_text c) \<or> starts_with ''/private/tmp'' (path_text c) \<or>
     starts_with ''/var/tmp'' (path_text c)"

definition validate_media_path :: "'f Fs \<Rightarrow> 'f \<Rightarrow> path \<Rightarrow> path \<Rightarrow> string \<Rightarrow> OmonError + path" where
  "validate_media_path F f temp cwd raw =
     (let p = path_components raw in
      if \<not> fs_exists F f p then Inl (Config (''media file does not exist: '' @ raw))
      else case fs_canon F f p of
        Inl e \<Rightarrow> Inl (Config (''failed to canonicalize media path '' @ raw @ '': '' @ e))
      | Inr c \<Rightarrow>
          let s = path_text c in
          if starts_with ''/etc'' s \<or> starts_with ''/proc'' s \<or> starts_with ''/sys'' s \<or> contains ''.ssh'' s \<or> contains ''.gnupg'' s \<or>
             \<not> media_in_temp temp c \<and> \<not> prefix cwd c
          then Inl (Config (''media path outside authorized roots: '' @ raw))
          else Inr c)"

definition is_voice_audio_file :: "string \<Rightarrow> string option \<Rightarrow> bool" where
  "is_voice_audio_file filename content_type =
     ((case content_type of None \<Rightarrow> False
       | Some ct \<Rightarrow> let l = to_ascii_lowercase ct in
           contains ''voice'' l \<or> starts_with ''audio/ogg; codecs=opus'' l \<or> starts_with ''audio/opus; voice=true'' l) \<or>
      (let l = to_ascii_lowercase filename in
         contains ''voice-message'' l \<or> contains ''voice_message'' l \<or> contains ''voice-note'' l \<or> contains ''voice_note'' l \<or>
         suffix ''.voice.ogg'' l \<or> suffix ''.voice.opus'' l))"

subsection \<open>Approval prompts\<close>

definition truncate_approval_reason :: "string \<Rightarrow> string" where
  "truncate_approval_reason reason =
     (let t = trim reason in
      if 300 < length (chars t) then concat (take 282 (chars t)) @ ''... [truncated]''
      else if t = '''' then ''dangerous command'' else t)"

definition truncate_approval_command :: "string \<Rightarrow> nat \<Rightarrow> string" where
  "truncate_approval_command command max_len =
     (let t = trim command in
      if max_len < length (chars t) then concat (take (max_len - 18) (chars t)) @ [nl] @ ''... [truncated]'' else t)"

definition warning_sign :: string where
  "warning_sign = map char_of [0xE2, 0x9A, 0xA0, 0xEF, 0xB8, 0x8F :: nat]"

definition approval_prefix :: string where
  "approval_prefix = warning_sign @ '' **Approval Required**'' @ [nl, nl] @ ''Command requested:'' @ [nl] @ ''```text'' @ [nl]"

definition approval_suffix :: "string \<Rightarrow> string" where
  "approval_suffix reason = [nl] @ ''```'' @ [nl] @ ''**Reason:** '' @ truncate_approval_reason reason"

definition build_approval_content :: "string \<Rightarrow> string \<Rightarrow> string" where
  "build_approval_content command reason =
     (let budget = 2000 - (length approval_prefix + length (approval_suffix reason))
      in approval_prefix @ truncate_approval_command command budget @ approval_suffix reason)"

definition build_approval_mentions :: "nat list \<Rightarrow> bool \<Rightarrow> string option" where
  "build_approval_mentions users enabled =
     (if \<not> enabled \<or> users = [] then None else Some (join '' '' (map (\<lambda>u. ''<@'' @ dec u @ ''>'') (sort users))))"

definition build_approval_content_with_mentions :: "string \<Rightarrow> string \<Rightarrow> nat list \<Rightarrow> bool \<Rightarrow> string" where
  "build_approval_content_with_mentions command reason users enabled =
     (case build_approval_mentions users enabled of
        Some mentions \<Rightarrow> mentions @ [nl, nl] @ build_approval_content command reason
      | None \<Rightarrow> build_approval_content command reason)"

definition is_authorized_clicker :: "nat \<Rightarrow> nat list \<Rightarrow> bool" where
  "is_authorized_clicker user allowed \<longleftrightarrow> allowed = [] \<or> user \<in> set allowed"

subsection \<open>Dead channels\<close>

record DeadTargetEntry =
  te_bot_id :: string
  te_channel_id :: "64 word"
  te_status_code :: "16 word"
  te_reason :: string
  te_marked_at :: int
  te_probed_at :: "int option"

record DeadTargetRegistry =
  dr_inner :: "string \<times> 64 word \<rightharpoonup> DeadTargetEntry"
  dr_ttl :: "int option"
  dr_probe_interval :: "int option"

definition registry_new :: DeadTargetRegistry where
  "registry_new = \<lparr>dr_inner = Map.empty, dr_ttl = None, dr_probe_interval = None\<rparr>"

definition registry_with_ttl :: "int \<Rightarrow> DeadTargetRegistry" where
  "registry_with_ttl ttl = registry_new\<lparr>dr_ttl := Some ttl\<rparr>"

definition with_probe_interval :: "int \<Rightarrow> DeadTargetRegistry \<Rightarrow> DeadTargetRegistry" where
  "with_probe_interval d R = R\<lparr>dr_probe_interval := Some d\<rparr>"

text \<open>\<open>to_std\<close> of a negative duration fails and counts as zero.\<close>

definition elapsed :: "int \<Rightarrow> int \<Rightarrow> int" where
  "elapsed now since = max 0 (now - since)"

definition probe_due :: "int \<Rightarrow> int \<Rightarrow> DeadTargetEntry \<Rightarrow> bool" where
  "probe_due now interval e =
     (case te_probed_at e of
        None \<Rightarrow> interval \<le> elapsed now (te_marked_at e)
      | Some at \<Rightarrow> 0 < interval \<and> interval \<le> elapsed now at)"

definition is_dead_for_bot :: "int \<Rightarrow> string \<Rightarrow> 64 word \<Rightarrow> DeadTargetRegistry \<Rightarrow> DeadTargetRegistry \<times> bool" where
  "is_dead_for_bot now b chan R =
     (case dr_inner R (b, chan) of
        None \<Rightarrow> (R, False)
      | Some e \<Rightarrow>
          if (case dr_ttl R of Some ttl \<Rightarrow> ttl < elapsed now (te_marked_at e) | None \<Rightarrow> False)
          then (R\<lparr>dr_inner := (dr_inner R)((b, chan) := None)\<rparr>, False)
          else if (case dr_probe_interval R of Some interval \<Rightarrow> probe_due now interval e | None \<Rightarrow> False)
          then (R\<lparr>dr_inner := (dr_inner R)((b, chan) \<mapsto> e\<lparr>te_probed_at := Some now\<rparr>)\<rparr>, False)
          else (R, True))"

definition is_dead :: "int \<Rightarrow> 64 word \<Rightarrow> DeadTargetRegistry \<Rightarrow> DeadTargetRegistry \<times> bool" where
  "is_dead now chan R = is_dead_for_bot now ''default'' chan R"

definition dead_entry :: "string \<Rightarrow> 64 word \<Rightarrow> 16 word \<Rightarrow> string \<Rightarrow> int \<Rightarrow> DeadTargetEntry" where
  "dead_entry b chan code reason at = \<lparr>te_bot_id = b, te_channel_id = chan, te_status_code = code, te_reason = reason,
     te_marked_at = at, te_probed_at = None\<rparr>"

definition mark_dead_for_bot ::
  "int \<Rightarrow> string \<Rightarrow> 64 word \<Rightarrow> 16 word \<Rightarrow> string \<Rightarrow> DeadTargetRegistry \<Rightarrow> DeadTargetRegistry \<times> bool" where
  "mark_dead_for_bot now b chan code reason R =
     (R\<lparr>dr_inner := (dr_inner R)((b, chan) \<mapsto> dead_entry b chan code reason now)\<rparr>, dr_inner R (b, chan) = None)"

definition mark_dead :: "int \<Rightarrow> 64 word \<Rightarrow> string \<Rightarrow> DeadTargetRegistry \<Rightarrow> DeadTargetRegistry \<times> bool" where
  "mark_dead now chan reason R = mark_dead_for_bot now ''default'' chan 404 reason R"

definition clear_for_bot :: "string \<Rightarrow> 64 word \<Rightarrow> DeadTargetRegistry \<Rightarrow> DeadTargetRegistry \<times> bool" where
  "clear_for_bot b chan R = (R\<lparr>dr_inner := (dr_inner R)((b, chan) := None)\<rparr>, dr_inner R (b, chan) \<noteq> None)"

definition clear_dead :: "64 word \<Rightarrow> DeadTargetRegistry \<Rightarrow> DeadTargetRegistry \<times> bool" where
  "clear_dead chan R = (R\<lparr>dr_inner := (\<lambda>(b, c). if c = chan then None else dr_inner R (b, c))\<rparr>,
     \<exists>k \<in> dom (dr_inner R). snd k = chan)"

definition clear_all_dead :: "DeadTargetRegistry \<Rightarrow> DeadTargetRegistry" where
  "clear_all_dead R = R\<lparr>dr_inner := Map.empty\<rparr>"

text \<open>The synchronous operations spawn the statement on the table, so that statements run in any order;
  the others wait for it.  \<open>fmt\<close> writes the time of a row.\<close>

datatype DeadWrite = PersistDead string string "64 word" "16 word" string | RemoveDead string "64 word" | RemoveChannel "64 word"

fun run_write :: "DeadWrite \<Rightarrow> Store \<Rightarrow> Store" where
  "run_write (PersistDead at b chan code reason) db = persist_dead_target at b chan code reason db"
| "run_write (RemoveDead b chan) db = remove_dead_target b chan db"
| "run_write (RemoveChannel chan) db = remove_dead_targets_for_channel chan db"

definition mark_dead_and_persist ::
  "(int \<Rightarrow> string) \<Rightarrow> int \<Rightarrow> string \<Rightarrow> 64 word \<Rightarrow> 16 word \<Rightarrow> string \<Rightarrow> DeadTargetRegistry \<times> Store \<Rightarrow> (DeadTargetRegistry \<times> Store) \<times> bool" where
  "mark_dead_and_persist fmt now b chan code reason w =
     (case mark_dead_for_bot now b chan code reason (fst w) of
        (R, fresh) \<Rightarrow> ((R, run_write (PersistDead (fmt now) b chan code reason) (snd w)), fresh))"

definition clear_and_persist :: "string \<Rightarrow> 64 word \<Rightarrow> DeadTargetRegistry \<times> Store \<Rightarrow> (DeadTargetRegistry \<times> Store) \<times> bool" where
  "clear_and_persist b chan w =
     (case clear_for_bot b chan (fst w) of (R, removed) \<Rightarrow> ((R, run_write (RemoveDead b chan) (snd w)), removed))"

text \<open>\<open>parse\<close> reads the time of a row; one that cannot be read counts from now.\<close>

definition load_from_db :: "(string \<Rightarrow> int option) \<Rightarrow> int \<Rightarrow> Store \<Rightarrow> DeadTargetRegistry \<Rightarrow> DeadTargetRegistry" where
  "load_from_db parse now db R = R\<lparr>dr_inner :=
     fold (\<lambda>(b, chan, code, msg, since) m. m((b, chan) \<mapsto>
       dead_entry b chan code msg (case parse since of Some t \<Rightarrow> t | None \<Rightarrow> now))) (load_dead_targets db) (dr_inner R)\<rparr>"

definition is_discord_dead_target_error :: "(string \<Rightarrow> string) \<Rightarrow> nat \<Rightarrow> nat \<Rightarrow> string \<Rightarrow> (nat \<times> string) option" where
  "is_discord_dead_target_error lower code discord_code msg =
     (if discord_code = 10008 \<or> contains ''unknown message'' (lower msg) then None
      else if code = 404 then
        (if discord_code = 10003 \<or> contains ''unknown channel'' (lower msg) \<or> discord_code = 0 then Some (code, msg) else None)
      else if code = 403 then Some (code, msg)
      else None)"

subsection \<open>Typing and the watchdog\<close>

definition should_refresh_typing :: "(nat \<rightharpoonup> int) \<Rightarrow> nat \<Rightarrow> int \<Rightarrow> int \<Rightarrow> (nat \<rightharpoonup> int) \<times> bool" where
  "should_refresh_typing recent chan now interval =
     (case recent chan of
        Some at \<Rightarrow> if elapsed now at < interval then (recent, False) else (recent(chan \<mapsto> now), True)
      | None \<Rightarrow> (recent(chan \<mapsto> now), True))"

definition receive_watchdog_threshold_from :: "string option \<Rightarrow> nat" where
  "receive_watchdog_threshold_from raw =
     (case Option.bind raw (\<lambda>s. parse_u64 (trim s)) of Some n \<Rightarrow> n | None \<Rightarrow> 1200)"

subsection \<open>Prompts fit into a message\<close>

lemma char_count_chars: "length (chars s) = char_count s"
  by (simp add: char_count_def)

lemma char_count_take_chars: "char_count (concat (take n (chars s))) \<le> n"
  using take_chars_count [of s n] by (simp add: take_chars_def)

lemma capped_count: "kept + 3 \<le> limit \<Longrightarrow> char_count (capped limit kept s) \<le> limit"
  using char_count_take_chars [of kept s] char_count_append [of "concat (take kept (chars s))" "''...''"] char_count_le_length [of "''...''"]
  by (auto simp: capped_def char_count_chars)

lemma thread_name_fits: "char_count (derive_auto_thread_name content b) \<le> 80"
  using capped_count [of 77 80] char_count_le_length [of "''Conversation''"]
  by (auto simp: derive_auto_thread_name_def Let_def)

lemma forum_title_fits: "char_count (derive_forum_post_title drop_mentions content) \<le> 100"
proof -
  have cut: "char_count (concat (take 97 (chars t)) @ ''...'') \<le> 100" for t
    using char_count_take_chars [of 97 t] char_count_append [of "concat (take 97 (chars t))" "''...''"] char_count_le_length [of "''...''"]
    by simp
  have short: "char_count (t @ '' Discussion'') \<le> 100" if "length (chars t) < 2" for t
    using that char_count_append [of t "'' Discussion''"] char_count_le_length [of "'' Discussion''"] by (simp add: char_count_chars)
  show ?thesis
    using cut short char_count_le_length [of "''New Discussion''"] by (auto simp: derive_forum_post_title_def Let_def char_count_chars)
qed

lemma reason_fits: "char_count (truncate_approval_reason reason) \<le> 300"
  using char_count_take_chars [of 282 "trim reason"] char_count_append [of "concat (take 282 (chars (trim reason)))" "''... [truncated]''"]
    char_count_le_length [of "''... [truncated]''"] char_count_le_length [of "''dangerous command''"]
  by (auto simp: truncate_approval_reason_def Let_def char_count_chars)

lemma command_fits: "18 \<le> limit \<Longrightarrow> char_count (truncate_approval_command command limit) \<le> limit"
  using char_count_take_chars [of "limit - 18" "trim command"]
    char_count_append [of "concat (take (limit - 18) (chars (trim command)))" "[nl] @ ''... [truncated]''"]
    char_count_le_length [of "[nl] @ ''... [truncated]''"]
  by (auto simp: truncate_approval_command_def Let_def char_count_chars)

text \<open>A character of UTF-8 has at most four bytes.\<close>

definition utf8_sized :: "string \<Rightarrow> bool" where
  "utf8_sized s \<longleftrightarrow> list_all (\<lambda>c. length c \<le> 4) (chars s)"

lemma length_concat_le: "list_all (\<lambda>c. length c \<le> k) cs \<Longrightarrow> length (concat cs) \<le> k * length cs"
  by (induction cs) auto

lemma reason_bytes:
  assumes "utf8_sized (trim reason)"
  shows "length (truncate_approval_reason reason) \<le> 1200"
proof -
  have "list_all (\<lambda>c. length c \<le> 4) (take 282 (chars (trim reason)))"
    using assms by (auto simp: utf8_sized_def list_all_iff dest: in_set_takeD)
  then have "length (concat (take 282 (chars (trim reason)))) \<le> 4 * 282"
    using length_concat_le [of 4 "take 282 (chars (trim reason))"] by simp
  moreover have "length (trim reason) \<le> 4 * length (chars (trim reason))"
    using length_concat_le [of 4 "chars (trim reason)"] assms by (simp add: utf8_sized_def)
  ultimately show ?thesis by (auto simp: truncate_approval_reason_def Let_def)
qed



subsection \<open>The registry and its table\<close>

lemma probes_are_rate_limited:
  assumes "is_dead_for_bot now b chan R = (R', False)" and "dr_inner R' (b, chan) = Some e"
    and "dr_probe_interval R = Some d" and "now' < now + d" and "0 < d"
  shows "snd (is_dead_for_bot now' b chan R') \<or> dr_inner (fst (is_dead_for_bot now' b chan R')) (b, chan) = None"
  using assms by (auto simp: is_dead_for_bot_def probe_due_def elapsed_def split: option.splits if_splits)

text \<open>A channel that is marked and cleared again is alive in memory; where the spawned statements run in the
  other order its row stays, and the next start loads it as dead.\<close>

lemma spawned_writes_race:
  assumes "fst (mark_dead_for_bot now b chan code reason R) = R1" and "fst (clear_for_bot b chan R1) = R2"
  shows "\<not> snd (is_dead_for_bot now' b chan R2) \<and>
    (b, chan, code, reason, at) \<in> set (load_dead_targets (run_write (PersistDead at b chan code reason) (run_write (RemoveDead b chan) db)))"
  using assms persist_load_dead_target [of b chan code reason at "remove_dead_target b chan db"]
  by (auto simp: mark_dead_for_bot_def clear_for_bot_def is_dead_for_bot_def)

text \<open>The temporary directories are compared as texts, so that a directory whose name merely starts with
  \<open>tmp\<close> is accepted.\<close>

lemma media_accepts_lookalike:
  assumes "fs_exists F f (path_components raw)" and "fs_canon F f (path_components raw) = Inr [''/'', ''tmpfoo'', ''a'']"
  shows "validate_media_path F f temp cwd raw = Inr [''/'', ''tmpfoo'', ''a'']"
proof -
  have "\<not> sublist ''.ssh'' ''/tmpfoo/a'' \<and> \<not> sublist ''.gnupg'' ''/tmpfoo/a''" by code_simp
  with assms show ?thesis by (simp add: validate_media_path_def path_text_def media_in_temp_def Let_def)
qed

end
