(* ===== verification/Spec2Isabelle.thy ===== *)
theory Spec2Isabelle
  imports Session_Key Profile_Routing Delivery_Ledger Session_Actor Session_Handle
    Message_Chunks Pairing_Store Approval_Guard Restart_Guard Drain_Control
    Cron_Leases Cron_Notepad Cron_Delivery Terminal_Properties Skills_Tool Restart_Recovery
    Discord_Backfill Discord_Egress
begin

text \<open>
  \<^bold>\<open>The omo gateway.\<close>  The program connects chat platforms (Discord) to coding agents.  A message
  becomes an inbound event of a session; the multiplexer routes it to the session's actor, which
  runs one agent turn at a time and queues what arrives meanwhile; a ledger in SQLite makes sure a
  message is processed once and a reply is sent once across crashes; replies are cut into messages
  of the platform's size; commands an agent wants to run wait for the approval of a person; unknown
  users are let in by pairing codes; scheduled jobs are claimed under a lease, executed and their
  output delivered through the same ledger; what an agent wants to run is classified before it is
  started; at start and stop the restart breaker and the drain marker
  decide what is resumed and what is refused.  All paths below are under \<open>src/\<close> of the crate.

  \<^bold>\<open>Theories and what they model.\<close>

  \<^item> \<open>Gateway_Prelude\<close>: results with errors, Rust strings (bytes, UTF-8 character boundaries,
    \<open>chars\<close>, \<open>trim\<close>, \<open>split\<close>), decimal printing and parsing with \<open>u64\<close> overflow.
  \<^item> \<open>Transition_System\<close>: reachable states; the locales \<open>invariant\<close> (step relations) and
    \<open>run_invariant\<close> (step functions), the second a sublocale of the first.
  \<^item> \<open>Sql_Table\<close>: the SQL statements the services use, on a table as the list of its rows; the
    locales \<open>keyed_update\<close> (an update that keeps the key) and \<open>row_sweep\<close> (a sweep that issues one
    update per row is one pass over the table).
  \<^item> \<open>Session_Key\<close> (\<open>models/session.rs\<close>): the identity of a session, its length-prefixed storage
    key and the parser with its error offsets.  Round trip, freedom from collisions, the exact
    language the parser accepts; interpretation of the locale \<open>session_codec\<close>.
  \<^item> \<open>Profile_Routing\<close> (\<open>multiplexer/profile_routing.rs\<close>): route tables, their ordering by
    specificity and matching.  The route taken is a matching one of greatest specificity, the search
    is sound and complete, and one case where a thread's parent loses to its guild.
  \<^item> \<open>Gateway_Events\<close> (\<open>models/events.rs\<close>, \<open>error.rs\<close>): events, actions, errors and the
    rendering of a prompt.
  \<^item> \<open>Delivery_Ledger\<close> (\<open>ledger/service.rs\<close>): the four tables and every operation of the service.
    Well-formedness in every reachable database, one claim per message, the meaning of merged
    deliveries, the optimised sweeps against their one-pass specifications, exclusive claims of
    recovered replies, pruning, and that recovery settles everything it claims.
  \<^item> \<open>Session_Actor\<close> (\<open>multiplexer/actor.rs\<close>): the actor's loop as a step function over mailbox,
    queue, turn and stored row.  Each accepted event is answered exactly once, turns start in the
    order of arrival, what a reset clears, and what a running turn writes back over it.
  \<^item> \<open>Session_Handle\<close> (\<open>multiplexer/router.rs\<close>, \<open>multiplexer/gc.rs\<close>): senders, collector and
    actor of one session as an interleaved step relation at the grain of single atomic accesses.
    Eviction of an idle actor loses no event and takes effect once.
  \<^item> \<open>Message_Chunks\<close> (\<open>discord/throttler.rs\<close>): cutting a reply into messages.  The cutting loop
    ends, the messages fit the limit and carry the text; a final update puts each where it belongs.
  \<^item> \<open>Pairing_Store\<close> (\<open>discord/pairing.rs\<close>): pairing codes.  The invariant of the store, a code
    works once and for its user, the lockout, the rate limit.
  \<^item> \<open>Approval_Guard\<close> (\<open>discord/approval.rs\<close>, \<open>security/approval_display.rs\<close>): the guard and the
    asynchronous request as interleaved events.  Every approval traces back to a person, nothing of
    a finished call stays behind, a call ends at its deadline, clearing a session is confined to it.
  \<^item> \<open>Restart_Guard\<close> (\<open>multiplexer/restart_loop_guard.rs\<close>) and \<open>Drain_Control\<close>
    (\<open>drain_control.rs\<close>): the breaker trips exactly on an unbroken chain of boots; a drain marker is
    honoured for an hour and fails closed.
  \<^item> \<open>Json_Value\<close>: the accessors of a JSON value the cron code uses.
  \<^item> \<open>Cron_Schedule\<close> (\<open>cron/scheduler.rs\<close>): schedule expressions, the next run in a zone, back-off,
    repeat counters, the wake gate and the silence test.  A next run lies in the future; which
    intervals are refused and which overflow; counting is seen by the next reader.
  \<^item> \<open>Cron_Runs\<close> (\<open>cron/scheduler.rs\<close>, \<open>cron/store.rs\<close>, \<open>cron/guard.rs\<close>): the tables of jobs, runs,
    outputs and incidents with every operation on them, as events of one step function; the
    invariant, with the locales \<open>quiet_update\<close> and \<open>job_update\<close> for the statements that keep it.
  \<^item> \<open>Cron_Leases\<close>: the properties of these.  At most one running run per job; the tables refine a
    machine of leases; a worker whose run was reclaimed can no longer complete it; a claim is refused
    under a live lease and granted otherwise; the effects of completion; limited jobs end.
  \<^item> \<open>Cron_Notepad\<close> (\<open>cron/store.rs\<close>): the notepads of a job and their byte budgets.
  \<^item> \<open>Hermes_Job\<close> (\<open>cron/store.rs\<close>): the documents of the imported job file, their validation and
    the resolution of delivery targets, with the targets on which it panics.
  \<^item> \<open>Cron_Delivery\<close> (\<open>cron/scheduler.rs\<close>): execution of one job and delivery of its output through
    the operations of \<open>Delivery_Ledger\<close>; incidents and acknowledged failures.
  \<^item> \<open>Wildcard_Match\<close> (\<open>security/hardline.rs\<close>): the matcher of the deny rules, a table of prefixes,
    equivalent to the meaning of its patterns.
  \<^item> \<open>Shell_Words\<close>, \<open>Shell_Detection\<close> (\<open>security/normalize.rs\<close>) and \<open>Command_Policy\<close>
    (\<open>security/hardline.rs\<close>, \<open>dangerous.rs\<close>, \<open>scan.rs\<close>, \<open>neutralize.rs\<close>): the shell scanners, the
    detection variants and the decisions about a command.
  \<^item> \<open>Shell_Properties\<close>: quoting is removed however it is written, blanking and positions are safe, the
    variants stay within their budget and cover nested payloads, deny rules hold behind wrappers.
  \<^item> \<open>Terminal_Tool\<close> (\<open>tools/terminal.rs\<close>, \<open>security/tirith.rs\<close>) and \<open>Terminal_Properties\<close>: the gate
    before a process, its confinement and its report.  What is started was gated and is confined, and
    the gate sees the argument list and nothing else.
  \<^item> \<open>Session_Store\<close> and \<open>Session_Upgrade\<close> (\<open>storage/db.rs\<close>): the tables of sessions, their flags, thread
    owners and dead targets, and the upgrade of legacy guild keys at start.  The upgrade succeeds on a
    consistent store, loses no row and renames by one rule; the locale \<open>session_column\<close>, interpreted
    for each table that refers to sessions, carries its proofs.
  \<^item> \<open>Restart_Recovery\<close> (\<open>storage/db.rs\<close>, \<open>main.rs\<close>): resuming the turns a restart interrupted.  Only
    turns of authorized authors are resumed, each once, and none in a lane that several histories claim.
  \<^item> \<open>File_Tool\<close> (\<open>tools/file.rs\<close>): reading, writing, listing and searching below authorised roots.
    Writes and reads are confined, reads are bounded, the search ends.
  \<^item> \<open>Pending_Writes\<close> (\<open>storage/db.rs\<close>, \<open>memory/store.rs\<close>) and \<open>Skills_Tool\<close> (\<open>tools/skills.rs\<close>): writes
    that wait for approval.  A write is applied once and within its scope, a failed approval keeps the
    row, a staged memory comes back, a staged skill lands where it was staged or not at all.
  \<^item> \<open>Discord_Intake\<close> (\<open>discord/adapter.rs\<close>, \<open>discord/commands.rs\<close>): who is admitted, which bot answers a
    message, its session and event, merging of split messages in the debounce buffer, claiming and
    routing.  Two bots answer only where both are mentioned, the buffer releases in order and keeps
    nothing, a claimed message is not run again; a text \<open>/stop\<close> is.
  \<^item> \<open>Discord_Backfill\<close> (\<open>discord/adapter.rs\<close>): the cursors of channels and bots and the reading of missed
    messages.  The page loop ends, and no cursor passes a message that was not handled.
  \<^item> \<open>Discord_Egress\<close> (\<open>discord/adapter.rs\<close>): composed texts and their limits, media paths, approval
    prompts and the registry of dead channels with its table.
  \<^item> This theory: what the storage keys give the approval guard.

  \<^bold>\<open>Conventions.\<close>  A record or datatype has the fields and constructors of the Rust type; an
  operation that fails returns \<open>Inl\<close> of the error and every early return is a branch.  A Rust string
  is the list of its bytes.  Clocks, random bytes, process identity, the database's and the
  network's failures (where the code handles them), regular expressions, JSON codecs, UUIDs and
  Unicode tables are arguments of the definitions; what a theorem needs of them is a hypothesis of
  it.  Times are integers in nanoseconds (milliseconds in \<open>Restart_Guard\<close>, where the code rounds to
  them), user numbers and lengths keep their 64-bit bound where the code parses or prints them.

  \<^bold>\<open>Loops.\<close>  Structural recursion for iteration over rows and characters; \<open>chunk_loop\<close> is a partial
  function (a limit of zero does not end) with a proof that it returns for every other limit;
  \<open>search_loop\<close> and \<open>scan_dir\<close> are partial too (links may form cycles) and return on finite trees;
  \<open>backfill_pages\<close> is partial (a history that repeats itself would be read forever) and returns on
  histories whose pages are newer than the cursor;
  \<open>evict\<close>, \<open>dec\<close>, \<open>climb\<close>, the word and token scanners and the search for payloads have measures.  There is no
  fuel; \<open>span_loop\<close> counts the twelve words the code reads at most.

  \<^bold>\<open>Concurrency.\<close>  \<open>Session_Handle\<close> interleaves atomic accesses under sequential consistency (the
  code's orderings are acquire/release, which is weaker for one store and a later load).  The actor
  and the approval calls interleave at their suspension points; each database transaction and each
  lock section is one step.

  \<^bold>\<open>Not modelled.\<close>  The Discord client with its event handler, its commands
  and the sending of messages, the agent back ends, the other tools, the
  dashboard, migration, readiness probes, voice and mirror: I/O over external services, or planned.
  Of the cron code the executor's processes, the timer and heartbeat tasks and the synchronisation
  with the imported job file.  Of the actor the database reads at start; of the router the map from
  keys to handles; of the throttler its timing; of the store the schema migrations.

  \<^bold>\<open>Plan.\<close>  Next the synchronisation of imported jobs and the router's map.  Then properties across the ledger, the actor and the router: one message, one turn, one reply.
\<close>

section \<open>Session keys under the approval guard\<close>

text \<open>The switched-off approvals are kept by storage key, the other grants by session.  Storage
  keys do not collide, so switching approvals off in one session is not seen by another.\<close>



end
